(* ===== verification/Icap_Prelude.thy ===== *)
theory Icap_Prelude
  imports Main "HOL-Library.Word"
begin

text \<open>
  Shared vocabulary of the development: bytes and C memory, the status codes of
  \<^verbatim>\<open>include/request.h\<close> and \<^verbatim>\<open>include/c-icap.h\<close>, the parts of the C standard library the
  sources use (\<^verbatim>\<open>strncmp\<close>, \<^verbatim>\<open>strncasecmp\<close>, \<^verbatim>\<open>isspace\<close>, \<^verbatim>\<open>strtol\<close>, the numeric conversions of
  \<^verbatim>\<open>snprintf\<close>) and the generic list lemmas on which the component theories rest.

  Conventions.  A buffer is a list of bytes whose length is the allocated size; a pointer
  into it is an offset.  A C \<^verbatim>\<open>int\<close> or \<^verbatim>\<open>off_t\<close> is an \<open>int\<close>, and a narrowing conversion is
  written out with \<open>int32\<close>; an \<^verbatim>\<open>unsigned int\<close> whose wrap-around matters is a \<open>32 word\<close>.
  The bytes of fresh memory are not determined: they come from a parameter.
\<close>

section \<open>Collections of facts\<close>

named_theorems ci_consts \<open>the numeric values of the status codes\<close>
named_theorems mem_simps \<open>reading and writing byte memory\<close>

section \<open>Bytes and status codes\<close>

type_synonym bytes = "char list"

abbreviation NUL :: char where "NUL \<equiv> CHR 0x00"
abbreviation HT :: char where "HT \<equiv> CHR 0x09"
abbreviation LF :: char where "LF \<equiv> CHR 0x0A"
abbreviation CR :: char where "CR \<equiv> CHR 0x0D"
abbreviation SP :: char where "SP \<equiv> CHR '' ''"

abbreviation CRLF :: bytes where "CRLF \<equiv> [CR, LF]"

definition CI_NO_STATUS :: int where "CI_NO_STATUS = 0"
definition CI_OK :: int where "CI_OK = 1"
definition CI_NEEDS_MORE :: int where "CI_NEEDS_MORE = 2"
definition CI_ERROR :: int where "CI_ERROR = -1"
definition CI_EOF :: int where "CI_EOF = -2"

definition EC_100 :: int where "EC_100 = 0"
definition EC_200 :: int where "EC_200 = 1"
definition EC_204 :: int where "EC_204 = 2"
definition EC_206 :: int where "EC_206 = 3"
definition EC_400 :: int where "EC_400 = 4"
definition EC_401 :: int where "EC_401 = 5"
definition EC_403 :: int where "EC_403 = 6"
definition EC_404 :: int where "EC_404 = 7"
definition EC_405 :: int where "EC_405 = 8"
definition EC_407 :: int where "EC_407 = 9"
definition EC_408 :: int where "EC_408 = 10"
definition EC_500 :: int where "EC_500 = 11"
definition EC_501 :: int where "EC_501 = 12"
definition EC_502 :: int where "EC_502 = 13"
definition EC_503 :: int where "EC_503 = 14"
definition EC_505 :: int where "EC_505 = 15"
definition EC_MAX :: int where "EC_MAX = 16"

definition ICAP_OPTIONS :: int where "ICAP_OPTIONS = 1"
definition ICAP_REQMOD :: int where "ICAP_REQMOD = 2"
definition ICAP_RESPMOD :: int where "ICAP_RESPMOD = 4"

declare CI_NO_STATUS_def [ci_consts] CI_OK_def [ci_consts] CI_NEEDS_MORE_def [ci_consts]
  CI_ERROR_def [ci_consts] CI_EOF_def [ci_consts]
declare EC_100_def [ci_consts] EC_200_def [ci_consts] EC_204_def [ci_consts]
  EC_206_def [ci_consts] EC_400_def [ci_consts] EC_401_def [ci_consts] EC_403_def [ci_consts]
  EC_404_def [ci_consts] EC_405_def [ci_consts] EC_407_def [ci_consts] EC_408_def [ci_consts]
  EC_500_def [ci_consts] EC_501_def [ci_consts] EC_502_def [ci_consts] EC_503_def [ci_consts]
  EC_505_def [ci_consts] EC_MAX_def [ci_consts]
declare ICAP_OPTIONS_def [ci_consts] ICAP_REQMOD_def [ci_consts] ICAP_RESPMOD_def [ci_consts]

text \<open>
  The outcome of a C function that can fail in ways the language does not give a value to: it
  returns, an \<^verbatim>\<open>assert\<close> fails and the process aborts, or memory outside its object is accessed
  (or a null pointer dereferenced) and nothing is known.
\<close>

datatype 'a c_result = Ret 'a | Abort | Undef

text \<open>Going on with the value a call returned; a call that did not return is the end.\<close>

fun c_bind :: "'a c_result \<Rightarrow> ('a \<Rightarrow> 'b c_result) \<Rightarrow> 'b c_result" where
  "c_bind (Ret x) f = f x"
| "c_bind Abort f = Abort"
| "c_bind Undef f = Undef"

lemma c_bind_Ret_right [simp]: "c_bind m Ret = m"
  by (cases m) simp_all

lemma c_bind_eq_Ret:
  "c_bind m f = Ret y \<longleftrightarrow> (\<exists>x. m = Ret x \<and> f x = Ret y)"
  by (cases m) auto

lemma c_bind_cong [fundef_cong]:
  "\<lbrakk>m = m'; \<And>x. m' = Ret x \<Longrightarrow> f x = f' x\<rbrakk> \<Longrightarrow> c_bind m f = c_bind m' f'"
  by (cases m') auto

section \<open>Machine integers\<close>

text \<open>The value a C \<^verbatim>\<open>int\<close> holds after the conversion of a wider integer.\<close>

definition int32 :: "int \<Rightarrow> int" where
  "int32 x = (x + 2 ^ 31) mod 2 ^ 32 - 2 ^ 31"

lemma int32_id [simp]: "\<lbrakk>-(2 ^ 31) \<le> x; x < 2 ^ 31\<rbrakk> \<Longrightarrow> int32 x = x"
  by (simp add: int32_def)

lemma int32_bounds: "-(2 ^ 31) \<le> int32 x \<and> int32 x < 2 ^ 31"
proof -
  have "0 \<le> (x + 2 ^ 31) mod (2 ^ 32 :: int)" "(x + 2 ^ 31) mod (2 ^ 32 :: int) < 2 ^ 32"
    by simp_all
  then show ?thesis unfolding int32_def by simp
qed

declare nat_int_add [simp]

unbundle bit_operations_syntax

text \<open>Testing, setting and clearing the flag bits of an \<^verbatim>\<open>unsigned int\<close>.\<close>

definition has_flag :: "32 word \<Rightarrow> 32 word \<Rightarrow> bool" where
  "has_flag fl f \<longleftrightarrow> fl AND f \<noteq> 0"

lemma has_flag_or [simp]: "has_flag (x OR f) g \<longleftrightarrow> has_flag x g \<or> has_flag f g"
  by (simp add: has_flag_def bit.conj_disj_distrib2 or_eq_0_iff)

lemma has_flag_and_not [simp]:
  "has_flag (x AND NOT f) g \<longleftrightarrow> has_flag x (g AND NOT f)"
  by (simp add: has_flag_def and.assoc and.commute and.left_commute)

lemma has_flag_0 [simp]: "\<not> has_flag 0 g"
  by (simp add: has_flag_def)

section \<open>Byte memory\<close>

text \<open>\<open>seg p n b\<close> is the \<open>n\<close> bytes at offset \<open>p\<close>; \<open>mem_write p d b\<close> is \<^verbatim>\<open>memcpy(b + p, d, length d)\<close>.\<close>

definition seg :: "nat \<Rightarrow> nat \<Rightarrow> 'a list \<Rightarrow> 'a list" where
  "seg p n b = take n (drop p b)"

definition mem_write :: "nat \<Rightarrow> 'a list \<Rightarrow> 'a list \<Rightarrow> 'a list" where
  "mem_write p d b = take p b @ d @ drop (p + length d) b"

text \<open>Fresh memory of \<open>n\<close> bytes: its content is whatever the allocator left there.\<close>

definition fresh_mem :: "(nat \<Rightarrow> char) \<Rightarrow> nat \<Rightarrow> bytes" where
  "fresh_mem g n = map g [0..<n]"

text \<open>\<^verbatim>\<open>realloc\<close> to a larger size keeps the old bytes and adds fresh ones.\<close>

definition grow_mem :: "(nat \<Rightarrow> char) \<Rightarrow> nat \<Rightarrow> bytes \<Rightarrow> bytes" where
  "grow_mem g n b = b @ map g [length b..<n]"

lemma length_fresh_mem [simp]: "length (fresh_mem g n) = n"
  by (simp add: fresh_mem_def)

lemma length_grow_mem [simp]: "length b \<le> n \<Longrightarrow> length (grow_mem g n b) = n"
  by (simp add: grow_mem_def)

lemma take_grow_mem [simp]: "n \<le> length b \<Longrightarrow> take n (grow_mem g m b) = take n b"
  by (simp add: grow_mem_def)

lemma length_mem_write [mem_simps, simp]:
  "p + length d \<le> length b \<Longrightarrow> length (mem_write p d b) = length b"
  by (simp add: mem_write_def)

lemma take_mem_write [mem_simps]:
  "\<lbrakk>n \<le> p; p \<le> length b\<rbrakk> \<Longrightarrow> take n (mem_write p d b) = take n b"
  by (simp add: mem_write_def min_def)

lemma take_mem_write_end [mem_simps]:
  "p \<le> length b \<Longrightarrow> take (p + length d) (mem_write p d b) = take p b @ d"
  by (simp add: mem_write_def min_def)

lemma drop_mem_write [mem_simps]:
  "\<lbrakk>p + length d \<le> n; p \<le> length b\<rbrakk> \<Longrightarrow> drop n (mem_write p d b) = drop n b"
  by (simp add: mem_write_def min_def)

lemma mem_write_append [mem_simps]:
  "mem_write (length S) d (S @ t) = S @ d @ drop (length d) t"
  by (simp add: mem_write_def)

lemma seg_append [mem_simps]: "seg (length S) (length d) (S @ d @ t) = d"
  by (simp add: seg_def)

lemma mem_write_Nil [simp]: "mem_write p [] b = b"
  by (simp add: mem_write_def)

lemma seg_0 [simp]: "seg p 0 b = []"
  by (simp add: seg_def)

lemma seg_eq_Nil [simp]: "seg p n b = [] \<longleftrightarrow> n = 0 \<or> length b \<le> p"
  by (auto simp: seg_def)

lemma length_seg [simp]: "length (seg p n b) = min n (length b - p)"
  by (simp add: seg_def)

lemma seg_mem_write_append [mem_simps]:
  assumes "r \<le> p" "p + length d \<le> length b"
  shows "seg r (p + length d - r) (mem_write p d b) = seg r (p - r) b @ d"
proof -
  have "seg r (p + length d - r) (mem_write p d b) = drop r (take (p + length d) (mem_write p d b))"
    using assms by (simp add: seg_def drop_take)
  also have "\<dots> = drop r (take p b @ d)"
    using assms by (simp add: take_mem_write_end)
  also have "\<dots> = seg r (p - r) b @ d"
    using assms by (simp add: seg_def drop_take)
  finally show ?thesis .
qed

lemma seg_split: "seg p (m + n) b = seg p m b @ seg (p + m) n b"
  by (simp add: seg_def take_add add.commute)

lemma take_seg: "take m (seg p n b) = seg p (min m n) b"
  by (simp add: seg_def)

lemma drop_seg: "drop m (seg p n b) = seg (p + m) (n - m) b"
  by (simp add: seg_def drop_take add.commute)

lemma drop_inside: "k \<le> length a \<Longrightarrow> drop k (a @ b) = drop k a @ b"
  by simp

lemma append_eq_take:
  assumes "T @ F = Z @ Y" "length T \<le> length Z"
  shows "T = take (length T) Z"
  using arg_cong [OF assms(1), of "take (length T)"] assms(2) by simp

section \<open>C strings\<close>

text \<open>
  \<open>cstr s\<close> is the C string that starts at the head of the memory \<open>s\<close>: the bytes before the
  first NUL.  \<open>starts_with lit s\<close> is \<^verbatim>\<open>strncmp(s, lit, strlen(lit)) == 0\<close> for a literal \<open>lit\<close>
  (which holds no NUL), \<open>starts_with_ci\<close> the same with \<^verbatim>\<open>strncasecmp\<close>.
\<close>

definition cstr :: "bytes \<Rightarrow> bytes" where
  "cstr s = takeWhile (\<lambda>c. c \<noteq> NUL) s"

definition starts_with :: "bytes \<Rightarrow> bytes \<Rightarrow> bool" where
  "starts_with lit s = (take (length lit) s = lit)"

definition tolower_c :: "char \<Rightarrow> char" where
  "tolower_c c = (let n = (of_char c :: nat) in if 65 \<le> n \<and> n \<le> 90 then char_of (n + 32) else c)"

definition starts_with_ci :: "bytes \<Rightarrow> bytes \<Rightarrow> bool" where
  "starts_with_ci lit s = (map tolower_c (take (length lit) s) = map tolower_c lit)"

definition isspace_c :: "char \<Rightarrow> bool" where
  "isspace_c c = (let n = (of_char c :: nat) in n = 32 \<or> (9 \<le> n \<and> n \<le> 13))"

text \<open>\<^verbatim>\<open>strstr(s, pat)\<close>: the offset of the first occurrence of \<open>pat\<close> in \<open>s\<close>.\<close>

fun find_sub :: "bytes \<Rightarrow> bytes \<Rightarrow> nat option" where
  "find_sub pat [] = (if pat = [] then Some 0 else None)"
| "find_sub pat (c # s) =
     (if starts_with pat (c # s) then Some 0 else map_option Suc (find_sub pat s))"

lemma cstr_append_NUL [simp]: "NUL \<notin> set l \<Longrightarrow> cstr (l @ NUL # r) = l"
  by (induction l) (auto simp: cstr_def)

lemma starts_with_append [simp]: "starts_with p (p @ s)"
  by (simp add: starts_with_def)

lemma find_sub_Some_bound: "find_sub pat s = Some i \<Longrightarrow> i + length pat \<le> length s"
proof (induction s arbitrary: i)
  case Nil
  then show ?case by (simp split: if_splits)
next
  case (Cons c s)
  show ?case
  proof (cases "starts_with pat (c # s)")
    case True
    then have "length pat \<le> length (c # s)"
      by (metis starts_with_def nat_le_linear take_all)
    with True Cons.prems show ?thesis by simp
  next
    case False
    with Cons.prems Cons.IH show ?thesis by auto
  qed
qed

lemma find_sub_Some_eq: "find_sub pat s = Some i \<Longrightarrow> seg i (length pat) s = pat"
proof (induction s arbitrary: i)
  case Nil
  then show ?case by (simp split: if_splits)
next
  case (Cons c s)
  then show ?case
    by (auto simp: seg_def starts_with_def split: if_splits)
qed

text \<open>
  Reading one byte and \<^verbatim>\<open>strlen\<close> at an offset of a buffer; a read past the end of the buffer has
  no value.
\<close>

definition byte_at :: "bytes \<Rightarrow> nat \<Rightarrow> char c_result" where
  "byte_at b p = (if p < length b then Ret (b ! p) else Undef)"

definition strlen_at :: "bytes \<Rightarrow> nat \<Rightarrow> nat c_result" where
  "strlen_at b p =
     (let n = length (cstr (drop p b)) in if p + n < length b then Ret n else Undef)"

lemma byte_at_Ret [simp]: "p < length b \<Longrightarrow> byte_at b p = Ret (b ! p)"
  by (simp add: byte_at_def)

lemma strlen_at_append:
  "NUL \<notin> set l \<Longrightarrow> strlen_at (pre @ l @ NUL # post) (length pre) = Ret (length l)"
  by (simp add: strlen_at_def)

section \<open>Numbers in text\<close>

definition digit_val :: "char \<Rightarrow> nat option" where
  "digit_val c = (let n = (of_char c :: nat) in
     if 48 \<le> n \<and> n \<le> 57 then Some (n - 48)
     else if 97 \<le> n \<and> n \<le> 102 then Some (n - 87)
     else if 65 \<le> n \<and> n \<le> 70 then Some (n - 55)
     else None)"

definition is_digit :: "nat \<Rightarrow> char \<Rightarrow> bool" where
  "is_digit base c = (case digit_val c of None \<Rightarrow> False | Some d \<Rightarrow> d < base)"

definition digits_val :: "nat \<Rightarrow> bytes \<Rightarrow> nat" where
  "digits_val base ds = fold (\<lambda>c a. a * base + (case digit_val c of None \<Rightarrow> 0 | Some d \<Rightarrow> d)) ds 0"

definition LONG_MAX :: int where "LONG_MAX = 2 ^ 63 - 1"
definition LONG_MIN :: int where "LONG_MIN = -(2 ^ 63)"

definition clamp_long :: "int \<Rightarrow> int" where
  "clamp_long v = max LONG_MIN (min LONG_MAX v)"

text \<open>
  \<^verbatim>\<open>strtol(s, &end, base)\<close> for base 10 and 16, as the pair of the value and \<^verbatim>\<open>end - s\<close>: leading
  white space (which includes CR and LF), a sign, for base 16 an optional \<^verbatim>\<open>0x\<close>, digits; the
  value saturates at the bounds of a 64-bit \<^verbatim>\<open>long\<close>; without any digit nothing is consumed.
\<close>

definition strtol :: "nat \<Rightarrow> bytes \<Rightarrow> int \<times> nat" where
  "strtol base s =
     (let ws = takeWhile isspace_c s;
          s1 = dropWhile isspace_c s;
          neg = (s1 \<noteq> [] \<and> hd s1 = CHR ''-'');
          sg = (if s1 \<noteq> [] \<and> (hd s1 = CHR ''-'' \<or> hd s1 = CHR ''+'') then 1 else 0);
          s2 = drop sg s1;
          px = (if base = 16 \<and> 3 \<le> length s2 \<and> s2 ! 0 = CHR ''0''
                   \<and> (s2 ! 1 = CHR ''x'' \<or> s2 ! 1 = CHR ''X'') \<and> is_digit 16 (s2 ! 2)
                then 2 else 0);
          ds = takeWhile (is_digit base) (drop px s2);
          v = int (digits_val base ds)
      in if ds = [] then (0, 0)
         else (clamp_long (if neg then - v else v), length ws + sg + px + length ds))"

text \<open>Whether \<^verbatim>\<open>strtol\<close> reports \<^verbatim>\<open>ERANGE\<close>, i.e. the exact value did not fit.\<close>

definition strtol_erange :: "nat \<Rightarrow> bytes \<Rightarrow> bool" where
  "strtol_erange base s =
     (let s1 = dropWhile isspace_c s;
          neg = (s1 \<noteq> [] \<and> hd s1 = CHR ''-'');
          sg = (if s1 \<noteq> [] \<and> (hd s1 = CHR ''-'' \<or> hd s1 = CHR ''+'') then 1 else 0);
          s2 = drop sg s1;
          px = (if base = 16 \<and> 3 \<le> length s2 \<and> s2 ! 0 = CHR ''0''
                   \<and> (s2 ! 1 = CHR ''x'' \<or> s2 ! 1 = CHR ''X'') \<and> is_digit 16 (s2 ! 2)
                then 2 else 0);
          v = int (digits_val base (takeWhile (is_digit base) (drop px s2)))
      in clamp_long (if neg then - v else v) \<noteq> (if neg then - v else v))"

definition digit_char :: "nat \<Rightarrow> char" where
  "digit_char d = (if d < 10 then char_of (48 + d) else char_of (87 + d))"

text \<open>The digits of a number in base 10 or 16, as \<^verbatim>\<open>%u\<close> and \<^verbatim>\<open>%x\<close> print them.\<close>

fun print_base :: "nat \<Rightarrow> nat \<Rightarrow> bytes" where
  "print_base base n =
     (if n < base \<or> base \<le> 1 then [digit_char n]
      else print_base base (n div base) @ [digit_char (n mod base)])"

declare print_base.simps [simp del]

definition print_int :: "int \<Rightarrow> bytes" where
  "print_int v = (if v < 0 then CHR ''-'' # print_base 10 (nat (- v)) else print_base 10 (nat v))"

lemma less_16_cases:
  "(d :: nat) < 16 \<Longrightarrow> d \<in> {0, 1, 2, 3, 4, 5, 6, 7, 8, 9, 10, 11, 12, 13, 14, 15}"
  by (simp add: numeral_eq_Suc less_Suc_eq)

lemma digit_val_digit_char [simp]: "d < 16 \<Longrightarrow> digit_val (digit_char d) = Some d"
  using less_16_cases [of d] by (auto simp: digit_val_def digit_char_def)

lemma is_digit_digit_char [simp]: "\<lbrakk>d < base; base \<le> 16\<rbrakk> \<Longrightarrow> is_digit base (digit_char d)"
  by (simp add: is_digit_def)

lemma digits_val_append:
  "digits_val base (ds @ [c]) =
     digits_val base ds * base + (case digit_val c of None \<Rightarrow> 0 | Some d \<Rightarrow> d)"
  by (simp add: digits_val_def)

lemma print_base_nonempty [simp]: "print_base base n \<noteq> []"
  by (subst print_base.simps) simp

lemma print_base_digits:
  assumes "1 < base" "base \<le> 16"
  shows "\<forall>c \<in> set (print_base base n). is_digit base c"
  using assms
proof (induction base n rule: print_base.induct)
  case (1 base n)
  then show ?case
    by (auto simp: print_base.simps [of base n])
qed

lemma digits_val_print_base:
  assumes "1 < base" "base \<le> 16"
  shows "digits_val base (print_base base n) = n"
  using assms
proof (induction base n rule: print_base.induct)
  case (1 base n)
  show ?case
  proof (cases "n < base")
    case True
    with 1 show ?thesis
      by (simp add: print_base.simps [of base n] digits_val_def)
  next
    case False
    with 1 have ih: "digits_val base (print_base base (n div base)) = n div base"
      by simp
    have "n mod base < 16"
      using 1 by (meson less_le_trans mod_less_divisor not_gr_zero not_less0 zero_less_one less_trans)
    with False 1 ih show ?thesis
      by (simp add: print_base.simps [of base n] digits_val_append)
  qed
qed

lemma is_digit_not_space: "is_digit base c \<Longrightarrow> \<not> isspace_c c"
  by (auto simp: is_digit_def digit_val_def isspace_c_def Let_def split: if_splits option.splits)

lemma is_digit_not_sign: "is_digit base c \<Longrightarrow> c \<noteq> CHR ''-'' \<and> c \<noteq> CHR ''+''"
  by (auto simp: is_digit_def digit_val_def Let_def split: if_splits option.splits)

lemma is_digit_not_x: "is_digit base c \<Longrightarrow> c \<noteq> CHR ''x'' \<and> c \<noteq> CHR ''X''"
  by (auto simp: is_digit_def digit_val_def Let_def split: if_splits option.splits)

text \<open>Reading back a printed number: \<^verbatim>\<open>strtol\<close> inverts \<^verbatim>\<open>%x\<close> (and \<^verbatim>\<open>%u\<close>) before any non-digit.\<close>

lemma strtol_print_base:
  assumes base: "1 < base" "base \<le> 16"
    and rest: "rest = [] \<or> \<not> is_digit base (hd rest)"
    and notx: "rest = [] \<or> (hd rest \<noteq> CHR ''x'' \<and> hd rest \<noteq> CHR ''X'')"
    and small: "int n \<le> LONG_MAX"
  shows "strtol base (print_base base n @ rest) = (int n, length (print_base base n))"
proof -
  let ?p = "print_base base n"
  obtain c cs where p: "?p = c # cs"
    by (cases ?p) auto
  have digs: "\<forall>x \<in> set ?p. is_digit base x"
    using base by (rule print_base_digits)
  then have c: "is_digit base c" by (simp add: p)
  have tw: "takeWhile (is_digit base) (?p @ rest) = ?p"
    using digs rest by (cases rest) (auto simp: takeWhile_append)
  have sp: "takeWhile isspace_c (?p @ rest) = []" "dropWhile isspace_c (?p @ rest) = ?p @ rest"
    using is_digit_not_space [OF c] by (simp_all add: p)
  have x: "\<not> (3 \<le> length (?p @ rest) \<and> ((?p @ rest) ! 1 = CHR ''x'' \<or> (?p @ rest) ! 1 = CHR ''X''))"
  proof (cases cs)
    case Nil
    with p notx show ?thesis by (cases rest) auto
  next
    case (Cons a as)
    with digs p have "is_digit base a" by simp
    with p Cons show ?thesis by (auto dest: is_digit_not_x)
  qed
  have clamp: "clamp_long (int n) = int n"
    using small by (simp add: clamp_long_def LONG_MIN_def)
  have hd: "hd (?p @ rest) \<noteq> CHR ''-''" "hd (?p @ rest) \<noteq> CHR ''+''"
    using is_digit_not_sign [OF c] by (simp_all add: p)
  show ?thesis
    unfolding strtol_def Let_def sp
    using hd x tw clamp digits_val_print_base [OF base, of n] by auto
qed

end
