(* ===== verification/Byte_Fifo.thy ===== *)
theory Byte_Fifo
  imports Icap_Prelude
begin

text \<open>
  The contract of a byte queue: what the code that moves body data through a buffer relies on.
  \<open>put\<close> offers bytes and tells how many were taken, \<open>get\<close> asks for at most a number of bytes.
  Both return (\<open>None\<close> would be a call that does not return).  The laws speak about the queue
  of bytes not yet delivered.  The client lemma of the locale is about any sequence of calls:
  what was stored plus what was accepted is what was delivered plus what is still stored, in
  this order, so no byte is lost, invented, duplicated or moved.
\<close>

datatype fifo_op = Put bytes | Get nat

text \<open>Running a sequence of calls: the bytes accepted and the bytes delivered.\<close>

fun fifo_run ::
  "('q \<Rightarrow> bytes \<Rightarrow> ('q \<times> int) option) \<Rightarrow> ('q \<Rightarrow> nat \<Rightarrow> ('q \<times> bytes) option)
   \<Rightarrow> 'q \<Rightarrow> fifo_op list \<Rightarrow> ('q \<times> bytes \<times> bytes) option" where
  "fifo_run put get q [] = Some (q, [], [])"
| "fifo_run put get q (Put d # ops) =
     (case put q d of
        None \<Rightarrow> None
      | Some (q', n) \<Rightarrow> map_option (\<lambda>(q'', acc, del). (q'', take (nat n) d @ acc, del))
                         (fifo_run put get q' ops))"
| "fifo_run put get q (Get k # ops) =
     (case get q k of
        None \<Rightarrow> None
      | Some (q', out) \<Rightarrow> map_option (\<lambda>(q'', acc, del). (q'', acc, out @ del))
                           (fifo_run put get q' ops))"

locale byte_fifo =
  fixes put :: "'q \<Rightarrow> bytes \<Rightarrow> ('q \<times> int) option"
    and get :: "'q \<Rightarrow> nat \<Rightarrow> ('q \<times> bytes) option"
    and contents :: "'q \<Rightarrow> bytes"
    and invar :: "'q \<Rightarrow> bool"
  assumes put_law: "invar q \<Longrightarrow> \<exists>q' n. put q d = Some (q', n) \<and> invar q'
      \<and> 0 \<le> n \<and> n \<le> int (length d) \<and> contents q' = contents q @ take (nat n) d"
    and get_law: "invar q \<Longrightarrow> \<exists>q' out. get q k = Some (q', out) \<and> invar q'
      \<and> contents q = out @ contents q' \<and> length out \<le> k"
begin

lemma run_conserves:
  "invar q \<Longrightarrow> \<exists>q' acc del. fifo_run put get q ops = Some (q', acc, del) \<and> invar q'
     \<and> contents q @ acc = del @ contents q'"
proof (induction ops arbitrary: q)
  case Nil
  then show ?case by simp
next
  case (Cons op ops)
  show ?case
  proof (cases op)
    case (Put d)
    from put_law [OF Cons.prems, of d] obtain q1 n where
      q1: "put q d = Some (q1, n)" "invar q1" "contents q1 = contents q @ take (nat n) d"
      by blast
    from Cons.IH [OF q1(2)] obtain q' acc del where
      "fifo_run put get q1 ops = Some (q', acc, del)" "invar q'"
      "contents q1 @ acc = del @ contents q'" by blast
    with q1 Put show ?thesis by auto
  next
    case (Get k)
    from get_law [OF Cons.prems, of k] obtain q1 out where
      q1: "get q k = Some (q1, out)" "invar q1" "contents q = out @ contents q1" by blast
    from Cons.IH [OF q1(2)] obtain q' acc del where
      "fifo_run put get q1 ops = Some (q', acc, del)" "invar q'"
      "contents q1 @ acc = del @ contents q'" by blast
    with q1 Get show ?thesis by auto
  qed
qed

end

end
