(* ===== verification/Ring_Buffer.thy ===== *)
theory Ring_Buffer
  imports Byte_Fifo
begin

text \<open>
  The ring memory buffer of \<^verbatim>\<open>body.c\<close> (\<^verbatim>\<open>ci_ring_buf_*\<close>), which the server uses to echo a body
  back to a client that does not support 204 responses outside a preview.  The pointers of
  \<^verbatim>\<open>struct ci_ring_buf\<close> are offsets into \<^verbatim>\<open>buf\<close>.  The abstraction \<open>rb_contents\<close> is the queue of
  unread bytes; \<open>rb_invar\<close> is the invariant of the structure.  The copy loops are partial
  functions (\<open>None\<close> would be a loop that does not end); the refinement lemmas show that they
  return on every well-formed buffer.
\<close>

section \<open>Structure and operations\<close>

record ci_ring_buf =
  rb_buf :: bytes
  rb_end_buf :: int
  rb_read_pos :: int
  rb_write_pos :: int
  rb_full :: bool

text \<open>\<^verbatim>\<open>ci_ring_buf_new\<close>; \<open>ok\<close> gives the results of its two allocations, the object and its memory.\<close>

definition ci_ring_buf_new :: "(nat \<Rightarrow> bool) \<Rightarrow> (nat \<Rightarrow> char) \<Rightarrow> nat \<Rightarrow> ci_ring_buf option" where
  "ci_ring_buf_new ok g sz =
     (if \<not> ok 0 then None
      else if \<not> ok 1 then None
      else Some \<lparr>rb_buf = fresh_mem g sz, rb_end_buf = int sz - 1, rb_read_pos = 0, rb_write_pos = 0,
                 rb_full = False\<rparr>)"

definition ci_ring_buf_is_empty :: "ci_ring_buf \<Rightarrow> bool" where
  "ci_ring_buf_is_empty b \<longleftrightarrow> rb_read_pos b = rb_write_pos b \<and> \<not> rb_full b"

text \<open>Start, length and return value of the next block that can be written.\<close>

definition ci_ring_buf_write_block :: "ci_ring_buf \<Rightarrow> int \<times> int \<times> int" where
  "ci_ring_buf_write_block b =
     (if rb_read_pos b = rb_write_pos b \<and> \<not> rb_full b
      then (rb_write_pos b, rb_end_buf b - rb_write_pos b + 1, 0)
      else if rb_read_pos b \<ge> rb_write_pos b
      then (rb_write_pos b, rb_read_pos b - rb_write_pos b, 0)
      else (rb_write_pos b, rb_end_buf b - rb_write_pos b + 1, 1))"

definition ci_ring_buf_read_block :: "ci_ring_buf \<Rightarrow> int \<times> int \<times> int" where
  "ci_ring_buf_read_block b =
     (if rb_read_pos b = rb_write_pos b \<and> \<not> rb_full b
      then (rb_read_pos b, 0, 0)
      else if rb_read_pos b \<ge> rb_write_pos b
      then (rb_read_pos b, rb_end_buf b - rb_read_pos b + 1, if rb_read_pos b \<noteq> 0 then 1 else 0)
      else (rb_read_pos b, rb_write_pos b - rb_read_pos b, 0))"

definition ci_ring_buf_consume :: "ci_ring_buf \<Rightarrow> int \<Rightarrow> ci_ring_buf" where
  "ci_ring_buf_consume b len =
     (if len \<le> 0 then b
      else let r = rb_read_pos b + len
           in b\<lparr>rb_read_pos := (if r > rb_end_buf b then 0 else r), rb_full := False\<rparr>)"

definition ci_ring_buf_produce :: "ci_ring_buf \<Rightarrow> int \<Rightarrow> ci_ring_buf" where
  "ci_ring_buf_produce b len =
     (if len \<le> 0 then b
      else let w = rb_write_pos b + len;
               w' = (if w > rb_end_buf b then 0 else w)
           in b\<lparr>rb_write_pos := w', rb_full := (if w' = rb_read_pos b then True else rb_full b)\<rparr>)"

text \<open>
  The loops of \<^verbatim>\<open>ci_ring_buf_write\<close> and \<^verbatim>\<open>ci_ring_buf_read\<close>: \<open>data\<close> is the memory the source
  pointer runs over, \<open>sz\<close> what is left to copy, the last argument what was copied.
\<close>

partial_function (option) ring_write_loop ::
  "ci_ring_buf \<Rightarrow> bytes \<Rightarrow> int \<Rightarrow> int \<Rightarrow> (ci_ring_buf \<times> int) option" where
  "ring_write_loop b data sz written =
     (let blk = ci_ring_buf_write_block b;
          wb = fst blk; wb_len = fst (snd blk); ret = snd (snd blk);
          n = (if wb_len \<noteq> 0 then min sz wb_len else 0);
          b' = (if wb_len \<noteq> 0
                then ci_ring_buf_produce
                       (b\<lparr>rb_buf := mem_write (nat wb) (take (nat n) data) (rb_buf b)\<rparr>) n
                else b)
      in if ret \<noteq> 0 \<and> sz - n > 0
         then ring_write_loop b' (drop (nat n) data) (sz - n) (written + n)
         else Some (b', written + n))"

definition ci_ring_buf_write :: "ci_ring_buf \<Rightarrow> bytes \<Rightarrow> (ci_ring_buf \<times> int) option" where
  "ci_ring_buf_write b data = ring_write_loop b data (int (length data)) 0"

partial_function (option) ring_read_loop ::
  "ci_ring_buf \<Rightarrow> bytes \<Rightarrow> int \<Rightarrow> (ci_ring_buf \<times> bytes) option" where
  "ring_read_loop b out sz =
     (let blk = ci_ring_buf_read_block b;
          rb = fst blk; rb_len = fst (snd blk); ret = snd (snd blk);
          n = (if rb_len \<noteq> 0 then min sz rb_len else 0);
          out' = out @ seg (nat rb) (nat n) (rb_buf b);
          b' = (if rb_len \<noteq> 0 then ci_ring_buf_consume b n else b)
      in if ret \<noteq> 0 \<and> sz - n > 0
         then ring_read_loop b' out' (sz - n)
         else Some (b', out'))"

text \<open>The result holds the bytes copied to \<^verbatim>\<open>data\<close>; the C return value is their number.\<close>

definition ci_ring_buf_read :: "ci_ring_buf \<Rightarrow> nat \<Rightarrow> (ci_ring_buf \<times> bytes) option" where
  "ci_ring_buf_read b sz = ring_read_loop b [] (int sz)"

section \<open>Invariant and abstraction\<close>

definition rb_invar :: "ci_ring_buf \<Rightarrow> bool" where
  "rb_invar b \<longleftrightarrow>
     rb_buf b \<noteq> [] \<and> rb_end_buf b = int (length (rb_buf b)) - 1
     \<and> 0 \<le> rb_read_pos b \<and> rb_read_pos b \<le> rb_end_buf b
     \<and> 0 \<le> rb_write_pos b \<and> rb_write_pos b \<le> rb_end_buf b
     \<and> (rb_full b \<longrightarrow> rb_read_pos b = rb_write_pos b)"

definition rb_contents :: "ci_ring_buf \<Rightarrow> bytes" where
  "rb_contents b =
     (let r = nat (rb_read_pos b); w = nat (rb_write_pos b)
      in if r = w \<and> \<not> rb_full b then []
         else if r < w then seg r (w - r) (rb_buf b)
         else drop r (rb_buf b) @ take w (rb_buf b))"

abbreviation rb_capacity :: "ci_ring_buf \<Rightarrow> nat" where
  "rb_capacity b \<equiv> length (rb_buf b)"

text \<open>How much one call of \<^verbatim>\<open>ci_ring_buf_write\<close> can take: an empty buffer is not rewound.\<close>

definition rb_room :: "ci_ring_buf \<Rightarrow> nat" where
  "rb_room b = (if rb_contents b = [] then rb_capacity b - nat (rb_write_pos b)
                else rb_capacity b - length (rb_contents b))"

lemma rb_invar_pos:
  assumes "rb_invar b"
  obtains r w where "rb_read_pos b = int r" "rb_write_pos b = int w"
    "r < rb_capacity b" "w < rb_capacity b" "rb_end_buf b = int (rb_capacity b) - 1"
    "rb_full b \<longrightarrow> r = w"
proof -
  have "rb_read_pos b = int (nat (rb_read_pos b))" "rb_write_pos b = int (nat (rb_write_pos b))"
    using assms by (auto simp: rb_invar_def)
  moreover have "nat (rb_read_pos b) < rb_capacity b" "nat (rb_write_pos b) < rb_capacity b"
    using assms by (auto simp: rb_invar_def)
  moreover have "rb_end_buf b = int (rb_capacity b) - 1"
    and "rb_full b \<longrightarrow> nat (rb_read_pos b) = nat (rb_write_pos b)"
    using assms by (auto simp: rb_invar_def)
  ultimately show ?thesis
    using that by blast
qed

lemma rb_contents_length:
  assumes "rb_invar b"
  shows "length (rb_contents b) \<le> rb_capacity b"
    and "rb_contents b = [] \<longleftrightarrow> ci_ring_buf_is_empty b"
proof -
  from assms obtain r w where rw: "rb_read_pos b = int r" "rb_write_pos b = int w"
    "r < rb_capacity b" "w < rb_capacity b" "rb_full b \<longrightarrow> r = w"
    using rb_invar_pos by blast
  then show "length (rb_contents b) \<le> rb_capacity b"
    and "rb_contents b = [] \<longleftrightarrow> ci_ring_buf_is_empty b"
    by (auto simp: rb_contents_def ci_ring_buf_is_empty_def Let_def seg_def)
qed

lemma rb_invar_new: "\<lbrakk>ci_ring_buf_new ok g sz = Some b; 0 < sz\<rbrakk> \<Longrightarrow> rb_invar b"
  by (auto simp: rb_invar_def ci_ring_buf_new_def fresh_mem_def split: if_splits)

lemma rb_contents_new: "ci_ring_buf_new ok g sz = Some b \<Longrightarrow> rb_contents b = []"
  by (auto simp: rb_contents_def ci_ring_buf_new_def split: if_splits)

section \<open>One block\<close>

text \<open>Filling part of the block that \<^verbatim>\<open>ci_ring_buf_write_block\<close> returns appends to the queue.\<close>

lemma produce_block:
  assumes inv: "rb_invar b"
    and blk: "ci_ring_buf_write_block b = (wb, len, ret)"
    and d: "int (length d) \<le> len"
  defines "b' \<equiv> ci_ring_buf_produce (b\<lparr>rb_buf := mem_write (nat wb) d (rb_buf b)\<rparr>) (int (length d))"
  shows "rb_invar b' \<and> rb_contents b' = rb_contents b @ d \<and> rb_capacity b' = rb_capacity b
         \<and> rb_read_pos b' = rb_read_pos b"
proof (cases "d = []")
  case True
  with inv show ?thesis
    by (simp add: b'_def ci_ring_buf_produce_def)
next
  case False
  from inv obtain r w where rw: "rb_read_pos b = int r" "rb_write_pos b = int w"
    "r < rb_capacity b" "w < rb_capacity b" "rb_end_buf b = int (rb_capacity b) - 1"
    "rb_full b \<longrightarrow> r = w"
    using rb_invar_pos by blast
  let ?n = "length d"
  have wb: "wb = int w"
    using blk rw by (auto simp: ci_ring_buf_write_block_def split: if_splits)
  have fit: "w + ?n \<le> rb_capacity b"
    and below: "r \<ge> w \<Longrightarrow> r \<noteq> w \<or> rb_full b \<Longrightarrow> w + ?n \<le> r"
    using blk rw d by (auto simp: ci_ring_buf_write_block_def split: if_splits)
  have npos: "0 < ?n" using False by simp
  let ?m = "mem_write w d (rb_buf b)"
  have len: "length ?m = rb_capacity b" using fit by simp
  then have ne: "?m \<noteq> []" using rw(3) by (metis list.size(3) not_less0)
  have b': "b' = b\<lparr>rb_buf := ?m, rb_write_pos := (if w + ?n < rb_capacity b then int (w + ?n) else 0),
      rb_full := ((if w + ?n < rb_capacity b then w + ?n else 0) = r \<or> rb_full b)\<rparr>"
    using npos wb rw(1,2,5) by (auto simp: b'_def ci_ring_buf_produce_def Let_def)
  have nofull: "rb_full b \<Longrightarrow> False"
    using rw(6) below npos by fastforce
  have dropm: "w + ?n = rb_capacity b \<Longrightarrow> r \<le> w \<Longrightarrow> drop r ?m = seg r (w - r) (rb_buf b) @ d"
    using seg_mem_write_append [of r w d "rb_buf b"] fit len
    by (simp add: seg_def)
  have segm: "r \<le> w \<Longrightarrow> seg r (w + ?n - r) ?m = seg r (w - r) (rb_buf b) @ d"
    using seg_mem_write_append [of r w d "rb_buf b"] fit by simp
  have wrapm: "w + ?n \<le> r \<Longrightarrow> drop r ?m @ take (w + ?n) ?m = drop r (rb_buf b) @ take w (rb_buf b) @ d"
    using fit rw by (simp add: drop_mem_write take_mem_write_end)
  have inv': "rb_invar b'"
    using b' rw len ne nofull fit npos inv by (auto simp: rb_invar_def)
  have "rb_contents b' = rb_contents b @ d"
  proof (cases "w \<le> r \<and> r \<noteq> w")
    case True
    with below have "w + ?n \<le> r" by simp
    with True rw show ?thesis
      using nofull npos wrapm by (auto simp: b' rb_contents_def Let_def)
  next
    case False
    then have "r \<le> w" by linarith
    with rw nofull fit npos dropm segm show ?thesis
      by (cases "w + ?n < rb_capacity b") (auto simp: b' rb_contents_def Let_def)
  qed
  with inv' b' len show ?thesis by simp
qed

text \<open>Consuming part of the block that \<^verbatim>\<open>ci_ring_buf_read_block\<close> returns removes a prefix.\<close>

lemma consume_block:
  assumes inv: "rb_invar b"
    and blk: "ci_ring_buf_read_block b = (rb, len, ret)"
    and n: "int n \<le> len"
  defines "b' \<equiv> ci_ring_buf_consume b (int n)"
  shows "rb_invar b' \<and> rb_contents b = seg (nat rb) n (rb_buf b) @ rb_contents b'
         \<and> rb_buf b' = rb_buf b \<and> rb_write_pos b' = rb_write_pos b
         \<and> length (seg (nat rb) n (rb_buf b)) = n"
proof (cases "n = 0")
  case True
  with inv show ?thesis by (simp add: b'_def ci_ring_buf_consume_def)
next
  case False
  from inv obtain r w where rw: "rb_read_pos b = int r" "rb_write_pos b = int w"
    "r < rb_capacity b" "w < rb_capacity b" "rb_end_buf b = int (rb_capacity b) - 1"
    "rb_full b \<longrightarrow> r = w"
    using rb_invar_pos by blast
  have rb: "rb = int r"
    using blk rw by (auto simp: ci_ring_buf_read_block_def split: if_splits)
  have ne: "r \<noteq> w \<or> rb_full b" and fit: "r + n \<le> rb_capacity b"
    and below: "r < w \<Longrightarrow> r + n \<le> w"
    using blk rw n False by (auto simp: ci_ring_buf_read_block_def split: if_splits)
  have b': "b' = b\<lparr>rb_read_pos := (if r + n < rb_capacity b then int (r + n) else 0), rb_full := False\<rparr>"
    using False rw(1,5) by (auto simp: b'_def ci_ring_buf_consume_def Let_def)
  have split: "drop r (rb_buf b) = seg r n (rb_buf b) @ drop (r + n) (rb_buf b)"
    by (simp add: seg_def add.commute) (metis append_take_drop_id drop_drop)
  have "rb_contents b = seg r n (rb_buf b) @ rb_contents b'"
  proof (cases "r < w")
    case True
    then have "seg r (w - r) (rb_buf b) = seg r n (rb_buf b) @ seg (r + n) (w - (r + n)) (rb_buf b)"
      using below seg_split [of r n "w - (r + n)" "rb_buf b"] by simp
    with True rw below show ?thesis by (auto simp: b' rb_contents_def Let_def)
  next
    case False
    with rw ne fit split \<open>n \<noteq> 0\<close> show ?thesis
      by (cases "r + n < rb_capacity b") (auto simp: b' rb_contents_def Let_def seg_def)
  qed
  moreover have "rb_invar b'"
    using b' rw fit inv by (auto simp: rb_invar_def)
  ultimately show ?thesis
    using rb b' fit by simp
qed

section \<open>The copy loops\<close>

lemma write_block_bounds:
  assumes "rb_invar b" "ci_ring_buf_write_block b = (wb, len, ret)"
  shows "0 \<le> len" "ret = 0 \<Longrightarrow> nat len = rb_room b"
    "ret \<noteq> 0 \<Longrightarrow> nat len + nat (rb_read_pos b) = rb_room b"
proof -
  from assms(1) obtain r w where rw: "rb_read_pos b = int r" "rb_write_pos b = int w"
    "r < rb_capacity b" "w < rb_capacity b" "rb_end_buf b = int (rb_capacity b) - 1"
    "rb_full b \<longrightarrow> r = w"
    using rb_invar_pos by blast
  show "0 \<le> len" "ret = 0 \<Longrightarrow> nat len = rb_room b"
    "ret \<noteq> 0 \<Longrightarrow> nat len + nat (rb_read_pos b) = rb_room b"
    using rw assms(2)
    by (auto simp: ci_ring_buf_write_block_def rb_room_def rb_contents_def Let_def min_def
        split: if_splits)
qed

lemma write_block_second:
  assumes "rb_invar b" "rb_write_pos b = 0" "rb_contents b \<noteq> []"
    "ci_ring_buf_write_block b = (wb, len, ret)"
  shows "ret = 0" "len = rb_read_pos b"
  using assms rb_contents_length(2) [OF assms(1)]
  by (auto simp: ci_ring_buf_write_block_def rb_invar_def ci_ring_buf_is_empty_def split: if_splits)

lemma ring_write_loop_step:
  fixes data :: bytes
  assumes inv: "rb_invar b" and blk: "ci_ring_buf_write_block b = (wb, len, ret)"
  defines "n \<equiv> min (length data) (nat len)"
  defines "b' \<equiv> ci_ring_buf_produce (b\<lparr>rb_buf := mem_write (nat wb) (take n data) (rb_buf b)\<rparr>) (int n)"
  shows "ring_write_loop b data (int (length data)) written =
           (if ret \<noteq> 0 \<and> n < length data
            then ring_write_loop b' (drop n data) (int (length (drop n data))) (written + int n)
            else Some (b', written + int n))"
    and "rb_invar b'" and "rb_contents b' = rb_contents b @ take n data"
    and "rb_capacity b' = rb_capacity b" and "rb_read_pos b' = rb_read_pos b"
proof -
  have len: "0 \<le> len" using inv blk by (rule write_block_bounds)
  have lt: "length (take n data) = n" by (simp add: n_def)
  have "int n \<le> len" using len by (simp add: n_def)
  then have pb: "rb_invar b' \<and> rb_contents b' = rb_contents b @ take n data
      \<and> rb_capacity b' = rb_capacity b \<and> rb_read_pos b' = rb_read_pos b"
    using produce_block [OF inv blk, of "take n data"] lt by (simp add: b'_def)
  then show "rb_invar b'" "rb_contents b' = rb_contents b @ take n data"
    "rb_capacity b' = rb_capacity b" "rb_read_pos b' = rb_read_pos b" by simp_all
  have n: "(if len \<noteq> 0 then min (int (length data)) len else 0) = int n"
    using len by (auto simp: n_def min_def le_nat_iff)
  have b': "(if len \<noteq> 0 then b' else b) = b'"
    by (cases "len = 0") (simp_all add: b'_def n_def ci_ring_buf_produce_def)
  show "ring_write_loop b data (int (length data)) written =
           (if ret \<noteq> 0 \<and> n < length data
            then ring_write_loop b' (drop n data) (int (length (drop n data))) (written + int n)
            else Some (b', written + int n))"
    using b' n by (subst ring_write_loop.simps) (auto simp: blk Let_def b'_def n_def)
qed

text \<open>
  \<^verbatim>\<open>ci_ring_buf_write\<close> always returns; it takes as many bytes as there is room for and appends
  exactly those to the queue.
\<close>

lemma ring_write_refines:
  assumes inv: "rb_invar b"
  shows "\<exists>b'. ci_ring_buf_write b data = Some (b', int (min (length data) (rb_room b)))
           \<and> rb_invar b' \<and> rb_contents b' = rb_contents b @ take (rb_room b) data
           \<and> rb_capacity b' = rb_capacity b"
proof -
  obtain wb len ret where blk: "ci_ring_buf_write_block b = (wb, len, ret)"
    by (cases "ci_ring_buf_write_block b") auto
  define n where "n = min (length data) (nat len)"
  define b' where "b' = ci_ring_buf_produce (b\<lparr>rb_buf := mem_write (nat wb) (take n data) (rb_buf b)\<rparr>) (int n)"
  note step = ring_write_loop_step [OF inv blk, where data = data, folded n_def, folded b'_def]
  note bounds = write_block_bounds [OF inv blk]
  show ?thesis
  proof (cases "ret \<noteq> 0 \<and> n < length data")
    case False
    have "n = min (length data) (rb_room b)"
    proof (cases "ret = 0")
      case True
      with bounds(2) show ?thesis by (simp add: n_def)
    next
      case ret: False
      with False bounds(3) show ?thesis by (simp add: n_def)
    qed
    moreover from this have "take n data = take (rb_room b) data"
      by (simp add: min_def)
    ultimately show ?thesis using step False by (auto simp: ci_ring_buf_write_def)
  next
    case True
    then have n: "n = nat len" by (auto simp: n_def)
    have less: "rb_read_pos b < rb_write_pos b" and len: "len = rb_end_buf b - rb_write_pos b + 1"
      using blk True by (auto simp: ci_ring_buf_write_block_def split: if_splits)
    have w': "rb_write_pos b' = 0" and ne: "rb_contents b' \<noteq> []"
      using n len less inv step(3) bounds(1) blk
      by (auto simp: b'_def ci_ring_buf_produce_def ci_ring_buf_write_block_def rb_invar_def Let_def
          rb_contents_length(2) [OF inv] ci_ring_buf_is_empty_def split: if_splits)
    obtain wb2 len2 ret2 where blk2: "ci_ring_buf_write_block b' = (wb2, len2, ret2)"
      by (cases "ci_ring_buf_write_block b'") auto
    note second = write_block_second [OF step(2) w' ne blk2]
    define n2 where "n2 = min (length (drop n data)) (nat len2)"
    define b2 where "b2 = ci_ring_buf_produce
        (b'\<lparr>rb_buf := mem_write (nat wb2) (take n2 (drop n data)) (rb_buf b')\<rparr>) (int n2)"
    note step2 = ring_write_loop_step [OF step(2) blk2, where data = "drop n data",
        folded n2_def, folded b2_def]
    have room: "nat len2 = rb_room b - n"
      using bounds(3) True n second(2) step(5) by simp
    have le: "n \<le> rb_room b" using bounds(3) True n by simp
    have cnt: "n + n2 = min (length data) (rb_room b)"
      using le True room by (auto simp: n2_def min_def)
    have tk: "take n data @ take n2 (drop n data) = take (rb_room b) data"
      using cnt by (metis take_add take_all_iff min.cobounded2 min_def)
    have "ci_ring_buf_write b data = Some (b2, int n + int n2)"
      using step(1) [of 0] step2(1) True second(1) by (simp add: ci_ring_buf_write_def)
    moreover have "rb_contents b2 = rb_contents b @ take (rb_room b) data"
      using step(3) step2(3) tk by simp
    ultimately show ?thesis
      using step(4) step2(2,4) cnt by (metis of_nat_add)
  qed
qed

lemma read_block_bounds:
  assumes "rb_invar b" "ci_ring_buf_read_block b = (rb, len, ret)"
  shows "0 \<le> len" "ret = 0 \<Longrightarrow> nat len = length (rb_contents b)"
    "nat len \<le> length (rb_contents b)" "rb_read_pos b = 0 \<Longrightarrow> ret = 0"
proof -
  from assms(1) obtain r w where rw: "rb_read_pos b = int r" "rb_write_pos b = int w"
    "r < rb_capacity b" "w < rb_capacity b" "rb_end_buf b = int (rb_capacity b) - 1"
    "rb_full b \<longrightarrow> r = w"
    using rb_invar_pos by blast
  show "0 \<le> len" "ret = 0 \<Longrightarrow> nat len = length (rb_contents b)"
    "nat len \<le> length (rb_contents b)" "rb_read_pos b = 0 \<Longrightarrow> ret = 0"
    using rw assms(2)
    by (auto simp: ci_ring_buf_read_block_def rb_contents_def Let_def min_def split: if_splits)
qed

lemma ring_read_loop_step:
  fixes k :: nat
  assumes inv: "rb_invar b" and blk: "ci_ring_buf_read_block b = (rb, len, ret)"
  defines "n \<equiv> min k (nat len)"
  defines "b' \<equiv> ci_ring_buf_consume b (int n)"
  shows "ring_read_loop b out (int k) =
           (if ret \<noteq> 0 \<and> n < k then ring_read_loop b' (out @ take n (rb_contents b)) (int (k - n))
            else Some (b', out @ take n (rb_contents b)))"
    and "rb_invar b'" and "rb_contents b' = drop n (rb_contents b)"
proof -
  have len: "0 \<le> len" using inv blk by (rule read_block_bounds)
  then have "int n \<le> len" by (simp add: n_def)
  from consume_block [OF inv blk this]
  have cb: "rb_invar b'" "rb_contents b = seg (nat rb) n (rb_buf b) @ rb_contents b'"
    "length (seg (nat rb) n (rb_buf b)) = n" by (simp_all add: b'_def)
  have out: "seg (nat rb) n (rb_buf b) = take n (rb_contents b)" "rb_contents b' = drop n (rb_contents b)"
    using cb(2,3) by (metis append_eq_conv_conj)+
  show "rb_invar b'" "rb_contents b' = drop n (rb_contents b)" using cb(1) out(2) by simp_all
  have n: "(if len \<noteq> 0 then min (int k) len else 0) = int n"
    using len by (auto simp: n_def min_def le_nat_iff)
  have b': "(if len \<noteq> 0 then b' else b) = b'"
    by (cases "len = 0") (simp_all add: b'_def n_def ci_ring_buf_consume_def)
  show "ring_read_loop b out (int k) =
           (if ret \<noteq> 0 \<and> n < k then ring_read_loop b' (out @ take n (rb_contents b)) (int (k - n))
            else Some (b', out @ take n (rb_contents b)))"
    using b' n out(1) by (subst ring_read_loop.simps) (auto simp: blk Let_def b'_def n_def)
qed

text \<open>
  \<^verbatim>\<open>ci_ring_buf_read\<close> always returns; it delivers the first bytes of the queue, as many as
  were asked for or as there are.
\<close>

lemma ring_read_refines:
  assumes inv: "rb_invar b"
  shows "\<exists>b'. ci_ring_buf_read b k = Some (b', take k (rb_contents b))
           \<and> rb_invar b' \<and> rb_contents b' = drop k (rb_contents b)"
proof -
  obtain rb len ret where blk: "ci_ring_buf_read_block b = (rb, len, ret)"
    by (cases "ci_ring_buf_read_block b") auto
  define n where "n = min k (nat len)"
  define b' where "b' = ci_ring_buf_consume b (int n)"
  note step = ring_read_loop_step [OF inv blk, where k = k, folded n_def, folded b'_def]
  note bounds = read_block_bounds [OF inv blk]
  show ?thesis
  proof (cases "ret \<noteq> 0 \<and> n < k")
    case False
    have "n = k \<or> n = length (rb_contents b) \<and> n \<le> k"
    proof (cases "ret = 0")
      case True
      with bounds(2) show ?thesis by (simp add: n_def min_def)
    next
      case ret: False
      with False show ?thesis by (simp add: n_def)
    qed
    then have "take n (rb_contents b) = take k (rb_contents b)"
      "drop n (rb_contents b) = drop k (rb_contents b)"
      by auto
    with step False show ?thesis by (auto simp: ci_ring_buf_read_def)
  next
    case True
    then have n: "n = nat len" by (auto simp: n_def)
    have "len = rb_end_buf b - rb_read_pos b + 1" "rb_read_pos b \<ge> rb_write_pos b"
      using blk True by (auto simp: ci_ring_buf_read_block_def split: if_splits)
    then have r': "rb_read_pos b' = 0"
      using n inv by (auto simp: b'_def ci_ring_buf_consume_def rb_invar_def Let_def)
    obtain rb2 len2 ret2 where blk2: "ci_ring_buf_read_block b' = (rb2, len2, ret2)"
      by (cases "ci_ring_buf_read_block b'") auto
    note bounds2 = read_block_bounds [OF step(2) blk2]
    have ret2: "ret2 = 0" using bounds2(4) r' by simp
    define n2 where "n2 = min (k - n) (nat len2)"
    define b2 where "b2 = ci_ring_buf_consume b' (int n2)"
    note step2 = ring_read_loop_step [OF step(2) blk2, where k = "k - n", folded n2_def, folded b2_def]
    have len2: "nat len2 = length (rb_contents b) - n" using bounds2(2) ret2 step(3) by simp
    have n2: "n + n2 = k \<or> n + n2 = length (rb_contents b) \<and> n + n2 \<le> k"
      using True len2 bounds(3) n by (auto simp: n2_def min_def)
    then have "take n (rb_contents b) @ take n2 (drop n (rb_contents b)) = take k (rb_contents b)"
      "drop n2 (drop n (rb_contents b)) = drop k (rb_contents b)"
      by (auto simp: take_add [symmetric] add.commute)
    moreover have "ci_ring_buf_read b k
        = Some (b2, take n (rb_contents b) @ take n2 (drop n (rb_contents b)))"
      using step(1) [of "[]"] step2(1) step(3) True ret2 by (simp add: ci_ring_buf_read_def)
    ultimately show ?thesis
      using step(3) step2(2,3) by simp
  qed
qed

section \<open>The ring buffer is a byte queue\<close>

interpretation ring: byte_fifo ci_ring_buf_write ci_ring_buf_read rb_contents rb_invar
proof
  fix b d
  assume inv: "rb_invar b"
  from ring_write_refines [OF inv, of d] obtain b' where
    b': "ci_ring_buf_write b d = Some (b', int (min (length d) (rb_room b)))" "rb_invar b'"
      "rb_contents b' = rb_contents b @ take (rb_room b) d" by blast
  have "take (rb_room b) d = take (nat (int (min (length d) (rb_room b)))) d"
    by (simp add: min_def)
  with b' show "\<exists>q' n. ci_ring_buf_write b d = Some (q', n) \<and> rb_invar q'
      \<and> 0 \<le> n \<and> n \<le> int (length d) \<and> rb_contents q' = rb_contents b @ take (nat n) d"
    by fastforce
next
  fix b k
  assume "rb_invar b"
  from ring_read_refines [OF this, of k]
  show "\<exists>q' out. ci_ring_buf_read b k = Some (q', out) \<and> rb_invar q'
      \<and> rb_contents b = out @ rb_contents q' \<and> length out \<le> k"
    by auto
qed

text \<open>
  C1: one \<^verbatim>\<open>ci_ring_buf_write\<close> returns, takes as many bytes as fit (after the write position
  when the buffer is empty, everywhere outside the unread bytes otherwise), appends exactly
  these to the queue and keeps the invariant; and one \<^verbatim>\<open>ci_ring_buf_read\<close> returns the oldest
  bytes, as many as requested or stored.
\<close>

theorem ring_buf_write_read:
  assumes "rb_invar b"
  shows "(\<exists>b'. ci_ring_buf_write b data = Some (b', int (min (length data) (rb_room b)))
           \<and> rb_invar b' \<and> rb_contents b' = rb_contents b @ take (rb_room b) data)
       \<and> (\<exists>b'. ci_ring_buf_read b k = Some (b', take k (rb_contents b))
           \<and> rb_invar b' \<and> rb_contents b' = drop k (rb_contents b))"
  using ring_write_refines [OF assms] ring_read_refines [OF assms] by blast

text \<open>A buffer of four bytes whose queue wraps around the end.\<close>

definition ring_example :: ci_ring_buf where
  "ring_example = \<lparr>rb_buf = ''cdab'', rb_end_buf = 3, rb_read_pos = 2, rb_write_pos = 1, rb_full = False\<rparr>"

theorem ring_buf_write_read_witness:
  "rb_contents ring_example = ''abc''
   \<and> (\<exists>b'. ci_ring_buf_write ring_example ''xyz'' = Some (b', 1) \<and> rb_contents b' = ''abcx'')
   \<and> (\<exists>b'. ci_ring_buf_read ring_example 2 = Some (b', ''ab'') \<and> rb_contents b' = ''c'')"
proof -
  have inv: "rb_invar ring_example" by (simp add: rb_invar_def ring_example_def)
  have c: "rb_contents ring_example = ''abc''" by (simp add: rb_contents_def ring_example_def)
  have r: "rb_room ring_example = 1" by (simp add: rb_room_def c) (simp add: ring_example_def)
  show ?thesis
    using ring_buf_write_read [OF inv, of "''xyz''" 2]
    by (auto simp: c r)
qed

text \<open>
  C2: a ring buffer is made unless one of its two allocations fails.  Over any sequence of
  writes and reads on it every call returns, and the bytes delivered followed by the bytes
  still stored are the bytes accepted: a first-in first-out queue that loses, duplicates and
  reorders nothing.
\<close>

theorem ring_buf_conserves:
  assumes "0 < sz"
  shows "case ci_ring_buf_new ok g sz of
           None \<Rightarrow> \<not> (ok 0 \<and> ok 1)
         | Some b \<Rightarrow> ok 0 \<and> ok 1 \<and> (\<exists>b' acc del. fifo_run ci_ring_buf_write ci_ring_buf_read b ops = Some (b', acc, del)
             \<and> rb_invar b' \<and> acc = del @ rb_contents b')"
proof (cases "ci_ring_buf_new ok g sz")
  case (Some b)
  then have "ok 0 \<and> ok 1" by (simp add: ci_ring_buf_new_def split: if_splits)
  with Some show ?thesis
    using ring.run_conserves [OF rb_invar_new [OF Some assms], of ops] rb_contents_new [OF Some] by simp
qed (auto simp: ci_ring_buf_new_def split: if_splits)

theorem ring_buf_conserves_witness:
  "(0::nat) < 2 \<and>
   (\<exists>b b' acc del. ci_ring_buf_new (\<lambda>_. True) (\<lambda>_. NUL) 2 = Some b
      \<and> fifo_run ci_ring_buf_write ci_ring_buf_read b [Put ''ab'', Get 1, Put ''cd'', Get 9] = Some (b', acc, del)
      \<and> rb_invar b' \<and> acc = del @ rb_contents b')"
  using ring_buf_conserves [of 2 "\<lambda>_. True" "[Put ''ab'', Get 1, Put ''cd'', Get 9]" "\<lambda>_. NUL"]
  by (simp add: ci_ring_buf_new_def del: fifo_run.simps)

end
