(* ===== verification/Mem_Buffer.thy ===== *)
theory Mem_Buffer
  imports Icap_Prelude
begin

text \<open>
  The growing memory buffer of \<^verbatim>\<open>body.c\<close> (\<^verbatim>\<open>ci_membuf_*\<close>) and the buffer of preview data of
  \<^verbatim>\<open>request_common.c\<close> (\<^verbatim>\<open>ci_buf_*\<close>).  Memory comes from an allocator that can refuse: whether
  a request for a given size succeeds is a parameter (\<open>ra\<close>), and so are the bytes of fresh memory
  (\<open>g\<close>).  \<open>mb_stored\<close> is the content of a buffer, \<open>mb_unread\<close> its part not yet read.
\<close>

unbundle bit_operations_syntax

section \<open>Structure and flags\<close>

definition CI_MEMBUF_NULL_TERMINATED :: "32 word" where "CI_MEMBUF_NULL_TERMINATED = 0x01"
definition CI_MEMBUF_HAS_EOF :: "32 word" where "CI_MEMBUF_HAS_EOF = 0x02"
definition CI_MEMBUF_RO :: "32 word" where "CI_MEMBUF_RO = 0x04"
definition CI_MEMBUF_CONST :: "32 word" where "CI_MEMBUF_CONST = 0x08"
definition CI_MEMBUF_FOREIGN_BUF :: "32 word" where "CI_MEMBUF_FOREIGN_BUF = 0x10"

definition CI_MEMBUF_USER_FLAGS :: "32 word" where
  "CI_MEMBUF_USER_FLAGS = CI_MEMBUF_NULL_TERMINATED OR CI_MEMBUF_RO"
definition CI_MEMBUF_FROM_CONTENT_FLAGS :: "32 word" where
  "CI_MEMBUF_FROM_CONTENT_FLAGS =
     CI_MEMBUF_NULL_TERMINATED OR CI_MEMBUF_RO OR CI_MEMBUF_CONST OR CI_MEMBUF_HAS_EOF"

lemmas membuf_flags = CI_MEMBUF_NULL_TERMINATED_def CI_MEMBUF_HAS_EOF_def CI_MEMBUF_RO_def
  CI_MEMBUF_CONST_def CI_MEMBUF_FOREIGN_BUF_def CI_MEMBUF_USER_FLAGS_def
  CI_MEMBUF_FROM_CONTENT_FLAGS_def

lemma membuf_flag_table [simp]:
  "has_flag CI_MEMBUF_HAS_EOF CI_MEMBUF_HAS_EOF"
  "\<not> has_flag CI_MEMBUF_HAS_EOF CI_MEMBUF_NULL_TERMINATED"
  "\<not> has_flag CI_MEMBUF_HAS_EOF CI_MEMBUF_RO"
  "\<not> has_flag CI_MEMBUF_HAS_EOF CI_MEMBUF_CONST"
  "\<not> has_flag CI_MEMBUF_HAS_EOF CI_MEMBUF_FOREIGN_BUF"
  by (simp_all add: has_flag_def membuf_flags)

record ci_membuf =
  mb_endpos :: int
  mb_readpos :: int
  mb_bufsize :: int
  mb_unlocked :: int
  mb_flags :: "32 word"
  mb_buf :: bytes
  mb_attributes :: "(string \<times> bytes) list option"

definition STARTLEN :: int where "STARTLEN = 8192"
definition INCSTEP :: int where "INCSTEP = 4096"

section \<open>Operations\<close>

definition ci_membuf_new_sized :: "bool \<Rightarrow> bool \<Rightarrow> (nat \<Rightarrow> char) \<Rightarrow> int \<Rightarrow> ci_membuf option" where
  "ci_membuf_new_sized pool_ok buf_ok g sz =
     (if \<not> pool_ok \<or> \<not> buf_ok then None
      else Some \<lparr>mb_endpos = 0, mb_readpos = 0, mb_bufsize = sz, mb_unlocked = -1, mb_flags = 0,
                 mb_buf = fresh_mem g (nat sz), mb_attributes = None\<rparr>)"

definition ci_membuf_new :: "bool \<Rightarrow> bool \<Rightarrow> (nat \<Rightarrow> char) \<Rightarrow> ci_membuf option" where
  "ci_membuf_new pool_ok buf_ok g = ci_membuf_new_sized pool_ok buf_ok g STARTLEN"

text \<open>
  A buffer over memory of the caller (\<open>buf\<close> is \<open>None\<close> for a null pointer).  With the
  \<^verbatim>\<open>NULL_TERMINATED\<close> flag the byte before the end of the content is read, whatever the size.
\<close>

definition ci_membuf_from_content ::
  "bool \<Rightarrow> bytes option \<Rightarrow> nat \<Rightarrow> nat \<Rightarrow> 32 word \<Rightarrow> ci_membuf option c_result" where
  "ci_membuf_from_content pool_ok bufp buf_size content_size fl =
     (case bufp of
        None \<Rightarrow> Ret None
      | Some m \<Rightarrow>
          if buf_size = 0 \<or> buf_size < content_size then Ret None
          else if fl AND CI_MEMBUF_FROM_CONTENT_FLAGS \<noteq> fl then Ret None
          else if has_flag fl CI_MEMBUF_NULL_TERMINATED \<and> content_size = 0 then Undef
          else
            let term = has_flag fl CI_MEMBUF_NULL_TERMINATED;
                shrink = (term \<and> m ! (content_size - 1) = NUL);
                bad = (term \<and> \<not> shrink \<and> (content_size \<ge> buf_size \<or> m ! content_size \<noteq> NUL));
                n = (if shrink then content_size - 1 else content_size)
            in if bad then Ret None
               else if \<not> pool_ok then Ret None
               else Ret (Some \<lparr>mb_endpos = int n, mb_readpos = 0, mb_bufsize = int buf_size,
                      mb_unlocked = -1, mb_flags = CI_MEMBUF_FOREIGN_BUF OR fl, mb_buf = m,
                      mb_attributes = None\<rparr>))"

definition ci_membuf_set_flag :: "ci_membuf \<Rightarrow> 32 word \<Rightarrow> ci_membuf \<times> 32 word" where
  "ci_membuf_set_flag b fl =
     (if \<not> has_flag fl CI_MEMBUF_USER_FLAGS then (b, 0)
      else let b' = b\<lparr>mb_flags := mb_flags b OR fl\<rparr> in (b', mb_flags b'))"

abbreviation membuf_terminate :: "ci_membuf \<Rightarrow> bool" where
  "membuf_terminate b \<equiv> has_flag (mb_flags b) CI_MEMBUF_NULL_TERMINATED"

definition membuf_remains :: "ci_membuf \<Rightarrow> int" where
  "membuf_remains b = mb_bufsize b - mb_endpos b - (if membuf_terminate b then 1 else 0)"

text \<open>
  The loop of \<^verbatim>\<open>ci_membuf_write\<close> that enlarges the buffer until \<open>len\<close> bytes fit; the boolean
  tells whether it ended because they do (and not because an allocation failed).  The new size is
  an \<^verbatim>\<open>int\<close>, so it must not overflow.  \<^verbatim>\<open>ci_buffer_realloc\<close> looks for its own header in front of the
  memory, which memory of the caller does not have.
\<close>

function membuf_grow ::
  "(int \<Rightarrow> bool) \<Rightarrow> (nat \<Rightarrow> char) \<Rightarrow> ci_membuf \<Rightarrow> int \<Rightarrow> (ci_membuf \<times> bool) c_result" where
  "membuf_grow ra g b len =
     (if membuf_remains b < len
      then let newsize = mb_bufsize b + INCSTEP
           in if 2 ^ 31 \<le> newsize \<or> has_flag (mb_flags b) CI_MEMBUF_FOREIGN_BUF then Undef
              else if ra newsize
              then membuf_grow ra g
                     (b\<lparr>mb_buf := grow_mem g (nat newsize) (mb_buf b), mb_bufsize := newsize\<rparr>) len
              else Ret (b, False)
      else Ret (b, True))"
  by pat_completeness auto
termination
  by (relation "measure (\<lambda>(ra, g, b, len). nat (len - membuf_remains b))")
    (auto simp: membuf_remains_def INCSTEP_def)

declare membuf_grow.simps [simp del]

text \<open>\<^verbatim>\<open>ci_membuf_write\<close>; the argument \<^verbatim>\<open>len\<close> is the length of \<open>data\<close>.\<close>

definition ci_membuf_write ::
  "(int \<Rightarrow> bool) \<Rightarrow> (nat \<Rightarrow> char) \<Rightarrow> ci_membuf \<Rightarrow> bytes \<Rightarrow> bool \<Rightarrow> (ci_membuf \<times> int) c_result" where
  "ci_membuf_write ra g b data iseof =
     (if has_flag (mb_flags b) CI_MEMBUF_RO \<or> has_flag (mb_flags b) CI_MEMBUF_CONST then Ret (b, 0)
      else if has_flag (mb_flags b) CI_MEMBUF_HAS_EOF then Ret (b, 0)
      else
        let b1 = (if iseof then b\<lparr>mb_flags := mb_flags b OR CI_MEMBUF_HAS_EOF\<rparr> else b)
        in if membuf_remains b1 < -1 then Abort
           else c_bind (membuf_grow ra g b1 (int (length data))) (\<lambda>(b2, ok).
             if \<not> ok then
               let remains = membuf_remains b2 in
               if remains \<ge> 0
               then let b3 = b2\<lparr>mb_buf := mem_write (nat (mb_endpos b2)) (take (nat remains) data) (mb_buf b2)\<rparr>
                    in if membuf_terminate b2
                       then Ret (b3\<lparr>mb_endpos := mb_bufsize b2 - 1,
                                    mb_buf := (mb_buf b3)[nat (mb_bufsize b2 - 1) := NUL]\<rparr>, remains)
                       else Ret (b3\<lparr>mb_endpos := mb_bufsize b2\<rparr>, remains)
               else Ret (b2, remains)
             else
               let b3 = b2\<lparr>mb_buf := mem_write (nat (mb_endpos b2)) data (mb_buf b2),
                           mb_endpos := mb_endpos b2 + int (length data)\<rparr>;
                   b4 = (if membuf_terminate b3
                         then b3\<lparr>mb_buf := (mb_buf b3)[nat (mb_endpos b3) := NUL]\<rparr> else b3)
               in Ret (b4, int (length data))))"

text \<open>\<^verbatim>\<open>ci_membuf_read\<close>: the new buffer, the return value, and the bytes copied to \<^verbatim>\<open>data\<close>.\<close>

definition ci_membuf_read :: "ci_membuf \<Rightarrow> nat \<Rightarrow> (ci_membuf \<times> int \<times> bytes) c_result" where
  "ci_membuf_read b len =
     (let remains = (if mb_unlocked b \<ge> 0 then mb_unlocked b - mb_readpos b
                     else mb_endpos b - mb_readpos b)
      in if remains < 0 then Abort
         else if remains = 0 \<and> has_flag (mb_flags b) CI_MEMBUF_HAS_EOF then Ret (b, CI_EOF, [])
         else let n = (if int len \<le> remains then int len else remains)
              in Ret (b\<lparr>mb_readpos := mb_readpos b + n\<rparr>, n,
                      seg (nat (mb_readpos b)) (nat n) (mb_buf b)))"

text \<open>Attributes are kept in a \<^verbatim>\<open>ci_array\<close>; \<open>new_ok\<close> and \<open>add_ok\<close> tell whether it has room.\<close>

definition ci_membuf_attr_add ::
  "bool \<Rightarrow> bool \<Rightarrow> ci_membuf \<Rightarrow> string \<Rightarrow> bytes \<Rightarrow> ci_membuf \<times> bool" where
  "ci_membuf_attr_add new_ok add_ok b attr val =
     (let b1 = (if mb_attributes b = None \<and> new_ok then b\<lparr>mb_attributes := Some []\<rparr> else b)
      in case mb_attributes b1 of
           None \<Rightarrow> (b1, False)
         | Some as \<Rightarrow> if add_ok then (b1\<lparr>mb_attributes := Some (as @ [(attr, val)])\<rparr>, True)
                     else (b1, False))"

definition ci_membuf_attr_get :: "ci_membuf \<Rightarrow> string \<Rightarrow> bytes option" where
  "ci_membuf_attr_get b attr =
     (case mb_attributes b of None \<Rightarrow> None | Some as \<Rightarrow> map_of as attr)"

definition ci_membuf_truncate :: "ci_membuf \<Rightarrow> int \<Rightarrow> ci_membuf \<times> bool" where
  "ci_membuf_truncate b new_size =
     (if mb_endpos b < new_size then (b, False)
      else let b1 = b\<lparr>mb_endpos := new_size\<rparr>;
               b2 = (if membuf_terminate b1
                     then b1\<lparr>mb_buf := (mb_buf b1)[nat (mb_endpos b1) := NUL]\<rparr> else b1);
               b3 = (if mb_readpos b2 > mb_endpos b2 then b2\<lparr>mb_readpos := mb_endpos b2\<rparr> else b2);
               b4 = (if mb_unlocked b3 > mb_endpos b3 then b3\<lparr>mb_unlocked := mb_endpos b3\<rparr> else b3)
           in (b4, True))"

definition ci_membuf_lock_all :: "ci_membuf \<Rightarrow> ci_membuf" where
  "ci_membuf_lock_all b = b\<lparr>mb_unlocked := 0\<rparr>"

definition ci_membuf_unlock :: "ci_membuf \<Rightarrow> int \<Rightarrow> ci_membuf" where
  "ci_membuf_unlock b len = b\<lparr>mb_unlocked := (if mb_readpos b > len then mb_readpos b else len)\<rparr>"

definition ci_membuf_unlock_all :: "ci_membuf \<Rightarrow> ci_membuf" where
  "ci_membuf_unlock_all b = b\<lparr>mb_unlocked := -1\<rparr>"

section \<open>The buffer of preview data\<close>

record ci_buf =
  cb_buf :: "bytes option"
  cb_size :: int
  cb_used :: int

definition ci_buf_init :: ci_buf where
  "ci_buf_init = \<lparr>cb_buf = None, cb_size = 0, cb_used = 0\<rparr>"

definition ci_buf_reset :: "ci_buf \<Rightarrow> ci_buf" where
  "ci_buf_reset b = b\<lparr>cb_used := 0\<rparr>"

definition ci_buf_mem_alloc :: "(int \<Rightarrow> bool) \<Rightarrow> (nat \<Rightarrow> char) \<Rightarrow> ci_buf \<Rightarrow> int \<Rightarrow> ci_buf \<times> int" where
  "ci_buf_mem_alloc ra g b sz =
     (if \<not> ra sz then (b\<lparr>cb_buf := None\<rparr>, 0)
      else (b\<lparr>cb_buf := Some (fresh_mem g (nat sz)), cb_size := sz, cb_used := 0\<rparr>, sz))"

definition ci_buf_mem_free :: "ci_buf \<Rightarrow> ci_buf" where
  "ci_buf_mem_free b = b\<lparr>cb_buf := None, cb_size := 0, cb_used := 0\<rparr>"

text \<open>With \<open>len > 0\<close> and no memory the copy goes through a null pointer.\<close>

definition ci_buf_write :: "ci_buf \<Rightarrow> bytes \<Rightarrow> (ci_buf \<times> int) c_result" where
  "ci_buf_write b data =
     (if int (length data) > cb_size b - cb_used b then Ret (b, -1)
      else case cb_buf b of
        None \<Rightarrow> if data = [] then Ret (b, 0) else Undef
      | Some m \<Rightarrow> Ret (b\<lparr>cb_buf := Some (mem_write (nat (cb_used b)) data m),
                         cb_used := cb_used b + int (length data)\<rparr>, int (length data)))"

definition ci_buf_reset_size :: "(int \<Rightarrow> bool) \<Rightarrow> (nat \<Rightarrow> char) \<Rightarrow> ci_buf \<Rightarrow> int \<Rightarrow> ci_buf \<times> int" where
  "ci_buf_reset_size ra g b req_size =
     (if cb_size b > req_size then (b, req_size)
      else ci_buf_mem_alloc ra g (b\<lparr>cb_buf := None\<rparr>) req_size)"

text \<open>A buffer with memory of its size, and the bytes written to it.\<close>

definition cb_ok :: "ci_buf \<Rightarrow> bool" where
  "cb_ok b \<longleftrightarrow> (\<exists>m. cb_buf b = Some m \<and> cb_size b = int (length m) \<and> 0 \<le> cb_used b \<and> cb_used b \<le> cb_size b)"

definition cb_contents :: "ci_buf \<Rightarrow> bytes" where
  "cb_contents b = (case cb_buf b of None \<Rightarrow> [] | Some m \<Rightarrow> take (nat (cb_used b)) m)"

lemma ci_buf_write_ok:
  assumes "cb_ok b" "int (length d) \<le> cb_size b - cb_used b"
  obtains b' where "ci_buf_write b d = Ret (b', int (length d))" "cb_ok b'"
    "cb_contents b' = cb_contents b @ d" "cb_size b' = cb_size b"
    "cb_used b' = cb_used b + int (length d)"
proof -
  obtain m where m: "cb_buf b = Some m" "cb_size b = int (length m)" "0 \<le> cb_used b"
      "cb_used b \<le> cb_size b"
    using assms(1) by (auto simp: cb_ok_def)
  obtain u where u: "cb_used b = int u" using m(3) by (rule nonneg_int_cases)
  let ?b = "b\<lparr>cb_buf := Some (mem_write u d m), cb_used := int u + int (length d)\<rparr>"
  have le: "u + length d \<le> length m" using assms(2) m u by simp
  have "ci_buf_write b d = Ret (?b, int (length d))"
    using assms(2) m u by (simp add: ci_buf_write_def)
  moreover have "cb_ok ?b" using m u le by (simp add: cb_ok_def)
  moreover have "cb_contents ?b = cb_contents b @ d"
    using take_mem_write_end [of u m d] le m u by (simp add: cb_contents_def)
  ultimately show ?thesis using u by (intro that [of ?b]) simp_all
qed

section \<open>Invariant and abstraction\<close>

definition mb_invar :: "ci_membuf \<Rightarrow> bool" where
  "mb_invar b \<longleftrightarrow> 0 \<le> mb_readpos b \<and> mb_readpos b \<le> mb_endpos b \<and> mb_endpos b \<le> mb_bufsize b
     \<and> mb_bufsize b = int (length (mb_buf b))"

definition mb_stored :: "ci_membuf \<Rightarrow> bytes" where
  "mb_stored b = take (nat (mb_endpos b)) (mb_buf b)"

definition mb_unread :: "ci_membuf \<Rightarrow> bytes" where
  "mb_unread b = drop (nat (mb_readpos b)) (mb_stored b)"

text \<open>A buffer that takes writes: owned, not marked read-only, no end of data seen.\<close>

definition mb_writable :: "ci_membuf \<Rightarrow> bool" where
  "mb_writable b \<longleftrightarrow> \<not> has_flag (mb_flags b) CI_MEMBUF_RO \<and> \<not> has_flag (mb_flags b) CI_MEMBUF_CONST
     \<and> \<not> has_flag (mb_flags b) CI_MEMBUF_HAS_EOF"

lemma mb_invar_new: "0 \<le> sz \<Longrightarrow> ci_membuf_new_sized True True g sz = Some b \<Longrightarrow> mb_invar b"
  by (auto simp: ci_membuf_new_sized_def mb_invar_def)

text \<open>Growing changes nothing but the capacity.\<close>

lemma membuf_grow_frame:
  assumes "mb_invar b" "membuf_grow ra g b len = Ret (b', ok)"
  shows "mb_invar b' \<and> mb_stored b' = mb_stored b \<and> mb_endpos b' = mb_endpos b
    \<and> mb_readpos b' = mb_readpos b \<and> mb_flags b' = mb_flags b \<and> mb_unlocked b' = mb_unlocked b
    \<and> membuf_remains b \<le> membuf_remains b'
    \<and> (ok \<longrightarrow> len \<le> membuf_remains b') \<and> (\<not> ok \<longrightarrow> membuf_remains b' < len)"
  using assms
proof (induction ra g b len rule: membuf_grow.induct)
  case (1 ra g b len)
  let ?n = "mb_bufsize b + INCSTEP"
  let ?b = "b\<lparr>mb_buf := grow_mem g (nat ?n) (mb_buf b), mb_bufsize := ?n\<rparr>"
  show ?case
  proof (cases "membuf_remains b < len \<and> ra ?n")
    case True
    have ok: "\<not> (2 ^ 31 \<le> ?n \<or> has_flag (mb_flags b) CI_MEMBUF_FOREIGN_BUF)"
      using "1.prems"(2) True by (auto simp: membuf_grow.simps [of ra g b len] Let_def split: if_splits)
    have inv: "mb_invar ?b"
      using "1.prems"(1) by (simp add: mb_invar_def INCSTEP_def)
    have st: "mb_stored ?b = mb_stored b" "membuf_remains b \<le> membuf_remains ?b"
      using "1.prems"(1) by (auto simp: mb_stored_def mb_invar_def membuf_remains_def INCSTEP_def)
    have gr: "membuf_grow ra g ?b len = Ret (b', ok)"
      using "1.prems"(2) True ok by (simp add: membuf_grow.simps [of ra g b len] Let_def)
    from "1.IH" [OF _ refl ok _ inv gr] True st show ?thesis by auto
  next
    case False
    with "1.prems" show ?thesis
      by (auto simp: membuf_grow.simps [of ra g b len] Let_def split: if_splits)
  qed
qed

text \<open>Growing returns as long as the size that is needed, with one more step, is an \<^verbatim>\<open>int\<close>.\<close>

definition mb_growable :: "ci_membuf \<Rightarrow> nat \<Rightarrow> bool" where
  "mb_growable b len \<longleftrightarrow> int len \<le> membuf_remains b
     \<or> \<not> has_flag (mb_flags b) CI_MEMBUF_FOREIGN_BUF \<and> mb_endpos b + int len + INCSTEP < 2 ^ 31"

lemma membuf_grow_returns:
  assumes "mb_growable b len"
  shows "\<exists>b' ok. membuf_grow ra g b (int len) = Ret (b', ok) \<and> ((\<forall>n. ra n) \<longrightarrow> ok)"
  using assms
proof (induction ra g b "int len" rule: membuf_grow.induct)
  case (1 ra g b)
  let ?n = "mb_bufsize b + INCSTEP"
  let ?b = "b\<lparr>mb_buf := grow_mem g (nat ?n) (mb_buf b), mb_bufsize := ?n\<rparr>"
  show ?case
  proof (cases "membuf_remains b < int len")
    case True
    then have ok: "\<not> (2 ^ 31 \<le> ?n \<or> has_flag (mb_flags b) CI_MEMBUF_FOREIGN_BUF)"
      using "1.prems" by (auto simp: mb_growable_def membuf_remains_def split: if_splits)
    have "mb_growable ?b len" using True "1.prems" by (auto simp: mb_growable_def)
    then have "\<exists>b' ok. membuf_grow ra g ?b (int len) = Ret (b', ok) \<and> ((\<forall>n. ra n) \<longrightarrow> ok)" if "ra ?n"
      using "1.hyps" [OF True refl ok that] by blast
    then show ?thesis using True ok by (subst (1) membuf_grow.simps) (auto simp: Let_def)
  qed (subst membuf_grow.simps, auto)
qed

lemma mb_stored_append:
  assumes "mb_invar b" "mb_endpos b + int (length d) \<le> mb_bufsize b"
  shows "mb_stored (b\<lparr>mb_buf := mem_write (nat (mb_endpos b)) d (mb_buf b),
           mb_endpos := mb_endpos b + int (length d)\<rparr>) = mb_stored b @ d"
proof -
  have "nat (mb_endpos b + int (length d)) = nat (mb_endpos b) + length d"
    using assms by (simp add: mb_invar_def nat_add_distrib)
  with assms show ?thesis
    by (simp add: mb_stored_def mb_invar_def take_mem_write_end)
qed

lemma mb_stored_terminate:
  "mb_stored (b\<lparr>mb_buf := (mb_buf b)[nat (mb_endpos b) := NUL]\<rparr>) = mb_stored b"
  by (simp add: mb_stored_def)

lemma mb_invar_append:
  assumes "mb_invar b" "mb_endpos b + int (length d) \<le> mb_bufsize b"
  shows "mb_invar (b\<lparr>mb_buf := mem_write (nat (mb_endpos b)) d (mb_buf b),
           mb_endpos := mb_endpos b + int (length d)\<rparr>)"
  using assms by (auto simp: mb_invar_def)

text \<open>
  The two endings of \<^verbatim>\<open>ci_membuf_write\<close>, after the loop that grows the buffer: all of the data is
  appended, or, when the allocator refused, the part that fits.
\<close>

lemma membuf_write_tail:
  assumes inv: "mb_invar b" and w: "mb_writable b"
    and gr: "membuf_grow ra g (if iseof then b\<lparr>mb_flags := mb_flags b OR CI_MEMBUF_HAS_EOF\<rparr> else b)
               (int (length data)) = Ret (b2, ok)"
  defines "n \<equiv> (if ok then int (length data) else membuf_remains b2)"
  shows "\<exists>b'. ci_membuf_write ra g b data iseof = Ret (b', n) \<and> mb_invar b'
    \<and> mb_stored b' = mb_stored b @ take (nat n) data
    \<and> mb_readpos b' = mb_readpos b \<and> mb_flags b' = mb_flags b2
    \<and> (0 \<le> n \<and> membuf_terminate b \<longrightarrow> mb_endpos b' < mb_bufsize b'
         \<and> mb_buf b' ! nat (mb_endpos b') = NUL)"
proof -
  let ?b1 = "if iseof then b\<lparr>mb_flags := mb_flags b OR CI_MEMBUF_HAS_EOF\<rparr> else b"
  have trm: "membuf_terminate ?b1 = membuf_terminate b"
    by simp
  have inv1: "mb_invar ?b1" using inv by (simp add: mb_invar_def)
  note fr = membuf_grow_frame [OF inv1 gr]
  have st: "mb_stored b2 = mb_stored b" "mb_readpos b2 = mb_readpos b" "mb_endpos b2 = mb_endpos b"
    using fr by (cases iseof; simp add: mb_stored_def)+
  have trm2: "membuf_terminate b2 = membuf_terminate b" using fr trm by simp
  have noabort: "\<not> membuf_remains ?b1 < -1"
    using inv1 by (simp add: membuf_remains_def mb_invar_def)
  have inv2: "mb_invar b2" and rem: "ok \<Longrightarrow> int (length data) \<le> membuf_remains b2"
    "\<not> ok \<Longrightarrow> membuf_remains b2 < int (length data)" using fr by simp_all
  let ?d = "take (nat n) data"
  have wr: "ci_membuf_write ra g b data iseof =
      (if n < 0 then Ret (b2, n) else
         let b3 = b2\<lparr>mb_buf := mem_write (nat (mb_endpos b2)) ?d (mb_buf b2),
                     mb_endpos := mb_endpos b2 + int (length ?d)\<rparr>
         in Ret (if membuf_terminate b then b3\<lparr>mb_buf := (mb_buf b3)[nat (mb_endpos b3) := NUL]\<rparr> else b3, n))"
  proof (cases ok)
    case True
    with w gr noabort trm2 show ?thesis
      by (auto simp: ci_membuf_write_def mb_writable_def Let_def n_def)
  next
    case False
    have len: "\<not> n < 0 \<Longrightarrow> int (length ?d) = membuf_remains b2"
      using False rem by (auto simp: n_def min_def)
    have "\<not> n < 0 \<Longrightarrow> mb_endpos b2 + int (length ?d) = mb_bufsize b2 - (if membuf_terminate b then 1 else 0)"
      using len trm2 by (simp add: membuf_remains_def)
    with False w gr noabort trm2 show ?thesis
      by (auto simp: ci_membuf_write_def mb_writable_def Let_def n_def)
  qed
  show ?thesis
  proof (cases "n < 0")
    case True
    then have "nat n = 0" by simp
    with True wr st inv2 show ?thesis by simp
  next
    case False
    have fit: "mb_endpos b2 + int (length ?d) \<le> mb_bufsize b2 - (if membuf_terminate b then 1 else 0)"
      using rem trm2 False by (cases ok) (auto simp: n_def membuf_remains_def)
    then have fit': "mb_endpos b2 + int (length ?d) \<le> mb_bufsize b2" by (simp split: if_splits)
    define b3 where "b3 = b2\<lparr>mb_buf := mem_write (nat (mb_endpos b2)) ?d (mb_buf b2),
                     mb_endpos := mb_endpos b2 + int (length ?d)\<rparr>"
    have b3: "mb_invar b3" "mb_stored b3 = mb_stored b @ ?d" "mb_flags b3 = mb_flags b2"
      "mb_readpos b3 = mb_readpos b"
      using mb_invar_append [OF inv2 fit'] mb_stored_append [OF inv2 fit'] st
      by (simp_all add: b3_def)
    have lt: "membuf_terminate b \<Longrightarrow> mb_endpos b3 < mb_bufsize b3"
      using fit by (simp add: b3_def)
    let ?b4 = "b3\<lparr>mb_buf := (mb_buf b3)[nat (mb_endpos b3) := NUL]\<rparr>"
    have b4: "mb_invar ?b4" "mb_stored ?b4 = mb_stored b @ ?d"
      using b3 mb_stored_terminate [of b3] by (simp_all add: mb_invar_def)
    have nul: "membuf_terminate b \<Longrightarrow> mb_buf ?b4 ! nat (mb_endpos b3) = NUL"
      using lt b3(1) by (auto simp: mb_invar_def intro!: nth_list_update_eq)
    have "ci_membuf_write ra g b data iseof = Ret (if membuf_terminate b then ?b4 else b3, n)"
      using wr False unfolding b3_def [symmetric] Let_def by simp
    then show ?thesis
      using b3 b4 lt nul by (cases "membuf_terminate b") simp_all
  qed
qed

text \<open>
  C3: whatever the allocator does, \<^verbatim>\<open>ci_membuf_write\<close> on a writable buffer returns, stores exactly
  the number of bytes it reports after what was there, records the end of data, and keeps the
  invariant; a buffer with \<^verbatim>\<open>CI_MEMBUF_NULL_TERMINATED\<close> is terminated behind its content.  When
  every allocation succeeds it stores everything.  It is required that the data fits without
  growing, or that the buffer is not over memory of the caller and the size of its content, with that of the
  data and one step of growth, is below \<open>2 ^ 31\<close>; beyond that the code overflows an \<^verbatim>\<open>int\<close>.
\<close>

theorem membuf_write_stores:
  assumes "mb_invar b" "mb_writable b" "mb_growable b (length data)"
  shows "\<exists>b' n. ci_membuf_write ra g b data iseof = Ret (b', n) \<and> mb_invar b'
    \<and> n \<le> int (length data) \<and> mb_stored b' = mb_stored b @ take (nat n) data
    \<and> has_flag (mb_flags b') CI_MEMBUF_HAS_EOF = iseof
    \<and> (0 \<le> n \<and> membuf_terminate b \<longrightarrow> mb_endpos b' < mb_bufsize b'
         \<and> mb_buf b' ! nat (mb_endpos b') = NUL)
    \<and> ((\<forall>s. ra s) \<longrightarrow> n = int (length data))"
proof -
  let ?b1 = "if iseof then b\<lparr>mb_flags := mb_flags b OR CI_MEMBUF_HAS_EOF\<rparr> else b"
  have "mb_growable ?b1 (length data)" using assms(3) by (auto simp: mb_growable_def membuf_remains_def)
  then obtain b2 ok where gr: "membuf_grow ra g ?b1 (int (length data)) = Ret (b2, ok)" and ok: "(\<forall>s. ra s) \<Longrightarrow> ok"
    using membuf_grow_returns [of ?b1 "length data" ra g] by blast
  have inv1: "mb_invar ?b1" using assms(1) by (simp add: mb_invar_def)
  note fr = membuf_grow_frame [OF inv1 gr]
  have eof: "has_flag (mb_flags b2) CI_MEMBUF_HAS_EOF = iseof"
    using fr assms(2) by (simp add: mb_writable_def)
  show ?thesis
    using membuf_write_tail [OF assms(1,2) gr] fr eof ok by (cases ok) fastforce+
qed

theorem membuf_write_stores_witness:
  "\<exists>b' n. ci_membuf_write (\<lambda>_. False) (\<lambda>_. NUL)
       \<lparr>mb_endpos = 1, mb_readpos = 0, mb_bufsize = 4, mb_unlocked = -1, mb_flags = 1,
        mb_buf = ''a'' @ [NUL, NUL, NUL], mb_attributes = None\<rparr> ''bcdef'' True = Ret (b', n)
     \<and> n \<le> 5 \<and> mb_stored b' = ''a'' @ take (nat n) ''bcdef''"
proof -
  let ?b = "\<lparr>mb_endpos = 1, mb_readpos = 0, mb_bufsize = 4, mb_unlocked = -1, mb_flags = 1,
        mb_buf = ''a'' @ [NUL, NUL, NUL], mb_attributes = None\<rparr> :: ci_membuf"
  have "mb_invar ?b" "mb_writable ?b" "mb_stored ?b = ''a''" "mb_growable ?b (length ''bcdef'')"
    by (simp_all add: mb_invar_def mb_writable_def has_flag_def membuf_flags mb_stored_def mb_growable_def INCSTEP_def)
  with membuf_write_stores [of ?b "''bcdef''" "\<lambda>_. False" "\<lambda>_. NUL" True]
  show ?thesis by auto
qed

text \<open>Near the largest \<^verbatim>\<open>int\<close> a write is undefined, though memory could be had.\<close>

theorem membuf_write_overflows:
  assumes "mb_writable b" "mb_invar b" "2 ^ 31 - INCSTEP \<le> mb_bufsize b" "membuf_remains b < int (length data)"
  shows "ci_membuf_write ra g b data iseof = Undef"
proof -
  let ?b1 = "if iseof then b\<lparr>mb_flags := mb_flags b OR CI_MEMBUF_HAS_EOF\<rparr> else b"
  have "membuf_remains ?b1 = membuf_remains b" by (simp add: membuf_remains_def)
  then have "membuf_grow ra g ?b1 (int (length data)) = Undef" using assms(3,4) by (subst membuf_grow.simps) (simp add: Let_def)
  moreover have "\<not> membuf_remains ?b1 < -1" using assms(2) by (auto simp: membuf_remains_def mb_invar_def)
  ultimately show ?thesis using assms(1) by (simp add: ci_membuf_write_def mb_writable_def Let_def)
qed

text \<open>
  What a read may deliver: a locked buffer keeps the bytes behind \<^verbatim>\<open>unlocked\<close> back.  The position has to lie between the
  read position and the end of the data, or the assertion of \<^verbatim>\<open>ci_membuf_read\<close> fails or bytes
  behind the end are read.
\<close>

definition mb_limit :: "ci_membuf \<Rightarrow> int" where
  "mb_limit b = (if mb_unlocked b \<ge> 0 then mb_unlocked b else mb_endpos b)"

definition mb_lock_ok :: "ci_membuf \<Rightarrow> bool" where
  "mb_lock_ok b \<longleftrightarrow> mb_unlocked b < 0 \<or> mb_readpos b \<le> mb_unlocked b \<and> mb_unlocked b \<le> mb_endpos b"

definition mb_available :: "ci_membuf \<Rightarrow> bytes" where
  "mb_available b = take (nat (mb_limit b - mb_readpos b)) (mb_unread b)"

lemma mb_available_seg:
  assumes "mb_invar b" "mb_lock_ok b"
  shows "int (length (mb_available b)) = mb_limit b - mb_readpos b"
    and "k \<le> length (mb_available b) \<Longrightarrow> take k (mb_available b) = seg (nat (mb_readpos b)) k (mb_buf b)"
proof -
  have lim: "mb_readpos b \<le> mb_limit b" "mb_limit b \<le> mb_endpos b" using assms by (auto simp: mb_limit_def mb_lock_ok_def mb_invar_def)
  have un: "mb_unread b = seg (nat (mb_readpos b)) (nat (mb_endpos b) - nat (mb_readpos b)) (mb_buf b)"
    by (simp add: mb_unread_def mb_stored_def seg_def drop_take)
  show len: "int (length (mb_available b)) = mb_limit b - mb_readpos b"
    using assms(1) lim by (auto simp: mb_available_def mb_unread_def mb_stored_def mb_invar_def)
  have "mb_available b = seg (nat (mb_readpos b)) (nat (mb_limit b - mb_readpos b)) (mb_buf b)"
    using lim assms(1) by (simp add: mb_available_def un seg_def min_def mb_invar_def nat_diff_distrib' nat_mono diff_le_mono)
  then show "take k (mb_available b) = seg (nat (mb_readpos b)) k (mb_buf b)" if "k \<le> length (mb_available b)"
  proof -
    have "k \<le> nat (mb_limit b - mb_readpos b)" using that len by simp
    then show ?thesis using \<open>mb_available b = _\<close> by (simp add: seg_def min_def)
  qed
qed

lemma membuf_read_available:
  assumes "mb_invar b" "mb_lock_ok b"
  shows "ci_membuf_read b len =
     (if mb_available b = [] \<and> has_flag (mb_flags b) CI_MEMBUF_HAS_EOF then Ret (b, CI_EOF, [])
      else Ret (b\<lparr>mb_readpos := mb_readpos b + int (min len (length (mb_available b)))\<rparr>,
                int (min len (length (mb_available b))), take len (mb_available b)))"
proof -
  have len: "int (length (mb_available b)) = mb_limit b - mb_readpos b" by (rule mb_available_seg(1) [OF assms])
  have "take len (mb_available b) = seg (nat (mb_readpos b)) (min len (length (mb_available b))) (mb_buf b)"
    using mb_available_seg(2) [OF assms, of "min len (length (mb_available b))"] by (cases "len \<le> length (mb_available b)") auto
  moreover have "(if mb_unlocked b \<ge> 0 then mb_unlocked b - mb_readpos b else mb_endpos b - mb_readpos b) = int (length (mb_available b))"
    using len by (simp add: mb_limit_def)
  ultimately show ?thesis by (simp add: ci_membuf_read_def Let_def min_def)
qed

text \<open>
  C4: reading a buffer, locked or not, delivers the oldest unread bytes that the lock does not keep back, and
  removes them; what is kept back stays unread.  \<^verbatim>\<open>CI_EOF\<close> is reported exactly when nothing is available
  and the end of data was recorded: for a buffer that is not locked this means that everything was read,
  for a locked one bytes may be kept back.  The unlocked position of a locked buffer has to lie between the
  read position and the end of the data.
\<close>

theorem membuf_read_delivers:
  assumes "mb_invar b" "mb_lock_ok b"
  shows "\<exists>b' out. mb_unread b = out @ mb_unread b' \<and> mb_available b = out @ mb_available b' \<and> mb_stored b' = mb_stored b
     \<and> mb_invar b' \<and> mb_lock_ok b' \<and> (mb_unlocked b < 0 \<longrightarrow> mb_available b = mb_unread b)
     \<and> (if mb_available b = [] \<and> has_flag (mb_flags b) CI_MEMBUF_HAS_EOF
         then out = [] \<and> ci_membuf_read b len = Ret (b', CI_EOF, out)
         else out = take len (mb_available b) \<and> ci_membuf_read b len = Ret (b', int (length out), out))"
proof -
  have all: "mb_unlocked b < 0 \<longrightarrow> mb_available b = mb_unread b"
    using assms(1) by (auto simp: mb_available_def mb_limit_def mb_unread_def mb_stored_def mb_invar_def)
  show ?thesis
  proof (cases "mb_available b = [] \<and> has_flag (mb_flags b) CI_MEMBUF_HAS_EOF")
    case True
    then show ?thesis using membuf_read_available [OF assms] assms all by auto
  next
    case False
    define k where "k = min len (length (mb_available b))"
    let ?b' = "b\<lparr>mb_readpos := mb_readpos b + int k\<rparr>"
    have len: "int (length (mb_available b)) = mb_limit b - mb_readpos b" by (rule mb_available_seg(1) [OF assms])
    have k: "int k \<le> mb_limit b - mb_readpos b" using len by (simp add: k_def)
    have lim: "mb_limit b \<le> mb_endpos b" using assms by (auto simp: mb_limit_def mb_lock_ok_def mb_invar_def)
    have ok: "mb_invar ?b'" "mb_lock_ok ?b'" using assms k lim by (auto simp: mb_invar_def mb_lock_ok_def mb_limit_def split: if_splits)
    have un: "mb_unread ?b' = drop k (mb_unread b)"
      using assms(1) by (simp add: mb_unread_def mb_stored_def mb_invar_def nat_add_distrib add.commute)
    have av: "mb_available ?b' = drop k (mb_available b)"
    proof -
      have "mb_limit ?b' = mb_limit b" by (simp add: mb_limit_def)
      moreover have "nat (mb_limit b - (mb_readpos b + int k)) = nat (mb_limit b - mb_readpos b) - k" using k by simp
      ultimately show ?thesis by (simp add: mb_available_def un drop_take)
    qed
    have tk: "take k (mb_unread b) = take len (mb_available b)" and out: "length (take len (mb_available b)) = k" "take len (mb_available b) = take k (mb_available b)"
      by (auto simp: k_def mb_available_def min_def)
    have "ci_membuf_read b len = Ret (?b', int (length (take len (mb_available b))), take len (mb_available b))"
      using membuf_read_available [OF assms, of len] False out(1) by (simp add: k_def)
    moreover have "mb_unread b = take len (mb_available b) @ mb_unread ?b'" using un tk append_take_drop_id by metis
    moreover have "mb_available b = take len (mb_available b) @ mb_available ?b'" using av out(2) append_take_drop_id by metis
    moreover have "mb_stored ?b' = mb_stored b" by (simp add: mb_stored_def)
    ultimately show ?thesis using False ok all by metis
  qed
qed

theorem membuf_read_delivers_witness:
  "let b = \<lparr>mb_endpos = 4, mb_readpos = 1, mb_bufsize = 4, mb_unlocked = 3, mb_flags = 2,
        mb_buf = ''abcd'', mb_attributes = None\<rparr> in
   mb_available b = ''bc'' \<and> (\<exists>b'. mb_unread b' = ''d'' \<and> ci_membuf_read b 9 = Ret (b', 2, ''bc''))"
proof -
  let ?b = "\<lparr>mb_endpos = 4, mb_readpos = 1, mb_bufsize = 4, mb_unlocked = 3, mb_flags = 2,
        mb_buf = ''abcd'', mb_attributes = None\<rparr> :: ci_membuf"
  have "mb_invar ?b" "mb_lock_ok ?b" and un: "mb_available ?b = ''bc''" "mb_unread ?b = ''bcd''"
    by (simp_all add: mb_invar_def mb_lock_ok_def mb_available_def mb_limit_def mb_unread_def mb_stored_def)
  from membuf_read_delivers [OF this(1,2), of 9] show ?thesis by (auto simp: un)
qed

text \<open>A locked buffer whose unlocked part is read reports the end of the data while bytes are kept back.\<close>

theorem locked_membuf_reports_eof:
  "let b = \<lparr>mb_endpos = 4, mb_readpos = 3, mb_bufsize = 4, mb_unlocked = 3, mb_flags = 2, mb_buf = ''abcd'', mb_attributes = None\<rparr> in
   mb_unread b = ''d'' \<and> ci_membuf_read b 9 = Ret (b, CI_EOF, [])"
  by (simp add: mb_unread_def mb_stored_def ci_membuf_read_def has_flag_def membuf_flags)

end
