(* ===== verification/Simple_File.thy ===== *)
theory Simple_File
  imports Mem_Buffer
begin

text \<open>
  Files that hold body data: \<^verbatim>\<open>ci_simple_file_*\<close> of \<^verbatim>\<open>body.c\<close>.  The record carries the fields of
  \<^verbatim>\<open>struct ci_simple_file\<close> and, as \<open>sf_file\<close>, the bytes of the file behind its descriptor.  What
  the operating system does with one \<^verbatim>\<open>write\<close> or \<^verbatim>\<open>read\<close> is a parameter \<open>lim\<close>: \<open>None\<close> is an error,
  \<open>Some k\<close> transfers at most \<open>k\<close> bytes.  A file with a \<^verbatim>\<open>max_store_size\<close> may be used as a ring
  (write position behind the read position); \<open>sf_contents\<close> is the queue of bytes not yet read.
\<close>

unbundle bit_operations_syntax

section \<open>Interrupted system calls\<close>

text \<open>
  \<^verbatim>\<open>do_write\<close>, \<^verbatim>\<open>do_read\<close>, \<^verbatim>\<open>do_open\<close> and \<^verbatim>\<open>do_close\<close> repeat a call while it fails with \<^verbatim>\<open>EINTR\<close>.
  The argument is what the successive calls return.
\<close>

datatype io_attempt = IO_ok int | IO_eintr | IO_err

fun do_io :: "io_attempt list \<Rightarrow> int option" where
  "do_io [] = None"
| "do_io (IO_ok n # _) = Some n"
| "do_io (IO_err # _) = Some (-1)"
| "do_io (IO_eintr # as) = do_io as"

lemma do_io_result:
  "do_io as = (case dropWhile (\<lambda>a. a = IO_eintr) as of
       [] \<Rightarrow> None | a # _ \<Rightarrow> Some (case a of IO_ok n \<Rightarrow> n | _ \<Rightarrow> -1))"
  by (induction as rule: do_io.induct) simp_all

section \<open>Structure\<close>

definition CI_FILE_USELOCK :: "32 word" where "CI_FILE_USELOCK = 0x01"
definition CI_FILE_HAS_EOF :: "32 word" where "CI_FILE_HAS_EOF = 0x02"
definition CI_FILE_RING_MODE :: "32 word" where "CI_FILE_RING_MODE = 0x04"

lemmas file_flags = CI_FILE_USELOCK_def CI_FILE_HAS_EOF_def CI_FILE_RING_MODE_def

lemma file_flag_table [simp]:
  "has_flag CI_FILE_HAS_EOF CI_FILE_HAS_EOF" "has_flag CI_FILE_USELOCK CI_FILE_USELOCK"
  "\<not> has_flag CI_FILE_HAS_EOF CI_FILE_USELOCK" "\<not> has_flag CI_FILE_USELOCK CI_FILE_HAS_EOF"
  "\<not> has_flag CI_FILE_RING_MODE CI_FILE_USELOCK" "\<not> has_flag CI_FILE_RING_MODE CI_FILE_HAS_EOF"
  "CI_FILE_HAS_EOF AND NOT CI_FILE_USELOCK = CI_FILE_HAS_EOF"
  "CI_FILE_USELOCK AND NOT CI_FILE_USELOCK = 0"
  by (simp_all add: has_flag_def file_flags)

lemma has_flag_none [simp]: "\<not> has_flag x 0"
  by (simp add: has_flag_def)

record ci_simple_file =
  sf_endpos :: int
  sf_readpos :: int
  sf_max_store_size :: int
  sf_bytes_in :: int
  sf_bytes_out :: int
  sf_flags :: "32 word"
  sf_unlocked :: int
  sf_fd :: int
  sf_filename :: string
  sf_mmap :: "bytes option"
  sf_file :: bytes

abbreviation sf_uselock :: "ci_simple_file \<Rightarrow> bool" where
  "sf_uselock b \<equiv> has_flag (sf_flags b) CI_FILE_USELOCK"
abbreviation sf_haseof :: "ci_simple_file \<Rightarrow> bool" where
  "sf_haseof b \<equiv> has_flag (sf_flags b) CI_FILE_HAS_EOF"

text \<open>\<^verbatim>\<open>pwrite\<close>: a gap before the offset is filled with zero bytes.\<close>

definition file_write :: "nat \<Rightarrow> bytes \<Rightarrow> bytes \<Rightarrow> bytes" where
  "file_write off d f = mem_write off d (f @ replicate (off - length f) NUL)"

section \<open>Operations\<close>

text \<open>\<open>tmp\<close> is the result of \<^verbatim>\<open>ci_mktemp_file\<close>: descriptor and name of a new empty file.\<close>

definition ci_simple_file_new :: "bool \<Rightarrow> (int \<times> string) option \<Rightarrow> int \<Rightarrow> ci_simple_file option" where
  "ci_simple_file_new pool_ok tmp maxsize =
     (if \<not> pool_ok then None
      else case tmp of
        None \<Rightarrow> None
      | Some (fd, name) \<Rightarrow>
          Some \<lparr>sf_endpos = 0, sf_readpos = 0, sf_max_store_size = (if maxsize > 0 then maxsize else 0),
                sf_bytes_in = 0, sf_bytes_out = 0, sf_flags = 0, sf_unlocked = 0, sf_fd = fd,
                sf_filename = name, sf_mmap = None, sf_file = []\<rparr>)"

text \<open>
  A file with a given name is opened exclusively (\<open>opn\<close> is what \<^verbatim>\<open>do_open\<close> returns for a name);
  without a name a temporary file is made in the directory (\<open>tmp\<close>).
\<close>

definition ci_simple_file_named_new ::
  "bool \<Rightarrow> (string \<Rightarrow> int) \<Rightarrow> (int \<times> string) option \<Rightarrow> string \<Rightarrow> string option \<Rightarrow> int
   \<Rightarrow> ci_simple_file option" where
  "ci_simple_file_named_new pool_ok opn tmp dir filename maxsize =
     (case filename of
        Some fname \<Rightarrow>
          let name = dir @ ''/'' @ fname in
          ci_simple_file_new pool_ok (if opn name < 0 then None else Some (opn name, name)) maxsize
      | None \<Rightarrow> ci_simple_file_new pool_ok tmp maxsize)"

text \<open>
  \<^verbatim>\<open>ci_simple_file_write\<close> first chooses where to write and how much (\<open>None\<close>: there is no room),
  wrapping to the start of the file when it is full, partly read and not locked.
\<close>

definition sf_write_pos :: "ci_simple_file \<Rightarrow> int \<Rightarrow> (ci_simple_file \<times> int) option" where
  "sf_write_pos b len =
     (if sf_endpos b < sf_readpos b
      then Some (b, min (sf_readpos b - sf_endpos b - 1) len)
      else if sf_max_store_size b \<noteq> 0 \<and> sf_endpos b \<ge> sf_max_store_size b
      then (if sf_readpos b \<noteq> 0 \<and> \<not> sf_uselock b
            then let b1 = b\<lparr>sf_endpos := 0, sf_flags := sf_flags b OR CI_FILE_RING_MODE\<rparr>
                 in Some (b1, min (sf_readpos b1 - sf_endpos b1 - 1) len)
            else None)
      else Some (b, if sf_max_store_size b \<noteq> 0
                    then min (sf_max_store_size b - sf_endpos b) len else len))"

text \<open>Then it writes \<open>wsize\<close> bytes at the write position.\<close>

definition sf_store ::
  "nat option \<Rightarrow> ci_simple_file \<Rightarrow> nat \<Rightarrow> bytes \<Rightarrow> bool \<Rightarrow> ci_simple_file \<times> int" where
  "sf_store lim b wsize data iseof =
     (case lim of
        None \<Rightarrow> (b, -1)
      | Some k \<Rightarrow>
          let n = min k wsize;
              b' = b\<lparr>sf_file := file_write (nat (sf_endpos b)) (take n data) (sf_file b),
                     sf_endpos := sf_endpos b + int n, sf_bytes_in := sf_bytes_in b + int n\<rparr>
          in (if iseof \<and> n = length data
              then b'\<lparr>sf_flags := sf_flags b' OR CI_FILE_HAS_EOF\<rparr> else b', int n))"

definition ci_simple_file_write ::
  "nat option \<Rightarrow> ci_simple_file \<Rightarrow> bytes \<Rightarrow> bool \<Rightarrow> ci_simple_file \<times> int" where
  "ci_simple_file_write lim b data iseof =
     (if sf_haseof b then (b, 0)
      else if data = [] then (if iseof then b\<lparr>sf_flags := sf_flags b OR CI_FILE_HAS_EOF\<rparr> else b, 0)
      else case sf_write_pos b (int (length data)) of
             None \<Rightarrow> (b, 0)
           | Some (b1, wsize) \<Rightarrow> sf_store lim b1 (nat wsize) data iseof)"

text \<open>The result holds the new state, the return value and the bytes put into the caller's buffer.\<close>

definition ci_simple_file_read ::
  "nat option \<Rightarrow> ci_simple_file \<Rightarrow> int \<Rightarrow> (ci_simple_file \<times> int \<times> bytes) c_result" where
  "ci_simple_file_read lim b len =
     (if len \<le> 0 then Ret (b, 0, [])
      else if sf_readpos b = sf_endpos b then Ret (b, if sf_haseof b then CI_EOF else 0, [])
      else
        let b1 = (if sf_max_store_size b \<noteq> 0 \<and> sf_readpos b = sf_max_store_size b
                  then b\<lparr>sf_readpos := 0\<rparr> else b);
            rem = (if sf_uselock b1 \<and> sf_unlocked b1 \<ge> 0 then Some (int32 (sf_unlocked b1 - sf_readpos b1))
                   else if sf_endpos b1 > sf_readpos b1 then Some (int32 (sf_endpos b1 - sf_readpos b1))
                   else if sf_max_store_size b1 \<noteq> 0
                   then Some (int32 (sf_max_store_size b1 - sf_readpos b1))
                   else None)
        in case rem of
             None \<Rightarrow> Ret (b1, CI_EOF, [])
           | Some remains \<Rightarrow>
               if remains < 0 then Abort
               else (case lim of
                  None \<Rightarrow> Ret (b1, -1, [])
                | Some k \<Rightarrow>
                    let out = take k (seg (nat (sf_readpos b1))
                                          (nat (if remains > len then len else remains)) (sf_file b1));
                        n = int (length out)
                    in Ret (b1\<lparr>sf_readpos := sf_readpos b1 + n, sf_bytes_out := sf_bytes_out b1 + n\<rparr>,
                            n, out)))"

text \<open>\<open>trunc_ok\<close> is whether \<^verbatim>\<open>ftruncate\<close> succeeds; size 0 means "what the file really holds".\<close>

definition ci_simple_file_truncate :: "bool \<Rightarrow> ci_simple_file \<Rightarrow> int \<Rightarrow> ci_simple_file \<times> bool" where
  "ci_simple_file_truncate trunc_ok b new_size =
     (if new_size > sf_endpos b then (b, False)
      else
        let sz = (if new_size = 0 then int (length (sf_file b)) else new_size);
            fail = (if new_size = 0 then sz > sf_endpos b else \<not> trunc_ok);
            f = (if new_size = 0 then sf_file b else take (nat new_size) (sf_file b))
        in if fail then (b, False)
           else (b\<lparr>sf_file := f, sf_endpos := sz,
                   sf_readpos := (if sf_readpos b > sz then sz else sf_readpos b),
                   sf_unlocked := (if sf_unlocked b > sz then sz else sf_unlocked b)\<rparr>, True))"

text \<open>\<open>map_ok\<close> is whether \<^verbatim>\<open>mmap\<close> succeeds; the mapping is private to the process.\<close>

definition ci_simple_file_to_const_string ::
  "bool \<Rightarrow> bool \<Rightarrow> ci_simple_file \<Rightarrow> ci_simple_file \<times> bytes option" where
  "ci_simple_file_to_const_string trunc_ok map_ok b =
     (if \<not> sf_haseof b then (b, None)
      else if \<not> trunc_ok then (b, None)
      else
        let map_size = nat (sf_endpos b + 1);
            b1 = b\<lparr>sf_file := take map_size (sf_file b @ replicate (map_size - length (sf_file b)) NUL)\<rparr>
        in case sf_mmap b1 of
             Some m \<Rightarrow> (b1, Some m)
           | None \<Rightarrow>
               if \<not> map_ok then (b1, None)
               else let m = (sf_file b1)[map_size - 1 := NUL]
                    in (b1\<lparr>sf_mmap := Some m\<rparr>, Some m))"

definition ci_simple_file_to_membuf ::
  "bool \<Rightarrow> bool \<Rightarrow> bool \<Rightarrow> ci_simple_file \<Rightarrow> 32 word \<Rightarrow> (ci_simple_file \<times> ci_membuf option) c_result" where
  "ci_simple_file_to_membuf trunc_ok map_ok pool_ok b fl =
     (let sf_fl = CI_MEMBUF_CONST OR CI_MEMBUF_RO OR CI_MEMBUF_NULL_TERMINATED in
      if sf_fl AND fl \<noteq> fl \<or> \<not> has_flag fl CI_MEMBUF_CONST then Abort
      else case ci_simple_file_to_const_string trunc_ok map_ok b of
        (b1, None) \<Rightarrow> Ret (b1, None)
      | (b1, Some m) \<Rightarrow>
          (case ci_membuf_from_content pool_ok (Some m) (length m) (nat (sf_endpos b1))
                  (sf_fl OR CI_MEMBUF_HAS_EOF) of
             Ret mb \<Rightarrow> Ret (b1, mb)
           | Abort \<Rightarrow> Abort
           | Undef \<Rightarrow> Undef))"

definition ci_simple_file_lock_all :: "ci_simple_file \<Rightarrow> ci_simple_file" where
  "ci_simple_file_lock_all b = b\<lparr>sf_flags := sf_flags b OR CI_FILE_USELOCK, sf_unlocked := 0\<rparr>"

definition ci_simple_file_unlock :: "ci_simple_file \<Rightarrow> int \<Rightarrow> ci_simple_file" where
  "ci_simple_file_unlock b len =
     b\<lparr>sf_unlocked := (if sf_readpos b > len then sf_readpos b else len)\<rparr>"

definition ci_simple_file_unlock_all :: "ci_simple_file \<Rightarrow> ci_simple_file" where
  "ci_simple_file_unlock_all b = b\<lparr>sf_flags := sf_flags b AND NOT CI_FILE_USELOCK, sf_unlocked := 0\<rparr>"

section \<open>Invariant and abstraction\<close>

definition sf_invar :: "ci_simple_file \<Rightarrow> bool" where
  "sf_invar b \<longleftrightarrow> 0 \<le> sf_endpos b \<and> 0 \<le> sf_readpos b \<and> 0 \<le> sf_max_store_size b
     \<and> sf_endpos b \<le> int (length (sf_file b)) \<and> sf_readpos b \<le> int (length (sf_file b))
     \<and> (sf_max_store_size b \<noteq> 0 \<longrightarrow> sf_endpos b \<le> sf_max_store_size b
          \<and> sf_readpos b \<le> sf_max_store_size b)
     \<and> (sf_endpos b < sf_readpos b \<longrightarrow> sf_max_store_size b \<noteq> 0
          \<and> sf_max_store_size b \<le> int (length (sf_file b)))"

definition sf_contents :: "ci_simple_file \<Rightarrow> bytes" where
  "sf_contents b =
     (let r = nat (sf_readpos b); e = nat (sf_endpos b)
      in if r \<le> e then seg r (e - r) (sf_file b)
         else drop r (take (nat (sf_max_store_size b)) (sf_file b)) @ take e (sf_file b))"

lemma sf_invar_new:
  "ci_simple_file_new True (Some (fd, name)) maxsize = Some b \<Longrightarrow> sf_invar b \<and> sf_contents b = []"
  by (auto simp: ci_simple_file_new_def sf_invar_def sf_contents_def seg_def)

lemma file_write_inside: "off \<le> length f \<Longrightarrow> file_write off d f = mem_write off d f"
  by (simp add: file_write_def)

section \<open>Writing\<close>

text \<open>How many bytes can be stored at the write position without wrapping.\<close>

definition sf_fits :: "ci_simple_file \<Rightarrow> nat \<Rightarrow> bool" where
  "sf_fits b n \<longleftrightarrow>
     (if sf_endpos b < sf_readpos b then sf_endpos b + int n < sf_readpos b
      else sf_max_store_size b \<noteq> 0 \<longrightarrow> sf_endpos b + int n \<le> sf_max_store_size b)"

lemma sf_append:
  assumes inv: "sf_invar b" and fits: "sf_fits b (length d)"
  defines "b' \<equiv> b\<lparr>sf_file := file_write (nat (sf_endpos b)) d (sf_file b),
                 sf_endpos := sf_endpos b + int (length d)\<rparr>"
  shows "sf_invar b' \<and> sf_contents b' = sf_contents b @ d
         \<and> take (nat (sf_endpos b)) (sf_file b') = take (nat (sf_endpos b)) (sf_file b)"
proof -
  from inv obtain e r m where erm: "sf_endpos b = int e" "sf_readpos b = int r"
    "sf_max_store_size b = int m"
    by (metis nonneg_int_cases sf_invar_def)
  have le: "e \<le> length (sf_file b)" "r \<le> length (sf_file b)"
    using inv erm by (auto simp: sf_invar_def)
  let ?f = "mem_write e d (sf_file b)"
  have b': "b' = b\<lparr>sf_file := ?f, sf_endpos := int (e + length d)\<rparr>"
    using erm le by (simp add: b'_def file_write_inside)
  have tk: "take (e + length d) ?f = take e (sf_file b) @ d"
    using le by (simp add: take_mem_write_end)
  have len: "length ?f = max (length (sf_file b)) (e + length d)"
    using le by (auto simp: mem_write_def)
  have frame: "take (nat (sf_endpos b)) (sf_file b') = take (nat (sf_endpos b)) (sf_file b)"
    using b' erm le by (simp add: take_mem_write)
  show ?thesis
  proof (cases "e < r")
    case True
    then have ed: "e + length d < r" and m: "m \<le> length (sf_file b)" "r \<le> m" "m \<noteq> 0"
      using fits inv erm by (auto simp: sf_fits_def sf_invar_def)
    then have "drop r (take m ?f) = drop r (take m (sf_file b))"
      using le by (simp add: drop_take drop_mem_write)
    then have "sf_contents b' = sf_contents b @ d"
      using b' tk ed True erm by (simp add: sf_contents_def Let_def)
    moreover have "sf_invar b'"
      using inv b' len True ed m erm by (auto simp: sf_invar_def)
    ultimately show ?thesis using frame by simp
  next
    case False
    have "seg r (e + length d - r) ?f = drop r (take (e + length d) ?f)"
      by (simp add: seg_def drop_take)
    also have "\<dots> = seg r (e - r) (sf_file b) @ d"
      using tk False le by (simp add: seg_def drop_take)
    finally have "sf_contents b' = sf_contents b @ d"
      using b' False erm by (simp add: sf_contents_def Let_def)
    moreover have "sf_invar b'"
      using inv fits b' len False erm by (auto simp: sf_invar_def sf_fits_def)
    ultimately show ?thesis using frame by simp
  qed
qed

lemma sf_wrap:
  assumes "sf_invar b" "sf_max_store_size b \<noteq> 0" "sf_endpos b \<ge> sf_max_store_size b" "sf_readpos b \<noteq> 0"
  shows "sf_invar (b\<lparr>sf_endpos := 0, sf_flags := fl\<rparr>)
    \<and> sf_contents (b\<lparr>sf_endpos := 0, sf_flags := fl\<rparr>) = sf_contents b"
  using assms by (auto simp: sf_invar_def sf_contents_def Let_def seg_def drop_take)

lemma sf_invar_flags [simp]: "sf_invar (b\<lparr>sf_flags := fl\<rparr>) = sf_invar b"
  and sf_contents_flags [simp]: "sf_contents (b\<lparr>sf_flags := fl\<rparr>) = sf_contents b"
  and sf_invar_in [simp]: "sf_invar (b\<lparr>sf_bytes_in := i\<rparr>) = sf_invar b"
  and sf_contents_in [simp]: "sf_contents (b\<lparr>sf_bytes_in := i\<rparr>) = sf_contents b"
  by (simp_all add: sf_invar_def sf_contents_def Let_def)

text \<open>The position \<^verbatim>\<open>ci_simple_file_write\<close> chooses has room and changes nothing of the data.\<close>

lemma sf_write_pos_fits:
  assumes inv: "sf_invar b" and pos: "sf_write_pos b len = Some (b1, wsize)" and len: "0 \<le> len"
  shows "sf_invar b1" "sf_contents b1 = sf_contents b" "sf_fits b1 (nat wsize)" "wsize \<le> len"
    "sf_haseof b1 = sf_haseof b" "sf_uselock b1 = sf_uselock b"
proof -
  have "sf_invar b1 \<and> sf_contents b1 = sf_contents b \<and> sf_fits b1 (nat wsize) \<and> wsize \<le> len
      \<and> sf_haseof b1 = sf_haseof b \<and> sf_uselock b1 = sf_uselock b"
  proof (cases "sf_max_store_size b \<noteq> 0 \<and> sf_endpos b \<ge> sf_max_store_size b
      \<and> \<not> sf_endpos b < sf_readpos b")
    case False
    with inv pos len show ?thesis
      by (auto simp: sf_write_pos_def sf_fits_def split: if_splits)
  next
    case True
    with pos have r: "sf_readpos b \<noteq> 0"
      and b1: "b1 = b\<lparr>sf_endpos := 0, sf_flags := sf_flags b OR CI_FILE_RING_MODE\<rparr>"
      and w: "wsize = min (sf_readpos b - 1) len"
      by (auto simp: sf_write_pos_def Let_def split: if_splits)
    have "sf_invar b1" "sf_contents b1 = sf_contents b"
      using sf_wrap [OF inv, of "sf_flags b OR CI_FILE_RING_MODE"] True r b1 by auto
    moreover have "sf_fits b1 (nat wsize)"
      using inv r w len by (auto simp: b1 sf_fits_def sf_invar_def)
    ultimately show ?thesis using w b1 by simp
  qed
  then show "sf_invar b1" "sf_contents b1 = sf_contents b" "sf_fits b1 (nat wsize)" "wsize \<le> len"
    "sf_haseof b1 = sf_haseof b" "sf_uselock b1 = sf_uselock b" by blast+
qed

lemma sf_store_appends:
  assumes inv: "sf_invar b" and fits: "sf_fits b w" and w: "w \<le> length data" and ne: "data \<noteq> []"
    and noeof: "\<not> sf_haseof b" and st: "sf_store lim b w data iseof = (b', n)"
  shows "sf_invar b' \<and> sf_contents b' = sf_contents b @ take (nat n) data \<and> -1 \<le> n
    \<and> n \<le> int (length data) \<and> (sf_haseof b' \<longleftrightarrow> iseof \<and> n = int (length data))"
proof (cases lim)
  case None
  with st inv noeof ne show ?thesis by (auto simp: sf_store_def)
next
  case (Some k)
  define m where "m = min k w"
  let ?d = "take m data"
  let ?a = "b\<lparr>sf_file := file_write (nat (sf_endpos b)) ?d (sf_file b),
              sf_endpos := sf_endpos b + int (length ?d)\<rparr>"
  have m: "length ?d = m" "m \<le> length data" using w by (simp_all add: m_def)
  have "sf_fits b (length ?d)" using fits m by (auto simp: sf_fits_def m_def split: if_splits)
  from sf_append [OF inv this] have a: "sf_invar ?a" "sf_contents ?a = sf_contents b @ ?d" by simp_all
  define b2 where "b2 = ?a\<lparr>sf_bytes_in := sf_bytes_in b + int m\<rparr>"
  have b2: "sf_invar b2" "sf_contents b2 = sf_contents b @ ?d" "sf_flags b2 = sf_flags b"
    using a unfolding b2_def by simp_all
  have "n = int m" "b' = (if iseof \<and> m = length data
      then b2\<lparr>sf_flags := sf_flags b2 OR CI_FILE_HAS_EOF\<rparr> else b2)"
    using st Some m by (auto simp: sf_store_def m_def [symmetric] b2_def Let_def)
  with b2 m noeof show ?thesis by simp
qed

text \<open>
  C5: writing to a file that saw no end of data keeps the invariant (in particular the file never
  grows beyond its \<^verbatim>\<open>max_store_size\<close> and the write position never overtakes the read position) and
  appends exactly the reported number of bytes to the unread data, in linear and in ring mode, for
  short and for failing \<^verbatim>\<open>write\<close> calls; the end of data is recorded exactly when everything was stored.
\<close>

theorem simple_file_write_appends:
  assumes inv: "sf_invar b" and noeof: "\<not> sf_haseof b"
    and wr: "ci_simple_file_write lim b data iseof = (b', n)"
  shows "sf_invar b' \<and> sf_contents b' = sf_contents b @ take (nat n) data \<and> -1 \<le> n
    \<and> n \<le> int (length data) \<and> (sf_haseof b' \<longleftrightarrow> iseof \<and> n = int (length data))"
proof (cases "data = []")
  case True
  with wr noeof inv show ?thesis by (auto simp: ci_simple_file_write_def split: if_splits)
next
  case False
  show ?thesis
  proof (cases "sf_write_pos b (int (length data))")
    case None
    with wr noeof inv False show ?thesis by (auto simp: ci_simple_file_write_def)
  next
    case (Some bw)
    obtain b1 w where bw: "bw = (b1, w)" by (cases bw)
    note pos = sf_write_pos_fits [OF inv, of "int (length data)" b1 w]
    have "sf_store lim b1 (nat w) data iseof = (b', n)"
      using wr noeof False Some bw by (simp add: ci_simple_file_write_def)
    from sf_store_appends [OF _ _ _ False _ this] pos Some bw noeof show ?thesis by auto
  qed
qed

text \<open>
  A locked file, or one without a size limit, whose data nobody read yet is append-only: what
  was stored stays where it is.  This is what a service relies on that collects a whole body before it
  looks at it.
\<close>

lemma sf_write_keeps_prefix:
  assumes inv: "sf_invar b" and mode: "sf_uselock b \<or> sf_max_store_size b = 0"
    and le: "sf_readpos b \<le> sf_endpos b"
    and wr: "ci_simple_file_write lim b data iseof = (b', n)"
  shows "take (nat (sf_endpos b)) (sf_file b') = take (nat (sf_endpos b)) (sf_file b)
    \<and> sf_readpos b' = sf_readpos b \<and> sf_endpos b \<le> sf_endpos b'"
proof -
  have e: "nat (sf_endpos b) \<le> length (sf_file b)" using inv by (auto simp: sf_invar_def)
  have stay: "b1 = b" if "sf_write_pos b len = Some (b1, w)" for b1 w len
    using that mode le by (auto simp: sf_write_pos_def split: if_splits)
  have store: "take (nat (sf_endpos b)) (sf_file b2) = take (nat (sf_endpos b)) (sf_file b)
      \<and> sf_readpos b2 = sf_readpos b \<and> sf_endpos b \<le> sf_endpos b2"
    if "sf_store lim b w data iseof = (b2, i)" for b2 w i
    using that e by (cases lim) (auto simp: sf_store_def Let_def file_write_inside take_mem_write)
  show ?thesis
  proof (cases "sf_haseof b \<or> data = [] \<or> sf_write_pos b (int (length data)) = None")
    case True
    with wr show ?thesis by (auto simp: ci_simple_file_write_def split: if_splits)
  next
    case False
    then obtain b1 w where p: "sf_write_pos b (int (length data)) = Some (b1, w)" by auto
    with False wr stay [OF p] show ?thesis
      by (intro store) (simp add: ci_simple_file_write_def)
  qed
qed

text \<open>A full ring file of four bytes of which two were read: a write of three bytes stores one.\<close>

definition sf_example :: ci_simple_file where
  "sf_example = \<lparr>sf_endpos = 4, sf_readpos = 2, sf_max_store_size = 4, sf_bytes_in = 4, sf_bytes_out = 2,
     sf_flags = 0, sf_unlocked = 0, sf_fd = 5, sf_filename = ''t'', sf_mmap = None, sf_file = ''abcd''\<rparr>"

theorem simple_file_write_appends_witness:
  "\<exists>b'. ci_simple_file_write (Some 9) sf_example ''xyz'' True = (b', 1) \<and> sf_invar b'
     \<and> sf_contents b' = ''cdx'' \<and> \<not> sf_haseof b'"
proof -
  have inv: "sf_invar sf_example" and ne: "\<not> sf_haseof sf_example"
    and c: "sf_contents sf_example = ''cd''"
    by (simp_all add: sf_invar_def sf_example_def sf_contents_def seg_def)
  obtain b' where w: "ci_simple_file_write (Some 9) sf_example ''xyz'' True = (b', 1)"
    by (simp add: ci_simple_file_write_def sf_write_pos_def sf_store_def sf_example_def Let_def)
  from simple_file_write_appends [OF inv ne w] c w show ?thesis by auto
qed

section \<open>Reading\<close>

text \<open>A file read in place: the bytes between the two positions, as many as the system call delivers.\<close>

lemma sf_read_linear:
  assumes inv: "sf_invar b" and small: "int (length (sf_file b)) < 2 ^ 31" and unlocked: "\<not> sf_uselock b"
    and le: "sf_readpos b < sf_endpos b" and len: "0 < len"
    and out: "out = take k (take (nat len) (sf_contents b))"
  shows "ci_simple_file_read (Some k) b len = Ret (b\<lparr>sf_readpos := sf_readpos b + int (length out),
      sf_bytes_out := sf_bytes_out b + int (length out)\<rparr>, int (length out), out)"
proof -
  from inv obtain e r m where erm: "sf_endpos b = int e" "sf_readpos b = int r" "sf_max_store_size b = int m"
    by (metis nonneg_int_cases sf_invar_def)
  obtain q where q: "e = r + q" "0 < q" using le erm by (metis less_imp_add_positive of_nat_less_iff)
  have p: "r + q \<le> length (sf_file b)" "\<not> (m \<noteq> 0 \<and> r = m)" using inv q erm by (auto simp: sf_invar_def)
  have i32: "int32 (int (r + q) - int r) = int q" using p(1) small by simp
  have pick: "nat (if len < int q then len else int q) = min (nat len) q" using len by auto
  have o: "out = take k (seg r (min (nat len) q) (sf_file b))"
    using q erm by (simp add: out sf_contents_def Let_def take_seg)
  have b: "(if sf_max_store_size b \<noteq> 0 \<and> sf_readpos b = sf_max_store_size b then b\<lparr>sf_readpos := 0\<rparr> else b) = b"
    using p(2) erm by auto
  show ?thesis
    unfolding ci_simple_file_read_def Let_def b
    unfolding erm q(1) i32 using len q(2) unlocked by (simp add: o pick)
qed

text \<open>Moving the read position from the end of the ring to its start changes nothing of the data.\<close>

lemma sf_rewind:
  assumes inv: "sf_invar b" and ne: "sf_contents b \<noteq> []"
  defines "b1 \<equiv> (if sf_max_store_size b \<noteq> 0 \<and> sf_readpos b = sf_max_store_size b then b\<lparr>sf_readpos := 0\<rparr> else b)"
  shows "sf_invar b1" "sf_contents b1 = sf_contents b"
    "sf_readpos b1 < sf_endpos b1
     \<or> sf_endpos b1 < sf_readpos b1 \<and> sf_readpos b1 < sf_max_store_size b1 \<and> sf_max_store_size b1 \<noteq> 0"
proof -
  from inv obtain e r m where erm: "sf_endpos b = int e" "sf_readpos b = int r" "sf_max_store_size b = int m"
    by (metis nonneg_int_cases sf_invar_def)
  have r: "r \<noteq> e" using ne erm by (auto simp: sf_contents_def Let_def)
  have i: "m \<noteq> 0 \<Longrightarrow> e \<le> m \<and> r \<le> m" "e < r \<Longrightarrow> m \<noteq> 0 \<and> m \<le> length (sf_file b)" using inv erm by (auto simp: sf_invar_def)
  show inv1: "sf_invar b1" using inv by (simp add: b1_def sf_invar_def)
  show c1: "sf_contents b1 = sf_contents b"
  proof (cases "m \<noteq> 0 \<and> r = m")
    case True
    then have "e < r" using r i by auto
    then have "sf_contents b = take e (sf_file b)" using True erm by (simp add: sf_contents_def Let_def)
    then show ?thesis using True erm by (simp add: b1_def sf_contents_def Let_def seg_def)
  qed (use erm in \<open>auto simp: b1_def\<close>)
  have e0: "e \<noteq> 0" if "m \<noteq> 0" "r = m"
  proof
    assume "e = 0"
    then have "sf_contents b1 = []" using erm that by (simp add: b1_def sf_contents_def Let_def seg_def)
    with c1 ne show False by simp
  qed
  show "sf_readpos b1 < sf_endpos b1
     \<or> sf_endpos b1 < sf_readpos b1 \<and> sf_readpos b1 < sf_max_store_size b1 \<and> sf_max_store_size b1 \<noteq> 0"
    using r i e0 erm by (cases "e < r") (auto simp: b1_def)
qed

text \<open>Taking bytes at the read position, up to the write position or the end of the ring.\<close>

definition sf_run :: "ci_simple_file \<Rightarrow> nat" where
  "sf_run b = nat ((if sf_readpos b < sf_endpos b then sf_endpos b else sf_max_store_size b) - sf_readpos b)"

lemma sf_advance:
  assumes inv: "sf_invar b" and pos: "sf_readpos b < sf_endpos b
     \<or> sf_endpos b < sf_readpos b \<and> sf_readpos b < sf_max_store_size b \<and> sf_max_store_size b \<noteq> 0"
    and n: "n \<le> sf_run b"
  defines "b' \<equiv> b\<lparr>sf_readpos := sf_readpos b + int n, sf_bytes_out := sf_bytes_out b + int n\<rparr>"
  shows "sf_invar b'" "sf_contents b = seg (nat (sf_readpos b)) n (sf_file b) @ sf_contents b'"
    "nat (sf_readpos b) + sf_run b \<le> length (sf_file b)"
proof -
  from inv obtain e r m where erm: "sf_endpos b = int e" "sf_readpos b = int r" "sf_max_store_size b = int m"
    by (metis nonneg_int_cases sf_invar_def)
  show "nat (sf_readpos b) + sf_run b \<le> length (sf_file b)" "sf_invar b'"
    using inv pos n erm by (auto simp: sf_invar_def sf_run_def b'_def)
  have cut: "seg r (x - r) f = seg r n f @ seg (r + n) (x - (r + n)) f" if "r + n \<le> x" for x and f :: bytes
    using seg_split [of r n "x - (r + n)" f] that by simp
  show "sf_contents b = seg (nat (sf_readpos b)) n (sf_file b) @ sf_contents b'"
  proof (cases "r < e")
    case True
    then have "r + n \<le> e" using n erm by (simp add: sf_run_def)
    with cut [of e "sf_file b"] True erm show ?thesis by (simp add: b'_def sf_contents_def Let_def)
  next
    case False
    then have "e < r" "r + n \<le> m" using pos n erm by (auto simp: sf_run_def)
    with cut [of m "sf_file b"] erm show ?thesis by (simp add: b'_def sf_contents_def Let_def seg_def drop_take)
  qed
qed

text \<open>
  A locked file keeps the bytes behind \<^verbatim>\<open>unlocked\<close> back; that position has to lie between the read position and the end,
  so the file has not wrapped.
\<close>

definition sf_locked :: "ci_simple_file \<Rightarrow> bool" where
  "sf_locked b \<longleftrightarrow> sf_uselock b \<and> 0 \<le> sf_unlocked b"

definition sf_lock_ok :: "ci_simple_file \<Rightarrow> bool" where
  "sf_lock_ok b \<longleftrightarrow> (sf_locked b \<longrightarrow> sf_readpos b \<le> sf_unlocked b \<and> sf_unlocked b \<le> sf_endpos b)"

definition sf_limit :: "ci_simple_file \<Rightarrow> nat" where
  "sf_limit b = (if sf_locked b then nat (sf_unlocked b - sf_readpos b) else sf_run b)"

text \<open>
  C6: reading from a file that holds unread data, locked or not, returns (no assertion fails, no end of
  data is reported), delivers a prefix of the unread bytes, across the wrap of ring mode, and removes exactly
  these; of a locked file it delivers nothing behind the unlocked position.  It makes progress
  whenever the operating system delivers at least one byte and the lock leaves one.  The file is below 2 GiB, the bound at which
  the code's \<^verbatim>\<open>int\<close> variables still hold a file offset, and the unlocked position of a locked file lies between the
  read position and the end of the data.
\<close>

theorem simple_file_read_delivers:
  assumes inv: "sf_invar b" and small: "int (length (sf_file b)) < 2 ^ 31"
    and lock: "sf_lock_ok b" and ne: "sf_contents b \<noteq> []" and len: "0 < len"
  shows "\<exists>b' out. ci_simple_file_read (Some k) b len = Ret (b', int (length out), out)
    \<and> sf_invar b' \<and> sf_lock_ok b' \<and> sf_contents b = out @ sf_contents b'
    \<and> (sf_locked b \<longrightarrow> sf_readpos b + int (length out) \<le> sf_unlocked b)
    \<and> (0 < k \<and> (sf_locked b \<longrightarrow> sf_readpos b < sf_unlocked b) \<longrightarrow> out \<noteq> [])
    \<and> int (length out) \<le> len"
proof -
  define b1 where "b1 = (if sf_max_store_size b \<noteq> 0 \<and> sf_readpos b = sf_max_store_size b then b\<lparr>sf_readpos := 0\<rparr> else b)"
  note b1 = sf_rewind [OF inv ne, folded b1_def]
  have f: "sf_file b1 = sf_file b" "sf_bytes_out b1 = sf_bytes_out b" "sf_locked b1 = sf_locked b" "sf_readpos b \<noteq> sf_endpos b"
      "sf_unlocked b1 = sf_unlocked b"
    using ne by (auto simp: b1_def sf_contents_def sf_locked_def Let_def)
  have same: "b1 = b" if "sf_locked b"
    using that lock inv f(4) by (auto simp: b1_def sf_lock_ok_def sf_invar_def)
  have run: "nat (sf_readpos b1) + sf_run b1 \<le> length (sf_file b)" "0 < sf_run b1" "0 \<le> sf_readpos b1"
    using sf_advance(3) [OF b1(1,3), of 0] f(1) b1(1,3) by (auto simp: sf_run_def sf_invar_def)
  have lim: "sf_limit b1 \<le> sf_run b1"
    using same lock b1(3) by (cases "sf_locked b") (auto simp: sf_limit_def sf_lock_ok_def f(3) sf_run_def)
  define out where "out = take k (seg (nat (sf_readpos b1)) (min (nat len) (sf_limit b1)) (sf_file b1))"
  have n: "length out \<le> sf_run b1" using lim by (simp add: out_def seg_def)
  note adv = sf_advance [OF b1(1,3) n]
  let ?b = "b1\<lparr>sf_readpos := sf_readpos b1 + int (length out), sf_bytes_out := sf_bytes_out b1 + int (length out)\<rparr>"
  have lo: "length out = min k (min (nat len) (sf_limit b1))" using run(1) lim f(1) by (simp add: out_def)
  have o: "seg (nat (sf_readpos b1)) (length out) (sf_file b1) = out"
    unfolding lo by (simp add: out_def seg_def min.commute)
  have "(if sf_uselock b1 \<and> sf_unlocked b1 \<ge> 0 then Some (int32 (sf_unlocked b1 - sf_readpos b1))
      else if sf_readpos b1 < sf_endpos b1 then Some (int32 (sf_endpos b1 - sf_readpos b1))
      else if sf_max_store_size b1 \<noteq> 0 then Some (int32 (sf_max_store_size b1 - sf_readpos b1)) else None) = Some (int (sf_limit b1))"
  proof (cases "sf_locked b")
    case True
    then have "0 \<le> sf_unlocked b1 - sf_readpos b1" "sf_unlocked b1 - sf_readpos b1 < 2 ^ 31"
      using lock same small run lim f(3) by (auto simp: sf_lock_ok_def sf_limit_def)
    then show ?thesis using True f(3) by (auto simp: sf_limit_def sf_locked_def)
  next
    case False
    then show ?thesis using b1(3) run small f(3) by (auto simp: sf_run_def sf_limit_def sf_locked_def)
  qed
  moreover have "nat (if len < int (sf_limit b1) then len else int (sf_limit b1)) = min (nat len) (sf_limit b1)" using len by auto
  ultimately have "ci_simple_file_read (Some k) b len = Ret (?b, int (length out), out)"
    unfolding ci_simple_file_read_def b1_def [symmetric] Let_def using len f by (simp add: out_def)
  moreover have "sf_contents b = out @ sf_contents ?b" using adv(2) b1(2) o by simp
  moreover have "0 < k \<and> (sf_locked b \<longrightarrow> sf_readpos b < sf_unlocked b) \<longrightarrow> out \<noteq> []"
    using lo run(2) len same f(3) by (cases "sf_locked b") (auto simp: sf_limit_def)
  moreover have "int (length out) \<le> len" using lo len by auto
  moreover have up: "sf_locked b \<longrightarrow> sf_readpos b + int (length out) \<le> sf_unlocked b"
    using lo lock same by (auto simp: sf_limit_def sf_lock_ok_def)
  moreover have "sf_lock_ok ?b" using up lock same f(3) by (cases "sf_locked b") (auto simp: sf_lock_ok_def sf_locked_def)
  ultimately show ?thesis using adv(1) by blast
qed

theorem simple_file_read_delivers_witness:
  "\<exists>b' out. ci_simple_file_read (Some 9) sf_example 9 = Ret (b', int (length out), out)
     \<and> ''cd'' = out @ sf_contents b' \<and> out \<noteq> []"
proof -
  have "sf_invar sf_example" "int (length (sf_file sf_example)) < 2 ^ 31" "sf_lock_ok sf_example"
    and c: "sf_contents sf_example = ''cd''" and l: "\<not> sf_locked sf_example"
    by (simp_all add: sf_invar_def sf_example_def sf_contents_def sf_lock_ok_def sf_locked_def seg_def)
  from simple_file_read_delivers [OF this(1-3), of 9 9] c l show ?thesis by auto
qed

text \<open>With 2 GiB of unread data, or after \<^verbatim>\<open>ci_simple_file_lock_all\<close> on a file that was partly read, the assertion fails.\<close>

theorem simple_file_read_aborts:
  assumes "0 < len" "sf_readpos b < sf_endpos b" "sf_max_store_size b = 0"
    and "sf_locked b \<and> sf_unlocked b < sf_readpos b \<and> sf_readpos b < 2 ^ 31
      \<or> \<not> sf_locked b \<and> 2 ^ 31 \<le> sf_endpos b - sf_readpos b \<and> sf_endpos b - sf_readpos b < 2 ^ 32"
  shows "ci_simple_file_read lim b len = Abort"
  using assms(4)
proof
  assume l: "sf_locked b \<and> sf_unlocked b < sf_readpos b \<and> sf_readpos b < 2 ^ 31"
  then have "int32 (sf_unlocked b - sf_readpos b) < 0" by (simp add: sf_locked_def)
  then show ?thesis using l assms(1-3) by (simp add: ci_simple_file_read_def sf_locked_def Let_def)
next
  assume l: "\<not> sf_locked b \<and> 2 ^ 31 \<le> sf_endpos b - sf_readpos b \<and> sf_endpos b - sf_readpos b < 2 ^ 32"
  then have "(sf_endpos b - sf_readpos b + 2 ^ 31) mod 2 ^ 32 = sf_endpos b - sf_readpos b - 2 ^ 31"
    using mod_add_self2 [of "sf_endpos b - sf_readpos b - 2 ^ 31" "2 ^ 32"] by (simp add: algebra_simps)
  then have "int32 (sf_endpos b - sf_readpos b) < 0" using l by (simp add: int32_def)
  then show ?thesis using l assms(1-3) by (auto simp: ci_simple_file_read_def sf_locked_def Let_def)
qed

text \<open>
  The bounded file redelivers old data.  When a full file of which one byte was read is written to,
  the write position wraps to 0 although nothing can be stored; once the reader has taken the rest, the
  next read does not report that nothing is left: it moves its position to 0 too and delivers the
  first bytes of the file a second time.
\<close>

definition sf_stale_run :: "(int \<times> bytes) list" where
  "sf_stale_run =
     (case ci_simple_file_new True (Some (5, ''t'')) 4 of
        None \<Rightarrow> []
      | Some b0 \<Rightarrow>
          let (b1, _) = ci_simple_file_write (Some 9) b0 ''abcd'' False in
          (case ci_simple_file_read (Some 9) b1 1 of
             Ret (b2, n1, o1) \<Rightarrow>
               let (b3, n2) = ci_simple_file_write (Some 9) b2 ''x'' False in
               (case ci_simple_file_read (Some 9) b3 9 of
                  Ret (b4, n3, o3) \<Rightarrow>
                    (case ci_simple_file_read (Some 9) b4 9 of
                       Ret (b5, n4, o4) \<Rightarrow> [(n1, o1), (n2, []), (n3, o3), (n4, o4)]
                     | _ \<Rightarrow> [])
                | _ \<Rightarrow> [])
           | _ \<Rightarrow> []))"

theorem simple_file_ring_redelivers:
  "sf_stale_run = [(1, ''a''), (0, []), (3, ''bcd''), (4, ''abcd'')]"
  by (simp add: sf_stale_run_def ci_simple_file_new_def ci_simple_file_write_def sf_write_pos_def
      sf_store_def ci_simple_file_read_def file_write_def mem_write_def seg_def Let_def)

end
