(* ===== verification/Headers.thy ===== *)
theory Headers
  imports Icap_Prelude
begin

text \<open>
  The header lists of \<^verbatim>\<open>header.c\<close>: one buffer in which the header lines stand one after the
  other, each closed by two bytes (NUL LF while the list is edited, CR LF once it is packed for
  the wire), and an index of pointers to the starts of the lines.  Modelled: creation, growth,
  adding a line, appending another list, the searches, removal, iteration, packing, unpacking,
  packing into a foreign buffer, and the encapsulated entities with the parser of their names.

  The abstraction is the list of lines, \<open>hdr_rep\<close>.  The theorems say that each operation does on
  the buffer what its name says on that list, that unpacking a block of header lines and packing
  it again gives the bytes back, and what happens to the closing bytes after a removal.
  \<open>ra n\<close> tells whether a (re)allocation to \<open>n\<close> bytes or slots succeeds, and \<open>g\<close> gives the bytes
  of fresh memory.  A pointer into the buffer is its offset, so the index needs no change when
  \<^verbatim>\<open>realloc\<close> moves the buffer, but the code recomputes it by \<^verbatim>\<open>strlen\<close> and so does the model.
  Sizes are natural numbers; the code keeps them as an \<^verbatim>\<open>int\<close>, so a header list is below 2 GiB.
\<close>

section \<open>Tables\<close>

definition ci_methods :: "bytes list" where
  "ci_methods = ['''', ''OPTIONS'', ''REQMOD'', '''', ''RESPMOD'']"

definition ci_error_codes :: "(int \<times> bytes) list" where
  "ci_error_codes =
     [(100, ''Continue''), (200, ''OK''), (204, ''Unmodified''), (206, ''Partial Content''),
      (400, ''Bad request''), (401, ''Unauthorized''), (403, ''Forbidden''),
      (404, ''Service not found''), (405, ''Not allowed''), (407, ''Authentication Required''),
      (408, ''Request timeout''), (500, ''Server error''), (501, ''Not implemented''),
      (502, ''Bad Gateway''), (503, ''Service overloaded''), (505, ''Unsupported version'')]"

definition ci_error_code :: "int \<Rightarrow> int" where
  "ci_error_code ec =
     (if EC_100 \<le> ec \<and> ec < EC_MAX then fst (ci_error_codes ! nat ec) else 1000)"

definition ci_error_code_string :: "int \<Rightarrow> bytes" where
  "ci_error_code_string ec =
     (if EC_100 \<le> ec \<and> ec < EC_MAX then snd (ci_error_codes ! nat ec)
      else ''UNKNOWN ERROR CODE'')"

definition ICAP_REQ_HDR :: int where "ICAP_REQ_HDR = 0"
definition ICAP_RES_HDR :: int where "ICAP_RES_HDR = 1"
definition ICAP_REQ_BODY :: int where "ICAP_REQ_BODY = 2"
definition ICAP_RES_BODY :: int where "ICAP_RES_BODY = 3"
definition ICAP_NULL_BODY :: int where "ICAP_NULL_BODY = 4"
definition ICAP_OPT_BODY :: int where "ICAP_OPT_BODY = 5"

declare ICAP_REQ_HDR_def [ci_consts] ICAP_RES_HDR_def [ci_consts] ICAP_REQ_BODY_def [ci_consts]
  ICAP_RES_BODY_def [ci_consts] ICAP_NULL_BODY_def [ci_consts] ICAP_OPT_BODY_def [ci_consts]

definition ci_encaps_entities :: "bytes list" where
  "ci_encaps_entities =
     [''req-hdr'', ''res-hdr'', ''req-body'', ''res-body'', ''null-body'', ''opt-body'']"

definition ci_encaps_entity_string :: "int \<Rightarrow> bytes" where
  "ci_encaps_entity_string e =
     (if e \<le> ICAP_OPT_BODY \<and> ICAP_REQ_HDR \<le> e then ci_encaps_entities ! nat e else ''UNKNOWN'')"

section \<open>The header list\<close>

definition HEADERSTARTSIZE :: nat where "HEADERSTARTSIZE = 64"
definition HEADSBUFSIZE :: nat where "HEADSBUFSIZE = 4096"

text \<open>\<open>hl_headers\<close> holds the offsets in the used part of the index, so \<^verbatim>\<open>used\<close> is its length.\<close>

record ci_headers_list =
  hl_size :: nat
  hl_headers :: "nat list"
  hl_bufsize :: nat
  hl_bufused :: nat
  hl_buf :: bytes
  hl_packed :: bool

abbreviation hl_used :: "ci_headers_list \<Rightarrow> nat" where
  "hl_used h \<equiv> length (hl_headers h)"

definition ci_headers_create :: "(nat \<Rightarrow> char) \<Rightarrow> (nat \<Rightarrow> bool) \<Rightarrow> ci_headers_list option" where
  "ci_headers_create g ra =
     (if \<not> ra HEADERSTARTSIZE \<or> \<not> ra HEADSBUFSIZE then None
      else Some \<lparr>hl_size = HEADERSTARTSIZE, hl_headers = [], hl_bufsize = HEADSBUFSIZE,
                 hl_bufused = 0, hl_buf = fresh_mem g HEADSBUFSIZE, hl_packed = False\<rparr>)"

definition ci_headers_setsize ::
  "(nat \<Rightarrow> char) \<Rightarrow> (nat \<Rightarrow> bool) \<Rightarrow> ci_headers_list \<Rightarrow> nat \<Rightarrow> ci_headers_list \<times> bool" where
  "ci_headers_setsize g ra h sz =
     (if sz < hl_bufsize h then (h, True)
      else let new_size = (sz div HEADSBUFSIZE + 1) * HEADSBUFSIZE in
        if \<not> ra new_size then (h, False)
        else (h\<lparr>hl_buf := grow_mem g new_size (hl_buf h), hl_bufsize := new_size\<rparr>, True))"

definition ci_headers_reset :: "ci_headers_list \<Rightarrow> ci_headers_list" where
  "ci_headers_reset h = h\<lparr>hl_packed := False, hl_headers := [], hl_bufused := 0\<rparr>"

text \<open>The loop \<^verbatim>\<open>while (len - used < need) len += step\<close>.\<close>

function grow_len :: "nat \<Rightarrow> nat \<Rightarrow> nat \<Rightarrow> nat \<Rightarrow> nat" where
  "grow_len step used need len =
     (if 0 < step \<and> len < used + need then grow_len step used need (len + step) else len)"
  by pat_completeness auto
termination
  by (relation "measure (\<lambda>(step, used, need, len). used + need - len)") auto

declare grow_len.simps [simp del]

text \<open>The loop that rebuilds the index from \<^verbatim>\<open>headers[i - 1]\<close> on: \<open>n\<close> further offsets.\<close>

fun reindex :: "bytes \<Rightarrow> nat \<Rightarrow> nat \<Rightarrow> nat list c_result" where
  "reindex b p 0 = Ret []"
| "reindex b p (Suc n) =
     c_bind (strlen_at b p) (\<lambda>l.
       c_bind (reindex b (p + l + 2) n) (\<lambda>ps. Ret ((p + l + 2) # ps)))"

definition rebuild_index :: "bytes \<Rightarrow> nat \<Rightarrow> nat list c_result" where
  "rebuild_index b used =
     (case used of 0 \<Rightarrow> Ret [] | Suc n \<Rightarrow> c_bind (reindex b 0 n) (\<lambda>ps. Ret (0 # ps)))"

text \<open>
  \<open>line\<close> is the C string, without its NUL.  The four bytes after it are NUL (of \<^verbatim>\<open>strcpy\<close>), LF,
  one byte that is left as it was, and LF.
\<close>

definition put_line :: "ci_headers_list \<Rightarrow> bytes \<Rightarrow> ci_headers_list \<times> nat option" where
  "put_line h line =
     (let newhead = hl_bufused h; linelen = length line;
          b1 = mem_write newhead (line @ [NUL]) (hl_buf h);
          b2 = (b1[newhead + linelen + 1 := LF])[newhead + linelen + 3 := LF]
      in (h\<lparr>hl_buf := b2, hl_bufused := hl_bufused h + linelen + 2,
            hl_headers := hl_headers h @ [newhead]\<rparr>, Some newhead))"

definition ci_headers_add ::
  "(nat \<Rightarrow> char) \<Rightarrow> (nat \<Rightarrow> bool) \<Rightarrow> ci_headers_list \<Rightarrow> bytes \<Rightarrow> (ci_headers_list \<times> nat option) c_result"
where
  "ci_headers_add g ra h line =
     (if hl_packed h then Ret (h, None)
      else let full = (hl_used h = hl_size h); len = hl_size h + HEADERSTARTSIZE in
        if full \<and> \<not> ra len then Ret (h, None)
        else let h1 = (if full then h\<lparr>hl_size := len\<rparr> else h);
                 blen = grow_len HEADSBUFSIZE (hl_bufused h1) (length line + 4) (hl_bufsize h1)
          in if hl_bufsize h1 < blen then
               if \<not> ra blen then Ret (h1, None)
               else let b = grow_mem g blen (hl_buf h1) in
                 c_bind (rebuild_index b (hl_used h1)) (\<lambda>ps.
                   Ret (put_line (h1\<lparr>hl_buf := b, hl_bufsize := blen, hl_headers := ps\<rparr>) line))
             else Ret (put_line h1 line))"

definition ci_headers_addheaders ::
  "(nat \<Rightarrow> char) \<Rightarrow> (nat \<Rightarrow> bool) \<Rightarrow> ci_headers_list \<Rightarrow> ci_headers_list \<Rightarrow> (ci_headers_list \<times> bool) c_result"
where
  "ci_headers_addheaders g ra h headers =
     (if hl_packed h then Ret (h, False)
      else let len = grow_len HEADERSTARTSIZE (hl_used h) (hl_used headers) (hl_size h) in
        if hl_size h < len \<and> \<not> ra len then Ret (h, False)
        else let h1 = h\<lparr>hl_size := len\<rparr>;
                 blen = grow_len HEADSBUFSIZE (hl_bufused h) (hl_bufused headers + 2) (hl_bufsize h)
          in if hl_bufsize h < blen \<and> \<not> ra blen then Ret (h1, False)
             else if length (hl_buf headers) < hl_bufused headers + 2 then Undef
             else let b = mem_write (hl_bufused h) (take (hl_bufused headers + 2) (hl_buf headers))
                            (grow_mem g blen (hl_buf h1))
               in c_bind (rebuild_index b (hl_used h + hl_used headers)) (\<lambda>ps.
                    Ret (h1\<lparr>hl_buf := b, hl_bufsize := blen,
                            hl_bufused := hl_bufused h + hl_bufused headers, hl_headers := ps\<rparr>, True)))"

subsection \<open>Searching\<close>

text \<open>The loop \<^verbatim>\<open>while (e > lo && (*e == 0 || *e == CR || *e == LF)) --e\<close>.\<close>

fun back_over_eol :: "bytes \<Rightarrow> nat \<Rightarrow> nat \<Rightarrow> nat c_result" where
  "back_over_eol b lo e =
     (if e \<le> lo then Ret e
      else if length b \<le> e then Undef
      else if b ! e = NUL \<or> b ! e = CR \<or> b ! e = LF then back_over_eol b lo (e - 1)
      else Ret e)"

declare back_over_eol.simps [simp del]

text \<open>The loop \<^verbatim>\<open>while (l <= h_end && (*l == ' ' || *l == HT)) ++l\<close>.\<close>

function skip_blanks :: "bytes \<Rightarrow> nat \<Rightarrow> nat \<Rightarrow> nat c_result" where
  "skip_blanks b h_end l =
     (if h_end < l then Ret l
      else if length b \<le> l then Undef
      else if b ! l = SP \<or> b ! l = HT then skip_blanks b h_end (l + 1)
      else Ret l)"
  by pat_completeness auto
termination
  by (relation "measure (\<lambda>(b, h_end, l). h_end + 1 - l)") auto

declare skip_blanks.simps [simp del]

definition ci_headers_first_line2 :: "ci_headers_list \<Rightarrow> (nat \<times> nat) option c_result" where
  "ci_headers_first_line2 h =
     (if hl_used h = 0 then Ret None
      else let eol = (if 1 < hl_used h then hl_headers h ! 1 - 1 else hl_bufused h) in
        c_bind (back_over_eol (hl_buf h) 0 eol) (\<lambda>e. Ret (Some (0, e + 1))))"

definition ci_headers_first_line :: "ci_headers_list \<Rightarrow> nat option" where
  "ci_headers_first_line h = (if hl_used h = 0 then None else Some 0)"

text \<open>
  The search loop that \<^verbatim>\<open>do_header_search\<close> and \<^verbatim>\<open>ci_headers_remove\<close> share: the position in the
  index (counted from \<open>i\<close>) of the first line that is \<open>header\<close> followed by a colon, letters
  compared without case.
\<close>

fun header_loop :: "bytes \<Rightarrow> nat \<Rightarrow> bytes \<Rightarrow> nat \<Rightarrow> nat list \<Rightarrow> nat option c_result" where
  "header_loop b h_end header i [] = Ret None"
| "header_loop b h_end header i (p # ps) =
     (if h_end < p + length header then Ret None
      else c_bind (byte_at b (p + length header)) (\<lambda>c.
        if c \<noteq> CHR '':'' then header_loop b h_end header (Suc i) ps
        else if starts_with_ci header (drop p b) then Ret (Some i)
        else header_loop b h_end header (Suc i) ps))"

text \<open>
  The start of the line, the start of the value and the last byte of the line; the latter two
  are computed only when asked for, as the null pointers of the callers say.
\<close>

definition do_header_search ::
  "ci_headers_list \<Rightarrow> bytes \<Rightarrow> bool \<Rightarrow> bool \<Rightarrow> (nat \<times> nat \<times> nat) option c_result" where
  "do_header_search h header want_value want_end =
     (if header = [] then Ret None
      else c_bind (header_loop (hl_buf h) (hl_bufused h) header 0 (hl_headers h)) (\<lambda>found.
        case found of None \<Rightarrow> Ret None
        | Some i \<Rightarrow>
            let check_head = hl_headers h ! i; lval0 = check_head + length header + 1 in
            c_bind (if want_value then skip_blanks (hl_buf h) (hl_bufused h) lval0 else Ret lval0)
              (\<lambda>lval.
                if \<not> want_end then Ret (Some (check_head, lval, 0))
                else let e0 = (if i < hl_used h - 1 then hl_headers h ! (i + 1) - 1
                               else hl_bufused h - 1)
                  in if e0 < lval then Ret None
                     else c_bind (back_over_eol (hl_buf h) lval e0) (\<lambda>e.
                            Ret (Some (check_head, lval, e))))))"

definition ci_headers_search :: "ci_headers_list \<Rightarrow> bytes \<Rightarrow> nat option c_result" where
  "ci_headers_search h header =
     c_bind (do_header_search h header False False) (\<lambda>r. Ret (map_option fst r))"

definition ci_headers_search2 :: "ci_headers_list \<Rightarrow> bytes \<Rightarrow> (nat option \<times> nat) c_result" where
  "ci_headers_search2 h header =
     c_bind (do_header_search h header False True) (\<lambda>r. Ret
       (case r of None \<Rightarrow> (None, 0) | Some (phead, _, pend) \<Rightarrow> (Some phead, pend - phead + 1)))"

definition ci_headers_value :: "ci_headers_list \<Rightarrow> bytes \<Rightarrow> nat option c_result" where
  "ci_headers_value h header =
     c_bind (do_header_search h header True False) (\<lambda>r. Ret
       (case r of None \<Rightarrow> None | Some (_, pval, _) \<Rightarrow> Some pval))"

definition ci_headers_value2 :: "ci_headers_list \<Rightarrow> bytes \<Rightarrow> (nat \<times> nat) option c_result" where
  "ci_headers_value2 h header =
     c_bind (do_header_search h header True True) (\<lambda>r. Ret
       (case r of None \<Rightarrow> None | Some (_, pval, pend) \<Rightarrow> Some (pval, pend - pval + 1)))"

text \<open>
  \<^verbatim>\<open>ci_headers_copy_value\<close> into a buffer of \<open>len\<close> bytes: white space is cut at both ends (but
  one byte is always left) and at most \<open>len - 1\<close> bytes are copied.
\<close>

definition trim_ends :: "bytes \<Rightarrow> bytes" where
  "trim_ends v =
     (let l = (if list_all isspace_c v then drop (length v - 1) v else dropWhile isspace_c v)
      in if list_all isspace_c l then take 1 l else rev (dropWhile isspace_c (rev l)))"

definition ci_headers_copy_value :: "ci_headers_list \<Rightarrow> bytes \<Rightarrow> nat \<Rightarrow> bytes option c_result" where
  "ci_headers_copy_value h header len =
     c_bind (do_header_search h header True True) (\<lambda>r. Ret
       (case r of None \<Rightarrow> None
        | Some (_, pval, pend) \<Rightarrow>
            Some (take (len - 1) (trim_ends (seg pval (pend - pval + 1) (hl_buf h))))))"

subsection \<open>Removal\<close>

text \<open>The loop that rebuilds the index after a removal: it steps over one NUL and at most one LF.\<close>

fun reindex_removed :: "bytes \<Rightarrow> nat \<Rightarrow> nat \<Rightarrow> nat list c_result" where
  "reindex_removed b p 0 = Ret []"
| "reindex_removed b p (Suc n) =
     c_bind (strlen_at b p) (\<lambda>l.
       let q = p + l + 1 in
       c_bind (byte_at b q) (\<lambda>c.
         let q' = (if c = LF then q + 1 else q) in
         c_bind (reindex_removed b q' n) (\<lambda>ps. Ret (q' # ps))))"

definition ci_headers_remove :: "ci_headers_list \<Rightarrow> bytes \<Rightarrow> (ci_headers_list \<times> bool) c_result" where
  "ci_headers_remove h header =
     (if hl_packed h then Ret (h, False)
      else c_bind (header_loop (hl_buf h) (hl_bufused h) header 0 (hl_headers h)) (\<lambda>found.
        case found of None \<Rightarrow> Ret (h, False)
        | Some i \<Rightarrow>
            let phead = hl_headers h ! i in
            if i = hl_used h - 1 then
              if length (hl_buf h) \<le> phead + 1 then Undef
              else Ret (h\<lparr>hl_buf := (hl_buf h)[phead := CR, phead + 1 := LF],
                          hl_bufused := phead, hl_headers := butlast (hl_headers h)\<rparr>, True)
            else
              let nxt = hl_headers h ! (i + 1);
                  cur_head_size = nxt - phead;
                  rest_len = hl_bufused h - phead - cur_head_size;
                  b = mem_write phead (seg nxt rest_len (hl_buf h)) (hl_buf h)
              in c_bind (reindex_removed b phead (hl_used h - 1 - (i + 1))) (\<lambda>ps.
                   Ret (h\<lparr>hl_buf := b, hl_bufused := hl_bufused h - cur_head_size,
                          hl_headers := take (i + 1) (hl_headers h) @ ps\<rparr>, True))))"

text \<open>\<^verbatim>\<open>ci_headers_replace\<close> is a stub in the source: it returns \<^verbatim>\<open>NULL\<close> and changes nothing.\<close>

definition ci_headers_replace ::
  "ci_headers_list \<Rightarrow> bytes \<Rightarrow> bytes \<Rightarrow> ci_headers_list \<times> nat option" where
  "ci_headers_replace h header newval = (h, None)"

subsection \<open>Iteration\<close>

text \<open>The macro \<^verbatim>\<open>eoh\<close> on the rest of a string (whose terminating NUL is the end of the list).\<close>

definition at_or_nul :: "bytes \<Rightarrow> nat \<Rightarrow> char" where
  "at_or_nul s i = (if i < length s then s ! i else NUL)"

definition eoh :: "bytes \<Rightarrow> bool" where
  "eoh s =
     ((at_or_nul s 0 = CR \<and> at_or_nul s 1 = LF \<and> at_or_nul s 2 \<noteq> HT \<and> at_or_nul s 2 \<noteq> SP)
      \<or> (at_or_nul s 0 = LF \<and> at_or_nul s 1 \<noteq> HT \<and> at_or_nul s 1 \<noteq> SP))"

fun copy_until_eoh :: "nat \<Rightarrow> bytes \<Rightarrow> bytes" where
  "copy_until_eoh 0 s = []"
| "copy_until_eoh (Suc n) [] = []"
| "copy_until_eoh (Suc n) (c # s) = (if eoh (c # s) then [] else c # copy_until_eoh n s)"

definition split_header :: "bytes \<Rightarrow> bytes \<times> bytes" where
  "split_header s =
     (let hd1 = take 255 (takeWhile (\<lambda>c. c \<noteq> CHR '':'' \<and> c \<noteq> SP \<and> c \<noteq> CR \<and> c \<noteq> LF) s);
          colon = (at_or_nul s (length hd1) = CHR '':'');
          head = (if colon then hd1 else []);
          rest = (if colon then drop (length hd1 + 1) s else s)
      in (head, copy_until_eoh 8195 (dropWhile (\<lambda>c. c = SP) rest)))"

text \<open>
  The calls of the callback \<^verbatim>\<open>fn\<close>, in order, as the pairs of header name and value.  In a packed
  list the scans end at CR LF, in a list in edit mode at NUL.
\<close>

definition ci_headers_iterate :: "ci_headers_list \<Rightarrow> (bytes \<times> bytes) list" where
  "ci_headers_iterate h = map (\<lambda>p. split_header (cstr (drop p (hl_buf h)))) (hl_headers h)"

subsection \<open>Packing\<close>

definition close_line :: "bytes \<Rightarrow> nat \<Rightarrow> bytes c_result" where
  "close_line b e =
     c_bind (byte_at b (e + 1)) (\<lambda>c. Ret (if c = LF then b[e := CR] else b[e := LF]))"

fun pack_lines :: "bytes \<Rightarrow> nat list \<Rightarrow> bytes c_result" where
  "pack_lines b [] = Ret b"
| "pack_lines b (p # ps) =
     c_bind (strlen_at b p) (\<lambda>len. c_bind (close_line b (p + len)) (\<lambda>b'. pack_lines b' ps))"

definition ci_headers_pack :: "ci_headers_list \<Rightarrow> ci_headers_list c_result" where
  "ci_headers_pack h =
     c_bind (pack_lines (hl_buf h) (hl_headers h)) (\<lambda>b.
       c_bind (byte_at b (hl_bufused h + 1)) (\<lambda>c.
         Ret (if c = LF
              then h\<lparr>hl_buf := b[hl_bufused h := CR], hl_bufused := hl_bufused h + 2, hl_packed := True\<rparr>
              else h\<lparr>hl_buf := b[hl_bufused h := LF], hl_bufused := hl_bufused h + 1, hl_packed := True\<rparr>)))"

text \<open>
  The loop of \<^verbatim>\<open>ci_headers_unpack\<close> at \<^verbatim>\<open>str\<close>, on the buffer, the index and its size; the flag
  of the result is false when the index could not grow.  After the end of a line the new line
  starts at \<open>q\<close>, and \<^verbatim>\<open>str++\<close> of the loop steps over its first byte.
\<close>

definition line_ends :: "bytes \<Rightarrow> nat \<Rightarrow> nat \<Rightarrow> bool" where
  "line_ends b ebuf str =
     (if b ! str = CR \<and> b ! (str + 1) = LF
      then ebuf \<le> str + 2 \<or> (b ! (str + 2) \<noteq> HT \<and> b ! (str + 2) \<noteq> SP)
      else b ! str = LF \<and> b ! (str + 1) \<noteq> HT \<and> b ! (str + 1) \<noteq> SP)"

definition fix_nul :: "bytes \<Rightarrow> nat \<Rightarrow> bytes" where
  "fix_nul b str = (if b ! str = NUL then b[str := SP] else b)"

function unpack_loop ::
  "(nat \<Rightarrow> bool) \<Rightarrow> nat \<Rightarrow> nat \<Rightarrow> bytes \<times> nat list \<times> nat \<Rightarrow> (bytes \<times> nat list \<times> nat) \<times> bool" where
  "unpack_loop ra ebuf str (b, hs, sz) =
     (if ebuf \<le> str then ((b, hs, sz), True)
      else if line_ends b ebuf str then
        if sz \<le> length hs \<and> \<not> ra (sz + HEADERSTARTSIZE) then ((b[str := NUL], hs, sz), False)
        else let sz' = (if sz \<le> length hs then sz + HEADERSTARTSIZE else sz);
                 b' = b[str := NUL];
                 q = (if b' ! (str + 1) = LF then str + 2 else str + 1)
          in unpack_loop ra ebuf (q + 1) (b', hs @ [q], sz')
      else unpack_loop ra ebuf (str + 1) (fix_nul b str, hs, sz))"
  by pat_completeness auto
termination
  by (relation "measure (\<lambda>(ra, ebuf, str, st). ebuf - str)") auto

declare unpack_loop.simps [simp del]

definition ci_headers_unpack ::
  "(nat \<Rightarrow> bool) \<Rightarrow> ci_headers_list \<Rightarrow> (ci_headers_list \<times> int) c_result" where
  "ci_headers_unpack ra h =
     (if hl_bufused h < 2 then Ret (h, EC_400)
      else if length (hl_buf h) < hl_bufused h then Undef
      else let ebuf = hl_bufused h - 2; b = hl_buf h in
        if b ! ebuf \<noteq> CR \<and> b ! ebuf \<noteq> LF then Ret (h, EC_400)
        else case unpack_loop ra ebuf 0 (b[ebuf := NUL], [0], hl_size h) of
               ((b', hs, sz), ok) \<Rightarrow>
                 let h' = h\<lparr>hl_buf := b', hl_headers := hs, hl_size := sz\<rparr> in
                 Ret (if ok then (h'\<lparr>hl_packed := False\<rparr>, EC_100) else (h', EC_500)))"

text \<open>
  \<^verbatim>\<open>ci_headers_pack_to_buffer\<close>: the bytes written at the start of the caller's buffer (of
  \<open>sz\<close> bytes), \<open>None\<close> when they do not fit and nothing is written.
\<close>

fun close_lines :: "bytes \<Rightarrow> nat \<Rightarrow> nat \<Rightarrow> bytes c_result" where
  "close_lines b p 0 = Ret b"
| "close_lines b p (Suc n) =
     c_bind (strlen_at b p) (\<lambda>l. c_bind (close_line b (p + l)) (\<lambda>b'. close_lines b' (p + l) n))"

definition ci_headers_pack_to_buffer :: "ci_headers_list \<Rightarrow> bytes \<Rightarrow> (bytes \<times> nat) c_result" where
  "ci_headers_pack_to_buffer heads buf =
     (let n = hl_bufused heads + (if hl_packed heads then 0 else 2) in
      if length buf < n then Ret (buf, 0)
      else let b = mem_write 0 (take (hl_bufused heads) (hl_buf heads)) buf in
        if hl_packed heads then Ret (b, n)
        else c_bind (close_lines b 0 (hl_used heads)) (\<lambda>b'.
               Ret (b'[hl_bufused heads := CR, hl_bufused heads + 1 := LF], n)))"

section \<open>Encapsulated entities\<close>

text \<open>A header entity carries a header list; the entity pointer of a body is \<^verbatim>\<open>NULL\<close>.\<close>

record ci_encaps_entity =
  ee_start :: int
  ee_type :: int
  ee_entity :: "ci_headers_list option"

definition is_header_type :: "int \<Rightarrow> bool" where
  "is_header_type t \<longleftrightarrow> t = ICAP_REQ_HDR \<or> t = ICAP_RES_HDR"

definition mk_encaps_entity ::
  "(nat \<Rightarrow> char) \<Rightarrow> (nat \<Rightarrow> bool) \<Rightarrow> int \<Rightarrow> int \<Rightarrow> ci_encaps_entity option" where
  "mk_encaps_entity g ra typ val =
     (if \<not> ra 16 then None
      else Some \<lparr>ee_start = val, ee_type = typ,
                 ee_entity = (if is_header_type typ then ci_headers_create g ra else None)\<rparr>)"

text \<open>
  \<^verbatim>\<open>get_encaps_type\<close> on the C string \<open>buf\<close>: the type (-1 when no name fits), the number after the
  name and one more byte, and the number of bytes up to the end of that number.  The offset is
  left where it was when no name fits.  The number is stored in an \<^verbatim>\<open>int\<close>.
\<close>

definition encaps_value :: "int \<Rightarrow> nat \<Rightarrow> bytes \<Rightarrow> int \<times> int \<times> nat" where
  "encaps_value typ n buf =
     (let (v, k) = strtol 10 (drop n buf) in (typ, int32 v, n + k))"

definition get_encaps_type :: "bytes \<Rightarrow> (int \<times> int \<times> nat) option" where
  "get_encaps_type buf =
     (if starts_with ''req-hdr'' buf then Some (encaps_value ICAP_REQ_HDR 8 buf)
      else if starts_with ''res-hdr'' buf then Some (encaps_value ICAP_RES_HDR 8 buf)
      else if starts_with ''req-body'' buf then Some (encaps_value ICAP_REQ_BODY 9 buf)
      else if starts_with ''res-body'' buf then Some (encaps_value ICAP_RES_BODY 9 buf)
      else if starts_with ''null-body'' buf then Some (encaps_value ICAP_NULL_BODY 10 buf)
      else None)"

definition sizeofheader :: "ci_headers_list \<Rightarrow> nat" where
  "sizeofheader h = hl_bufused h + 2"

definition sizeofencaps :: "ci_encaps_entity \<Rightarrow> nat c_result" where
  "sizeofencaps e =
     (if is_header_type (ee_type e)
      then (case ee_entity e of None \<Rightarrow> Undef | Some h \<Rightarrow> Ret (sizeofheader h)) else Ret 0)"

section \<open>The list of lines\<close>

text \<open>The bytes of a list of lines while it is edited, and on the wire.\<close>

definition hstore :: "bytes list \<Rightarrow> bytes" where
  "hstore ls = concat (map (\<lambda>l. l @ [NUL, LF]) ls)"

definition hwire :: "bytes list \<Rightarrow> bytes" where
  "hwire ls = concat (map (\<lambda>l. l @ CRLF) ls)"

fun line_offsets :: "nat \<Rightarrow> bytes list \<Rightarrow> nat list" where
  "line_offsets p [] = []"
| "line_offsets p (l # ls) = p # line_offsets (p + length l + 2) ls"

text \<open>
  The list \<open>h\<close> is in edit mode and holds the lines \<open>ls\<close>; there is room for the closing bytes.
  \<open>hdr_closed\<close> says that the byte which \<^verbatim>\<open>ci_headers_pack\<close> inspects to choose the final line
  end is a line feed.
\<close>

definition hdr_rep :: "ci_headers_list \<Rightarrow> bytes list \<Rightarrow> bool" where
  "hdr_rep h ls \<longleftrightarrow>
     \<not> hl_packed h \<and> (\<forall>l \<in> set ls. NUL \<notin> set l) \<and> hl_headers h = line_offsets 0 ls
     \<and> hl_bufused h = length (hstore ls) \<and> take (hl_bufused h) (hl_buf h) = hstore ls
     \<and> length (hl_buf h) = hl_bufsize h \<and> hl_bufused h + 2 \<le> hl_bufsize h \<and> hl_used h \<le> hl_size h"

definition hdr_closed :: "ci_headers_list \<Rightarrow> bool" where
  "hdr_closed h \<longleftrightarrow> hl_buf h ! (hl_bufused h + 1) = LF"

text \<open>The header \<open>name\<close>, letters compared without case, is the one the line holds.\<close>

definition is_header :: "bytes \<Rightarrow> bytes \<Rightarrow> bool" where
  "is_header name line \<longleftrightarrow>
     length name < length line \<and> line ! length name = CHR '':'' \<and> starts_with_ci name line"

fun find_header :: "bytes \<Rightarrow> bytes list \<Rightarrow> nat option" where
  "find_header name [] = None"
| "find_header name (l # ls) =
     (if is_header name l then Some 0 else map_option Suc (find_header name ls))"

lemma hstore_simps [simp]:
  "hstore [] = []" "hstore (l # ls) = l @ NUL # LF # hstore ls"
  "hstore (ls @ ms) = hstore ls @ hstore ms"
  by (simp_all add: hstore_def)

lemma hwire_simps [simp]:
  "hwire [] = []" "hwire (l # ls) = l @ CR # LF # hwire ls" "hwire (ls @ ms) = hwire ls @ hwire ms"
  by (simp_all add: hwire_def)

lemma length_hwire [simp]: "length (hwire ls) = length (hstore ls)"
  by (induction ls) simp_all

lemma length_line_offsets [simp]: "length (line_offsets p ls) = length ls"
  by (induction ls arbitrary: p) simp_all

lemma line_offsets_append:
  "line_offsets p (ls @ ms) = line_offsets p ls @ line_offsets (p + length (hstore ls)) ms"
  by (induction ls arbitrary: p) (simp_all add: algebra_simps)

lemma line_offsets_nth:
  "i < length ls \<Longrightarrow> line_offsets p ls ! i = p + length (hstore (take i ls))"
proof (induction ls arbitrary: i p)
  case (Cons l ls)
  then show ?case by (cases i) simp_all
qed simp

lemma grow_len_bounds:
  assumes "0 < step"
  shows "used + need \<le> grow_len step used need len \<and> len \<le> grow_len step used need len"
  using assms
proof (induction step used need len rule: grow_len.induct)
  case (1 step used need len)
  then show ?case
    by (auto simp: grow_len.simps [of step used need len])
qed

lemma reindex_lines:
  assumes "\<forall>l \<in> set (l # ls). NUL \<notin> set l"
  shows "reindex (pre @ hstore (l # ls) @ post) (length pre) (length ls)
         = Ret (line_offsets (length pre + length l + 2) ls)"
  using assms
proof (induction ls arbitrary: pre l)
  case Nil
  then show ?case by simp
next
  case (Cons m ls)
  have len: "strlen_at (pre @ hstore (l # m # ls) @ post) (length pre) = Ret (length l)"
    using Cons.prems strlen_at_append [of l pre] by simp
  have "reindex ((pre @ l @ [NUL, LF]) @ hstore (m # ls) @ post) (length (pre @ l @ [NUL, LF]))
          (length ls) = Ret (line_offsets (length (pre @ l @ [NUL, LF]) + length m + 2) ls)"
    using Cons.prems by (intro Cons.IH) simp
  with len show ?case by (simp add: algebra_simps)
qed

lemma rebuild_index_lines:
  assumes "\<forall>l \<in> set ls. NUL \<notin> set l"
  shows "rebuild_index (hstore ls @ post) (length ls) = Ret (line_offsets 0 ls)"
proof (cases ls)
  case (Cons l ms)
  then show ?thesis
    using reindex_lines [of l ms "[]" post] assms by (simp add: rebuild_index_def)
qed (simp add: rebuild_index_def)

lemma hdr_rep_buf:
  assumes "hdr_rep h ls"
  obtains post where "hl_buf h = hstore ls @ post" "2 \<le> length post"
    "hl_bufsize h = length (hstore ls) + length post"
proof
  show "hl_buf h = hstore ls @ drop (hl_bufused h) (hl_buf h)"
    using assms by (metis hdr_rep_def append_take_drop_id)
  show "2 \<le> length (drop (hl_bufused h) (hl_buf h))"
    "hl_bufsize h = length (hstore ls) + length (drop (hl_bufused h) (hl_buf h))"
    using assms by (auto simp: hdr_rep_def)
qed

lemma hdr_repI:
  assumes "\<not> hl_packed h" "\<forall>l \<in> set ls. NUL \<notin> set l" "hl_headers h = line_offsets 0 ls"
    "hl_bufused h = length (hstore ls)" "hl_buf h = hstore ls @ post" "2 \<le> length post"
    "hl_bufsize h = length (hstore ls) + length post" "length ls \<le> hl_size h"
  shows "hdr_rep h ls"
  using assms by (simp add: hdr_rep_def)

lemma hdr_closed_buf:
  "\<lbrakk>hl_buf h = hstore ls @ post; hl_bufused h = length (hstore ls)\<rbrakk> \<Longrightarrow> hdr_closed h \<longleftrightarrow> post ! 1 = LF"
  by (simp add: hdr_closed_def nth_append)

section \<open>Creating and extending a list\<close>

lemma ci_headers_create_rep:
  "ci_headers_create g ra = Some h \<Longrightarrow> hdr_rep h []"
  by (auto simp: ci_headers_create_def hdr_rep_def HEADSBUFSIZE_def HEADERSTARTSIZE_def
      split: if_splits)

lemma ci_headers_reset_rep:
  assumes "length (hl_buf h) = hl_bufsize h" "2 \<le> hl_bufsize h"
  shows "hdr_rep (ci_headers_reset h) []"
  using assms by (simp add: ci_headers_reset_def hdr_rep_def)

lemma put_line_buf:
  assumes "n = length line" "length line + 4 \<le> length post"
  shows "(mem_write (length S) (line @ [NUL]) (S @ post))[length S + n + 1 := LF, length S + n + 3 := LF]
         = S @ line @ NUL # LF # post ! (n + 2) # LF # drop (n + 4) post"
proof -
  obtain x y z r where q: "drop (n + 1) post = x # y # z # r"
    using assms by (auto simp: Suc_le_length_iff numeral_eq_Suc le_Suc_eq
        intro!: that [of "hd (drop (n + 1) post)" "hd (drop (n + 2) post)" "hd (drop (n + 3) post)"
            "drop (n + 4) post"] simp: Cons_nth_drop_Suc [symmetric] hd_drop_conv_nth)
  have y: "y = post ! (n + 2)"
    using arg_cong [OF q, of "\<lambda>l. l ! 1"] assms by simp
  have r: "r = drop (n + 4) post"
    using arg_cong [OF q, of "drop 3"] by (simp add: drop_drop eval_nat_numeral)
  have d: "drop (Suc (length line)) post = x # y # z # r"
    using q assms by simp
  have n1: "length S + n + 1 = length (S @ line @ [NUL])"
    and n3: "length S + n + 3 = length (S @ line @ [NUL, LF, y])"
    using assms by simp_all
  have "mem_write (length S) (line @ [NUL]) (S @ post) = (S @ line @ [NUL]) @ x # y # z # r"
    using d by (simp add: mem_write_def)
  moreover have "((S @ line @ [NUL]) @ x # y # z # r)[length (S @ line @ [NUL]) := LF]
      = (S @ line @ [NUL]) @ LF # y # z # r"
    by (rule list_update_length)
  moreover have "((S @ line @ [NUL, LF, y]) @ z # r)[length (S @ line @ [NUL, LF, y]) := LF]
      = (S @ line @ [NUL, LF, y]) @ LF # r"
    by (rule list_update_length)
  ultimately show ?thesis
    unfolding n1 n3 y [symmetric] r [symmetric] by (simp del: length_append)
qed

lemma put_line_rep:
  assumes h: "hdr_rep h ls" and line: "NUL \<notin> set line"
    and room: "hl_bufused h + length line + 4 \<le> hl_bufsize h" "hl_used h < hl_size h"
  shows "hdr_rep (fst (put_line h line)) (ls @ [line]) \<and> hdr_closed (fst (put_line h line))
         \<and> snd (put_line h line) = Some (length (hstore ls))"
proof -
  obtain post where b: "hl_buf h = hstore ls @ post" "2 \<le> length post"
      "hl_bufsize h = length (hstore ls) + length post"
    using h by (rule hdr_rep_buf)
  have used: "hl_bufused h = length (hstore ls)" "\<not> hl_packed h" "hl_headers h = line_offsets 0 ls"
    using h by (simp_all add: hdr_rep_def)
  have np: "length line + 4 \<le> length post"
    using room b used by simp
  note pl = put_line_buf [OF refl np, of "hstore ls"]
  have buf: "hl_buf (fst (put_line h line)) =
      hstore (ls @ [line]) @ post ! (length line + 2) # LF # drop (length line + 4) post"
    unfolding put_line_def Let_def used b using pl by simp
  have "hdr_rep (fst (put_line h line)) (ls @ [line])"
    using h line room np used
    by (intro hdr_repI [OF _ _ _ _ buf])
      (auto simp: put_line_def Let_def hdr_rep_def line_offsets_append b)
  moreover have "hl_bufused (fst (put_line h line)) = length (hstore (ls @ [line]))"
    by (simp add: put_line_def Let_def used)
  then have "hdr_closed (fst (put_line h line))"
    unfolding hdr_closed_def buf by (simp add: nth_append)
  ultimately show ?thesis
    by (simp add: put_line_def Let_def used)
qed

text \<open>\<^verbatim>\<open>ci_headers_add\<close> appends the line, in every case of growth.\<close>

lemma add_rep:
  assumes h: "hdr_rep h ls" and line: "NUL \<notin> set line" and ra: "\<And>n. ra n"
  obtains h' where "ci_headers_add g ra h line = Ret (h', Some (length (hstore ls)))"
    "hdr_rep h' (ls @ [line])" "hdr_closed h'"
proof -
  let ?h1 = "if hl_used h = hl_size h then h\<lparr>hl_size := hl_size h + HEADERSTARTSIZE\<rparr> else h"
  let ?n = "grow_len HEADSBUFSIZE (hl_bufused h) (length line + 4) (hl_bufsize h)"
  let ?b = "grow_mem g ?n (hl_buf h)"
  have n: "hl_bufused h + (length line + 4) \<le> ?n" "hl_bufsize h \<le> ?n"
    using grow_len_bounds [of HEADSBUFSIZE] by (simp_all add: HEADSBUFSIZE_def)
  have h1: "hdr_rep ?h1 ls" "hl_used ?h1 < hl_size ?h1"
    using h by (auto simp: hdr_rep_def HEADERSTARTSIZE_def)
  have same: "hl_bufused ?h1 = hl_bufused h" "hl_bufsize ?h1 = hl_bufsize h"
      "hl_buf ?h1 = hl_buf h" "hl_headers ?h1 = hl_headers h"
    by simp_all
  have np: "\<not> hl_packed h" and used: "hl_used h = length ls"
    using h by (simp_all add: hdr_rep_def)
  obtain post where b: "hl_buf h = hstore ls @ post" "2 \<le> length post"
      "hl_bufsize h = length (hstore ls) + length post"
    using h by (rule hdr_rep_buf)
  show ?thesis
  proof (cases "hl_bufsize h < ?n")
    case False
    then have add: "ci_headers_add g ra h line = Ret (put_line ?h1 line)"
      using np ra by (simp add: ci_headers_add_def Let_def)
    have "hl_bufused ?h1 + length line + 4 \<le> hl_bufsize ?h1"
      using False n by simp
    from put_line_rep [OF h1(1) line this h1(2)] add show ?thesis
      by (metis prod.collapse that)
  next
    case True
    let ?h2 = "?h1\<lparr>hl_buf := ?b, hl_bufsize := ?n, hl_headers := line_offsets 0 ls\<rparr>"
    have nul: "\<forall>l \<in> set ls. NUL \<notin> set l"
      using h by (simp add: hdr_rep_def)
    have buf: "?b = hstore ls @ (post @ map g [length (hl_buf h)..<?n])"
      by (simp add: grow_mem_def b)
    have idx: "rebuild_index ?b (hl_used h) = Ret (line_offsets 0 ls)"
      unfolding buf used by (rule rebuild_index_lines [OF nul])
    have add: "ci_headers_add g ra h line = Ret (put_line ?h2 line)"
      using np ra True idx unfolding ci_headers_add_def Let_def same by simp
    have "hdr_rep ?h2 ls"
      using h n h1 b True
      by (intro hdr_repI [of _ _ "post @ map g [length (hl_buf h)..<?n]"])
        (auto simp: hdr_rep_def grow_mem_def)
    moreover have "hl_bufused ?h2 + length line + 4 \<le> hl_bufsize ?h2" "hl_used ?h2 < hl_size ?h2"
      using n h1 used by (auto simp: HEADERSTARTSIZE_def split: if_splits)
    ultimately show ?thesis
      using put_line_rep [OF _ line, of ?h2 ls] add by (metis prod.collapse that)
  qed
qed

text \<open>\<^verbatim>\<open>ci_headers_addheaders\<close> appends the lines of the other list, and its closing bytes.\<close>

lemma addheaders_rep:
  assumes h: "hdr_rep h ls" and k: "hdr_rep k ms" and ra: "\<And>n. ra n"
  obtains h' where "ci_headers_addheaders g ra h k = Ret (h', True)"
    "hdr_rep h' (ls @ ms)" "hdr_closed h' = hdr_closed k"
proof -
  let ?len = "grow_len HEADERSTARTSIZE (hl_used h) (hl_used k) (hl_size h)"
  let ?n = "grow_len HEADSBUFSIZE (hl_bufused h) (hl_bufused k + 2) (hl_bufsize h)"
  obtain post where b: "hl_buf h = hstore ls @ post" "2 \<le> length post"
      "hl_bufsize h = length (hstore ls) + length post"
    using h by (rule hdr_rep_buf)
  obtain post2 where c: "hl_buf k = hstore ms @ post2" "2 \<le> length post2"
      "hl_bufsize k = length (hstore ms) + length post2"
    using k by (rule hdr_rep_buf)
  have used: "hl_bufused h = length (hstore ls)" "hl_bufused k = length (hstore ms)"
      "hl_used h = length ls" "hl_used k = length ms" "\<not> hl_packed h"
    and nul: "\<forall>l \<in> set (ls @ ms). NUL \<notin> set l"
    using h k by (auto simp: hdr_rep_def)
  have n: "length (hstore ls) + (length (hstore ms) + 2) \<le> ?n" "hl_bufsize h \<le> ?n"
      "length ls + length ms \<le> ?len"
    using grow_len_bounds [of HEADSBUFSIZE "hl_bufused h" "hl_bufused k + 2" "hl_bufsize h"]
      grow_len_bounds [of HEADERSTARTSIZE "hl_used h" "hl_used k" "hl_size h"] used
    by (simp_all add: HEADSBUFSIZE_def HEADERSTARTSIZE_def)
  let ?d = "take 2 post2"
  let ?rest = "drop (length (hstore ls @ hstore ms) + 2) (grow_mem g ?n (hl_buf h))"
  let ?b = "mem_write (hl_bufused h) (take (hl_bufused k + 2) (hl_buf k)) (grow_mem g ?n (hl_buf h))"
  let ?h' = "h\<lparr>hl_size := ?len, hl_buf := ?b, hl_bufsize := ?n,
      hl_bufused := hl_bufused h + hl_bufused k, hl_headers := line_offsets 0 (ls @ ms)\<rparr>"
  have buf: "?b = hstore (ls @ ms) @ (?d @ ?rest)"
    using n by (simp add: mem_write_def used b c grow_mem_def add.assoc)
  have idx: "rebuild_index ?b (hl_used h + hl_used k) = Ret (line_offsets 0 (ls @ ms))"
    unfolding buf used(3,4) length_append [symmetric] by (rule rebuild_index_lines [OF nul])
  have leng: "length (grow_mem g ?n (hl_buf h)) = ?n"
    using n b by simp
  have "hdr_rep ?h' (ls @ ms)"
    using h n nul c b leng
    by (intro hdr_repI [OF _ _ _ _ buf [THEN subst [where P = "\<lambda>x. hl_buf ?h' = x"]]])
      (auto simp: used)
  moreover have "hdr_closed ?h' = hdr_closed k"
    using hdr_closed_buf [of ?h' "ls @ ms" "?d @ ?rest"] hdr_closed_buf [OF c(1)] buf c(2)
    by (simp add: used nth_append)
  moreover have "ci_headers_addheaders g ra h k = Ret (?h', True)"
    using used ra c idx by (simp add: ci_headers_addheaders_def Let_def)
  ultimately show ?thesis by (rule that [rotated 1])
qed

section \<open>Searching\<close>

lemma tolower_c_eq_NUL [simp]: "tolower_c c = NUL \<longleftrightarrow> c = NUL"
proof
  assume "tolower_c c = NUL"
  show "c = NUL"
  proof (cases "65 \<le> (of_char c :: nat) \<and> (of_char c :: nat) \<le> 90")
    case True
    with \<open>tolower_c c = NUL\<close> have "(of_char (char_of ((of_char c :: nat) + 32)) :: nat) = of_char NUL"
      by (simp add: tolower_c_def)
    with True show ?thesis by simp
  qed (use \<open>tolower_c c = NUL\<close> in \<open>auto simp: tolower_c_def Let_def split: if_splits\<close>)
qed (simp add: tolower_c_def)

lemma starts_with_ci_before_NUL:
  assumes "NUL \<notin> set name"
  shows "starts_with_ci name (l @ NUL # r) \<longleftrightarrow> length name \<le> length l \<and> starts_with_ci name l"
proof (cases "length name \<le> length l")
  case False
  have "\<not> starts_with_ci name (l @ NUL # r)"
  proof
    assume "starts_with_ci name (l @ NUL # r)"
    then have "map tolower_c (take (length name) (l @ NUL # r)) ! length l = map tolower_c name ! length l"
      by (simp add: starts_with_ci_def)
    with False have "tolower_c (name ! length l) = tolower_c NUL" by (simp add: nth_append)
    then have "name ! length l = NUL" by (metis tolower_c_eq_NUL)
    with False assms show False by (metis not_le nth_mem)
  qed
  with False show ?thesis by simp
qed (simp add: starts_with_ci_def)

lemma find_header_short:
  "\<forall>l \<in> set ls. length l \<le> length name \<Longrightarrow> find_header name ls = None"
  by (induction ls) (auto simp: is_header_def)

lemma length_in_hstore: "l \<in> set ls \<Longrightarrow> length l < length (hstore ls)"
  by (induction ls) auto

text \<open>The search loop finds the first line that holds the header.\<close>

lemma header_loop_lines:
  assumes "\<forall>l \<in> set ls. NUL \<notin> set l" "NUL \<notin> set name" "post \<noteq> []"
  shows "header_loop (pre @ hstore ls @ post) (length pre + length (hstore ls)) name i
           (line_offsets (length pre) ls)
         = Ret (map_option (\<lambda>k. i + k) (find_header name ls))"
  using assms(1)
proof (induction ls arbitrary: pre i)
  case Nil
  then show ?case by simp
next
  case (Cons l ls)
  let ?pre = "pre @ l @ [NUL, LF]"
  let ?b = "pre @ hstore (l # ls) @ post"
  let ?e = "length pre + length (hstore (l # ls))"
  let ?n = "length name"
  have IH: "header_loop ?b ?e name (Suc i) (line_offsets (length pre + length l + 2) ls)
      = Ret (map_option (\<lambda>k. Suc i + k) (find_header name ls))"
    using Cons.IH [of ?pre "Suc i"] Cons.prems by (simp add: algebra_simps)
  show ?case
  proof (cases "?e < length pre + ?n")
    case True
    then have "\<forall>m \<in> set (l # ls). length m \<le> ?n"
      using length_in_hstore by fastforce
    then have "find_header name (l # ls) = None" by (rule find_header_short)
    with True show ?thesis by simp
  next
    case False
    then have in_b: "length pre + ?n < length ?b"
      using assms(3) by (cases post) simp_all
    have sw: "starts_with_ci name (drop (length pre) ?b) \<longleftrightarrow> ?n \<le> length l \<and> starts_with_ci name l"
      using starts_with_ci_before_NUL [OF assms(2)] by simp
    have at: "?n \<le> length l \<Longrightarrow> ?b ! (length pre + ?n) = (if ?n < length l then l ! ?n else NUL)"
      by (simp add: nth_append)
    have "is_header name l \<longleftrightarrow>
        ?b ! (length pre + ?n) = CHR '':'' \<and> starts_with_ci name (drop (length pre) ?b)"
      unfolding sw is_header_def using at by (cases "?n \<le> length l") auto
    with False in_b IH show ?thesis
      by (auto simp: option.map_comp comp_def simp del: hstore_simps)
  qed
qed

lemma find_header_Some:
  "find_header name ls = Some i \<Longrightarrow> i < length ls \<and> is_header name (ls ! i)"
  by (induction ls arbitrary: i) (auto split: if_splits)

lemma header_loop_rep:
  assumes "hdr_rep h ls" "NUL \<notin> set name"
  shows "header_loop (hl_buf h) (hl_bufused h) name 0 (hl_headers h) = Ret (find_header name ls)"
proof -
  obtain post where b: "hl_buf h = hstore ls @ post" "2 \<le> length post"
    using assms(1) by (rule hdr_rep_buf)
  then have "post \<noteq> []" by auto
  then show ?thesis
    using header_loop_lines [of ls name post "[]" 0] assms b
    by (simp add: hdr_rep_def option.map_ident)
qed

lemma search_rep:
  assumes "hdr_rep h ls" "NUL \<notin> set name" "name \<noteq> []"
  shows "ci_headers_search h name
         = Ret (map_option (\<lambda>i. length (hstore (take i ls))) (find_header name ls))"
proof (cases "find_header name ls")
  case (Some i)
  then show ?thesis
    using header_loop_rep [OF assms(1,2)] find_header_Some [OF Some] assms
    by (simp add: ci_headers_search_def do_header_search_def hdr_rep_def line_offsets_nth Let_def)
qed (use header_loop_rep [OF assms(1,2)] assms in
      \<open>simp add: ci_headers_search_def do_header_search_def\<close>)

lemma skip_blanks_run:
  assumes "\<forall>c \<in> set bl. c = SP \<or> c = HT" "v \<noteq> []" "hd v \<noteq> SP" "hd v \<noteq> HT"
  shows "skip_blanks (X @ bl @ v) h_end (length X)
         = Ret (if h_end < length X + length bl then max (length X) (h_end + 1)
                else length X + length bl)"
  using assms(1)
proof (induction bl arbitrary: X)
  case Nil
  then show ?case
    using assms(2-) by (cases v) (auto simp: skip_blanks.simps [of _ _ "length X"])
next
  case (Cons c bl)
  have "skip_blanks ((X @ [c]) @ bl @ v) h_end (length (X @ [c]))
      = Ret (if h_end < length (X @ [c]) + length bl then max (length (X @ [c])) (h_end + 1)
                else length (X @ [c]) + length bl)"
    using Cons.prems by (intro Cons.IH) simp
  with Cons.prems show ?case
    by (auto simp: skip_blanks.simps [of _ _ "length X"] max_def)
qed

lemma back_over_eol_line:
  assumes "v \<noteq> []" "last v \<noteq> NUL" "last v \<noteq> CR" "last v \<noteq> LF"
  shows "back_over_eol (X @ v @ NUL # LF # r) (length X) (length X + length v + 1)
         = Ret (length X + length v - 1)"
proof -
  obtain w c where v: "v = w @ [c]"
    using assms(1) by (cases v rule: rev_cases) auto
  let ?b = "X @ w @ c # NUL # LF # r"
  have at: "?b ! (length X + length w + 2) = LF" "?b ! (length X + length w + 1) = NUL"
      "?b ! (length X + length w) = c"
    by (simp_all add: nth_append)
  have "back_over_eol ?b (length X) (length X + length w) = Ret (length X + length w)"
    using assms v at by (subst back_over_eol.simps) simp
  then have "back_over_eol ?b (length X) (length X + length w + 1) = Ret (length X + length w)"
    using at by (subst back_over_eol.simps) simp
  then have "back_over_eol ?b (length X) (length X + length w + 2) = Ret (length X + length w)"
    using at by (subst back_over_eol.simps) simp
  then show ?thesis by (simp add: v)
qed

text \<open>A line split into name, colon, blanks and value: the search stops at the value and goes back from the end of the line.\<close>

lemma value2_line:
  assumes h: "hdr_rep h ls" and name: "NUL \<notin> set name" "name \<noteq> []"
    and found: "find_header name ls = Some i"
    and line: "ls ! i = nm @ CHR '':'' # bl @ v" "length nm = length name"
    and bl: "\<forall>c \<in> set bl. c = SP \<or> c = HT"
    and v: "v \<noteq> [] \<Longrightarrow> hd v \<noteq> SP \<and> hd v \<noteq> HT"
  obtains X post where "hl_buf h = X @ v @ NUL # LF # post"
    "ci_headers_value2 h name = c_bind (back_over_eol (hl_buf h) (length X) (length X + length v + 1)) (\<lambda>e. Ret (Some (length X, e - length X + 1)))"
proof -
  obtain post where b: "hl_buf h = hstore ls @ post" "2 \<le> length post"
    using h by (rule hdr_rep_buf)
  have i: "i < length ls" using find_header_Some [OF found] by simp
  have hs: "hl_headers h = line_offsets 0 ls" "hl_bufused h = length (hstore ls)"
    using h by (simp_all add: hdr_rep_def)
  let ?pre = "hstore (take i ls)" and ?post = "hstore (drop (Suc i) ls) @ post"
  have ls: "ls = take i ls @ (nm @ CHR '':'' # bl @ v) # drop (Suc i) ls"
    using id_take_nth_drop [OF i] line by simp
  let ?X = "?pre @ nm @ [CHR '':'']"
  have buf: "hl_buf h = ?X @ bl @ (v @ NUL # LF # ?post)"
    using b by (subst (asm) ls) simp
  have used: "hl_bufused h = length ?X + length bl + length v + 2 + length (hstore (drop (Suc i) ls))"
    unfolding hs by (subst ls) simp
  have "hd (v @ NUL # LF # ?post) \<noteq> SP" "hd (v @ NUL # LF # ?post) \<noteq> HT" using v by (cases v; simp)+
  then have skip: "skip_blanks (hl_buf h) (hl_bufused h) (length ?X) = Ret (length (?X @ bl))"
    using skip_blanks_run [OF bl, of "v @ NUL # LF # ?post" ?X "hl_bufused h"] used buf by simp
  have "(if i < hl_used h - 1 then hl_headers h ! (i + 1) - 1 else hl_bufused h - 1)
      = length (?X @ bl) + length v + 1"
  proof (cases "i < length ls - 1")
    case True
    have "take (Suc i) ls = take i ls @ [nm @ CHR '':'' # bl @ v]"
      using take_Suc_conv_app_nth [OF i] line by simp
    with True show ?thesis by (simp add: hs line_offsets_nth)
  next
    case False
    with i have "drop (Suc i) ls = []" by simp
    with False used show ?thesis by (simp add: hs)
  qed
  moreover have "hl_headers h ! i + length name + 1 = length ?X"
    using line by (simp add: hs line_offsets_nth i)
  ultimately have "ci_headers_value2 h name
      = c_bind (back_over_eol (hl_buf h) (length (?X @ bl)) (length (?X @ bl) + length v + 1)) (\<lambda>e. Ret (Some (length (?X @ bl), e - length (?X @ bl) + 1)))"
    using header_loop_rep [OF h name(1)] found name(2) skip
    by (cases "back_over_eol (hl_buf h) (length (?X @ bl)) (length (?X @ bl) + length v + 1)")
      (simp_all add: ci_headers_value2_def do_header_search_def Let_def del: length_append)
  then show ?thesis using buf by (intro that [of "?X @ bl" ?post]) simp_all
qed

text \<open>The value is given back exactly; of an empty value the terminating zero is given back.\<close>

lemma value2_rep:
  assumes h: "hdr_rep h ls" and name: "NUL \<notin> set name" "name \<noteq> []"
    and found: "find_header name ls = Some i"
    and line: "ls ! i = nm @ CHR '':'' # bl @ v" "length nm = length name"
    and bl: "\<forall>c \<in> set bl. c = SP \<or> c = HT"
    and v: "v \<noteq> []" "hd v \<noteq> SP" "hd v \<noteq> HT" "last v \<noteq> CR" "last v \<noteq> LF"
  obtains p where "ci_headers_value2 h name = Ret (Some (p, length v))"
    "seg p (length v) (hl_buf h) = v"
proof -
  obtain X post where X: "hl_buf h = X @ v @ NUL # LF # post"
    "ci_headers_value2 h name = c_bind (back_over_eol (hl_buf h) (length X) (length X + length v + 1)) (\<lambda>e. Ret (Some (length X, e - length X + 1)))"
    using value2_line [OF h name found line bl] v by metis
  have "last v \<noteq> NUL"
    using h find_header_Some [OF found] line v unfolding hdr_rep_def by (metis UnCI last_in_set list.set_intros(2) nth_mem set_append)
  then have "back_over_eol (hl_buf h) (length X) (length X + length v + 1) = Ret (length X + length v - 1)"
    using back_over_eol_line [of v X post] v X(1) by simp
  moreover have "length v \<noteq> 0" using v by simp
  ultimately have "ci_headers_value2 h name = Ret (Some (length X, length v))" using X(2) by simp
  moreover have "seg (length X) (length v) (hl_buf h) = v" unfolding X(1) by (simp add: seg_def)
  ultimately show ?thesis by (rule that)
qed

lemma value2_empty:
  assumes "hdr_rep h ls" "NUL \<notin> set name" "name \<noteq> []" "find_header name ls = Some i"
    and "ls ! i = nm @ CHR '':'' # bl" "length nm = length name" "\<forall>c \<in> set bl. c = SP \<or> c = HT"
  shows "\<exists>p. ci_headers_value2 h name = Ret (Some (p, 1)) \<and> seg p 1 (hl_buf h) = [NUL]"
proof -
  obtain X post where X: "hl_buf h = X @ NUL # LF # post"
    "ci_headers_value2 h name = c_bind (back_over_eol (hl_buf h) (length X) (length X + 1)) (\<lambda>e. Ret (Some (length X, e - length X + 1)))"
    using value2_line [OF assms(1-4), of nm bl "[]"] assms(5-) by auto
  have "back_over_eol (hl_buf h) (length X) (length X) = Ret (length X)" by (subst back_over_eol.simps) simp
  then have "back_over_eol (hl_buf h) (length X) (length X + 1) = Ret (length X)"
    unfolding X(1) by (subst back_over_eol.simps) (simp add: nth_append)
  then show ?thesis using X by (simp add: seg_def)
qed

section \<open>Removing\<close>

lemma reindex_removed_lines:
  assumes "\<forall>l \<in> set (l # ls). NUL \<notin> set l"
  shows "reindex_removed (pre @ hstore (l # ls) @ post) (length pre) (length ls)
         = Ret (line_offsets (length pre + length l + 2) ls)"
  using assms
proof (induction ls arbitrary: pre l)
  case Nil
  then show ?case by simp
next
  case (Cons m ls)
  let ?b = "pre @ hstore (l # m # ls) @ post"
  have len: "strlen_at ?b (length pre) = Ret (length l)"
    using Cons.prems strlen_at_append [of l pre] by simp
  have lf: "byte_at ?b (length pre + length l + 1) = Ret LF"
    by (simp add: nth_append)
  have "reindex_removed ((pre @ l @ [NUL, LF]) @ hstore (m # ls) @ post) (length (pre @ l @ [NUL, LF]))
          (length ls) = Ret (line_offsets (length (pre @ l @ [NUL, LF]) + length m + 2) ls)"
    using Cons.prems by (intro Cons.IH) simp
  with len lf show ?case by (simp add: algebra_simps Let_def)
qed

lemma remove_last_rep:
  assumes h: "hdr_rep h (ls @ [l])"
  shows "hdr_rep (h\<lparr>hl_buf := (hl_buf h)[length (hstore ls) := CR, length (hstore ls) + 1 := LF],
      hl_bufused := length (hstore ls), hl_headers := butlast (hl_headers h)\<rparr>) ls"
    (is "hdr_rep ?h ls")
    and "hdr_closed (h\<lparr>hl_buf := (hl_buf h)[length (hstore ls) := CR, length (hstore ls) + 1 := LF],
      hl_bufused := length (hstore ls), hl_headers := butlast (hl_headers h)\<rparr>)"
proof -
  obtain post where b: "hl_buf h = hstore (ls @ [l]) @ post" "2 \<le> length post"
      "hl_bufsize h = length (hstore (ls @ [l])) + length post"
    using h by (rule hdr_rep_buf)
  have "hl_buf ?h = hstore ls @ (l @ NUL # LF # post)[0 := CR, 1 := LF]"
    by (simp add: b list_update_append)
  then show "hdr_closed ?h"
    by (simp add: hdr_closed_def b nth_append nth_list_update)
  show "hdr_rep ?h ls"
    using h b \<open>hl_buf ?h = _\<close> by (intro hdr_repI [of ?h ls "(l @ NUL # LF # post)[0 := CR, 1 := LF]"])
      (auto simp: hdr_rep_def line_offsets_append)
qed

lemma remove_inner_rep:
  assumes h: "hdr_rep h (ls @ l # m # ms)" and i: "i = length ls"
  defines "b \<equiv> mem_write (length (hstore ls)) (hstore (m # ms)) (hl_buf h)"
  shows "hdr_rep (h\<lparr>hl_buf := b, hl_bufused := length (hstore (ls @ m # ms)),
      hl_headers := take (i + 1) (hl_headers h)
        @ line_offsets (length (hstore ls) + length m + 2) ms\<rparr>) (ls @ m # ms)"
    and "b ! (length (hstore (ls @ m # ms)) + 1) = hstore (l # m # ms) ! (length (hstore (m # ms)) + 1)"
    and "reindex_removed b (length (hstore ls)) (length ms)
      = Ret (line_offsets (length (hstore ls) + length m + 2) ms)"
proof -
  obtain post where bf: "hl_buf h = hstore (ls @ l # m # ms) @ post" "2 \<le> length post"
      "hl_bufsize h = length (hstore (ls @ l # m # ms)) + length post"
    using h by (rule hdr_rep_buf)
  let ?post = "drop (length (hstore (m # ms))) (hstore (l # m # ms) @ post)"
  have b: "b = hstore (ls @ m # ms) @ ?post"
    using mem_write_append [of "hstore ls" "hstore (m # ms)" "hstore (l # m # ms) @ post"]
    by (simp add: b_def bf)
  have nul: "\<forall>x \<in> set (m # ms). NUL \<notin> set x"
    using h by (simp add: hdr_rep_def)
  have "b ! (length (hstore (ls @ m # ms)) + 1) = ?post ! 1"
    unfolding b by (simp add: nth_append)
  also have "\<dots> = (hstore (l # m # ms) @ post) ! (length (hstore (m # ms)) + 1)"
    by (subst nth_drop) simp_all
  also have "\<dots> = hstore (l # m # ms) ! (length (hstore (m # ms)) + 1)"
    by (subst nth_append) simp
  finally show "b ! (length (hstore (ls @ m # ms)) + 1) = hstore (l # m # ms) ! (length (hstore (m # ms)) + 1)" .
  show "reindex_removed b (length (hstore ls)) (length ms)
      = Ret (line_offsets (length (hstore ls) + length m + 2) ms)"
    using reindex_removed_lines [OF nul, of "hstore ls" ?post] b by simp
  show "hdr_rep (h\<lparr>hl_buf := b, hl_bufused := length (hstore (ls @ m # ms)),
      hl_headers := take (i + 1) (hl_headers h)
        @ line_offsets (length (hstore ls) + length m + 2) ms\<rparr>) (ls @ m # ms)" (is "hdr_rep ?h _")
  proof (rule hdr_repI [of ?h _ ?post])
    show "hl_buf ?h = hstore (ls @ m # ms) @ ?post" using b by simp
    show "hl_headers ?h = line_offsets 0 (ls @ m # ms)"
      using h i by (simp add: hdr_rep_def line_offsets_append)
    show "hl_bufsize ?h = length (hstore (ls @ m # ms)) + length ?post"
      using bf by simp
    show "2 \<le> length ?post" using bf by simp
  qed (use h in \<open>auto simp: hdr_rep_def\<close>)
qed

lemma remove_found:
  assumes h: "hdr_rep h (ls @ l # ms)" and name: "NUL \<notin> set name"
    and found: "find_header name (ls @ l # ms) = Some (length ls)"
  shows "\<exists>h'. ci_headers_remove h name = Ret (h', True) \<and> hdr_rep h' (ls @ ms)
    \<and> (hdr_closed h' \<longleftrightarrow> ms = [] \<or> hstore (l # ms) ! (length (hstore ms) + 1) = LF)"
proof -
  have np: "\<not> hl_packed h" and hs: "hl_headers h = line_offsets 0 (ls @ l # ms)"
      "hl_bufused h = length (hstore (ls @ l # ms))"
    using h by (simp_all add: hdr_rep_def)
  have phead: "hl_headers h ! length ls = length (hstore ls)"
    by (simp add: hs line_offsets_nth)
  note loop = header_loop_rep [OF h name, unfolded found]
  obtain post where bf: "hl_buf h = hstore (ls @ l # ms) @ post" "2 \<le> length post"
    using h by (rule hdr_rep_buf)
  show ?thesis
  proof (cases ms)
    case Nil
    then show ?thesis
      using loop np remove_last_rep [of h ls l] h phead bf
      by (simp add: ci_headers_remove_def Let_def hs)
  next
    case (Cons m ns)
    let ?r = "hstore (m # ns)"
    have nxt: "hl_headers h ! (length ls + 1) = length (hstore ls @ l @ [NUL, LF])"
      by (simp add: hs line_offsets_nth Cons)
    have "seg (length (hstore ls @ l @ [NUL, LF])) (length ?r) (hl_buf h) = ?r"
      using seg_append [of "hstore ls @ l @ [NUL, LF]" ?r post] by (simp add: bf Cons)
    then show ?thesis
      using loop np remove_inner_rep [of h ls l m ns "length ls"] h phead nxt Cons
      by (simp add: ci_headers_remove_def Let_def hs hdr_closed_def)
  qed
qed

lemma remove_rep:
  assumes h: "hdr_rep h ls" and name: "NUL \<notin> set name"
  shows "find_header name ls = None \<Longrightarrow> ci_headers_remove h name = Ret (h, False)"
    and "find_header name ls = Some i \<Longrightarrow>
      \<exists>h'. ci_headers_remove h name = Ret (h', True) \<and> hdr_rep h' (take i ls @ drop (Suc i) ls)"
proof -
  show "find_header name ls = None \<Longrightarrow> ci_headers_remove h name = Ret (h, False)"
    using header_loop_rep [OF h name] h by (simp add: ci_headers_remove_def hdr_rep_def)
  assume found: "find_header name ls = Some i"
  then have i: "i < length ls" using find_header_Some by blast
  have "ls = take i ls @ ls ! i # drop (Suc i) ls" by (rule id_take_nth_drop [OF i])
  moreover have "length (take i ls) = i" using i by simp
  ultimately show "\<exists>h'. ci_headers_remove h name = Ret (h', True)
      \<and> hdr_rep h' (take i ls @ drop (Suc i) ls)"
    using remove_found [of h "take i ls" "ls ! i" "drop (Suc i) ls" name] h name found by auto
qed

section \<open>Packing\<close>

lemma close_line_NUL:
  "close_line (pre @ l @ NUL # LF # r) (length pre + length l) = Ret (pre @ l @ CR # LF # r)"
proof -
  have "((pre @ l) @ NUL # LF # r)[length (pre @ l) := CR] = (pre @ l) @ CR # LF # r"
    by (rule list_update_length)
  then show ?thesis by (simp add: close_line_def nth_append)
qed

lemma pack_lines_rep:
  assumes "\<forall>l \<in> set ls. NUL \<notin> set l"
  shows "pack_lines (pre @ hstore ls @ post) (line_offsets (length pre) ls)
         = Ret (pre @ hwire ls @ post)"
  using assms
proof (induction ls arbitrary: pre)
  case Nil
  then show ?case by simp
next
  case (Cons l ls)
  have len: "strlen_at (pre @ hstore (l # ls) @ post) (length pre) = Ret (length l)"
    using Cons.prems strlen_at_append [of l pre] by simp
  have "pack_lines ((pre @ l @ CRLF) @ hstore ls @ post) (line_offsets (length (pre @ l @ CRLF)) ls)
      = Ret ((pre @ l @ CRLF) @ hwire ls @ post)"
    using Cons.prems by (intro Cons.IH) simp
  with len close_line_NUL [of pre l "hstore ls @ post"] show ?case
    by (simp add: algebra_simps)
qed

lemma pack_rep:
  assumes h: "hdr_rep h ls"
  obtains h' where "ci_headers_pack h = Ret h'" "hl_packed h'"
    "take (hl_bufused h') (hl_buf h') = hwire ls @ (if hdr_closed h then CRLF else [LF])"
    "hl_bufused h' = length (hstore ls) + (if hdr_closed h then 2 else 1)"
    "hl_headers h' = hl_headers h" "length (hl_buf h') = length (hl_buf h)"
    "hl_bufsize h' = hl_bufsize h" "hl_size h' = hl_size h"
proof -
  obtain post where b: "hl_buf h = hstore ls @ post" "2 \<le> length post"
    using h by (rule hdr_rep_buf)
  obtain x y r where post: "post = x # y # r"
    using b(2) by (cases post; cases "tl post") auto
  have hs: "hl_headers h = line_offsets 0 ls" "hl_bufused h = length (hstore ls)"
    and nul: "\<forall>l \<in> set ls. NUL \<notin> set l"
    using h by (simp_all add: hdr_rep_def)
  have lines: "pack_lines (hl_buf h) (hl_headers h) = Ret (hwire ls @ x # y # r)"
    using pack_lines_rep [OF nul, of "[]" post] by (simp add: b hs post)
  have y: "byte_at (hwire ls @ x # y # r) (length (hstore ls) + 1) = Ret y"
    by (simp add: nth_append)
  have upd: "(hwire ls @ x # y # r)[length (hstore ls) := c] = hwire ls @ c # y # r" for c
    using list_update_length [of "hwire ls" x "y # r" c] by simp
  have cl: "hdr_closed h \<longleftrightarrow> y = LF"
    using hdr_closed_buf [OF b(1) hs(2)] by (simp add: post)
  show ?thesis
  proof (cases "y = LF")
    case True
    with lines y upd show ?thesis
      by (intro that [of "h\<lparr>hl_buf := hwire ls @ CR # LF # r, hl_bufused := length (hstore ls) + 2,
          hl_packed := True\<rparr>"]) (simp_all add: ci_headers_pack_def hs cl b post)
  next
    case False
    with lines y upd show ?thesis
      by (intro that [of "h\<lparr>hl_buf := hwire ls @ LF # y # r, hl_bufused := length (hstore ls) + 1,
          hl_packed := True\<rparr>"]) (simp_all add: ci_headers_pack_def hs cl b post)
  qed
qed

text \<open>
  A well-formed header line: not empty, without NUL or line ends inside, and not starting with a
  blank (which would make it the continuation of the line before).
\<close>

definition hdr_line :: "bytes \<Rightarrow> bool" where
  "hdr_line l \<longleftrightarrow> l \<noteq> [] \<and> NUL \<notin> set l \<and> CR \<notin> set l \<and> LF \<notin> set l \<and> hd l \<noteq> SP \<and> hd l \<noteq> HT"

text \<open>The lines on the wire, with the last CR already overwritten by NUL.\<close>

fun unclosed_wire :: "bytes \<Rightarrow> bytes list \<Rightarrow> bytes" where
  "unclosed_wire l [] = l @ [NUL, LF]"
| "unclosed_wire l (m # ms) = l @ CRLF @ unclosed_wire m ms"

lemma unclosed_wire_hwire:
  "(hwire (l # ls))[length (hstore (l # ls)) - 2 := NUL] = unclosed_wire l ls"
proof (induction ls arbitrary: l)
  case Nil
  then show ?case by simp
next
  case (Cons m ms)
  let ?k = "length (hstore (m # ms)) - 2"
  have k: "length (hstore (l # m # ms)) - 2 = length (l @ CRLF) + ?k"
    by simp
  have "((l @ CRLF) @ hwire (m # ms))[length (l @ CRLF) + ?k := NUL]
      = (l @ CRLF) @ (hwire (m # ms))[?k := NUL]"
    by (subst list_update_append) simp
  with Cons.IH [of m] show ?case
    unfolding k by (simp del: length_append hstore_simps)
qed

lemma length_unclosed_wire [simp]: "length (unclosed_wire l ls) = length (hstore (l # ls))"
  by (induction ls arbitrary: l) simp_all

lemma hd_unclosed_wire [simp]: "m \<noteq> [] \<Longrightarrow> unclosed_wire m ms ! 0 = m ! 0"
  by (cases ms) (simp_all add: nth_append)

lemma unpack_scan:
  assumes "\<forall>j < k. b ! (str + j) \<noteq> NUL \<and> b ! (str + j) \<noteq> CR \<and> b ! (str + j) \<noteq> LF" "str + k \<le> ebuf"
  shows "unpack_loop ra ebuf str (b, hs, sz) = unpack_loop ra ebuf (str + k) (b, hs, sz)"
  using assms
proof (induction k arbitrary: str)
  case (Suc k)
  have "unpack_loop ra ebuf str (b, hs, sz) = unpack_loop ra ebuf (str + 1) (b, hs, sz)"
    using Suc.prems by (subst unpack_loop.simps) (auto simp: line_ends_def fix_nul_def)
  also have "\<dots> = unpack_loop ra ebuf (str + 1 + k) (b, hs, sz)"
    using Suc.prems by (intro Suc.IH) (metis Suc_less_eq add_Suc_right add_Suc_shift plus_1_eq_Suc
        add.commute, simp)
  finally show ?case by simp
qed simp

lemma unpack_line_end:
  assumes "str + 2 < ebuf" "b ! str = CR" "b ! (str + 1) = LF" "b ! (str + 2) \<noteq> HT" "b ! (str + 2) \<noteq> SP"
    "\<And>n. ra n"
  shows "unpack_loop ra ebuf str (b, hs, sz) =
     unpack_loop ra ebuf (str + 3)
       (b[str := NUL], hs @ [str + 2], if sz \<le> length hs then sz + HEADERSTARTSIZE else sz)"
  using assms by (subst unpack_loop.simps) (simp add: line_ends_def Let_def numeral_3_eq_3)

lemma unpack_loop_lines:
  assumes "\<forall>l \<in> set (l # ls). hdr_line l" "\<And>n. ra n" "length hs \<le> sz"
    "length pre \<le> str" "str \<le> length pre + length l"
  shows "\<exists>sz'. length hs + length ls \<le> sz' \<and>
     unpack_loop ra (length pre + length (hstore (l # ls)) - 2) str (pre @ unclosed_wire l ls @ post, hs, sz)
     = ((pre @ hstore (l # ls) @ post, hs @ line_offsets (length pre + length l + 2) ls, sz'), True)"
  using assms(1,3-)
proof (induction ls arbitrary: pre l hs sz str)
  case Nil
  let ?b = "pre @ unclosed_wire l [] @ post"
  let ?k = "length pre + length l - str"
  have "\<forall>j < ?k. ?b ! (str + j) \<in> set l"
    using Nil.prems by (auto simp: nth_append)
  then have plain: "\<forall>j < ?k. ?b ! (str + j) \<noteq> NUL \<and> ?b ! (str + j) \<noteq> CR \<and> ?b ! (str + j) \<noteq> LF"
    using Nil.prems by (fastforce simp: hdr_line_def)
  have "unpack_loop ra (length pre + length l) str (?b, hs, sz)
      = unpack_loop ra (length pre + length l) (length pre + length l) (?b, hs, sz)"
    using unpack_scan [OF plain, of "length pre + length l"] Nil.prems by simp
  also have "\<dots> = ((?b, hs, sz), True)"
    by (subst unpack_loop.simps) simp
  finally show ?case using Nil.prems by auto
next
  case (Cons m ms)
  let ?b = "pre @ unclosed_wire l (m # ms) @ post"
  let ?k = "length pre + length l - str"
  let ?s = "length pre + length l"
  let ?e = "length pre + length (hstore (l # m # ms)) - 2"
  let ?pre = "pre @ l @ [NUL, LF]"
  let ?sz = "if sz \<le> length hs then sz + HEADERSTARTSIZE else sz"
  have m: "m \<noteq> []" "hd m \<noteq> SP" "hd m \<noteq> HT"
    using Cons.prems by (simp_all add: hdr_line_def)
  have "\<forall>j < ?k. ?b ! (str + j) \<in> set l"
    using Cons.prems by (auto simp: nth_append)
  then have plain: "\<forall>j < ?k. ?b ! (str + j) \<noteq> NUL \<and> ?b ! (str + j) \<noteq> CR \<and> ?b ! (str + j) \<noteq> LF"
    using Cons.prems by (fastforce simp: hdr_line_def)
  have at: "?b ! ?s = CR" "?b ! (?s + 1) = LF" "?b ! (?s + 2) = hd m"
    using m by (simp_all add: nth_append hd_conv_nth)
  have upd: "?b[?s := NUL] = ?pre @ unclosed_wire m ms @ post"
    using list_update_length [of "pre @ l" CR "LF # unclosed_wire m ms @ post" NUL] by simp
  have "unpack_loop ra ?e str (?b, hs, sz) = unpack_loop ra ?e ?s (?b, hs, sz)"
    using unpack_scan [OF plain, of ?e] Cons.prems by simp
  also have "\<dots> = unpack_loop ra ?e (?s + 3) (?pre @ unclosed_wire m ms @ post, hs @ [?s + 2], ?sz)"
    using unpack_line_end [of ?s ?e ?b ra] at m assms(2) upd by (cases m) simp_all
  finally have step: "unpack_loop ra ?e str (?b, hs, sz)
      = unpack_loop ra ?e (?s + 3) (?pre @ unclosed_wire m ms @ post, hs @ [?s + 2], ?sz)" .
  have "\<exists>sz'. length (hs @ [?s + 2]) + length ms \<le> sz' \<and>
     unpack_loop ra (length ?pre + length (hstore (m # ms)) - 2) (?s + 3)
       (?pre @ unclosed_wire m ms @ post, hs @ [?s + 2], ?sz)
     = ((?pre @ hstore (m # ms) @ post,
         (hs @ [?s + 2]) @ line_offsets (length ?pre + length m + 2) ms, sz'), True)"
    using Cons.prems m by (intro Cons.IH) (auto simp: HEADERSTARTSIZE_def Suc_le_eq)
  with step show ?case by (simp add: algebra_simps)
qed

text \<open>Unpacking a block of well-formed lines gives the list of those lines.\<close>

lemma unpack_rep:
  assumes "ls \<noteq> []" "\<forall>l \<in> set ls. hdr_line l" "\<And>n. ra n"
    and h: "hl_buf h = hwire ls @ post" "hl_bufused h = length (hwire ls)" "2 \<le> length post"
      "hl_bufsize h = length (hl_buf h)" "1 \<le> hl_size h"
  obtains h' where "ci_headers_unpack ra h = Ret (h', EC_100)" "hdr_rep h' ls"
    "hl_buf h' = hstore ls @ post"
proof -
  obtain l ms where ls: "ls = l # ms" using assms(1) by (cases ls) auto
  let ?e = "length (hstore ls) - 2"
  have n: "2 \<le> length (hstore ls)" by (simp add: ls)
  have "hwire ls ! ?e = CR"
  proof -
    have "hwire ls = hwire (butlast ls) @ last ls @ CRLF"
      using assms(1) by (metis append_butlast_last_id hwire_simps append_Nil2)
    moreover from this have "?e = length (hwire (butlast ls) @ last ls)"
      by (metis add_diff_cancel_right' append.assoc length_append length_hwire list.size(3,4)
          numeral_2_eq_2 One_nat_def add.right_neutral add_Suc_right)
    ultimately show ?thesis
      by (metis append.assoc nth_append_length)
  qed
  moreover have lt: "?e < length (hstore ls)" using n by linarith
  ultimately have e: "hl_buf h ! ?e = CR"
    by (simp add: nth_append h)
  have upd: "(hl_buf h)[?e := NUL] = unclosed_wire l ms @ post"
    using lt unclosed_wire_hwire [of l ms] by (simp add: h list_update_append ls del: hstore_simps hwire_simps)
  obtain sz' where sz: "1 + length ms \<le> sz'" and
      loop: "unpack_loop ra ?e 0 (unclosed_wire l ms @ post, [0], hl_size h)
        = ((hstore ls @ post, [0] @ line_offsets (length l + 2) ms, sz'), True)"
    using unpack_loop_lines [of l ms ra "[0]" "hl_size h" "[]" 0 post] assms ls by auto
  let ?h = "h\<lparr>hl_buf := hstore ls @ post, hl_headers := line_offsets 0 ls, hl_size := sz',
      hl_packed := False\<rparr>"
  have "ci_headers_unpack ra h = Ret (?h, EC_100)"
    using e n loop h upd by (simp add: ci_headers_unpack_def Let_def ls)
  moreover have "hdr_rep ?h ls"
    using assms h sz by (intro hdr_repI [of ?h ls post]) (auto simp: hdr_line_def ls)
  moreover have "hl_buf ?h = hstore ls @ post" by simp
  ultimately show ?thesis by (rule that)
qed

section \<open>The interface of a header list\<close>

text \<open>
  What the response builders of \<^verbatim>\<open>request.c\<close> rely on: a sequence of additions to a list that
  holds \<open>ls\<close>, and the bytes that packing puts on the wire.
\<close>

fun add_lines :: "('h \<Rightarrow> bytes \<Rightarrow> 'h c_result) \<Rightarrow> 'h \<Rightarrow> bytes list \<Rightarrow> 'h c_result" where
  "add_lines add h [] = Ret h"
| "add_lines add h (l # ls) = c_bind (add h l) (\<lambda>h'. add_lines add h' ls)"

locale header_store =
  fixes rep :: "'h \<Rightarrow> bytes list \<Rightarrow> bool"
    and closed :: "'h \<Rightarrow> bool"
    and add :: "'h \<Rightarrow> bytes \<Rightarrow> 'h c_result"
    and append :: "'h \<Rightarrow> 'h \<Rightarrow> 'h c_result"
    and pack :: "'h \<Rightarrow> 'h c_result"
    and wire :: "'h \<Rightarrow> bytes"
  assumes add_law: "\<lbrakk>rep h ls; NUL \<notin> set l\<rbrakk> \<Longrightarrow> \<exists>h'. add h l = Ret h' \<and> rep h' (ls @ [l]) \<and> closed h'"
    and append_law: "\<lbrakk>rep h ls; rep k ms\<rbrakk> \<Longrightarrow>
      \<exists>h'. append h k = Ret h' \<and> rep h' (ls @ ms) \<and> closed h' = closed k"
    and pack_law: "rep h ls \<Longrightarrow>
      \<exists>h'. pack h = Ret h' \<and> wire h' = hwire ls @ (if closed h then CRLF else [LF])"
begin

lemma add_lines_rep:
  assumes "rep h ls" "\<forall>l \<in> set ms. NUL \<notin> set l"
  shows "\<exists>h'. add_lines add h ms = Ret h' \<and> rep h' (ls @ ms) \<and> (ms \<noteq> [] \<longrightarrow> closed h')"
  using assms
proof (induction ms arbitrary: h ls)
  case Nil
  then show ?case by simp
next
  case (Cons m ms)
  then obtain h1 where h1: "add h m = Ret h1" "rep h1 (ls @ [m])" "closed h1"
    using add_law [of h ls m] by auto
  have "\<forall>l \<in> set ms. NUL \<notin> set l" using Cons.prems by simp
  from Cons.IH [OF h1(2) this] obtain h2 where "add_lines add h1 ms = Ret h2"
      "rep h2 ((ls @ [m]) @ ms)" "ms \<noteq> [] \<longrightarrow> closed h2"
    by blast
  with h1 show ?case by (cases ms) simp_all
qed

lemma build_and_pack:
  assumes "rep h ls" "\<forall>l \<in> set ms. NUL \<notin> set l" "ms \<noteq> []"
  shows "\<exists>h' h''. add_lines add h ms = Ret h' \<and> pack h' = Ret h'' \<and> wire h'' = hwire (ls @ ms) @ CRLF"
proof -
  obtain h' where h': "add_lines add h ms = Ret h'" "rep h' (ls @ ms)" "closed h'"
    using add_lines_rep [OF assms(1,2)] assms(3) by auto
  then show ?thesis using pack_law [OF h'(2)] by auto
qed

end

definition add_line :: "(nat \<Rightarrow> char) \<Rightarrow> (nat \<Rightarrow> bool) \<Rightarrow> ci_headers_list \<Rightarrow> bytes \<Rightarrow> ci_headers_list c_result" where
  "add_line g ra h l = c_bind (ci_headers_add g ra h l) (\<lambda>r. Ret (fst r))"

definition append_list ::
  "(nat \<Rightarrow> char) \<Rightarrow> (nat \<Rightarrow> bool) \<Rightarrow> ci_headers_list \<Rightarrow> ci_headers_list \<Rightarrow> ci_headers_list c_result" where
  "append_list g ra h k = c_bind (ci_headers_addheaders g ra h k) (\<lambda>r. Ret (fst r))"

definition wire_bytes :: "ci_headers_list \<Rightarrow> bytes" where
  "wire_bytes h = take (hl_bufused h) (hl_buf h)"

interpretation hdr: header_store hdr_rep hdr_closed "add_line g (\<lambda>_. True)"
  "append_list g (\<lambda>_. True)" ci_headers_pack wire_bytes for g
proof
  show "\<exists>h'. add_line g (\<lambda>_. True) h l = Ret h' \<and> hdr_rep h' (ls @ [l]) \<and> hdr_closed h'"
    if "hdr_rep h ls" "NUL \<notin> set l" for h ls l
    by (rule add_rep [OF that, of "\<lambda>_. True" g]) (simp_all add: add_line_def)
  show "\<exists>h'. append_list g (\<lambda>_. True) h k = Ret h' \<and> hdr_rep h' (ls @ ms) \<and> hdr_closed h' = hdr_closed k"
    if "hdr_rep h ls" "hdr_rep k ms" for h ls k ms
    by (rule addheaders_rep [OF that, of "\<lambda>_. True" g]) (simp_all add: append_list_def)
  show "\<exists>h'. ci_headers_pack h = Ret h' \<and> wire_bytes h' = hwire ls @ (if hdr_closed h then CRLF else [LF])"
    if "hdr_rep h ls" for h ls
    by (rule pack_rep [OF that]) (simp add: wire_bytes_def)
qed

section \<open>Properties\<close>

text \<open>
  C8.  A header list built by \<^verbatim>\<open>ci_headers_create\<close> and any number of \<^verbatim>\<open>ci_headers_add\<close> calls (the
  buffer and the index grow as often as needed) is packed by \<^verbatim>\<open>ci_headers_pack\<close> to exactly those
  lines in that order, each closed by CR LF, and the empty line.
\<close>

theorem headers_build_wire:
  assumes "ci_headers_create g (\<lambda>_. True) = Some h" "ms \<noteq> []" "\<forall>l \<in> set ms. NUL \<notin> set l"
  shows "\<exists>h' h''. add_lines (add_line g (\<lambda>_. True)) h ms = Ret h' \<and> ci_headers_pack h' = Ret h''
    \<and> take (hl_bufused h'') (hl_buf h'') = concat (map (\<lambda>l. l @ CRLF) ms) @ CRLF"
  using hdr.build_and_pack [OF ci_headers_create_rep [OF assms(1)] assms(3,2)]
  by (simp add: wire_bytes_def hwire_def)

theorem headers_build_wire_witness:
  "\<exists>h h' h''. ci_headers_create (\<lambda>_. NUL) (\<lambda>_. True) = Some h
    \<and> add_lines (add_line (\<lambda>_. NUL) (\<lambda>_. True)) h [''ICAP/1.0 200 OK'', ''ISTag: x''] = Ret h'
    \<and> ci_headers_pack h' = Ret h''
    \<and> take (hl_bufused h'') (hl_buf h'') = ''ICAP/1.0 200 OK'' @ CRLF @ ''ISTag: x'' @ CRLF @ CRLF"
proof -
  obtain h where h: "ci_headers_create (\<lambda>_. NUL) (\<lambda>_. True) = Some h"
    by (simp add: ci_headers_create_def)
  from headers_build_wire [OF h, of "[''ICAP/1.0 200 OK'', ''ISTag: x'']"] h show ?thesis by simp
qed

text \<open>
  C9.  A block of well-formed header lines that stands in the buffer with its empty line is split
  by \<^verbatim>\<open>ci_headers_unpack\<close> into exactly its lines, and \<^verbatim>\<open>ci_headers_pack\<close> turns the list back into
  the same bytes: headers that no service touches leave the server as they came.
\<close>

theorem headers_unpack_pack:
  assumes "ls \<noteq> []" "\<forall>l \<in> set ls. hdr_line l"
    "hl_buf h = hwire ls @ CRLF @ rest" "hl_bufused h = length (hwire ls)"
    "hl_bufsize h = length (hl_buf h)" "1 \<le> hl_size h"
  shows "\<exists>h1 h2. ci_headers_unpack (\<lambda>_. True) h = Ret (h1, EC_100) \<and> hdr_rep h1 ls
    \<and> ci_headers_pack h1 = Ret h2 \<and> take (hl_bufused h2) (hl_buf h2) = hwire ls @ CRLF"
proof -
  obtain h1 where h1: "ci_headers_unpack (\<lambda>_. True) h = Ret (h1, EC_100)" "hdr_rep h1 ls"
      "hl_buf h1 = hstore ls @ CRLF @ rest"
    by (rule unpack_rep [OF assms(1,2) _ assms(3,4) _ assms(5,6)]) simp_all
  then have "hdr_closed h1"
    using hdr_closed_buf [OF h1(3)] by (simp add: hdr_rep_def)
  moreover obtain h2 where "ci_headers_pack h1 = Ret h2"
      "take (hl_bufused h2) (hl_buf h2) = hwire ls @ (if hdr_closed h1 then CRLF else [LF])"
    by (rule pack_rep [OF h1(2)])
  ultimately show ?thesis using h1 by auto
qed

definition request_block :: ci_headers_list where
  "request_block = \<lparr>hl_size = 64, hl_headers = [], hl_bufsize = 26, hl_bufused = 24,
     hl_buf = ''GET / HTTP/1.1'' @ CRLF @ ''Via: x'' @ CRLF @ CRLF, hl_packed = False\<rparr>"

theorem headers_unpack_pack_witness:
  "\<exists>h1 h2. ci_headers_unpack (\<lambda>_. True) request_block = Ret (h1, EC_100)
    \<and> hdr_rep h1 [''GET / HTTP/1.1'', ''Via: x''] \<and> ci_headers_pack h1 = Ret h2
    \<and> take (hl_bufused h2) (hl_buf h2) = ''GET / HTTP/1.1'' @ CRLF @ ''Via: x'' @ CRLF @ CRLF"
  using headers_unpack_pack [of "[''GET / HTTP/1.1'', ''Via: x'']" request_block "[]"]
  by (simp add: request_block_def hdr_line_def)

text \<open>
  C10.  \<^verbatim>\<open>ci_headers_value2\<close> looks a header up by its name in any letter case and returns a pointer
  and a size that delimit exactly the value of the first such line, without the blanks before it
  and the line end after it; without such a line it returns \<^verbatim>\<open>NULL\<close>.  For a line with an empty value it returns the
  size 1, and the byte that this delimits is the terminating zero (a defect of the code).
\<close>

theorem headers_value_lookup:
  assumes "hdr_rep h ls" "NUL \<notin> set name" "name \<noteq> []"
  shows "(find_header name ls = None \<longrightarrow> ci_headers_value2 h name = Ret None)
    \<and> (\<forall>i nm bl v. find_header name ls = Some i \<and> ls ! i = nm @ CHR '':'' # bl @ v
         \<and> length nm = length name \<and> (\<forall>c \<in> set bl. c = SP \<or> c = HT)
         \<and> v \<noteq> [] \<and> hd v \<notin> {SP, HT} \<and> last v \<notin> {CR, LF} \<longrightarrow>
         (\<exists>p. ci_headers_value2 h name = Ret (Some (p, length v)) \<and> seg p (length v) (hl_buf h) = v))
    \<and> (\<forall>i nm bl. find_header name ls = Some i \<and> ls ! i = nm @ CHR '':'' # bl
         \<and> length nm = length name \<and> (\<forall>c \<in> set bl. c = SP \<or> c = HT) \<longrightarrow>
         (\<exists>p. ci_headers_value2 h name = Ret (Some (p, 1)) \<and> seg p 1 (hl_buf h) = [NUL]))"
proof (intro conjI allI impI)
  show "ci_headers_value2 h name = Ret None" if "find_header name ls = None"
    using header_loop_rep [OF assms(1,2)] that assms(3)
    by (simp add: ci_headers_value2_def do_header_search_def)
  show "\<exists>p. ci_headers_value2 h name = Ret (Some (p, length v)) \<and> seg p (length v) (hl_buf h) = v"
    if "find_header name ls = Some i \<and> ls ! i = nm @ CHR '':'' # bl @ v
         \<and> length nm = length name \<and> (\<forall>c \<in> set bl. c = SP \<or> c = HT)
         \<and> v \<noteq> [] \<and> hd v \<notin> {SP, HT} \<and> last v \<notin> {CR, LF}" for i nm bl v
    using that by (auto intro: value2_rep [OF assms, of i nm bl v])
  show "\<exists>p. ci_headers_value2 h name = Ret (Some (p, 1)) \<and> seg p 1 (hl_buf h) = [NUL]"
    if "find_header name ls = Some i \<and> ls ! i = nm @ CHR '':'' # bl
         \<and> length nm = length name \<and> (\<forall>c \<in> set bl. c = SP \<or> c = HT)" for i nm bl
    using that by (elim conjE) (rule value2_empty [OF assms])
qed

definition two_headers :: ci_headers_list where
  "two_headers = \<lparr>hl_size = 64, hl_headers = [0, 8], hl_bufsize = 26, hl_bufused = 24,
     hl_buf = ''Via: x'' @ [NUL, LF] @ ''Host: example.'' @ [NUL, LF] @ CRLF, hl_packed = False\<rparr>"

lemma two_headers_rep: "hdr_rep two_headers [''Via: x'', ''Host: example.'']"
  by (simp add: hdr_rep_def two_headers_def)

theorem headers_value_lookup_witness:
  "\<exists>p. ci_headers_value2 two_headers ''HOST'' = Ret (Some (p, 8))
     \<and> seg p 8 (hl_buf two_headers) = ''example.''"
proof -
  have "find_header ''HOST'' [''Via: x'', ''Host: example.''] = Some 1"
    by code_simp
  moreover have "[''Via: x'', ''Host: example.''] ! 1 = ''Host'' @ CHR '':'' # '' '' @ ''example.''"
    by simp
  ultimately show ?thesis
    using headers_value_lookup [OF two_headers_rep, of "''HOST''", THEN conjunct2, THEN conjunct1,
        THEN spec [of _ 1], THEN spec [of _ "''Host''"], THEN spec [of _ "'' ''"],
        THEN spec [of _ "''example.''"]]
    by (simp add: eval_nat_numeral del: find_header.simps)
qed

text \<open>
  C11.  \<^verbatim>\<open>ci_headers_remove\<close> deletes the first line with the given name and nothing else, and
  leaves the list as it was when there is none.
\<close>

theorem headers_remove_first:
  assumes "hdr_rep h ls" "NUL \<notin> set name"
  shows "case find_header name ls of
           None \<Rightarrow> ci_headers_remove h name = Ret (h, False)
         | Some i \<Rightarrow> \<exists>h'. ci_headers_remove h name = Ret (h', True)
                       \<and> hdr_rep h' (take i ls @ drop (Suc i) ls)"
  using remove_rep [OF assms] by (auto split: option.split)

theorem headers_remove_first_witness:
  "\<exists>h'. ci_headers_remove two_headers ''via'' = Ret (h', True) \<and> hdr_rep h' [''Host: example.'']"
proof -
  have "find_header ''via'' [''Via: x'', ''Host: example.''] = Some 0"
    by code_simp
  then show ?thesis
    using headers_remove_first [OF two_headers_rep, of "''via''"] by simp
qed

text \<open>
 A removal does not restore the closing bytes.  When the removed line is not the last one
  and not longer than it, \<^verbatim>\<open>ci_headers_pack\<close> closes the block with a bare LF, so the block on the
  wire is one byte shorter than \<^verbatim>\<open>sizeofheader\<close> said, which is the size the \<^verbatim>\<open>Encapsulated\<close>
  header announces.
\<close>

theorem headers_remove_shortens_block:
  assumes "hdr_rep h (ls @ l # ms @ [z])" "NUL \<notin> set name"
    "find_header name (ls @ l # ms @ [z]) = Some (length ls)"
    "0 < length l" "length l \<le> length z" "LF \<notin> set z"
  shows "\<exists>h' h''. ci_headers_remove h name = Ret (h', True) \<and> ci_headers_pack h' = Ret h''
    \<and> take (hl_bufused h'') (hl_buf h'') = hwire (ls @ ms @ [z]) @ [LF]
    \<and> hl_bufused h'' + 1 = sizeofheader h'"
proof -
  obtain h' where h': "ci_headers_remove h name = Ret (h', True)" "hdr_rep h' (ls @ ms @ [z])"
      "hdr_closed h' \<longleftrightarrow> hstore (l # ms @ [z]) ! (length (hstore (ms @ [z])) + 1) = LF"
    using remove_found [OF assms(1-3)] by auto
  let ?k = "length z - length l"
  have split: "hstore (l # ms @ [z]) = hstore (l # ms) @ z @ [NUL, LF]" by simp
  have "length (hstore (ms @ [z])) + 1 = length (hstore (l # ms)) + (?k + 1)"
    using assms by simp
  then have "hstore (l # ms @ [z]) ! (length (hstore (ms @ [z])) + 1) = (z @ [NUL, LF]) ! (?k + 1)"
    unfolding split by (simp only: nth_append_length_plus)
  also have "\<dots> \<noteq> LF"
  proof (cases "?k + 1 < length z")
    case True
    then have "(z @ [NUL, LF]) ! (?k + 1) \<in> set z" by (metis nth_append nth_mem)
    then show ?thesis using assms(6) by metis
  next
    case False
    then have "?k + 1 = length z" using assms(4,5) by linarith
    then show ?thesis by (simp add: nth_append)
  qed
  finally have "\<not> hdr_closed h'" using h' by simp
  moreover obtain h'' where "ci_headers_pack h' = Ret h''"
      "take (hl_bufused h'') (hl_buf h'') = hwire (ls @ ms @ [z]) @ (if hdr_closed h' then CRLF else [LF])"
      "hl_bufused h'' = length (hstore (ls @ ms @ [z])) + (if hdr_closed h' then 2 else 1)"
    by (rule pack_rep [OF h'(2)])
  moreover have "hl_bufused h' = length (hstore (ls @ ms @ [z]))"
    using h'(2) by (simp add: hdr_rep_def)
  ultimately show ?thesis
    using h'(1) by (simp add: sizeofheader_def)
qed

theorem headers_remove_shortens_block_witness:
  "\<exists>h' h''. ci_headers_remove two_headers ''Via'' = Ret (h', True) \<and> ci_headers_pack h' = Ret h''
     \<and> take (hl_bufused h'') (hl_buf h'') = ''Host: example.'' @ CRLF @ [LF]
     \<and> hl_bufused h'' + 1 = sizeofheader h'"
proof -
  have "find_header ''Via'' [''Via: x'', ''Host: example.''] = Some 0"
    by code_simp
  then show ?thesis
    using headers_remove_shortens_block [of two_headers "[]" "''Via: x''" "[]" "''Host: example.''" "''Via''"]
      two_headers_rep by simp
qed

end
