(* ===== verification/Chunk_Parser.thy ===== *)
theory Chunk_Parser
  imports Headers Mem_Buffer
begin

text \<open>
  Reading and writing chunked bodies: \<^verbatim>\<open>parse_chunk_data\<close> and \<^verbatim>\<open>net_data_read\<close> of
  \<^verbatim>\<open>request_common.c\<close> and \<^verbatim>\<open>format_body_chunk\<close> of \<^verbatim>\<open>request.c\<close>, with the fields of \<^verbatim>\<open>ci_request_t\<close> they
  use; the request of the theory \<^verbatim>\<open>Request\<close> extends this record.

  The unread input is a window of \<^verbatim>\<open>pstrblock_read_len\<close> bytes at \<^verbatim>\<open>pstrblock_read\<close>, a pointer into
  \<^verbatim>\<open>rbuf\<close> or into the buffer of the ICAP header (where the bytes read past the header stay).  One
  pass through the loop of \<^verbatim>\<open>parse_chunk_data\<close> is \<open>chunk_step\<close>; the loop is a partial function,
  so that a loop that never ends is the value \<open>None\<close>.

  Proved: whatever way the network cuts a well-formed chunked body into pieces, the parser
  returns after each piece, delivers exactly the payload, and reports the end exactly at the end;
  the chunks that \<^verbatim>\<open>format_body_chunk\<close> writes are such a body; a negative chunk size makes the
  loop run forever.
\<close>

section \<open>State\<close>

definition BUFSIZE :: int where "BUFSIZE = 4096"
definition EXTRA_CHUNK_SIZE :: nat where "EXTRA_CHUNK_SIZE = 30"
definition MAX_CHUNK_SIZE :: nat where "MAX_CHUNK_SIZE = 4064"

text \<open>
  A pointer to unread input: null, into \<^verbatim>\<open>rbuf\<close>, or into another block (the ICAP header's
  buffer), which is not written while the pointer is in use and so is kept with it.
\<close>

datatype pstr = P_null | P_rbuf int | P_block bytes int

fun pstr_add :: "pstr \<Rightarrow> int \<Rightarrow> pstr" where
  "pstr_add P_null n = P_null"
| "pstr_add (P_rbuf p) n = P_rbuf (p + n)"
| "pstr_add (P_block b p) n = P_block b (p + n)"

text \<open>The fields of \<^verbatim>\<open>ci_request_t\<close> on the input side.\<close>

record ci_req_in =
  rq_rbuf :: bytes
  rq_pstr :: pstr
  rq_pstr_len :: int
  rq_chunk_len :: "32 word"
  rq_chunk_read :: "32 word"
  rq_pending :: "32 word"
  rq_eof_received :: bool
  rq_i206 :: int
  rq_bytes_in :: "64 word"
  rq_request_bytes_in :: "64 word"
  rq_http_bytes_in :: "64 word"
  rq_body_bytes_in :: "64 word"
  rq_preview_data :: ci_buf

text \<open>
  The memory from a pointer on; \<open>None\<close> when \<open>n\<close> bytes there are not inside the block (an empty
  window needs no block).
\<close>

fun ptr_mem :: "bytes \<Rightarrow> pstr \<Rightarrow> int \<Rightarrow> bytes option" where
  "ptr_mem rbuf P_null n = (if n = 0 then Some [] else None)"
| "ptr_mem rbuf (P_rbuf p) n =
     (if 0 \<le> p \<and> 0 \<le> n \<and> p + n \<le> int (length rbuf) then Some (drop (nat p) rbuf) else None)"
| "ptr_mem rbuf (P_block b p) n =
     (if 0 \<le> p \<and> 0 \<le> n \<and> p + n \<le> int (length b) then Some (drop (nat p) b) else None)"

definition rq_text :: "'a ci_req_in_scheme \<Rightarrow> bytes" where
  "rq_text req =
     (case ptr_mem (rq_rbuf req) (rq_pstr req) (rq_pstr_len req) of
        None \<Rightarrow> [] | Some s \<Rightarrow> take (nat (rq_pstr_len req)) s)"

definition ci_strnstr :: "bytes \<Rightarrow> bytes \<Rightarrow> nat \<Rightarrow> nat option" where
  "ci_strnstr s pat slen = (if pat = [] then None else find_sub pat (take slen s))"

section \<open>Parsing\<close>

text \<open>What a part of the loop body does: return a status, go on, or read where no block is.\<close>

datatype 'r chunk_flow = C_return int 'r | C_go 'r bool | C_undef

definition skip_blank :: "bytes \<Rightarrow> nat \<Rightarrow> nat" where
  "skip_blank s e = e + length (takeWhile (\<lambda>c. c = SP \<or> c = HT) (drop e s))"

definition advance :: "int \<Rightarrow> 'a ci_req_in_scheme \<Rightarrow> 'a ci_req_in_scheme" where
  "advance n req = req\<lparr>rq_pstr := pstr_add (rq_pstr req) n, rq_pstr_len := rq_pstr_len req - n\<rparr>"

definition count_request :: "int \<Rightarrow> 'a ci_req_in_scheme \<Rightarrow> 'a ci_req_in_scheme" where
  "count_request n req = req\<lparr>rq_request_bytes_in := rq_request_bytes_in req + word_of_int n\<rparr>"

text \<open>The end of a chunk definition: \<open>e\<close> must be at its CR LF; then the window moves past it.\<close>

definition chunk_def_end ::
  "bytes \<Rightarrow> nat \<Rightarrow> nat \<Rightarrow> bool \<Rightarrow> 'a ci_req_in_scheme \<Rightarrow> 'a ci_req_in_scheme chunk_flow" where
  "chunk_def_end s e chunkLen data req =
     (if length s \<le> e + 1 then C_undef
      else if s ! e \<noteq> CR \<or> s ! (e + 1) \<noteq> LF then C_return CI_ERROR req
      else C_go (advance (int chunkLen) req) data)"

text \<open>The zero chunk: its empty line, and the extensions \<^verbatim>\<open>use-original-body\<close> and \<^verbatim>\<open>ieof\<close>.\<close>

definition chunk_ext ::
  "bytes \<Rightarrow> nat \<Rightarrow> 'a ci_req_in_scheme \<Rightarrow> ('a ci_req_in_scheme \<times> nat) option" where
  "chunk_ext s e req =
     (let remains = rq_pstr_len req - int e in
      if 18 \<le> remains \<and> starts_with ''use-original-body='' (drop e s) then
        let (v, k) = strtol 10 (drop (e + 18) s) in Some (req\<lparr>rq_i206 := v\<rparr>, e + 18 + k)
      else if 4 \<le> remains \<and> \<not> starts_with ''ieof'' (drop e s) then None
      else Some (req, e))"

definition chunk_zero ::
  "bytes \<Rightarrow> nat \<Rightarrow> nat \<Rightarrow> 'a ci_req_in_scheme \<Rightarrow> 'a ci_req_in_scheme chunk_flow" where
  "chunk_zero s e chunkLen req =
     (if rq_pstr_len req - int chunkLen < 2 then C_return CI_NEEDS_MORE req
      else if s ! chunkLen \<noteq> CR \<and> s ! (chunkLen + 1) \<noteq> LF then C_return CI_ERROR req
      else let req1 = count_request 2 req; chunkLen1 = chunkLen + 2 in
        if length s \<le> e then C_undef
        else if s ! e = CHR '';'' then
          (case chunk_ext s (skip_blank s (e + 1)) req1 of
             None \<Rightarrow> C_return CI_ERROR req1
           | Some (req2, e2) \<Rightarrow>
               chunk_def_end s (e2 + length (takeWhile (\<lambda>c. c \<noteq> CR) (drop e2 s))) chunkLen1 False
                 (req2\<lparr>rq_eof_received := True\<rparr>))
        else chunk_def_end s e chunkLen1 False req1)"

text \<open>The state \<^verbatim>\<open>READ_CHUNK_DEF\<close>, on the memory \<open>s\<close> from \<^verbatim>\<open>pstrblock_read\<close> on.\<close>

definition chunk_def_part ::
  "bytes \<Rightarrow> 'a ci_req_in_scheme \<Rightarrow> 'a ci_req_in_scheme chunk_flow" where
  "chunk_def_part s req =
     (case ci_strnstr s CRLF (nat (rq_pstr_len req)) of
        None \<Rightarrow> C_return (if BUFSIZE \<le> rq_pstr_len req then CI_ERROR else CI_NEEDS_MORE) req
      | Some k \<Rightarrow>
          let chunkLen = k + 2;
              req1 = count_request (int chunkLen) req;
              (v, e) = strtol 16 s;
              tmp = int32 v
          in if tmp = 0 \<and> e = 0 then C_return CI_ERROR req1
             else let req2 = req1\<lparr>rq_chunk_len := word_of_int tmp, rq_chunk_read := 0\<rparr>;
                      e1 = skip_blank s e
               in if rq_chunk_len req2 = 0 then chunk_zero s e1 chunkLen req2
                  else chunk_def_end s e1 chunkLen True
                         (req2\<lparr>rq_chunk_len := rq_chunk_len req2 + 2\<rparr>))"

text \<open>The state \<^verbatim>\<open>READ_CHUNK_DATA\<close>: how much of the window is data for the service.\<close>

definition count_data :: "32 word \<Rightarrow> 'a ci_req_in_scheme \<Rightarrow> 'a ci_req_in_scheme" where
  "count_data n req =
     req\<lparr>rq_http_bytes_in := rq_http_bytes_in req + ucast n,
         rq_body_bytes_in := rq_body_bytes_in req + ucast n\<rparr>"

definition take_data :: "int \<Rightarrow> 'a ci_req_in_scheme \<Rightarrow> 'a ci_req_in_scheme" where
  "take_data n req =
     advance n (count_request n (req\<lparr>rq_chunk_read := rq_chunk_read req + word_of_int n\<rparr>))"

definition chunk_data_part :: "'a ci_req_in_scheme \<Rightarrow> 'a ci_req_in_scheme" where
  "chunk_data_part req =
     (let remains = sint (rq_chunk_len req - rq_chunk_read req); len = rq_pstr_len req in
      if remains \<le> len then
        if 2 < remains then
          let p = word_of_int (remains - 2) in take_data remains (count_data p (req\<lparr>rq_pending := p\<rparr>))
        else take_data remains (req\<lparr>rq_pending := 0\<rparr>)
      else
        let tmp = remains - len;
            p = word_of_int (if tmp < 2 then len - tmp else len)
        in take_data len (count_data p (req\<lparr>rq_pending := p\<rparr>)))"

text \<open>
  One pass through the loop.  \<open>wdata\<close> is the pointer handed to the caller; the outcome is a
  return with a status, or another pass.
\<close>

datatype 'r chunk_step = S_return int 'r "pstr option" | S_again 'r "pstr option" | S_undef

definition chunk_rest ::
  "bool \<Rightarrow> 'a ci_req_in_scheme \<Rightarrow> pstr option \<Rightarrow> 'a ci_req_in_scheme chunk_step" where
  "chunk_rest data req wdata =
     (if rq_chunk_len req = 0 then S_return CI_EOF req wdata
      else if rq_pending req \<noteq> 0 then S_return CI_OK req wdata
      else if data then
        if rq_pstr_len req \<le> 0 then S_return CI_NEEDS_MORE req wdata
        else let req1 = chunk_data_part req; wdata1 = Some (rq_pstr req) in
          if rq_pstr_len req1 = 0 then S_return CI_NEEDS_MORE req1 wdata1 else S_again req1 wdata1
      else if rq_pstr_len req = 0 then S_return CI_NEEDS_MORE req wdata else S_again req wdata)"

definition chunk_step ::
  "'a ci_req_in_scheme \<Rightarrow> pstr option \<Rightarrow> 'a ci_req_in_scheme chunk_step" where
  "chunk_step req wdata =
     (if rq_chunk_len req = rq_chunk_read req then
        case ptr_mem (rq_rbuf req) (rq_pstr req) (rq_pstr_len req) of
          None \<Rightarrow> S_undef
        | Some s \<Rightarrow>
            (case chunk_def_part s req of
               C_undef \<Rightarrow> S_undef
             | C_return ret req1 \<Rightarrow> S_return ret req1 wdata
             | C_go req1 data \<Rightarrow> chunk_rest data req1 wdata)
      else chunk_rest True req wdata)"

partial_function (option) chunk_loop ::
  "'a ci_req_in_scheme \<Rightarrow> pstr option \<Rightarrow> ('a ci_req_in_scheme \<times> int \<times> pstr option) c_result option" where
  [code]: "chunk_loop req wdata =
     (case chunk_step req wdata of
        S_return ret req1 w \<Rightarrow> Some (Ret (req1, ret, w))
      | S_undef \<Rightarrow> Some Undef
      | S_again req1 w \<Rightarrow> chunk_loop req1 w)"

definition parse_chunk_data ::
  "'a ci_req_in_scheme \<Rightarrow> ('a ci_req_in_scheme \<times> int \<times> pstr option) c_result option" where
  "parse_chunk_data req =
     (if rq_pending req \<noteq> 0 then Some (Ret (req, CI_ERROR, None)) else chunk_loop req None)"

text \<open>
  \<^verbatim>\<open>net_data_read\<close>: the window is moved to the start of \<^verbatim>\<open>rbuf\<close> and what the connection delivers
  is put behind it.  \<open>rd n\<close> is the result of a read of at most \<open>n\<close> bytes: \<open>None\<close> for an error.
\<close>

definition rebase :: "'a ci_req_in_scheme \<Rightarrow> 'a ci_req_in_scheme" where
  "rebase req =
     (if rq_pstr req = P_rbuf 0 then req
      else req\<lparr>rq_rbuf := mem_write 0 (rq_text req) (rq_rbuf req), rq_pstr := P_rbuf 0\<rparr>)"

definition net_data_read ::
  "(nat \<Rightarrow> bytes option) \<Rightarrow> 'a ci_req_in_scheme \<Rightarrow> 'a ci_req_in_scheme \<times> int" where
  "net_data_read rd req =
     (let req1 = rebase req; room = BUFSIZE - rq_pstr_len req1 in
      if room \<le> 0 then (req1, CI_ERROR)
      else case rd (nat room) of
             None \<Rightarrow> (req1, CI_ERROR)
           | Some d \<Rightarrow>
               (req1\<lparr>rq_rbuf := mem_write (nat (rq_pstr_len req1)) d (rq_rbuf req1),
                     rq_pstr_len := rq_pstr_len req1 + int (length d),
                     rq_bytes_in := rq_bytes_in req1 + of_nat (length d)\<rparr>, CI_OK))"

section \<open>Reading the preview\<close>

text \<open>
  What the connection does each time the server waits for input and reads: the wait fails or
  times out, the read fails, or bytes are there (more than fit stay for the next read; none is a
  wake-up without data).
\<close>

datatype net_in = Net_fail | Net_error | Net_data bytes

text \<open>\<^verbatim>\<open>wait_for_data\<close> followed by \<^verbatim>\<open>net_data_read\<close>.\<close>

fun recv :: "net_in list \<Rightarrow> 'a ci_req_in_scheme \<Rightarrow> ('a ci_req_in_scheme \<times> int) \<times> net_in list" where
  "recv [] req = ((req, CI_ERROR), [])"
| "recv (Net_fail # es) req = ((req, CI_ERROR), es)"
| "recv (Net_error # es) req = (net_data_read (\<lambda>_. None) req, es)"
| "recv (Net_data d # es) req =
     (let room = nat (BUFSIZE - rq_pstr_len req) in
      (net_data_read (\<lambda>n. Some (take n d)) req,
       if length d \<le> room then es else Net_data (drop room d) # es))"

text \<open>The bytes that a call hands to its caller: \<^verbatim>\<open>write_to_module_pending\<close> bytes at \<^verbatim>\<open>wdata\<close>.\<close>

definition handed :: "'a ci_req_in_scheme \<Rightarrow> pstr option \<Rightarrow> bytes" where
  "handed req wd =
     (case wd of None \<Rightarrow> []
      | Some p \<Rightarrow> (case ptr_mem (rq_rbuf req) p (uint (rq_pending req)) of
                    None \<Rightarrow> [] | Some s \<Rightarrow> take (unat (rq_pending req)) s))"

text \<open>
  The two loops of \<^verbatim>\<open>read_preview_data\<close>: parse until more input is needed, storing what the parser
  hands over in \<^verbatim>\<open>preview_data\<close>, then read.
\<close>

partial_function (option) preview_loop ::
  "net_in list \<Rightarrow> 'a ci_req_in_scheme \<Rightarrow> (('a ci_req_in_scheme \<times> int) \<times> net_in list) c_result option" where
  [code]: "preview_loop es req =
     (case parse_chunk_data req of
        None \<Rightarrow> None
      | Some Abort \<Rightarrow> Some Abort
      | Some Undef \<Rightarrow> Some Undef
      | Some (Ret (q, ret, wd)) \<Rightarrow>
          if ret = CI_ERROR then Some (Ret ((q, CI_ERROR), es))
          else if length (handed q wd) \<noteq> unat (rq_pending q) then Some Undef
          else (case ci_buf_write (rq_preview_data q) (handed q wd) of
                  Abort \<Rightarrow> Some Abort
                | Undef \<Rightarrow> Some Undef
                | Ret (b, n) \<Rightarrow>
                    if n < 0 then Some (Ret ((q, CI_ERROR), es))
                    else if ret = CI_EOF then
                      Some (Ret ((q\<lparr>rq_preview_data := b, rq_pending := 0, rq_pstr := P_null, rq_pstr_len := 0\<rparr>,
                                  if rq_eof_received q then CI_EOF else CI_OK), es))
                    else if ret \<noteq> CI_NEEDS_MORE then
                      preview_loop es (q\<lparr>rq_preview_data := b, rq_pending := 0\<rparr>)
                    else (case recv es (q\<lparr>rq_preview_data := b, rq_pending := 0\<rparr>) of
                            ((q2, st), es2) \<Rightarrow>
                              if st = CI_ERROR then Some (Ret ((q2, CI_ERROR), es2))
                              else preview_loop es2 q2)))"

definition read_preview_data ::
  "net_in list \<Rightarrow> 'a ci_req_in_scheme \<Rightarrow> (('a ci_req_in_scheme \<times> int) \<times> net_in list) c_result option" where
  "read_preview_data es req =
     (let req1 = req\<lparr>rq_chunk_len := 0, rq_chunk_read := 0, rq_pending := 0\<rparr> in
      if rq_pstr_len req1 = 0 then
        case recv es req1 of
          ((q, st), es2) \<Rightarrow> if st = CI_ERROR then Some (Ret ((q, CI_ERROR), es2)) else preview_loop es2 q
      else preview_loop es req1)"

section \<open>Formatting\<close>

text \<open>
  \<^verbatim>\<open>format_body_chunk\<close> on the block of \<^verbatim>\<open>remain\<close> payload bytes that stands in \<^verbatim>\<open>wbuf\<close> behind the
  \<^verbatim>\<open>EXTRA_CHUNK_SIZE\<close> bytes kept for the definition.  The result is \<^verbatim>\<open>wbuf\<close>, the offset of
  \<^verbatim>\<open>pstrblock_responce\<close> in it, \<^verbatim>\<open>remain_send_block_bytes\<close>, the payload bytes counted, and the
  status.  \<open>use206\<close> is the offset to announce when the return code is 206 and one was set.
\<close>

definition chunk_head :: "nat \<Rightarrow> bytes" where
  "chunk_head n = print_base 16 n @ CRLF"

definition eof_chunk :: "int option \<Rightarrow> bytes" where
  "eof_chunk use206 =
     (case use206 of
        None \<Rightarrow> ''0'' @ CRLF @ CRLF
      | Some off \<Rightarrow> ''0; use-original-body='' @ print_int off @ CRLF @ CRLF)"

definition format_body_chunk ::
  "bool \<Rightarrow> int option \<Rightarrow> bytes \<Rightarrow> nat \<Rightarrow> int \<Rightarrow> (bytes \<times> nat \<times> int \<times> nat \<times> int) c_result" where
  "format_body_chunk hasbody use206 wbuf off remain =
     (if \<not> hasbody then Ret (wbuf, off, remain, 0, CI_EOF)
      else if 0 < remain then
        if int MAX_CHUNK_SIZE < remain then Abort
        else let n = nat remain; hd1 = chunk_head n; d = length hd1;
                 w1 = wbuf[EXTRA_CHUNK_SIZE + n := CR, EXTRA_CHUNK_SIZE + n + 1 := LF];
                 w2 = mem_write (EXTRA_CHUNK_SIZE - d) hd1 w1
          in Ret (w2, EXTRA_CHUNK_SIZE - d, remain + int d + 2, n, CI_OK)
      else if remain = CI_EOF then
        let c = eof_chunk use206 in Ret (mem_write 0 (c @ [NUL]) wbuf, 0, int (length c), 0, CI_EOF)
      else Ret (wbuf, off, remain, 0, CI_OK))"

section \<open>Windows\<close>

lemma ptr_mem_Some_bounds:
  "ptr_mem rbuf p n = Some s \<Longrightarrow> 0 \<le> n \<and> nat n \<le> length s"
  by (cases p) (auto split: if_splits)

lemma ptr_mem_add:
  "\<lbrakk>ptr_mem rbuf p n = Some s; 0 \<le> k; k \<le> n\<rbrakk> \<Longrightarrow> ptr_mem rbuf (pstr_add p k) (n - k) = Some (drop (nat k) s)"
  by (cases p) (auto simp: nat_add_distrib add.commute split: if_splits)

lemma ptr_mem_shorter:
  "\<lbrakk>ptr_mem rbuf p n = Some s; 0 \<le> k; k \<le> n; 0 < n\<rbrakk> \<Longrightarrow> ptr_mem rbuf p k = Some s"
  by (cases p) (auto split: if_splits)

definition win :: "'a ci_req_in_scheme \<Rightarrow> bool" where
  "win req \<longleftrightarrow> ptr_mem (rq_rbuf req) (rq_pstr req) (rq_pstr_len req) \<noteq> None"

lemma win_mem:
  assumes "win req"
  obtains s where "ptr_mem (rq_rbuf req) (rq_pstr req) (rq_pstr_len req) = Some s"
    "rq_pstr_len req = int (length (rq_text req))" "s = rq_text req @ drop (length (rq_text req)) s"
proof -
  obtain s where s: "ptr_mem (rq_rbuf req) (rq_pstr req) (rq_pstr_len req) = Some s"
    using assms by (auto simp: win_def)
  have "rq_text req = take (nat (rq_pstr_len req)) s" "0 \<le> rq_pstr_len req"
      "nat (rq_pstr_len req) \<le> length s"
    using s ptr_mem_Some_bounds [OF s] by (simp_all add: rq_text_def)
  then show ?thesis using s by (intro that [of s]) (simp_all add: min_def)
qed

lemma advance_text:
  assumes "win req" "k \<le> length (rq_text req)"
  shows "win (advance (int k) req) \<and> rq_text (advance (int k) req) = drop k (rq_text req)"
proof -
  obtain s where s: "ptr_mem (rq_rbuf req) (rq_pstr req) (rq_pstr_len req) = Some s"
    "rq_pstr_len req = int (length (rq_text req))" "s = rq_text req @ drop (length (rq_text req)) s"
    using assms(1) by (rule win_mem)
  have "ptr_mem (rq_rbuf req) (pstr_add (rq_pstr req) (int k)) (rq_pstr_len req - int k) = Some (drop k s)"
    using ptr_mem_add [OF s(1), of "int k"] assms(2) s(2) by simp
  moreover have "take (nat (rq_pstr_len req - int k)) (drop k s) = drop k (rq_text req)"
  proof -
    have "rq_text req = take (length (rq_text req)) s" using s(3) by (metis append_eq_conv_conj)
    moreover have "nat (rq_pstr_len req - int k) = length (rq_text req) - k" using s(2) by simp
    ultimately show ?thesis by (metis drop_take)
  qed
  ultimately show ?thesis
    by (simp add: win_def advance_def rq_text_def [of "_\<lparr>rq_pstr := _, rq_pstr_len := _\<rparr>"])
qed

lemma win_cong:
  assumes "rq_rbuf r = rq_rbuf req" "rq_pstr r = rq_pstr req" "rq_pstr_len r = rq_pstr_len req"
  shows "win r = win req" "rq_text r = rq_text req"
  unfolding win_def rq_text_def assms by (rule refl)+

section \<open>Data of a chunk\<close>

text \<open>\<open>n\<close> is the length of a chunk with its CR LF, of which \<open>j\<close> bytes were read.\<close>

lemma sint_chunk_rest:
  assumes "j \<le> n" "n < 2 ^ 31"
  shows "sint (word_of_nat n - word_of_nat j :: 32 word) = int (n - j)"
proof -
  obtain k where k: "n = j + k" using assms(1) le_Suc_ex by blast
  have "(word_of_nat n - word_of_nat j :: 32 word) = word_of_nat k"
    by (simp add: k)
  moreover have "sint (word_of_nat k :: 32 word) = int k"
    using assms k by (simp add: signed_of_nat signed_take_bit_int_eq_self)
  ultimately show ?thesis by (simp add: k)
qed

lemma take_data_simps:
  "rq_rbuf (take_data n r) = rq_rbuf r" "rq_pending (take_data n r) = rq_pending r"
  "rq_chunk_len (take_data n r) = rq_chunk_len r"
  "rq_chunk_read (take_data n r) = rq_chunk_read r + word_of_int n"
  "rq_eof_received (take_data n r) = rq_eof_received r" "rq_i206 (take_data n r) = rq_i206 r"
  by (simp_all add: take_data_def advance_def count_request_def)

lemma take_data_text:
  assumes "win r" "k \<le> length (rq_text r)"
  shows "win (take_data (int k) r)" "rq_text (take_data (int k) r) = drop k (rq_text r)"
proof -
  let ?r = "count_request (int k) (r\<lparr>rq_chunk_read := rq_chunk_read r + word_of_int (int k)\<rparr>)"
  have "win ?r" "rq_text ?r = rq_text r"
    using assms win_cong [of ?r r] by (simp_all add: count_request_def)
  with advance_text [of ?r k] assms(2) show "win (take_data (int k) r)"
      "rq_text (take_data (int k) r) = drop k (rq_text r)"
    by (simp_all add: take_data_def)
qed

lemma take_before_crlf:
  assumes "T @ F = drop j (c @ CRLF) @ E" "k = min (length T) (length c - j)" "j < length c + 2"
  shows "take k T = take (length T) (drop j c)"
proof -
  have "take k (T @ F) = take k (drop j c)"
    unfolding assms(1) using assms(2) by simp
  moreover have "k \<le> length T" "take k (drop j c) = take (length T) (drop j c)"
    using assms(2) by (simp_all add: min_def)
  ultimately show ?thesis by simp
qed

text \<open>
  The data part hands over the payload bytes of the window, and moves the window over what it
  read of the chunk and its line end.
\<close>

lemma chunk_data_part_spec:
  assumes w: "win req" and c: "length c + 2 < 2 ^ 31" "j < length c + 2"
    and st: "rq_chunk_len req = word_of_nat (length c + 2)" "rq_chunk_read req = word_of_nat j"
    and T: "rq_text req \<noteq> []"
  defines "r \<equiv> min (length (rq_text req)) (length c + 2 - j)"
    and "k \<equiv> min (length (rq_text req)) (length c - j)"
  shows "\<exists>q. chunk_data_part req = take_data (int r) q \<and> win q \<and> rq_text q = rq_text req
    \<and> rq_rbuf q = rq_rbuf req \<and> rq_pending q = word_of_nat k \<and> rq_chunk_len q = rq_chunk_len req
    \<and> rq_chunk_read q = rq_chunk_read req \<and> rq_eof_received q = rq_eof_received req
    \<and> rq_i206 q = rq_i206 req"
proof -
  let ?L = "length (rq_text req)"
  have rem: "sint (rq_chunk_len req - rq_chunk_read req) = int (length c + 2 - j)"
    unfolding st using c by (intro sint_chunk_rest) simp_all
  have len: "rq_pstr_len req = int ?L"
    using win_mem [OF w] by blast
  have q: "win (count_data p (req\<lparr>rq_pending := p\<rparr>))" "rq_text (count_data p (req\<lparr>rq_pending := p\<rparr>)) = rq_text req"
    "win (req\<lparr>rq_pending := p\<rparr>)" "rq_text (req\<lparr>rq_pending := p\<rparr>) = rq_text req" for p
    using w win_cong [of "count_data p (req\<lparr>rq_pending := p\<rparr>)" req]
      win_cong [of "req\<lparr>rq_pending := p\<rparr>" req] by (simp_all add: count_data_def)
  have short: "chunk_data_part req
      = take_data (int ?L) (count_data (word_of_nat k) (req\<lparr>rq_pending := word_of_nat k\<rparr>))"
    if "\<not> int (length c + 2 - j) \<le> int ?L"
      "(if int (length c + 2 - j) - int ?L < 2 then int ?L - (int (length c + 2 - j) - int ?L)
        else int ?L) = int k"
    using that by (simp only: chunk_data_part_def Let_def rem len if_False of_int_of_nat_eq simp_thms)
  consider (a) "length c + 2 - j \<le> ?L" "j < length c" | (b) "length c + 2 - j \<le> ?L" "length c \<le> j"
    | (d) "?L = length c + 1 - j" "?L < length c + 2 - j" | (e) "?L \<le> length c - j" "?L < length c + 2 - j"
    by linarith
  then show ?thesis
  proof cases
    case a
    then have k: "r = length c + 2 - j" "k = length c - j"
      unfolding r_def k_def by linarith+
    have "int (length c + 2 - j) - 2 = int k" "2 < int (length c + 2 - j)" using a k by linarith+
    with a k show ?thesis
      by (intro exI [of _ "count_data (word_of_nat k) (req\<lparr>rq_pending := word_of_nat k\<rparr>)"])
        (simp add: chunk_data_part_def Let_def rem len q, simp add: count_data_def)
  next
    case b
    then have "r = length c + 2 - j" "k = 0" unfolding r_def k_def by linarith+
    with b show ?thesis
      by (intro exI [of _ "req\<lparr>rq_pending := 0\<rparr>"])
        (simp add: chunk_data_part_def Let_def rem len q)
  next
    case d
    then have k: "r = ?L" "k = ?L - 1" unfolding r_def k_def by linarith+
    have L: "0 < ?L" using T by simp
    have "int (length c + 2 - j) - int ?L = 1" "int ?L - 1 = int k" "\<not> int (length c + 2 - j) \<le> int ?L"
      using d k L by linarith+
    with short k show ?thesis
      by (intro exI [of _ "count_data (word_of_nat k) (req\<lparr>rq_pending := word_of_nat k\<rparr>)"])
        (simp only: q if_True one_less_numeral_iff semiring_norm, simp add: count_data_def q)
  next
    case e
    then have k: "r = ?L" "k = ?L" unfolding r_def k_def by linarith+
    have L: "0 < ?L" using T by simp
    have "\<not> int (length c + 2 - j) - int ?L < 2" "\<not> int (length c + 2 - j) \<le> int ?L"
      using e L by linarith+
    with short k show ?thesis
      by (intro exI [of _ "count_data (word_of_nat k) (req\<lparr>rq_pending := word_of_nat k\<rparr>)"])
        (simp only: q if_False, simp add: count_data_def q)
  qed
qed

section \<open>Chunk definitions\<close>

text \<open>A chunked body: chunks, and a zero chunk with one of the extensions the parser knows.\<close>

datatype zero_ext = X_none | X_ieof | X_origin nat

fun ext_bytes :: "zero_ext \<Rightarrow> bytes" where
  "ext_bytes X_none = []"
| "ext_bytes X_ieof = ''; ieof''"
| "ext_bytes (X_origin n) = ''; use-original-body='' @ print_base 10 n"

definition zero_chunk :: "zero_ext \<Rightarrow> bytes" where
  "zero_chunk x = (CHR ''0'' # ext_bytes x) @ CRLF @ CRLF"

fun chunked :: "bytes list \<Rightarrow> zero_ext \<Rightarrow> bytes" where
  "chunked [] x = zero_chunk x"
| "chunked (c # cs) x = chunk_head (length c) @ c @ CRLF @ chunked cs x"

definition good_ext :: "zero_ext \<Rightarrow> bool" where
  "good_ext x \<longleftrightarrow> (case x of X_origin n \<Rightarrow> int n \<le> LONG_MAX | _ \<Rightarrow> True)"

definition good_chunks :: "bytes list \<Rightarrow> bool" where
  "good_chunks cs \<longleftrightarrow> (\<forall>c \<in> set cs. c \<noteq> [] \<and> length c + 2 < 2 ^ 31)"

lemma find_sub_CRLF [simp]: "CR \<notin> set a \<Longrightarrow> find_sub CRLF (a @ CR # LF # r) = Some (length a)"
  by (induction a) (auto simp: starts_with_def)

lemma find_sub_no_CR: "CR \<notin> set a \<Longrightarrow> find_sub CRLF a = None"
  by (induction a) (auto simp: starts_with_def)

lemma find_sub_part_CRLF:
  assumes "CR \<notin> set a" "k < length a + 2"
  shows "find_sub CRLF (take k (a @ CRLF)) = None"
proof (cases "k \<le> length a")
  case True
  then have "take k (a @ CRLF) = take k a" by simp
  moreover have "CR \<notin> set (take k a)" using assms(1) by (meson in_set_takeD)
  ultimately show ?thesis by (simp add: find_sub_no_CR)
next
  case False
  then have "k = length a + 1" using assms(2) by linarith
  then have "take k (a @ CRLF) = a @ [CR]" by simp
  moreover have "find_sub CRLF (a @ [CR]) = None"
    using assms(1) by (induction a) (auto simp: starts_with_def)
  ultimately show ?thesis by simp
qed

lemma CR_not_digit [simp]: "\<not> is_digit base CR"
  by (simp add: is_digit_def digit_val_def)

lemma CR_notin_print_base:
  assumes "1 < base" "base \<le> 16"
  shows "CR \<notin> set (print_base base n)"
  using print_base_digits [OF assms] CR_not_digit by blast

lemma length_print_base:
  assumes "1 < base" "n < base ^ Suc k"
  shows "length (print_base base n) \<le> Suc k"
  using assms
proof (induction k arbitrary: n)
  case 0
  then show ?case by (simp add: print_base.simps [of base n])
next
  case (Suc k)
  show ?case
  proof (cases "n < base")
    case False
    have "n div base < base ^ Suc k"
      using Suc.prems by (simp add: less_mult_imp_div_less mult.commute)
    with Suc.IH Suc.prems False show ?thesis
      by (simp add: print_base.simps [of base n])
  qed (simp add: print_base.simps [of base n])
qed

lemma length_chunk_head:
  assumes "n < 2 ^ 31"
  shows "length (chunk_head n) \<le> 10"
  using assms length_print_base [of 16 n 7] by (simp add: chunk_head_def)

lemma strtol_chunk_head:
  assumes "n < 2 ^ 31"
  shows "strtol 16 (chunk_head n @ r) = (int n, length (print_base 16 n))"
  using strtol_print_base [of 16 "CRLF @ r" n] assms by (simp add: chunk_head_def LONG_MAX_def)

lemma int32_small: "n < 2 ^ 31 \<Longrightarrow> int32 (int n) = int n"
  by (intro int32_id) auto

lemma word32_of_nat_eq_0: "n < 2 ^ 32 \<Longrightarrow> (word_of_nat n :: 32 word) = 0 \<longleftrightarrow> n = 0"
  by (auto simp: word_of_nat_eq_0_iff dest: dvd_imp_le)

lemma skip_blank_stop: "drop e s = c # r \<Longrightarrow> c \<noteq> SP \<Longrightarrow> c \<noteq> HT \<Longrightarrow> skip_blank s e = e"
  by (simp add: skip_blank_def)

text \<open>Where a step only moved the window and the counters.\<close>

definition moved :: "'a ci_req_in_scheme \<Rightarrow> 'a ci_req_in_scheme \<Rightarrow> bool" where
  "moved q req \<longleftrightarrow> win q \<and> rq_rbuf q = rq_rbuf req \<and> rq_pending q = rq_pending req"

lemma def_part_head:
  assumes w: "win req" and m: "0 < m" "m + 2 < 2 ^ 31" and T: "rq_text req = chunk_head m @ T'"
    and s: "ptr_mem (rq_rbuf req) (rq_pstr req) (rq_pstr_len req) = Some s"
  shows "\<exists>q. chunk_def_part s req = C_go q True \<and> moved q req \<and> rq_text q = T'
    \<and> rq_chunk_len q = word_of_nat (m + 2) \<and> rq_chunk_read q = 0
    \<and> rq_eof_received q = rq_eof_received req \<and> rq_i206 q = rq_i206 req"
proof -
  let ?p = "print_base 16 m"
  let ?q = "count_request (int (length ?p + 2)) req\<lparr>rq_chunk_len := word_of_int (int m),
      rq_chunk_read := 0, rq_chunk_len := word_of_int (int m) + 2\<rparr>"
  obtain r where sr: "s = chunk_head m @ T' @ r" and len: "rq_pstr_len req = int (length (rq_text req))"
    using win_mem [OF w] s T by (metis append.assoc option.inject)
  have tx: "take (nat (rq_pstr_len req)) s = ?p @ CR # LF # T'"
    unfolding len T sr nat_int by (simp add: chunk_head_def)
  have crlf: "ci_strnstr s CRLF (nat (rq_pstr_len req)) = Some (length ?p)"
    unfolding ci_strnstr_def tx using CR_notin_print_base [of 16] by simp
  have str: "strtol 16 s = (int m, length ?p)"
    using strtol_chunk_head [of m "T' @ r"] m by (simp add: sr)
  have d: "drop (length ?p) s = CR # LF # T' @ r" by (simp add: sr chunk_head_def)
  have "skip_blank s (length ?p) = length ?p"
    using d by (rule skip_blank_stop) simp_all
  moreover have "s ! length ?p = CR" "s ! (length ?p + 1) = LF" "\<not> length s \<le> length ?p + 1"
    by (simp_all add: sr chunk_head_def nth_append)
  moreover have "(word_of_int (int m) :: 32 word) \<noteq> 0" using m word32_of_nat_eq_0 [of m] by simp
  moreover have "int32 (int m) = int m" using m by (intro int32_small) simp
  ultimately have go: "chunk_def_part s req = C_go (advance (int (length ?p + 2)) ?q) True"
    using crlf str m by (simp add: chunk_def_part_def chunk_def_end_def Let_def)
  have "win ?q" "rq_text ?q = rq_text req"
    using w win_cong [of ?q req] by (simp_all add: count_request_def)
  then have "win (advance (int (length ?p + 2)) ?q)" "rq_text (advance (int (length ?p + 2)) ?q) = T'"
    using advance_text [of ?q "length ?p + 2"] T by (simp_all add: chunk_head_def)
  then show ?thesis
    using go by (intro exI [of _ "advance (int (length ?p + 2)) ?q"])
      (simp add: moved_def, simp add: advance_def count_request_def)
qed

lemma def_part_partial:
  assumes w: "win req" and T: "rq_text req @ F = a @ CRLF @ r" "length (rq_text req) < length a + 2"
    and a: "CR \<notin> set a" "length a + 2 < 4096"
    and s: "ptr_mem (rq_rbuf req) (rq_pstr req) (rq_pstr_len req) = Some s"
  shows "chunk_def_part s req = C_return CI_NEEDS_MORE req"
proof -
  have len: "rq_pstr_len req = int (length (rq_text req))" and
      tx: "take (nat (rq_pstr_len req)) s = rq_text req"
    using win_mem [OF w] s by (metis append_eq_conv_conj nat_int option.inject)+
  have "rq_text req = take (length (rq_text req)) (a @ CRLF)"
    using append_eq_take [of "rq_text req" F "a @ CRLF" r] T by simp
  then have "find_sub CRLF (rq_text req) = None"
    using find_sub_part_CRLF [OF a(1) T(2)] by metis
  then show ?thesis
    using tx len a T(2) by (simp add: chunk_def_part_def ci_strnstr_def BUFSIZE_def)
qed

text \<open>The zero chunk without its empty line, and complete.\<close>

lemma ext_bytes_props:
  assumes "good_ext x"
  shows "CR \<notin> set (ext_bytes x)" "length (ext_bytes x) < 60"
    "ext_bytes x = [] \<or> hd (ext_bytes x) = CHR '';''"
proof -
  have "length (print_base 10 n) \<le> 19" if "int n \<le> LONG_MAX" for n
    using that length_print_base [of 10 n 18] by (simp add: LONG_MAX_def)
  then show "length (ext_bytes x) < 60"
    using assms by (cases x) (force simp: good_ext_def)+
  show "CR \<notin> set (ext_bytes x)" "ext_bytes x = [] \<or> hd (ext_bytes x) = CHR '';''"
    using CR_notin_print_base [of 10] by (cases x; simp)+
qed

lemma strtol_zero:
  assumes "rest = [] \<or> hd rest = CR \<or> hd rest = CHR '';''"
  shows "strtol 16 (CHR ''0'' # rest) = (0, 1)"
proof -
  have "print_base 16 0 = ''0''" by code_simp
  then show ?thesis
    using strtol_print_base [of 16 rest 0] assms by (auto simp: LONG_MAX_def is_digit_def digit_val_def)
qed

definition zero_end :: "zero_ext \<Rightarrow> 'a ci_req_in_scheme \<Rightarrow> 'a ci_req_in_scheme" where
  "zero_end x req = (case x of X_none \<Rightarrow> req | X_ieof \<Rightarrow> req\<lparr>rq_eof_received := True\<rparr>
     | X_origin n \<Rightarrow> req\<lparr>rq_i206 := int n, rq_eof_received := True\<rparr>)"

lemma chunk_zero_full:
  assumes x: "good_ext x" and s: "s = zero_chunk x @ r" and len: "int (length (zero_chunk x)) \<le> rq_pstr_len req"
  shows "chunk_zero s (skip_blank s 1) (length (ext_bytes x) + 3) req
    = C_go (advance (int (length (zero_chunk x))) (zero_end x (count_request 2 req))) False"
proof (cases x)
  case X_none
  have "skip_blank s 1 = 1"
    by (rule skip_blank_stop [where c = CR]) (simp_all add: s X_none zero_chunk_def)
  then show ?thesis
    using X_none len by (simp add: chunk_zero_def s zero_chunk_def chunk_def_end_def zero_end_def)
next
  case X_ieof
  have "skip_blank s 1 = 1"
    by (rule skip_blank_stop [where c = "CHR '';''"]) (simp_all add: s X_ieof zero_chunk_def)
  moreover have "skip_blank s 2 = 3"
    by (simp add: s X_ieof zero_chunk_def skip_blank_def)
  ultimately show ?thesis
    using X_ieof len
    by (simp add: chunk_zero_def s zero_chunk_def chunk_def_end_def zero_end_def chunk_ext_def
        starts_with_def count_request_def Let_def eval_nat_numeral)
next
  case (X_origin n)
  let ?p = "print_base 10 n"
  have "skip_blank s 1 = 1"
    by (rule skip_blank_stop [where c = "CHR '';''"]) (simp_all add: s X_origin zero_chunk_def)
  moreover have "skip_blank s 2 = 3"
    by (simp add: s X_origin zero_chunk_def skip_blank_def)
  moreover have "strtol 10 (drop 21 s) = (int n, length ?p)"
    using strtol_print_base [of 10 "CRLF @ CRLF @ r" n] x
    by (simp add: X_origin s zero_chunk_def good_ext_def)
  moreover have "starts_with ''use-original-body='' (drop 3 s)" "s ! 1 = CHR '';''"
    by (simp_all add: X_origin s zero_chunk_def starts_with_def)
  moreover
  have sp: "s = (''0; use-original-body='' @ ?p) @ CR # LF # CR # LF # r"
    "length (''0; use-original-body='' @ ?p) = 21 + length ?p"
    by (simp_all add: X_origin s zero_chunk_def)
  have dr: "drop (21 + length ?p) s = CR # LF # CR # LF # r"
    using sp by (metis append_eq_conv_conj)
  have "takeWhile (\<lambda>c. c \<noteq> CR) (drop (21 + length ?p) s) = []" unfolding dr by simp
  moreover have "s ! (21 + length ?p) = CR" "s ! (22 + length ?p) = LF" "s ! (23 + length ?p) = CR"
      "\<not> length s \<le> 22 + length ?p"
    using sp by (simp_all add: nth_append)
  moreover have "length (ext_bytes x) + 3 = 23 + length ?p" "length (zero_chunk x) = 25 + length ?p"
    by (simp_all add: X_origin zero_chunk_def)
  ultimately show ?thesis
    using X_origin len
    by (simp add: chunk_zero_def chunk_def_end_def zero_end_def chunk_ext_def count_request_def
        Let_def add.commute numeral_2_eq_2 [symmetric] del: ext_bytes.simps)
qed

lemma def_part_zero:
  assumes w: "win req" and x: "good_ext x" and T: "rq_text req = zero_chunk x @ T'"
    and s: "ptr_mem (rq_rbuf req) (rq_pstr req) (rq_pstr_len req) = Some s"
  shows "\<exists>q. chunk_def_part s req = C_go q False \<and> moved q req \<and> rq_text q = T'
    \<and> rq_chunk_len q = 0 \<and> rq_chunk_read q = 0
    \<and> rq_eof_received q = (rq_eof_received req \<or> x \<noteq> X_none)"
proof -
  let ?a = "CHR ''0'' # ext_bytes x"
  let ?q = "count_request (int (length ?a + 2)) req\<lparr>rq_chunk_len := 0, rq_chunk_read := 0\<rparr>"
  let ?z = "zero_end x (count_request 2 ?q)"
  obtain r where sr: "s = zero_chunk x @ T' @ r" and len: "rq_pstr_len req = int (length (rq_text req))"
    using win_mem [OF w] s T by (metis append.assoc option.inject)
  have "take (nat (rq_pstr_len req)) s = zero_chunk x @ T'"
    unfolding len T sr nat_int by simp
  then have tx: "take (nat (rq_pstr_len req)) s = ?a @ CR # LF # CRLF @ T'"
    by (simp add: zero_chunk_def)
  have crlf: "ci_strnstr s CRLF (nat (rq_pstr_len req)) = Some (length ?a)"
    unfolding ci_strnstr_def tx using ext_bytes_props [OF x]
    by (subst find_sub_CRLF) simp_all
  have str: "strtol 16 s = (0, 1)"
    using strtol_zero [of "ext_bytes x @ CRLF @ CRLF @ T' @ r"] ext_bytes_props [OF x]
    by (cases "ext_bytes x") (simp_all add: sr zero_chunk_def)
  have "chunk_zero s (skip_blank s 1) (length (ext_bytes x) + 3) ?q
      = C_go (advance (int (length (zero_chunk x))) ?z) False"
    using len T by (intro chunk_zero_full [OF x sr]) (simp add: count_request_def)
  then have go: "chunk_def_part s req = C_go (advance (int (length (zero_chunk x))) ?z) False"
    using crlf str by (simp add: chunk_def_part_def Let_def int32_def numeral_3_eq_3)
  have z: "rq_rbuf ?z = rq_rbuf req" "rq_pstr ?z = rq_pstr req" "rq_pstr_len ?z = rq_pstr_len req"
      "rq_pending ?z = rq_pending req" "rq_chunk_len ?z = 0" "rq_chunk_read ?z = 0"
      "rq_eof_received ?z = (rq_eof_received req \<or> x \<noteq> X_none)"
    by (cases x; simp add: zero_end_def count_request_def)+
  have "win (advance (int (length (zero_chunk x))) ?z)"
      "rq_text (advance (int (length (zero_chunk x))) ?z) = T'"
    using advance_text [of ?z "length (zero_chunk x)"] w T win_cong [OF z(1-3)] by simp_all
  then show ?thesis
    using go z by (intro exI [of _ "advance (int (length (zero_chunk x))) ?z"])
      (simp add: moved_def, simp add: advance_def)
qed

lemma def_part_zero_partial:
  assumes w: "win req" and x: "good_ext x" and T: "rq_text req @ F = zero_chunk x @ Y"
      "length (rq_text req) < length (zero_chunk x)" and st: "rq_chunk_len req = rq_chunk_read req"
    and s: "ptr_mem (rq_rbuf req) (rq_pstr req) (rq_pstr_len req) = Some s"
  shows "\<exists>q. chunk_def_part s req = C_return CI_NEEDS_MORE q \<and> moved q req \<and> rq_text q = rq_text req
    \<and> rq_chunk_len q = rq_chunk_read q \<and> rq_eof_received q = rq_eof_received req"
proof (cases "length (rq_text req) < length (ext_bytes x) + 3")
  case True
  then have "chunk_def_part s req = C_return CI_NEEDS_MORE req"
    using ext_bytes_props [OF x] T
    by (intro def_part_partial [OF w, of F "CHR ''0'' # ext_bytes x" "CRLF @ Y"]) (simp_all add: zero_chunk_def s)
  with w st show ?thesis by (auto simp: moved_def)
next
  case False
  let ?a = "CHR ''0'' # ext_bytes x"
  let ?q = "count_request (int (length ?a + 2)) req\<lparr>rq_chunk_len := 0, rq_chunk_read := 0\<rparr>"
  let ?L = "length (rq_text req)"
  have len: "rq_pstr_len req = int ?L" and tx: "take ?L s = rq_text req"
    using win_mem [OF w] s by (metis append_eq_conv_conj option.inject)+
  have "rq_text req = take ?L ((?a @ CRLF) @ CRLF)"
    using append_eq_take [OF T(1)] T(2) by (simp add: zero_chunk_def)
  also have "\<dots> = (?a @ CRLF) @ take (?L - length (?a @ CRLF)) CRLF"
    using False by (subst take_append) simp
  finally obtain r1 where r1: "rq_text req = ?a @ CR # LF # r1" by simp
  obtain r where sr: "s = ?a @ CR # LF # r1 @ r"
    using tx r1 by (metis append.assoc append_Cons append_take_drop_id)
  have tx2: "take (nat (rq_pstr_len req)) s = ?a @ CR # LF # r1"
    unfolding len nat_int using tx r1 by simp
  have crlf: "ci_strnstr s CRLF (nat (rq_pstr_len req)) = Some (length ?a)"
    unfolding ci_strnstr_def tx2 using ext_bytes_props [OF x]
    by (subst find_sub_CRLF) simp_all
  have str: "strtol 16 s = (0, 1)"
    using strtol_zero [of "ext_bytes x @ CRLF @ r1 @ r"] ext_bytes_props [OF x]
    by (cases "ext_bytes x") (simp_all add: sr)
  have "chunk_def_part s req = C_return CI_NEEDS_MORE ?q"
    using crlf str T(2) len
    by (simp add: chunk_def_part_def Let_def int32_def chunk_zero_def count_request_def zero_chunk_def)
  moreover have "win ?q" "rq_text ?q = rq_text req"
    using w win_cong [of ?q req] by (simp_all add: count_request_def)
  ultimately show ?thesis by (intro exI [of _ ?q]) (simp add: moved_def count_request_def)
qed

section \<open>One call of the parser\<close>

text \<open>
  \<open>R\<close> is what is left of the body (in the window and still to come) followed by \<open>Y\<close>, the bytes
  after the body; \<open>P\<close> is the payload in it.  The parser is before a chunk definition or inside
  the data of a chunk.
\<close>

definition in_def :: "zero_ext \<Rightarrow> bytes \<Rightarrow> 'a ci_req_in_scheme \<Rightarrow> bytes \<Rightarrow> bytes \<Rightarrow> bool" where
  "in_def x Y req R P \<longleftrightarrow> rq_chunk_len req = rq_chunk_read req
     \<and> (\<exists>cs. good_chunks cs \<and> R = chunked cs x @ Y \<and> P = concat cs)"

definition in_data :: "zero_ext \<Rightarrow> bytes \<Rightarrow> 'a ci_req_in_scheme \<Rightarrow> bytes \<Rightarrow> bytes \<Rightarrow> bool" where
  "in_data x Y req R P \<longleftrightarrow>
     (\<exists>c j cs. good_chunks cs \<and> length c + 2 < 2 ^ 31 \<and> j < length c + 2
        \<and> rq_chunk_len req = word_of_nat (length c + 2) \<and> rq_chunk_read req = word_of_nat j
        \<and> R = drop j (c @ CRLF) @ chunked cs x @ Y \<and> P = drop j c @ concat cs)"

lemma in_data_distinct:
  assumes "in_data x Y req R P"
  shows "rq_chunk_len req \<noteq> rq_chunk_read req" "rq_chunk_len req \<noteq> 0"
proof -
  obtain c :: bytes and j where c: "length c + 2 < 2 ^ 31" "j < length c + 2"
      "rq_chunk_len req = word_of_nat (length c + 2)" "rq_chunk_read req = word_of_nat j"
    using assms unfolding in_data_def by blast
  show "rq_chunk_len req \<noteq> 0" using c word32_of_nat_eq_0 [of "length c + 2"] by simp
  have "sint (rq_chunk_len req - rq_chunk_read req) = int (length c + 2 - j)"
    unfolding c using c by (intro sint_chunk_rest) simp_all
  with c show "rq_chunk_len req \<noteq> rq_chunk_read req" by auto
qed

lemma prefix_or_longer:
  assumes "T @ F = Z @ Y"
  obtains "length T < length Z" "F \<noteq> []" | T' where "T = Z @ T'" "T' @ F = Y"
proof (cases "length T < length Z")
  case True
  then have "F \<noteq> []" using arg_cong [OF assms, of length] by auto
  with True show ?thesis using that by blast
next
  case False
  then show ?thesis using assms that by (auto simp: append_eq_append_conv_if split: if_splits
      intro!: that(2) [of "drop (length Z) T"]) (metis append_eq_conv_conj append_take_drop_id)
qed

text \<open>The window holds nothing, or only a part of the next chunk definition.\<close>

definition next_def :: "bytes list \<Rightarrow> zero_ext \<Rightarrow> bytes" where
  "next_def cs x = (case cs of [] \<Rightarrow> zero_chunk x | c # _ \<Rightarrow> chunk_head (length c))"

definition waiting :: "zero_ext \<Rightarrow> bytes \<Rightarrow> bytes \<Rightarrow> 'a ci_req_in_scheme \<Rightarrow> bool" where
  "waiting x Y F q \<longleftrightarrow> rq_text q = []
     \<or> (\<exists>cs. good_chunks cs \<and> rq_text q @ F = chunked cs x @ Y \<and> length (rq_text q) < length (next_def cs x))"

lemma def_step:
  assumes w: "win req" and x: "good_ext x" and st: "in_def x Y req (rq_text req @ F) P"
  shows "(\<exists>q. chunk_step req wd = S_return CI_NEEDS_MORE q wd \<and> moved q req \<and> rq_text q = rq_text req
        \<and> rq_chunk_len q = rq_chunk_read q \<and> rq_eof_received q = rq_eof_received req
        \<and> F \<noteq> [] \<and> length (rq_text req) < 4096 \<and> waiting x Y F req)
    \<or> (\<exists>q. chunk_step req wd = chunk_rest True q wd \<and> moved q req
        \<and> rq_eof_received q = rq_eof_received req \<and> in_data x Y q (rq_text q @ F) P
        \<and> length (rq_text q) < length (rq_text req))
    \<or> (\<exists>q. chunk_step req wd = S_return CI_EOF q wd \<and> moved q req \<and> rq_text q @ F = Y \<and> P = []
        \<and> rq_chunk_len q = rq_chunk_read q \<and> rq_eof_received q = (rq_eof_received req \<or> x \<noteq> X_none))"
proof -
  obtain s where s: "ptr_mem (rq_rbuf req) (rq_pstr req) (rq_pstr_len req) = Some s"
    using w by (auto simp: win_def)
  obtain cs where eq: "rq_chunk_len req = rq_chunk_read req" and cs: "good_chunks cs"
      "rq_text req @ F = chunked cs x @ Y" "P = concat cs"
    using st by (auto simp: in_def_def)
  show ?thesis
  proof (cases cs)
    case Nil
    with cs(2) have R: "rq_text req @ F = zero_chunk x @ Y" by simp
    from R show ?thesis
    proof (cases rule: prefix_or_longer)
      case 1
      moreover have "length (zero_chunk x) < 4096"
        using ext_bytes_props(2) [OF x] by (simp add: zero_chunk_def)
      moreover have "waiting x Y F req" unfolding waiting_def using 1(1) cs(1,2) Nil by (intro disjI2 exI [of _ cs]) (simp add: next_def_def)
      ultimately show ?thesis
        using def_part_zero_partial [OF w x R 1(1) eq s] s eq by (auto simp: chunk_step_def)
    next
      case (2 T')
      then show ?thesis
        using def_part_zero [OF w x 2(1) s] s eq Nil cs(3) by (auto simp: chunk_step_def chunk_rest_def)
    qed
  next
    case (Cons c ds)
    let ?n = "length c"
    have c: "0 < ?n" "?n + 2 < 2 ^ 31" "good_chunks ds"
      using cs(1) by (auto simp: Cons good_chunks_def)
    have R: "rq_text req @ F = chunk_head ?n @ (c @ CRLF @ chunked ds x @ Y)"
      using cs(2) by (simp add: Cons)
    from R show ?thesis
    proof (cases rule: prefix_or_longer)
      case 1
      have short: "length (chunk_head ?n) \<le> 10" using c by (intro length_chunk_head) simp
      have "chunk_def_part s req = C_return CI_NEEDS_MORE req"
        using R 1 short CR_notin_print_base [of 16 ?n]
        by (intro def_part_partial [OF w, of F "print_base 16 ?n" "c @ CRLF @ chunked ds x @ Y"])
          (simp_all add: chunk_head_def s)
      moreover have "waiting x Y F req" unfolding waiting_def using 1(1) cs(1,2) Cons by (intro disjI2 exI [of _ cs]) (simp add: next_def_def)
      ultimately show ?thesis using 1 short w s eq by (auto simp: chunk_step_def moved_def)
    next
      case (2 T')
      obtain q where q: "chunk_def_part s req = C_go q True" "moved q req" "rq_text q = T'"
          "rq_chunk_len q = word_of_nat (?n + 2)" "rq_chunk_read q = 0"
          "rq_eof_received q = rq_eof_received req"
        using def_part_head [OF w c(1,2) 2(1) s] by blast
      have "in_data x Y q (T' @ F) P"
        unfolding in_data_def using c q 2(2) cs(3)
        by (intro exI [of _ c] exI [of _ 0] exI [of _ ds]) (simp add: Cons)
      moreover have "length T' < length (rq_text req)" using 2(1) by (simp add: chunk_head_def)
      ultimately show ?thesis
        using q s eq by (auto simp: chunk_step_def)
    qed
  qed
qed

lemma chunked_nonempty [simp]: "chunked cs x \<noteq> []"
  by (cases cs) (simp_all add: zero_chunk_def chunk_head_def)

lemma rest_nonempty: "in_def x Y req R P \<or> in_data x Y req R P \<Longrightarrow> R \<noteq> []"
  by (auto simp: in_def_def in_data_def)

lemma handed_none [simp]: "rq_pending req = 0 \<Longrightarrow> handed req wd = []"
  by (simp add: handed_def split: option.splits)

lemma handed_window:
  assumes "win req" "rq_text req \<noteq> []" "unat (rq_pending q) \<le> length (rq_text req)" "rq_rbuf q = rq_rbuf req"
  shows "handed q (Some (rq_pstr req)) = take (unat (rq_pending q)) (rq_text req)"
proof -
  obtain s where s: "ptr_mem (rq_rbuf req) (rq_pstr req) (rq_pstr_len req) = Some s"
    "rq_pstr_len req = int (length (rq_text req))" "s = rq_text req @ drop (length (rq_text req)) s"
    using assms(1) by (rule win_mem)
  have "int (unat (rq_pending q)) \<le> rq_pstr_len req"
    using assms(3) unfolding s(2) by (rule of_nat_mono)
  then have "uint (rq_pending q) \<le> rq_pstr_len req" by simp
  moreover have "0 < rq_pstr_len req" using assms(2) s(2) by simp
  ultimately have "ptr_mem (rq_rbuf req) (rq_pstr req) (uint (rq_pending q)) = Some s"
    by (intro ptr_mem_shorter [OF s(1)]) simp_all
  moreover obtain r where "s = rq_text req @ r" using s(3) by blast
  then have "take (unat (rq_pending q)) s = take (unat (rq_pending q)) (rq_text req)"
    using assms(3) by simp
  ultimately show ?thesis by (simp add: handed_def assms(4))
qed

lemma data_step:
  assumes w: "win req" and st: "in_data x Y req (rq_text req @ F) P" and pend: "rq_pending req = 0"
    and ne: "rq_text req \<noteq> []"
  obtains q D P' where "chunk_rest True req wd =
      (if rq_text q = [] then S_return CI_NEEDS_MORE q (Some (rq_pstr req)) else S_again q (Some (rq_pstr req)))"
    "P = D @ P'" "handed q (Some (rq_pstr req)) = D" "unat (rq_pending q) = length D"
    "win q" "rq_rbuf q = rq_rbuf req" "rq_eof_received q = rq_eof_received req"
    "length (rq_text q) < length (rq_text req)" "rq_text q = [] \<Longrightarrow> F \<noteq> []"
    "in_def x Y q (rq_text q @ F) P' \<or> rq_text q = [] \<and> in_data x Y q (rq_text q @ F) P'"
proof -
  obtain c j cs where c: "good_chunks cs" "length c + 2 < 2 ^ 31" "j < length c + 2"
      "rq_chunk_len req = word_of_nat (length c + 2)" "rq_chunk_read req = word_of_nat j"
    and R: "rq_text req @ F = drop j (c @ CRLF) @ chunked cs x @ Y" and P: "P = drop j c @ concat cs"
    using st unfolding in_data_def by blast
  let ?T = "rq_text req" and ?L = "length (rq_text req)"
  let ?r = "min ?L (length c + 2 - j)" and ?k = "min ?L (length c - j)"
  obtain q where q: "chunk_data_part req = take_data (int ?r) q" "win q" "rq_text q = ?T"
      "rq_rbuf q = rq_rbuf req" "rq_pending q = word_of_nat ?k" "rq_chunk_len q = rq_chunk_len req"
      "rq_chunk_read q = rq_chunk_read req" "rq_eof_received q = rq_eof_received req"
    using chunk_data_part_spec [OF w c(2,3,4,5) ne] by blast
  let ?q = "take_data (int ?r) q"
  have rL: "0 < ?r" "?r \<le> ?L" using ne c(3) by auto
  have tx: "win ?q" "rq_text ?q = drop ?r ?T"
    using take_data_text [OF q(2), of ?r] rL q(3) by simp_all
  have kk: "?k < 2 ^ 32" using c(2) by simp
  then have pk: "unat (rq_pending ?q) = ?k"
    unfolding take_data_simps q(5) by (simp add: unat_of_nat take_bit_nat_eq_self)
  have D: "take ?k ?T = take ?L (drop j c)"
    using take_before_crlf [OF R refl c(3)] .
  have hd1: "handed ?q (Some (rq_pstr req)) = take ?L (drop j c)"
    using handed_window [OF w ne, of ?q] pk q(4) D by (simp add: take_data_simps)
  have len: "rq_pstr_len ?q = int (length (rq_text ?q))" "rq_pstr_len req = int ?L"
    using win_mem [OF tx(1)] win_mem [OF w] by blast+
  have rest: "rq_text ?q @ F = drop (j + ?r) (c @ CRLF) @ chunked cs x @ Y"
  proof -
    have "drop ?r (?T @ F) = drop ?r (drop j (c @ CRLF) @ chunked cs x @ Y)"
      using R by (rule arg_cong)
    moreover have "?r \<le> length (drop j (c @ CRLF))" by simp
    ultimately show ?thesis
      unfolding tx by (simp only: drop_inside rL(2) drop_drop add.commute)
  qed
  have cr: "rq_chunk_len ?q = word_of_nat (length c + 2)" "rq_chunk_read ?q = word_of_nat (j + ?r)"
    using c q by (simp_all add: take_data_simps)
  have cl: "rq_chunk_len req \<noteq> 0"
    using in_data_distinct [OF st] by simp
  have state: "in_def x Y ?q (rq_text ?q @ F) (drop (j + ?L) c @ concat cs)
      \<or> rq_text ?q = [] \<and> in_data x Y ?q (rq_text ?q @ F) (drop (j + ?L) c @ concat cs)"
  proof (cases "length c + 2 - j \<le> ?L")
    case True
    then have "j + ?r = length c + 2" "drop (j + ?L) c = []" using c(3) by auto
    with cr rest c(1) show ?thesis unfolding in_def_def by auto
  next
    case False
    then have r: "?r = ?L" "j + ?L < length c + 2" by linarith+
    then have "rq_text ?q = []" using tx by simp
    moreover have "in_data x Y ?q (rq_text ?q @ F) (drop (j + ?L) c @ concat cs)"
      unfolding in_data_def using c cr rest r
      by (intro exI [of _ c] exI [of _ "j + ?L"] exI [of _ cs]) simp
    ultimately show ?thesis by blast
  qed
  show ?thesis
  proof (rule that [of ?q "take ?L (drop j c)" "drop (j + ?L) c @ concat cs"])
    show "chunk_rest True req wd = (if rq_text ?q = [] then S_return CI_NEEDS_MORE ?q (Some (rq_pstr req))
        else S_again ?q (Some (rq_pstr req)))"
      using cl pend len ne q(1) by (simp add: chunk_rest_def Let_def)
    show "P = take ?L (drop j c) @ drop (j + ?L) c @ concat cs"
      using P by (simp add: add.commute) (metis append_take_drop_id drop_drop append.assoc add.commute)
    show "unat (rq_pending ?q) = length (take ?L (drop j c))" using pk by simp
    show "length (rq_text ?q) < ?L" using tx rL by simp
    show "F \<noteq> []" if "rq_text ?q = []"
      using state that rest_nonempty [of x Y ?q "rq_text ?q @ F"] by auto
  qed (use hd1 tx q(4,8) state in \<open>simp_all add: take_data_simps\<close>)
qed

text \<open>
  What a call that starts with \<open>rq_pending = 0\<close> returns: the bytes it hands over, followed by
  the payload still to come, are the payload; on \<^verbatim>\<open>CI_EOF\<close> nothing is left and the window is at the
  byte after the body; on \<^verbatim>\<open>CI_NEEDS_MORE\<close> bytes of the body are still to come and there is room to
  read them; on \<^verbatim>\<open>CI_OK\<close> something is handed over and the window got shorter.
\<close>

definition parse_result ::
  "zero_ext \<Rightarrow> bytes \<Rightarrow> bytes \<Rightarrow> bytes \<Rightarrow> 'a ci_req_in_scheme \<Rightarrow> 'a ci_req_in_scheme \<times> int \<times> pstr option \<Rightarrow> bool"
where
  "parse_result x Y F P req res =
     (case res of (q, ret, wd) \<Rightarrow>
        win q \<and> rq_rbuf q = rq_rbuf req \<and> unat (rq_pending q) = length (handed q wd)
        \<and> (\<exists>P'. P = handed q wd @ P'
             \<and> (ret = CI_EOF \<and> P' = [] \<and> rq_text q @ F = Y \<and> rq_chunk_len q = rq_chunk_read q
                  \<and> rq_eof_received q = (rq_eof_received req \<or> x \<noteq> X_none)
                \<or> rq_eof_received q = rq_eof_received req
                  \<and> (in_def x Y q (rq_text q @ F) P' \<or> in_data x Y q (rq_text q @ F) P')
                  \<and> (ret = CI_NEEDS_MORE \<and> F \<noteq> [] \<and> length (rq_text q) < 4096 \<and> waiting x Y F q
                     \<or> ret = CI_OK \<and> handed q wd \<noteq> [] \<and> length (rq_text q) < length (rq_text req)))))"

lemma moved_handed: "moved q req \<Longrightarrow> handed q wd = handed req wd"
  unfolding moved_def handed_def by (elim conjE) (simp only:)

lemma parse_result_mono:
  assumes "parse_result x Y F P q res" "rq_rbuf q = rq_rbuf req" "rq_eof_received q = rq_eof_received req"
    "length (rq_text q) \<le> length (rq_text req)"
  shows "parse_result x Y F P req res"
  using assms unfolding parse_result_def by (auto split: prod.splits)

text \<open>The second pass, with data for the service in hand, ends the call.\<close>

lemma loop_pending:
  assumes w: "win req" and x: "good_ext x" and st: "in_def x Y req (rq_text req @ F) P"
    and p: "rq_pending req \<noteq> 0" "unat (rq_pending req) = length (handed req wd)"
  shows "\<exists>res. chunk_loop req wd = Some (Ret res) \<and> parse_result x Y F (handed req wd @ P) req res"
  using def_step [OF w x st, of wd]
proof (elim disjE exE conjE)
  fix q
  assume q: "chunk_step req wd = S_return CI_NEEDS_MORE q wd" "moved q req" "rq_text q = rq_text req"
    "rq_chunk_len q = rq_chunk_read q" "rq_eof_received q = rq_eof_received req" "F \<noteq> []"
    "length (rq_text req) < 4096" "waiting x Y F req"
  have "in_def x Y q (rq_text q @ F) P" "waiting x Y F q" using st q by (simp_all add: in_def_def waiting_def)
  then show ?thesis
    using q p moved_handed [OF q(2)] by (subst chunk_loop.simps) (auto simp: parse_result_def moved_def)
next
  fix q
  assume q: "chunk_step req wd = chunk_rest True q wd" "moved q req"
    "rq_eof_received q = rq_eof_received req" "in_data x Y q (rq_text q @ F) P"
    "length (rq_text q) < length (rq_text req)"
  have "chunk_step req wd = S_return CI_OK q wd"
    using q(1,2) p in_data_distinct [OF q(4)] by (simp add: chunk_rest_def moved_def)
  moreover have "handed req wd \<noteq> []" using p unat_eq_zero [of "rq_pending req"] by auto
  ultimately show ?thesis
    using q p moved_handed [OF q(2)] by (subst chunk_loop.simps) (auto simp: parse_result_def moved_def)
next
  fix q
  assume q: "chunk_step req wd = S_return CI_EOF q wd" "moved q req" "rq_text q @ F = Y" "P = []"
    "rq_chunk_len q = rq_chunk_read q" "rq_eof_received q = (rq_eof_received req \<or> x \<noteq> X_none)"
  then show ?thesis
    using p moved_handed [OF q(2)] by (subst chunk_loop.simps) (auto simp: parse_result_def moved_def)
qed

lemma loop_data:
  fixes req q :: "'a ci_req_in_scheme"
  assumes x: "good_ext x" and step: "chunk_step req wd = chunk_rest True q wd"
    and q: "win q" "rq_rbuf q = rq_rbuf req" "rq_eof_received q = rq_eof_received req"
      "length (rq_text q) \<le> length (rq_text req)" "rq_pending q = 0" "in_data x Y q (rq_text q @ F) P"
    and IH: "\<And>(q2 :: 'a ci_req_in_scheme) wd2 P2. \<lbrakk>length (rq_text q2) < length (rq_text req); win q2;
        in_def x Y q2 (rq_text q2 @ F) P2; rq_pending q2 = 0\<rbrakk> \<Longrightarrow>
        \<exists>res. chunk_loop q2 wd2 = Some (Ret res) \<and> parse_result x Y F P2 q2 res"
  shows "\<exists>res. chunk_loop req wd = Some (Ret res) \<and> parse_result x Y F P req res"
proof (cases "rq_text q = []")
  case True
  have "rq_pstr_len q = 0" using win_mem [OF q(1)] True by fastforce
  then have "chunk_loop req wd = Some (Ret (q, CI_NEEDS_MORE, wd))"
    using step q(5) in_data_distinct [OF q(6)]
    by (subst chunk_loop.simps) (simp add: chunk_rest_def)
  moreover have "F \<noteq> []" using rest_nonempty [of x Y q] q(6) True by auto
  moreover have "waiting x Y F q" using True by (simp add: waiting_def)
  ultimately show ?thesis using q True by (auto simp: parse_result_def)
next
  case False
  obtain q2 D P' where r: "chunk_rest True q wd =
      (if rq_text q2 = [] then S_return CI_NEEDS_MORE q2 (Some (rq_pstr q)) else S_again q2 (Some (rq_pstr q)))"
    and P: "P = D @ P'" "handed q2 (Some (rq_pstr q)) = D" "unat (rq_pending q2) = length D"
    and q2: "win q2" "rq_rbuf q2 = rq_rbuf q" "rq_eof_received q2 = rq_eof_received q"
      "length (rq_text q2) < length (rq_text q)" "rq_text q2 = [] \<Longrightarrow> F \<noteq> []"
    and st: "in_def x Y q2 (rq_text q2 @ F) P' \<or> rq_text q2 = [] \<and> in_data x Y q2 (rq_text q2 @ F) P'"
    using data_step [OF q(1,6,5) False] by metis
  show ?thesis
  proof (cases "rq_text q2 = []")
    case True
    then have "chunk_loop req wd = Some (Ret (q2, CI_NEEDS_MORE, Some (rq_pstr q)))"
      using step r by (subst chunk_loop.simps) simp
    moreover have "waiting x Y F q2" using True by (simp add: waiting_def)
    ultimately show ?thesis using P q2 q st True by (auto simp: parse_result_def)
  next
    case again: False
    then have loop: "chunk_loop req wd = chunk_loop q2 (Some (rq_pstr q))"
      using step r by (subst chunk_loop.simps) simp
    have d: "in_def x Y q2 (rq_text q2 @ F) P'" using st again by simp
    have shorter: "length (rq_text q2) < length (rq_text req)" using q2(4) q(4) by linarith
    have "\<exists>res. chunk_loop q2 (Some (rq_pstr q)) = Some (Ret res) \<and> parse_result x Y F P q2 res"
    proof (cases "rq_pending q2 = 0")
      case True
      with P IH [OF shorter q2(1) d True] show ?thesis by auto
    next
      case False
      then show ?thesis using loop_pending [OF q2(1) x d False, of "Some (rq_pstr q)"] P by simp
    qed
    then show ?thesis
      using loop parse_result_mono [of x Y F P q2 _ req] q2 q shorter by fastforce
  qed
qed

lemma loop_result:
  fixes req :: "'a ci_req_in_scheme"
  assumes "good_ext x" "win req" "rq_pending req = 0"
    "in_def x Y req (rq_text req @ F) P \<or> in_data x Y req (rq_text req @ F) P"
  shows "\<exists>res. chunk_loop req wd = Some (Ret res) \<and> parse_result x Y F P req res"
  using assms(2-)
proof (induction "length (rq_text req)" arbitrary: req wd P rule: less_induct)
  case less
  note w = less.prems(1) and p = less.prems(2)
  have IH: "\<exists>res. chunk_loop q2 wd2 = Some (Ret res) \<and> parse_result x Y F P2 q2 res"
    if "length (rq_text q2) < length (rq_text req)" "win q2" "in_def x Y q2 (rq_text q2 @ F) P2"
      "rq_pending q2 = 0" for q2 :: "'a ci_req_in_scheme" and wd2 P2
    using less.hyps [OF that(1,2,4)] that(3) by blast
  show ?case
  proof (cases "in_data x Y req (rq_text req @ F) P")
    case True
    then have "chunk_step req wd = chunk_rest True req wd"
      using in_data_distinct [OF True] by (simp add: chunk_step_def)
    from loop_data [OF assms(1) this w refl refl order_refl p True IH] show ?thesis by blast
  next
    case False
    with less.prems(3) have d: "in_def x Y req (rq_text req @ F) P" by blast
    from def_step [OF w assms(1) d, of wd] show ?thesis
    proof (elim disjE exE conjE)
      fix q
      assume q: "chunk_step req wd = S_return CI_NEEDS_MORE q wd" "moved q req" "rq_text q = rq_text req"
        "rq_chunk_len q = rq_chunk_read q" "rq_eof_received q = rq_eof_received req" "F \<noteq> []"
        "length (rq_text req) < 4096" "waiting x Y F req"
      have "in_def x Y q (rq_text q @ F) P" "waiting x Y F q" using d q by (simp_all add: in_def_def waiting_def)
      then show ?thesis
        using q p by (subst chunk_loop.simps) (auto simp: parse_result_def moved_def)
    next
      fix q
      assume q: "chunk_step req wd = chunk_rest True q wd" "moved q req"
        "rq_eof_received q = rq_eof_received req" "in_data x Y q (rq_text q @ F) P"
        "length (rq_text q) < length (rq_text req)"
      with p IH show ?thesis
        by (intro loop_data [OF assms(1) q(1)]) (simp_all add: moved_def)
    next
      fix q
      assume q: "chunk_step req wd = S_return CI_EOF q wd" "moved q req" "rq_text q @ F = Y" "P = []"
        "rq_chunk_len q = rq_chunk_read q" "rq_eof_received q = (rq_eof_received req \<or> x \<noteq> X_none)"
      then show ?thesis
        using p by (subst chunk_loop.simps) (auto simp: parse_result_def moved_def)
    qed
  qed
qed

section \<open>Reading in pieces\<close>

lemma rbuf_window:
  assumes "rq_pstr r = P_rbuf 0" "rq_pstr_len r = int n" "n \<le> length (rq_rbuf r)"
  shows "win r" "rq_text r = take n (rq_rbuf r)"
  using assms by (simp_all add: win_def rq_text_def)

lemma rebase_text:
  assumes "win req" "length (rq_text req) \<le> length (rq_rbuf req)"
  shows "win (rebase req)" "rq_text (rebase req) = rq_text req" "rq_pstr (rebase req) = P_rbuf 0"
    "length (rq_rbuf (rebase req)) = length (rq_rbuf req)" "rq_pstr_len (rebase req) = rq_pstr_len req"
proof -
  have len: "rq_pstr_len req = int (length (rq_text req))" using win_mem [OF assms(1)] by blast
  have "take (length (rq_text req)) (mem_write 0 (rq_text req) (rq_rbuf req)) = rq_text req"
    using assms(2) by (simp add: mem_write_def)
  then show "win (rebase req)" "rq_text (rebase req) = rq_text req" "rq_pstr (rebase req) = P_rbuf 0"
    "length (rq_rbuf (rebase req)) = length (rq_rbuf req)" "rq_pstr_len (rebase req) = rq_pstr_len req"
    using assms len unfolding rebase_def win_def
    by (auto simp: rq_text_def [of "_\<lparr>rq_rbuf := _, rq_pstr := _\<rparr>"])
qed

text \<open>A read appends to the window and changes nothing else the parser looks at.\<close>

lemma net_data_read_text:
  assumes w: "win req" "length (rq_rbuf req) = 4096" "length (rq_text req) < 4096"
    and d: "rd (4096 - length (rq_text req)) = Some d" "length d \<le> 4096 - length (rq_text req)"
  obtains q where "net_data_read rd req = (q, CI_OK)" "win q" "rq_text q = rq_text req @ d"
    "length (rq_rbuf q) = 4096" "rq_chunk_len q = rq_chunk_len req" "rq_chunk_read q = rq_chunk_read req"
    "rq_pending q = rq_pending req" "rq_eof_received q = rq_eof_received req"
    "rq_preview_data q = rq_preview_data req" "ci_req_in.more q = ci_req_in.more req"
proof -
  let ?r = "rebase req" and ?L = "length (rq_text req)"
  have r: "win ?r" "rq_text ?r = rq_text req" "rq_pstr ?r = P_rbuf 0" "length (rq_rbuf ?r) = 4096"
      "rq_pstr_len ?r = rq_pstr_len req"
    using rebase_text [of req] w by simp_all
  have len: "rq_pstr_len req = int ?L" using win_mem [OF w(1)] by blast
  let ?b = "mem_write ?L d (rq_rbuf ?r)"
  let ?q = "?r\<lparr>rq_rbuf := ?b, rq_pstr_len := rq_pstr_len ?r + int (length d),
      rq_bytes_in := rq_bytes_in ?r + of_nat (length d)\<rparr>"
  have tr: "take ?L (rq_rbuf ?r) = rq_text req"
    using rbuf_window(2) [of ?r ?L] r w(3) len by simp
  have "take (?L + length d) ?b = rq_text req @ d"
    using take_mem_write_end [of ?L "rq_rbuf ?r" d] r(4) w(3) tr by simp
  moreover have "length ?b = 4096" using d(2) w(3) r(4) by simp
  ultimately have "win ?q \<and> rq_text ?q = rq_text req @ d"
    using rbuf_window [of ?q "?L + length d"] r d(2) w(3) len by simp
  moreover have "net_data_read rd req = (?q, CI_OK)"
  proof -
    have "\<not> BUFSIZE - rq_pstr_len ?r \<le> 0" "nat (BUFSIZE - rq_pstr_len ?r) = 4096 - ?L"
        "nat (rq_pstr_len ?r) = ?L"
      using w(3) r(5) len by (simp_all add: BUFSIZE_def)
    then show ?thesis using d(1) by (simp add: net_data_read_def Let_def)
  qed
  ultimately show ?thesis
    using \<open>length ?b = 4096\<close> by (intro that [of ?q]) (simp_all add: rebase_def)
qed

text \<open>The parser does not touch the preview data and the fields of the whole request.\<close>

definition kept :: "'a ci_req_in_scheme \<Rightarrow> 'a ci_req_in_scheme \<Rightarrow> bool" where
  "kept q r \<longleftrightarrow> rq_preview_data q = rq_preview_data r \<and> ci_req_in.more q = ci_req_in.more r"

lemma chunk_step_keeps:
  "(case chunk_step req wd of S_return _ q _ \<Rightarrow> kept q req
     | S_again q _ \<Rightarrow> kept q req | S_undef \<Rightarrow> True)"
proof -
  have data: "kept (chunk_data_part r) r" for r :: "'a ci_req_in_scheme"
    by (simp add: kept_def chunk_data_part_def Let_def take_data_def advance_def count_request_def count_data_def)
  have rest: "(case chunk_rest dt r wd of S_return _ q _ \<Rightarrow> kept q r
     | S_again q _ \<Rightarrow> kept q r | S_undef \<Rightarrow> True)" for dt and r :: "'a ci_req_in_scheme"
    using data [of r] by (simp add: kept_def chunk_rest_def Let_def)
  have dend: "(case chunk_def_end s e n dt r of C_return _ q \<Rightarrow> kept q r
     | C_go q _ \<Rightarrow> kept q r | C_undef \<Rightarrow> True)" for s e n dt and r :: "'a ci_req_in_scheme"
    by (simp add: kept_def chunk_def_end_def advance_def)
  have ext: "chunk_ext s e r = Some (q, k) \<Longrightarrow> kept q r"
    for s e k and r q :: "'a ci_req_in_scheme"
    by (auto simp: kept_def chunk_ext_def Let_def split: if_splits prod.splits)
  have zero: "(case chunk_zero s e n r of C_return _ q \<Rightarrow> kept q r
     | C_go q _ \<Rightarrow> kept q r | C_undef \<Rightarrow> True)" for s e n and r :: "'a ci_req_in_scheme"
    using dend ext
    by (fastforce simp: kept_def chunk_zero_def Let_def count_request_def split: option.splits chunk_flow.splits)
  have part: "(case chunk_def_part s r of C_return _ q \<Rightarrow> kept q r
     | C_go q _ \<Rightarrow> kept q r | C_undef \<Rightarrow> True)" for s and r :: "'a ci_req_in_scheme"
    using dend zero
    by (fastforce simp: kept_def chunk_def_part_def Let_def count_request_def split: option.splits prod.splits chunk_flow.splits)
  show ?thesis
    using rest part
    by (fastforce simp: kept_def chunk_step_def split: option.splits chunk_flow.splits chunk_step.splits)
qed

lemma chunk_loop_keeps:
  assumes "chunk_loop req wd = Some res"
  shows "case res of Ret (q, _, _) \<Rightarrow> kept q req | _ \<Rightarrow> True"
proof (rule chunk_loop.raw_induct [OF _ assms])
  fix loop :: "'a ci_req_in_scheme \<Rightarrow> pstr option \<Rightarrow> ('a ci_req_in_scheme \<times> int \<times> pstr option) c_result option"
    and r w y
  assume IH: "\<And>r w y. loop r w = Some y \<Longrightarrow>
      (case y of Ret (q, _, _) \<Rightarrow> kept q r | _ \<Rightarrow> True)"
    and "(case chunk_step r w of S_return ret r1 w1 \<Rightarrow> Some (Ret (r1, ret, w1))
      | S_again r1 w1 \<Rightarrow> loop r1 w1 | S_undef \<Rightarrow> Some Undef) = Some y"
  then show "case y of Ret (q, _, _) \<Rightarrow> kept q r | _ \<Rightarrow> True"
    using chunk_step_keeps [of r w] IH
    by (cases "chunk_step r w") (auto simp: kept_def dest!: IH split: c_result.splits)
qed

text \<open>One call of the parser, with the bytes \<open>F\<close> still to come.\<close>

lemma parse_chunk_data_result:
  assumes "good_ext x" "win req" "rq_pending req = 0"
    "in_def x Y req (rq_text req @ F) P \<or> in_data x Y req (rq_text req @ F) P"
  obtains q ret wd where "parse_chunk_data req = Some (Ret (q, ret, wd))"
    "parse_result x Y F P req (q, ret, wd)" "rq_preview_data q = rq_preview_data req" "ci_req_in.more q = ci_req_in.more req"
proof -
  obtain q ret wd where "chunk_loop req None = Some (Ret (q, ret, wd))"
      "parse_result x Y F P req (q, ret, wd)"
    using loop_result [OF assms, of None] by auto
  moreover from this(1) have "kept q req"
    using chunk_loop_keeps [of req None "Ret (q, ret, wd)"] by simp
  ultimately show ?thesis
    using assms(3) by (intro that [of q ret wd]) (simp_all add: parse_chunk_data_def kept_def)
qed

lemma recv_data:
  assumes w: "win req" "length (rq_rbuf req) = 4096" "length (rq_text req) < 4096"
  obtains q ds where "recv (map Net_data (d # fs)) req = ((q, CI_OK), map Net_data ds)"
    "rq_text q @ concat ds = rq_text req @ concat (d # fs)" "win q" "length (rq_rbuf q) = 4096"
    "length (rq_text q) \<le> 4096" "(\<Sum>e \<leftarrow> ds. length e + 1) < (\<Sum>e \<leftarrow> d # fs. length e + 1)"
    "rq_chunk_len q = rq_chunk_len req" "rq_chunk_read q = rq_chunk_read req"
    "rq_pending q = rq_pending req" "rq_eof_received q = rq_eof_received req"
    "rq_preview_data q = rq_preview_data req" "ci_req_in.more q = ci_req_in.more req"
proof -
  let ?n = "4096 - length (rq_text req)"
  have "rq_pstr_len req = int (length (rq_text req))" using win_mem [OF w(1)] by blast
  then have room: "nat (BUFSIZE - rq_pstr_len req) = ?n" using w(3) by (simp add: BUFSIZE_def)
  obtain q where q: "net_data_read (\<lambda>n. Some (take n d)) req = (q, CI_OK)" "win q"
      "rq_text q = rq_text req @ take ?n d" "length (rq_rbuf q) = 4096"
      "rq_chunk_len q = rq_chunk_len req" "rq_chunk_read q = rq_chunk_read req"
      "rq_pending q = rq_pending req" "rq_eof_received q = rq_eof_received req"
      "rq_preview_data q = rq_preview_data req" "ci_req_in.more q = ci_req_in.more req"
    by (rule net_data_read_text [OF w, of "\<lambda>n. Some (take n d)" "take ?n d"]) simp_all
  show ?thesis
  proof (cases "length d \<le> ?n")
    case True
    with q room w(3) show ?thesis by (intro that [of q fs]) (simp_all add: Let_def)
  next
    case False
    have "?n > 0" using w(3) by simp
    with q room w(3) False show ?thesis by (intro that [of q "drop ?n d # fs"]) (simp_all add: Let_def)
  qed
qed

lemma expects_cong:
  assumes "rq_chunk_len q = rq_chunk_len r" "rq_chunk_read q = rq_chunk_read r"
  shows "in_def x Y q = in_def x Y r" "in_data x Y q = in_data x Y r"
  using assms by (auto simp: in_def_def in_data_def fun_eq_iff)

definition reading :: "zero_ext \<Rightarrow> bytes \<Rightarrow> bytes list \<Rightarrow> bytes \<Rightarrow> 'a ci_req_in_scheme \<Rightarrow> bool" where
  "reading x Y fs P req \<longleftrightarrow>
     win req \<and> length (rq_rbuf req) = 4096 \<and> rq_pending req = 0
     \<and> (in_def x Y req (rq_text req @ concat fs) P \<or> in_data x Y req (rq_text req @ concat fs) P)
     \<and> cb_ok (rq_preview_data req)
     \<and> int (length P) \<le> cb_size (rq_preview_data req) - cb_used (rq_preview_data req)"

definition preview_done ::
  "zero_ext \<Rightarrow> bytes \<Rightarrow> 'a ci_req_in_scheme \<Rightarrow> (('a ci_req_in_scheme \<times> int) \<times> net_in list) c_result option \<Rightarrow> bool"
where
  "preview_done x P req res \<longleftrightarrow>
     (\<exists>q es. res = Some (Ret ((q, if rq_eof_received req \<or> x \<noteq> X_none then CI_EOF else CI_OK), es))
       \<and> cb_contents (rq_preview_data q) = cb_contents (rq_preview_data req) @ P)"

text \<open>
  One round of \<^verbatim>\<open>read_preview_data\<close>: it is finished, or it goes on with less window or less input.
\<close>

lemma preview_round:
  assumes x: "good_ext x" and r: "reading x Y fs P req"
  obtains "preview_done x P req (preview_loop (map Net_data fs) req)"
  | q gs P1 P2 where "preview_loop (map Net_data fs) req = preview_loop (map Net_data gs) q"
      "reading x Y gs P2 q" "P = P1 @ P2"
      "cb_contents (rq_preview_data q) = cb_contents (rq_preview_data req) @ P1"
      "rq_eof_received q = rq_eof_received req"
      "gs = fs \<and> length (rq_text q) < length (rq_text req)
        \<or> length (rq_text q) \<le> 4096 \<and> (\<Sum>e \<leftarrow> gs. length e + 1) < (\<Sum>e \<leftarrow> fs. length e + 1)"
proof -
  let ?es = "map Net_data fs"
  obtain q ret wd where p: "parse_chunk_data req = Some (Ret (q, ret, wd))"
      and res: "parse_result x Y (concat fs) P req (q, ret, wd)"
      and pv: "rq_preview_data q = rq_preview_data req"
    using parse_chunk_data_result [OF x, of req Y "concat fs" P] r unfolding reading_def by metis
  obtain P' where w: "win q" "rq_rbuf q = rq_rbuf req" "unat (rq_pending q) = length (handed q wd)"
      and P: "P = handed q wd @ P'"
      and alt: "ret = CI_EOF \<and> P' = [] \<and> rq_eof_received q = (rq_eof_received req \<or> x \<noteq> X_none)
         \<or> rq_eof_received q = rq_eof_received req
           \<and> (in_def x Y q (rq_text q @ concat fs) P' \<or> in_data x Y q (rq_text q @ concat fs) P')
           \<and> (ret = CI_NEEDS_MORE \<and> concat fs \<noteq> [] \<and> length (rq_text q) < 4096
              \<or> ret = CI_OK \<and> length (rq_text q) < length (rq_text req))"
    using res unfolding parse_result_def by auto
  have sz: "int (length (handed q wd)) \<le> cb_size (rq_preview_data q) - cb_used (rq_preview_data q)"
      "cb_ok (rq_preview_data q)"
    using r P pv by (simp_all add: reading_def)
  obtain b where b: "ci_buf_write (rq_preview_data q) (handed q wd) = Ret (b, int (length (handed q wd)))"
      "cb_ok b" "cb_contents b = cb_contents (rq_preview_data q) @ handed q wd"
      "cb_size b = cb_size (rq_preview_data q)"
      "cb_used b = cb_used (rq_preview_data q) + int (length (handed q wd))"
    using ci_buf_write_ok [OF sz(2,1)] by blast
  let ?q = "q\<lparr>rq_preview_data := b, rq_pending := 0\<rparr>"
  have same: "win ?q" "rq_text ?q = rq_text q" using w(1) win_cong [of ?q q] by simp_all
  have room: "int (length P') \<le> cb_size b - cb_used b" using r P b pv by (simp add: reading_def)
  have unfold: "preview_loop ?es req =
      (if ret = CI_EOF then Some (Ret ((?q\<lparr>rq_pstr := P_null, rq_pstr_len := 0\<rparr>,
            if rq_eof_received q then CI_EOF else CI_OK), ?es))
       else if ret \<noteq> CI_NEEDS_MORE then preview_loop ?es ?q
       else (case recv ?es ?q of ((q2, st), es2) \<Rightarrow>
          if st = CI_ERROR then Some (Ret ((q2, CI_ERROR), es2)) else preview_loop es2 q2))"
    if "ret \<noteq> CI_ERROR"
    using p w(3) b(1) that by (subst preview_loop.simps) simp
  let ?st = "in_def x Y q (rq_text q @ concat fs) P' \<or> in_data x Y q (rq_text q @ concat fs) P'"
  consider (eof) "ret = CI_EOF" "P' = []" "rq_eof_received q = (rq_eof_received req \<or> x \<noteq> X_none)"
    | (ok) "rq_eof_received q = rq_eof_received req" "ret = CI_OK"
        "length (rq_text q) < length (rq_text req)" ?st
    | (more) "rq_eof_received q = rq_eof_received req" "ret = CI_NEEDS_MORE" "concat fs \<noteq> []"
        "length (rq_text q) < 4096" ?st
    using alt by argo
  then show ?thesis
  proof cases
    case eof
    then have "preview_done x P req (preview_loop ?es req)"
      using unfold b P pv by (auto simp: preview_done_def ci_consts)
    then show ?thesis by (rule that(1))
  next
    case e: ok
    note st = e(4)
    have "reading x Y fs P' ?q"
      using r st w b same room expects_cong [of ?q q x Y] by (auto simp: reading_def)
    with e st show ?thesis
      using unfold P b pv same by (intro that(2) [of fs ?q P' "handed q wd"]) (simp_all add: ci_consts)
  next
    case e: more
    note st = e(5)
    from e(3) obtain d ds where fs: "fs = d # ds" by (cases fs) auto
    have rb: "length (rq_rbuf ?q) = 4096" "length (rq_text ?q) < 4096"
      using r w(2) same e(4) by (simp_all add: reading_def)
    obtain q2 gs where q2: "recv ?es ?q = ((q2, CI_OK), map Net_data gs)"
        "rq_text q2 @ concat gs = rq_text ?q @ concat fs" "win q2" "length (rq_rbuf q2) = 4096"
        "length (rq_text q2) \<le> 4096" "(\<Sum>e \<leftarrow> gs. length e + 1) < (\<Sum>e \<leftarrow> fs. length e + 1)"
        "rq_chunk_len q2 = rq_chunk_len ?q" "rq_chunk_read q2 = rq_chunk_read ?q"
        "rq_pending q2 = rq_pending ?q" "rq_eof_received q2 = rq_eof_received ?q"
        "rq_preview_data q2 = rq_preview_data ?q"
      by (rule recv_data [OF same(1) rb, of d ds, folded fs])
    have "reading x Y gs P' q2"
      using q2 b room st same expects_cong [of q2 q x Y] by (simp add: reading_def)
    with q2 e st show ?thesis
      using unfold P b pv by (intro that(2) [of gs q2 P' "handed q wd"]) (simp_all add: ci_consts)
  qed
qed

lemma preview_loop_reads:
  assumes x: "good_ext x" and r: "reading x Y fs P req"
  shows "preview_done x P req (preview_loop (map Net_data fs) req)"
  using r
proof (induction "8192 * (\<Sum>e \<leftarrow> fs. length e + 1) + length (rq_text req)" arbitrary: fs P req rule: less_induct)
  case less
  from preview_round [OF x less.prems] show ?case
  proof cases
    case (2 q gs P1 P2)
    have "8192 * (\<Sum>e \<leftarrow> gs. length e + 1) + length (rq_text q)
        < 8192 * (\<Sum>e \<leftarrow> fs. length e + 1) + length (rq_text req)"
      using 2(6) by auto
    from less.hyps [OF this 2(2)] 2 show ?thesis by (auto simp: preview_done_def)
  qed simp
qed

section \<open>Properties\<close>

text \<open>
  C13.  However the network cuts a well-formed chunked preview into pieces (bytes already in the
  window included, and whatever follows the body), \<^verbatim>\<open>read_preview_data\<close> returns, and what it stored
  in \<^verbatim>\<open>preview_data\<close> is exactly the concatenation of the chunks; the status tells whether the zero
  chunk carried \<^verbatim>\<open>ieof\<close> (or \<^verbatim>\<open>use-original-body\<close>).
\<close>

theorem read_preview_delivers:
  assumes "good_chunks cs" "good_ext x" "win req" "length (rq_rbuf req) = 4096"
    "rq_text req @ concat fs = chunked cs x @ Y" "\<not> rq_eof_received req"
    "cb_ok (rq_preview_data req)"
    "int (length (concat cs)) \<le> cb_size (rq_preview_data req) - cb_used (rq_preview_data req)"
  shows "\<exists>q es. read_preview_data (map Net_data fs) req
      = Some (Ret ((q, if x = X_none then CI_OK else CI_EOF), es))
    \<and> cb_contents (rq_preview_data q) = cb_contents (rq_preview_data req) @ concat cs"
proof -
  let ?r = "req\<lparr>rq_chunk_len := 0, rq_chunk_read := 0, rq_pending := 0\<rparr>"
  have r: "win ?r" "rq_text ?r = rq_text req" using assms(3) win_cong [of ?r req] by simp_all
  have len: "rq_pstr_len req = int (length (rq_text req))" using win_mem [OF assms(3)] by blast
  have "\<exists>gs q. reading x Y gs (concat cs) q \<and> rq_preview_data q = rq_preview_data req
      \<and> \<not> rq_eof_received q
      \<and> read_preview_data (map Net_data fs) req = preview_loop (map Net_data gs) q"
  proof (cases "rq_text req = []")
    case False
    have "reading x Y fs (concat cs) ?r"
      using assms r by (auto simp: reading_def in_def_def)
    with False len assms(6) show ?thesis
      by (intro exI [of _ fs] exI [of _ ?r]) (simp add: read_preview_data_def)
  next
    case True
    with assms(5) have "concat fs \<noteq> []" by auto
    then obtain d ds where fs: "fs = d # ds" by (cases fs) auto
    have room: "length (rq_rbuf ?r) = 4096" "length (rq_text ?r) < 4096"
      using assms(4) r True by simp_all
    obtain q gs where q: "recv (map Net_data fs) ?r = ((q, CI_OK), map Net_data gs)"
        "rq_text q @ concat gs = rq_text ?r @ concat fs" "win q" "length (rq_rbuf q) = 4096"
        "rq_chunk_len q = rq_chunk_len ?r" "rq_chunk_read q = rq_chunk_read ?r"
        "rq_pending q = rq_pending ?r" "rq_eof_received q = rq_eof_received ?r"
        "rq_preview_data q = rq_preview_data ?r"
      by (rule recv_data [OF r(1) room, of d ds, folded fs])
    have "reading x Y gs (concat cs) q"
      using q r assms by (auto simp: reading_def in_def_def)
    with q True len assms(6) show ?thesis
      by (intro exI [of _ gs] exI [of _ q]) (simp add: read_preview_data_def ci_consts)
  qed
  then obtain gs q where "reading x Y gs (concat cs) q" "rq_preview_data q = rq_preview_data req"
      "\<not> rq_eof_received q" "read_preview_data (map Net_data fs) req = preview_loop (map Net_data gs) q"
    by blast
  with preview_loop_reads [OF assms(2), of Y gs "concat cs" q] show ?thesis
    by (auto simp: preview_done_def)
qed

definition idle_input :: ci_req_in where
  "idle_input = \<lparr>rq_rbuf = replicate 4096 NUL, rq_pstr = P_null, rq_pstr_len = 0, rq_chunk_len = 0,
     rq_chunk_read = 0, rq_pending = 0, rq_eof_received = False, rq_i206 = -1, rq_bytes_in = 0,
     rq_request_bytes_in = 0, rq_http_bytes_in = 0, rq_body_bytes_in = 0,
     rq_preview_data = \<lparr>cb_buf = Some (replicate 68 NUL), cb_size = 68, cb_used = 0\<rparr>\<rparr>"

lemma idle_input_facts:
  "win idle_input" "length (rq_rbuf idle_input) = 4096" "rq_text idle_input = []"
  "\<not> rq_eof_received idle_input" "cb_ok (rq_preview_data idle_input)"
  "cb_size (rq_preview_data idle_input) - cb_used (rq_preview_data idle_input) = 68"
  "cb_contents (rq_preview_data idle_input) = []"
  by (simp_all add: idle_input_def win_def rq_text_def cb_ok_def cb_contents_def)

lemma chunked_example: "chunked [''abc''] X_ieof = ''3'' @ CRLF @ ''abc'' @ CRLF @ ''0; ieof'' @ CRLF @ CRLF"
  by code_simp

theorem read_preview_delivers_witness:
  "\<exists>q es. read_preview_data [Net_data ''3'', Net_data [CR], Net_data (LF # ''ab''), Net_data [],
       Net_data (''c'' @ CRLF @ ''0; ieof''), Net_data (CRLF @ CRLF @ ''OPTIONS'')] idle_input
      = Some (Ret ((q, CI_EOF), es)) \<and> cb_contents (rq_preview_data q) = ''abc''"
  using read_preview_delivers [of "[''abc'']" X_ieof idle_input
      "[''3'', [CR], LF # ''ab'', [], ''c'' @ CRLF @ ''0; ieof'', CRLF @ CRLF @ ''OPTIONS'']" "''OPTIONS''"]
    idle_input_facts
  by (simp only: chunked_example) (simp add: good_chunks_def good_ext_def)

text \<open>
  C14.  A single call of \<^verbatim>\<open>parse_chunk_data\<close> on any state it can be in while a well-formed body is
  read (before a chunk definition or inside chunk data, with any part \<open>F\<close> of the body still to
  come) returns and makes progress; what it hands over is the next part of the payload.  It returns \<^verbatim>\<open>CI_OK\<close> only with a piece of the payload that is
  not empty, and then the window has become shorter; it asks for more input only when more is to come and the window is empty or holds no more
  than a part of the next chunk definition; and it reports the end of
  the body only when all payload was handed over and the window stands on the first byte after
  the body, where a pipelined request begins.
\<close>

theorem parse_chunk_data_progress:
  assumes "good_ext x" "win req" "rq_pending req = 0"
    "in_def x Y req (rq_text req @ F) P \<or> in_data x Y req (rq_text req @ F) P"
  shows "\<exists>q ret wd P'. parse_chunk_data req = Some (Ret (q, ret, wd))
    \<and> P = handed q wd @ P' \<and> unat (rq_pending q) = length (handed q wd)
    \<and> (ret = CI_EOF \<and> P' = [] \<and> rq_text q @ F = Y
       \<or> (ret = CI_NEEDS_MORE \<and> F \<noteq> [] \<and> waiting x Y F q
          \<or> ret = CI_OK \<and> handed q wd \<noteq> [] \<and> length (rq_text q) < length (rq_text req))
         \<and> (in_def x Y q (rq_text q @ F) P' \<or> in_data x Y q (rq_text q @ F) P'))"
proof -
  obtain q ret wd where "parse_chunk_data req = Some (Ret (q, ret, wd))"
      "parse_result x Y F P req (q, ret, wd)"
    using parse_chunk_data_result [OF assms] by metis
  then show ?thesis unfolding parse_result_def by auto
qed

definition busy_input :: ci_req_in where
  "busy_input = idle_input\<lparr>rq_rbuf := ''3'' @ CRLF @ ''abc'' @ CRLF @ ''2'' @ CRLF @ replicate 100 NUL, rq_pstr := P_rbuf 0, rq_pstr_len := 11\<rparr>"

theorem parse_chunk_data_progress_witness:
  "\<exists>q ret wd P'. parse_chunk_data busy_input = Some (Ret (q, ret, wd)) \<and> ret = CI_OK \<and> ''abcde'' = handed q wd @ P'
    \<and> unat (rq_pending q) = length (handed q wd) \<and> handed q wd \<noteq> [] \<and> length (rq_text q) < length (rq_text busy_input)"
proof -
  let ?F = "''de'' @ CRLF @ zero_chunk X_none"
  have t: "rq_text busy_input = ''3'' @ CRLF @ ''abc'' @ CRLF @ ''2'' @ CRLF" by code_simp
  have w: "win busy_input" "rq_pending busy_input = 0" by (simp_all add: busy_input_def idle_input_def win_def)
  have "chunked [''abc'', ''de''] X_none @ [] = rq_text busy_input @ ?F" unfolding t by code_simp
  then have "in_def X_none [] busy_input (rq_text busy_input @ ?F) ''abcde''"
    unfolding in_def_def by (intro conjI exI [of _ "[''abc'', ''de'']"]) (simp_all add: busy_input_def idle_input_def good_chunks_def)
  then obtain q ret wd P' where r: "parse_chunk_data busy_input = Some (Ret (q, ret, wd))"
      "''abcde'' = handed q wd @ P' \<and> unat (rq_pending q) = length (handed q wd)
       \<and> (ret = CI_EOF \<and> P' = [] \<and> rq_text q @ ?F = []
         \<or> (ret = CI_NEEDS_MORE \<and> ?F \<noteq> [] \<and> waiting X_none [] ?F q
            \<or> ret = CI_OK \<and> handed q wd \<noteq> [] \<and> length (rq_text q) < length (rq_text busy_input))
           \<and> (in_def X_none [] q (rq_text q @ ?F) P' \<or> in_data X_none [] q (rq_text q @ ?F) P'))"
    using parse_chunk_data_progress [of X_none busy_input "[]" ?F "''abcde''"] w by (auto simp: good_ext_def)
  have "map_option (\<lambda>r. case r of Ret (q, ret, wd) \<Rightarrow> ret | _ \<Rightarrow> 0) (parse_chunk_data busy_input) = Some CI_OK" by code_simp
  then have "ret = CI_OK" using r(1) by simp
  moreover have "CI_OK \<noteq> CI_EOF" "CI_OK \<noteq> CI_NEEDS_MORE" by code_simp+
  ultimately show ?thesis using r by blast
qed

lemma format_data_chunk:
  assumes "length A = EXTRA_CHUNK_SIZE" "d \<noteq> []" "length d \<le> MAX_CHUNK_SIZE" "2 \<le> length B"
  obtains w off where "format_body_chunk True u (A @ d @ B) off0 (int (length d))
        = Ret (w, off, int (length (chunk_head (length d) @ d @ CRLF)), length d, CI_OK)"
    "length w = length (A @ d @ B)"
    "seg off (length (chunk_head (length d) @ d @ CRLF)) w = chunk_head (length d) @ d @ CRLF"
proof -
  let ?h = "chunk_head (length d)"
  obtain b1 b2 r where B: "B = b1 # b2 # r" using assms(4) by (cases B; cases "tl B") auto
  have "length ?h \<le> 10" using assms(3) by (intro length_chunk_head) (simp add: MAX_CHUNK_SIZE_def)
  then have h: "length ?h \<le> length A" using assms(1) by (simp add: EXTRA_CHUNK_SIZE_def)
  have w1: "(A @ d @ B)[EXTRA_CHUNK_SIZE + length d := CR, EXTRA_CHUNK_SIZE + length d + 1 := LF]
      = A @ d @ CR # LF # r"
    unfolding assms(1) [symmetric] B by (simp add: list_update_append)
  let ?w = "take (length A - length ?h) A @ ?h @ d @ CR # LF # r"
  have w2: "mem_write (EXTRA_CHUNK_SIZE - length ?h) ?h (A @ d @ CR # LF # r) = ?w"
    unfolding assms(1) [symmetric] mem_write_def using h by simp
  have "seg (length (take (length A - length ?h) A)) (length (?h @ d @ CRLF))
      (take (length A - length ?h) A @ (?h @ d @ CRLF) @ r) = ?h @ d @ CRLF"
    by (rule seg_append)
  moreover have "length (take (length A - length ?h) A) = EXTRA_CHUNK_SIZE - length ?h"
    using assms(1) by simp
  ultimately have sg: "seg (EXTRA_CHUNK_SIZE - length ?h) (length (?h @ d @ CRLF)) ?w = ?h @ d @ CRLF"
    by (simp del: length_take)
  have fmt: "format_body_chunk True u (A @ d @ B) off0 (int (length d))
      = Ret (?w, EXTRA_CHUNK_SIZE - length ?h, int (length (?h @ d @ CRLF)), length d, CI_OK)"
    using assms(2,3) w1 w2 by (simp add: format_body_chunk_def Let_def)
  show ?thesis by (rule that [OF fmt _ sg]) (use h in \<open>simp add: B\<close>)
qed

lemma format_eof_chunk:
  "format_body_chunk True u W off0 CI_EOF
     = Ret (mem_write 0 (eof_chunk u @ [NUL]) W, 0, int (length (eof_chunk u)), 0, CI_EOF)"
  "seg 0 (length (eof_chunk u)) (mem_write 0 (eof_chunk u @ [NUL]) W) = eof_chunk u"
  by (simp_all add: format_body_chunk_def Let_def CI_EOF_def mem_write_def seg_def)

text \<open>
  C15.  \<^verbatim>\<open>format_body_chunk\<close> writes inside \<^verbatim>\<open>wbuf\<close> and turns a payload block into one chunk of the
  grammar that \<^verbatim>\<open>parse_chunk_data\<close> reads: the block to send is the size in hexadecimal, CR LF, the
  payload and CR LF; at the end of the body it is the zero chunk, with \<^verbatim>\<open>use-original-body\<close> for a
  206 response.
\<close>

theorem format_body_chunk_output:
  assumes "length A = EXTRA_CHUNK_SIZE" "d \<noteq> []" "length d \<le> MAX_CHUNK_SIZE" "2 \<le> length B" "60 \<le> length W"
    "int n \<le> LONG_MAX"
  shows "(\<exists>w off. format_body_chunk True u (A @ d @ B) off0 (int (length d))
        = Ret (w, off, int (length (chunk_head (length d) @ d @ CRLF)), length d, CI_OK)
        \<and> length w = length (A @ d @ B)
        \<and> seg off (length (chunk_head (length d) @ d @ CRLF)) w = chunk_head (length d) @ d @ CRLF)
    \<and> (\<exists>w. format_body_chunk True None W off0 CI_EOF
        = Ret (w, 0, int (length (chunked [] X_none)), 0, CI_EOF)
        \<and> seg 0 (length (chunked [] X_none)) w = chunked [] X_none)
    \<and> (\<exists>w. format_body_chunk True (Some (int n)) W off0 CI_EOF
        = Ret (w, 0, int (length (chunked [] (X_origin n))), 0, CI_EOF)
        \<and> seg 0 (length (chunked [] (X_origin n))) w = chunked [] (X_origin n))"
    (is "?chunk \<and> ?none \<and> ?orig")
proof (intro conjI)
  obtain w off where "format_body_chunk True u (A @ d @ B) off0 (int (length d))
        = Ret (w, off, int (length (chunk_head (length d) @ d @ CRLF)), length d, CI_OK)"
    "length w = length (A @ d @ B)"
    "seg off (length (chunk_head (length d) @ d @ CRLF)) w = chunk_head (length d) @ d @ CRLF"
    by (rule format_data_chunk [OF assms(1-4)])
  then show ?chunk by blast
  have eof: "eof_chunk None = chunked [] X_none" "eof_chunk (Some (int n)) = chunked [] (X_origin n)"
    by (simp_all add: eof_chunk_def zero_chunk_def print_int_def)
  show ?none using format_eof_chunk(1) [of None W off0] format_eof_chunk(2) [of None W] unfolding eof by blast
  show ?orig using format_eof_chunk(1) [of "Some (int n)" W off0] format_eof_chunk(2) [of "Some (int n)" W] unfolding eof by blast
qed

theorem format_body_chunk_output_witness:
  "(\<exists>w off. format_body_chunk True None (replicate 30 NUL @ ''hi'' @ ''xx'') 0 2
        = Ret (w, off, int (length (chunk_head 2 @ ''hi'' @ CRLF)), 2, CI_OK)
        \<and> seg off (length (chunk_head 2 @ ''hi'' @ CRLF)) w = chunk_head 2 @ ''hi'' @ CRLF)"
proof -
  have "length (replicate 30 NUL) = EXTRA_CHUNK_SIZE" "length ''hi'' \<le> MAX_CHUNK_SIZE"
      "60 \<le> length (replicate 60 NUL)" "int 0 \<le> LONG_MAX"
    by (simp_all add: EXTRA_CHUNK_SIZE_def MAX_CHUNK_SIZE_def LONG_MAX_def)
  from format_body_chunk_output [OF this(1) _ this(2) _ this(3,4), of "''xx''" None 0]
  show ?thesis by (auto simp: eval_nat_numeral)
qed

text \<open>
  C16.  A chunk definition with a negative size makes \<^verbatim>\<open>parse_chunk_data\<close> run forever: after
  \<^verbatim>\<open>-6\<close> CR LF and at least one more byte, the data step moves \<^verbatim>\<open>pstrblock_read\<close> back to the
  definition it has just parsed, and the loop starts again in the same state.
\<close>

definition negative_chunk :: "'a ci_req_in_scheme \<Rightarrow> bool" where
  "negative_chunk req \<longleftrightarrow> win req \<and> rq_pending req = 0 \<and> rq_chunk_len req = rq_chunk_read req
     \<and> (\<exists>rest. rest \<noteq> [] \<and> rq_text req = ''-6'' @ CRLF @ rest)"

lemma negative_chunk_again:
  assumes "negative_chunk req"
  shows "\<exists>q wd'. chunk_step req wd = S_again q wd' \<and> negative_chunk q"
proof -
  obtain rest where w: "win req" "rq_pending req = 0" "rq_chunk_len req = rq_chunk_read req"
      and T: "rest \<noteq> []" "rq_text req = ''-6'' @ CRLF @ rest"
    using assms by (auto simp: negative_chunk_def)
  obtain s r where s: "ptr_mem (rq_rbuf req) (rq_pstr req) (rq_pstr_len req) = Some s"
      and len: "rq_pstr_len req = int (length (rq_text req))" and sr: "s = ''-6'' @ CRLF @ rest @ r"
    using win_mem [OF w(1)] T(2) by (metis append.assoc)
  have tx: "take (nat (rq_pstr_len req)) s = ''-6'' @ CR # LF # rest"
    unfolding len nat_int T(2) sr by simp
  have crlf: "ci_strnstr s CRLF (nat (rq_pstr_len req)) = Some 2"
    unfolding ci_strnstr_def tx by (simp add: starts_with_def)
  have str: "strtol 16 s = (-6, 2)"
    by (simp add: sr strtol_def isspace_c_def is_digit_def digit_val_def digits_val_def clamp_long_def
        LONG_MIN_def LONG_MAX_def)
  have sk: "skip_blank s 2 = 2" by (simp add: sr skip_blank_def)
  let ?q = "count_request 4 req\<lparr>rq_chunk_len := word_of_int (-6), rq_chunk_read := 0,
      rq_chunk_len := word_of_int (-6) + 2\<rparr>"
  have part: "chunk_def_part s req = C_go (advance 4 ?q) True"
    using crlf str sk by (simp add: chunk_def_part_def Let_def int32_def chunk_def_end_def sr)
  let ?a = "advance 4 ?q"
  have m4: "(word_of_int (-6) + 2 :: 32 word) = - 4" "sint (- 4 :: 32 word) = - 4"
    by simp_all
  have a: "rq_chunk_len ?a = - 4" "rq_chunk_read ?a = 0" "rq_pending ?a = 0"
      "rq_pstr_len ?a = rq_pstr_len req - 4" "rq_rbuf ?a = rq_rbuf req"
      "rq_pstr ?a = pstr_add (rq_pstr req) 4"
    using w(2) m4 by (simp_all add: advance_def count_request_def)
  let ?d = "take_data (- 4) (?a\<lparr>rq_pending := 0\<rparr>)"
  have data: "chunk_data_part ?a = ?d"
    unfolding chunk_data_part_def Let_def a using m4 len T by simp
  have bk: "pstr_add (pstr_add p 4) (- 4) = p" for p by (cases p) simp_all
  have d: "rq_rbuf ?d = rq_rbuf req" "rq_pstr ?d = rq_pstr req" "rq_pstr_len ?d = rq_pstr_len req"
      "rq_pending ?d = 0" "rq_chunk_len ?d = rq_chunk_read ?d"
    unfolding take_data_simps
    using a bk by (simp_all add: take_data_def advance_def count_request_def)
  have "chunk_step req wd = S_again ?d (Some (rq_pstr ?a))"
    using w(3) s part data a d(3) len T by (simp add: chunk_step_def chunk_rest_def)
  moreover have "negative_chunk ?d"
    using w(1) T d win_cong [OF d(1-3)] by (auto simp: negative_chunk_def)
  ultimately show ?thesis by blast
qed

theorem parse_chunk_data_negative_size_diverges:
  assumes "win req" "rq_pending req = 0" "rq_chunk_len req = rq_chunk_read req"
    "rq_text req = ''-6'' @ CRLF @ rest" "rest \<noteq> []"
  shows "parse_chunk_data req = None"
proof (rule ccontr)
  assume "parse_chunk_data req \<noteq> None"
  then obtain y where y: "chunk_loop req None = Some y"
    using assms(2) by (auto simp: parse_chunk_data_def)
  have "\<not> negative_chunk req"
  proof (rule chunk_loop.raw_induct [OF _ y])
    fix loop :: "'a ci_req_in_scheme \<Rightarrow> pstr option \<Rightarrow> ('a ci_req_in_scheme \<times> int \<times> pstr option) c_result option"
      and r w y
    assume IH: "\<And>r w y. loop r w = Some y \<Longrightarrow> \<not> negative_chunk r"
      and body: "(case chunk_step r w of S_return ret r1 w1 \<Rightarrow> Some (Ret (r1, ret, w1))
        | S_again r1 w1 \<Rightarrow> loop r1 w1 | S_undef \<Rightarrow> Some Undef) = Some y"
    show "\<not> negative_chunk r"
    proof
      assume "negative_chunk r"
      from negative_chunk_again [OF this, of w] body IH show False by auto
    qed
  qed
  with assms show False by (auto simp: negative_chunk_def)
qed

theorem parse_chunk_data_negative_size_diverges_witness:
  "parse_chunk_data (idle_input\<lparr>rq_pstr := P_block (''-6'' @ CRLF @ ''x'') 0, rq_pstr_len := 5\<rparr>) = None"
  by (rule parse_chunk_data_negative_size_diverges [where rest = "''x''"])
    (simp_all add: idle_input_def win_def rq_text_def)

end
