(* ===== verification/Request.thy ===== *)
theory Request
  imports Chunk_Parser Ring_Buffer
begin

text \<open>
  The request object of \<^verbatim>\<open>request_common.c\<close>: its record, allocation, reset and destruction, the
  encapsulated entities (allocation, release to and reuse from the trash list), the parser of the
  \<^verbatim>\<open>Encapsulated\<close> header and \<^verbatim>\<open>ci_request_t_pack\<close>, which writes that header and packs the header
  blocks.

  Proved: the offsets written in the \<^verbatim>\<open>Encapsulated\<close> header are the places where the parts really
  start in the encapsulated message, and \<^verbatim>\<open>process_encapsulated\<close> reads back exactly the entities
  that were written; six entities overrun the array \<^verbatim>\<open>entities\<close>; a reset request has no trace of
  the request before.
\<close>

section \<open>The record\<close>

definition SEND_NOTHING :: int where "SEND_NOTHING = 0"
definition SEND_RESPHEAD :: int where "SEND_RESPHEAD = 1"
definition SEND_HEAD1 :: int where "SEND_HEAD1 = 2"
definition SEND_HEAD2 :: int where "SEND_HEAD2 = 3"
definition SEND_HEAD3 :: int where "SEND_HEAD3 = 4"
definition SEND_BODY :: int where "SEND_BODY = 5"
definition SEND_EOF :: int where "SEND_EOF = 6"

declare SEND_NOTHING_def [ci_consts] SEND_RESPHEAD_def [ci_consts] SEND_HEAD1_def [ci_consts]
  SEND_HEAD2_def [ci_consts] SEND_HEAD3_def [ci_consts] SEND_BODY_def [ci_consts] SEND_EOF_def [ci_consts]

definition MAX_SERVICE_NAME :: nat where "MAX_SERVICE_NAME = 63"
definition MAX_SERVICE_ARGS :: nat where "MAX_SERVICE_ARGS = 255"
definition CI_MAXHOSTNAMELEN :: nat where "CI_MAXHOSTNAMELEN = 256"

text \<open>What the server keeps about a service (\<^verbatim>\<open>ci_service_xdata_t\<close>) and the service module itself.\<close>

record ci_service_xdata =
  sx_status :: int
  sx_xopts :: "64 word"
  sx_ISTag :: bytes
  sx_TransferPreview :: bytes
  sx_TransferIgnore :: bytes
  sx_TransferComplete :: bytes
  sx_preview_size :: int
  sx_max_connections :: int
  sx_options_ttl :: int
  sx_allow_204 :: bool
  sx_allow_206 :: bool

record ci_service_module =
  mod_name :: bytes
  mod_short_descr :: "bytes option"
  mod_type :: "32 word"
  mod_xdata :: "ci_service_xdata option"

definition ci_method_support :: "32 word \<Rightarrow> int \<Rightarrow> bool" where
  "ci_method_support t m = has_flag t (word_of_int m)"

text \<open>A pointer to the block being sent: null, into \<^verbatim>\<open>wbuf\<close>, or into the buffer of a packed header.\<close>

datatype resp_ptr = R_null | R_wbuf nat | R_block bytes nat

record ci_request = ci_req_in +
  rq_packed :: bool
  rq_type :: int
  rq_req_server :: bytes
  rq_access_type :: int
  rq_user :: bytes
  rq_service :: bytes
  rq_args :: bytes
  rq_preview :: int
  rq_keepalive :: bool
  rq_allow204 :: bool
  rq_hasbody :: bool
  rq_responce_hasbody :: bool
  rq_service_mod :: "ci_service_module option"
  rq_request_header :: ci_headers_list
  rq_response_header :: ci_headers_list
  rq_entities :: "ci_encaps_entity option list"
  rq_trash :: "ci_encaps_entity option list"
  rq_xheaders :: ci_headers_list
  rq_service_data :: "nat option"
  rq_wbuf :: bytes
  rq_eof_sent :: bool
  rq_data_locked :: bool
  rq_status :: int
  rq_return_code :: int
  rq_block :: resp_ptr
  rq_remain :: int
  rq_echo_body :: "ci_ring_buf option"
  rq_preview_data_type :: int
  rq_auth_required :: bool
  rq_log_str :: "bytes option"
  rq_attributes :: "(bytes \<times> bytes) list option"
  rq_bytes_out :: "64 word"
  rq_http_bytes_out :: "64 word"
  rq_body_bytes_out :: "64 word"
  rq_allow206 :: bool
  rq_xclient_ip :: "bytes option"

section \<open>Entities\<close>

definition entity_at :: "ci_request \<Rightarrow> nat \<Rightarrow> ci_encaps_entity option" where
  "entity_at req i = (if i < length (rq_entities req) then rq_entities req ! i else None)"

definition reset_entity_headers :: "ci_encaps_entity \<Rightarrow> ci_encaps_entity" where
  "reset_entity_headers e = e\<lparr>ee_entity := map_option ci_headers_reset (ee_entity e)\<rparr>"

definition ci_request_alloc_entity ::
  "(nat \<Rightarrow> char) \<Rightarrow> (nat \<Rightarrow> bool) \<Rightarrow> ci_request \<Rightarrow> int \<Rightarrow> int \<Rightarrow> ci_request \<times> ci_encaps_entity option" where
  "ci_request_alloc_entity g ra req typ val =
     (if ICAP_OPT_BODY < typ \<or> typ < 0 then (req, None)
      else case rq_trash req ! nat typ of
             Some e \<Rightarrow>
               let e1 = e\<lparr>ee_type := typ, ee_start := val\<rparr> in
               (req\<lparr>rq_trash := (rq_trash req)[nat typ := None]\<rparr>,
                Some (if is_header_type typ then reset_entity_headers e1 else e1))
           | None \<Rightarrow> (req, mk_encaps_entity g ra typ val))"

text \<open>A released entity replaces (and so destroys) the one of its type in the trash list.\<close>

definition ci_request_release_entity :: "ci_request \<Rightarrow> nat \<Rightarrow> ci_request \<times> bool" where
  "ci_request_release_entity req pos =
     (case rq_entities req ! pos of
        None \<Rightarrow> (req, False)
      | Some e \<Rightarrow>
          if ICAP_OPT_BODY < ee_type e \<or> ee_type e < 0
          then (req\<lparr>rq_entities := (rq_entities req)[pos := None]\<rparr>, False)
          else (req\<lparr>rq_trash := (rq_trash req)[nat (ee_type e) := Some e],
                    rq_entities := (rq_entities req)[pos := None]\<rparr>, True))"

text \<open>
  The loop over all entities: it ends at the first null pointer, and runs off the array (five
  slots) when there is none.
\<close>

function release_entities :: "nat \<Rightarrow> ci_request \<Rightarrow> ci_request c_result" where
  "release_entities i req =
     (if length (rq_entities req) \<le> i then Undef
      else if rq_entities req ! i = None then Ret req
      else release_entities (Suc i) (fst (ci_request_release_entity req i)))"
  by pat_completeness auto
termination
  by (relation "measure (\<lambda>(i, req). length (rq_entities req) - i)")
    (auto simp: ci_request_release_entity_def split: option.splits)

declare release_entities.simps [simp del]

section \<open>Life of a request\<close>

text \<open>
  \<^verbatim>\<open>ci_request_alloc\<close>: \<open>None\<close> when there is no memory for the object.  The three header lists are
  created without a check; a null pointer there is dereferenced later, which is the outcome
  \<open>Undef\<close> here.
\<close>

definition ci_request_alloc ::
  "(nat \<Rightarrow> char) \<Rightarrow> (nat \<Rightarrow> bool) \<Rightarrow> bool \<Rightarrow> ci_request option c_result" where
  "ci_request_alloc g ra malloc_ok =
     (if \<not> malloc_ok then Ret None
      else case ci_headers_create g ra of
             None \<Rightarrow> Undef
           | Some h \<Rightarrow>
               Ret (Some \<lparr>rq_rbuf = fresh_mem g 4096, rq_pstr = P_null, rq_pstr_len = 0,
                 rq_chunk_len = 0, rq_chunk_read = 0, rq_pending = 0, rq_eof_received = False,
                 rq_i206 = -1, rq_bytes_in = 0, rq_request_bytes_in = 0, rq_http_bytes_in = 0,
                 rq_body_bytes_in = 0, rq_preview_data = ci_buf_init,
                 rq_packed = False, rq_type = -1, rq_req_server = [], rq_access_type = 0,
                 rq_user = [], rq_service = [], rq_args = [], rq_preview = -1, rq_keepalive = True,
                 rq_allow204 = False, rq_hasbody = False, rq_responce_hasbody = False,
                 rq_service_mod = None, rq_request_header = h, rq_response_header = h,
                 rq_entities = replicate 5 None, rq_trash = replicate 7 None, rq_xheaders = h,
                 rq_service_data = None,
                 rq_wbuf = fresh_mem g (MAX_CHUNK_SIZE + EXTRA_CHUNK_SIZE + 2),
                 rq_eof_sent = False, rq_data_locked = True, rq_status = SEND_NOTHING,
                 rq_return_code = -1, rq_block = R_null, rq_remain = 0, rq_echo_body = None,
                 rq_preview_data_type = -1, rq_auth_required = False, rq_log_str = None,
                 rq_attributes = None, rq_bytes_out = 0, rq_http_bytes_out = 0,
                 rq_body_bytes_out = 0, rq_allow206 = False, rq_xclient_ip = None\<rparr>))"

text \<open>
  \<^verbatim>\<open>ci_request_reset\<close>: everything but the connection, the access type, the server name, the
  buffers and the trash list is as in a new request.
\<close>

definition clear_request :: "ci_request \<Rightarrow> ci_request" where
  "clear_request req =
     req\<lparr>rq_packed := False, rq_user := [], rq_service := [], rq_service_mod := None,
         rq_service_data := None, rq_args := [], rq_type := -1, rq_preview := -1,
         rq_preview_data := ci_buf_reset (rq_preview_data req),
         rq_keepalive := True, rq_allow204 := False, rq_allow206 := False, rq_hasbody := False,
         rq_responce_hasbody := False,
         rq_request_header := ci_headers_reset (rq_request_header req),
         rq_response_header := ci_headers_reset (rq_response_header req),
         rq_xheaders := ci_headers_reset (rq_xheaders req),
         rq_eof_received := False, rq_eof_sent := False, rq_status := SEND_NOTHING,
         rq_return_code := -1, rq_pstr := P_null, rq_pstr_len := 0, rq_chunk_len := 0,
         rq_chunk_read := 0, rq_block := R_null, rq_remain := 0, rq_pending := 0,
         rq_data_locked := True, rq_i206 := -1, rq_echo_body := None,
         rq_preview_data_type := -1, rq_auth_required := False, rq_log_str := None,
         rq_attributes := None, rq_xclient_ip := None, rq_bytes_in := 0, rq_bytes_out := 0,
         rq_request_bytes_in := 0, rq_http_bytes_in := 0, rq_http_bytes_out := 0,
         rq_body_bytes_in := 0, rq_body_bytes_out := 0\<rparr>"

definition reset_trash_header :: "nat \<Rightarrow> ci_request \<Rightarrow> ci_request" where
  "reset_trash_header t req =
     req\<lparr>rq_trash := (rq_trash req)[t := map_option reset_entity_headers (rq_trash req ! t)]\<rparr>"

definition ci_request_reset :: "ci_request \<Rightarrow> ci_request c_result" where
  "ci_request_reset req =
     c_bind (release_entities 0 (clear_request req)) (\<lambda>r.
       Ret (reset_trash_header (nat ICAP_RES_HDR) (reset_trash_header (nat ICAP_REQ_HDR) r)))"

text \<open>
  \<^verbatim>\<open>ci_request_destroy\<close> frees the object; what the model keeps of it are the entities it destroys:
  those of the list up to the first null pointer, and those of the trash list.
\<close>

function entities_until_null :: "nat \<Rightarrow> 'a option list \<Rightarrow> 'a list c_result" where
  "entities_until_null i es =
     (if length es \<le> i then Undef
      else case es ! i of None \<Rightarrow> Ret []
           | Some e \<Rightarrow> c_bind (entities_until_null (Suc i) es) (\<lambda>r. Ret (e # r)))"
  by pat_completeness auto
termination
  by (relation "measure (\<lambda>(i, es). length es - i)") auto

declare entities_until_null.simps [simp del]

definition ci_request_destroy :: "ci_request \<Rightarrow> ci_encaps_entity list c_result" where
  "ci_request_destroy req =
     c_bind (entities_until_null 0 (rq_entities req)) (\<lambda>es.
       Ret (es @ List.map_filter id (rq_trash req)))"

definition ci_request_set_log_str :: "bool \<Rightarrow> ci_request \<Rightarrow> bytes \<Rightarrow> ci_request" where
  "ci_request_set_log_str malloc_ok req logstr =
     req\<lparr>rq_log_str := (if malloc_ok then Some logstr else None)\<rparr>"

definition ci_request_206_origin_body :: "ci_request \<Rightarrow> int \<Rightarrow> ci_request \<times> bool" where
  "ci_request_206_origin_body req off =
     (if \<not> rq_allow206 req then (req, False) else (req\<lparr>rq_i206 := off\<rparr>, True))"

section \<open>The Encapsulated header\<close>

text \<open>
  \<^verbatim>\<open>process_encapsulated\<close> on the memory \<open>s\<close> that starts at the header line; \<open>pos\<close> is the offset in
  it.  A name that is not followed by a number leaves \<^verbatim>\<open>end\<close> one byte after the name, which may be
  behind the end of the line.
\<close>

function process_encapsulated_loop ::
  "(nat \<Rightarrow> char) \<Rightarrow> (nat \<Rightarrow> bool) \<Rightarrow> bytes \<Rightarrow> nat \<Rightarrow> nat \<Rightarrow> bool \<Rightarrow> ci_request \<Rightarrow> (ci_request \<times> int) c_result" where
  "process_encapsulated_loop g ra s pos num hasbody req =
     (if length s \<le> pos then Undef
      else if s ! pos = NUL then Ret (req\<lparr>rq_hasbody := hasbody\<rparr>, EC_100)
      else case get_encaps_type (drop pos s) of
             None \<Rightarrow> Ret (req, EC_400)
           | Some (typ, val, k) \<Rightarrow>
               if 5 < num then Ret (req\<lparr>rq_hasbody := hasbody\<rparr>, EC_100)
               else if length (rq_entities req) \<le> num then Undef
               else case ci_request_alloc_entity g ra req typ val of
                      (req1, e) \<Rightarrow>
                        process_encapsulated_loop g ra s
                          (pos + k + length (takeWhile (\<lambda>c. isspace_c c \<or> c = CHR '','') (drop (pos + k) s)))
                          (Suc num) (hasbody \<and> typ \<noteq> ICAP_NULL_BODY)
                          (req1\<lparr>rq_entities := (rq_entities req1)[num := e]\<rparr>))"
  by pat_completeness auto

lemma get_encaps_type_consumes: "get_encaps_type s = Some (t, v, k) \<Longrightarrow> 8 \<le> k"
  by (auto simp: get_encaps_type_def encaps_value_def split: if_splits prod.splits)

termination process_encapsulated_loop
  by (relation "measure (\<lambda>(g, ra, s, pos, num, hb, req). length s - pos)")
    (auto dest: get_encaps_type_consumes)

declare process_encapsulated_loop.simps [simp del]

definition process_encapsulated ::
  "(nat \<Rightarrow> char) \<Rightarrow> (nat \<Rightarrow> bool) \<Rightarrow> ci_request \<Rightarrow> bytes \<Rightarrow> (ci_request \<times> int) c_result" where
  "process_encapsulated g ra req s =
     process_encapsulated_loop g ra s (13 + length (takeWhile isspace_c (drop 13 s))) 0 True req"

text \<open>
  \<^verbatim>\<open>ci_request_t_pack\<close>: the starts of the entities from the sizes of the header blocks before them,
  the \<^verbatim>\<open>Encapsulated\<close> line, and the packing of the header blocks.
\<close>

definition set_start :: "nat \<Rightarrow> int \<Rightarrow> ci_encaps_entity option list \<Rightarrow> ci_encaps_entity option list" where
  "set_start i v es = es[i := map_option (\<lambda>e. e\<lparr>ee_start := v\<rparr>) (es ! i)]"

definition pack_starts :: "ci_encaps_entity option list \<Rightarrow> ci_encaps_entity option list c_result" where
  "pack_starts es =
     (case es ! 0 of
        None \<Rightarrow> Ret es
      | Some e0 \<Rightarrow>
          let es0 = set_start 0 0 es in
          (case es ! 1 of
             None \<Rightarrow> Ret es0
           | Some e1 \<Rightarrow>
               c_bind (sizeofencaps e0) (\<lambda>n0.
                 let es1 = set_start 1 (int n0) es0 in
                 (case es ! 2 of
                    None \<Rightarrow> Ret es1
                  | Some e2 \<Rightarrow>
                      c_bind (sizeofencaps e1) (\<lambda>n1.
                        Ret (set_start 2 (int n1 + int n0) es1))))))"

definition encaps_item :: "ci_encaps_entity \<Rightarrow> bytes" where
  "encaps_item e = ci_encaps_entity_string (ee_type e) @ ''='' @ print_int (ee_start e)"

fun encaps_items :: "nat \<Rightarrow> ci_encaps_entity option list \<Rightarrow> bytes" where
  "encaps_items i (Some e # es) =
     (if i < 3 then (if i \<noteq> 0 then '', '' else []) @ encaps_item e @ encaps_items (Suc i) es else [])"
| "encaps_items i (None # es) = []"
| "encaps_items i [] = []"

definition encapsulated_line :: "ci_encaps_entity option list \<Rightarrow> bytes" where
  "encapsulated_line es =
     (if es ! 0 = None then ''Encapsulated: null-body=0'' else ''Encapsulated: '' @ encaps_items 0 es)"

definition pack_entity :: "ci_encaps_entity \<Rightarrow> ci_encaps_entity c_result" where
  "pack_entity e =
     (if is_header_type (ee_type e) then
        case ee_entity e of None \<Rightarrow> Undef
        | Some h \<Rightarrow> c_bind (ci_headers_pack h) (\<lambda>h'. Ret (e\<lparr>ee_entity := Some h'\<rparr>))
      else Ret e)"

fun pack_entities :: "ci_encaps_entity option list \<Rightarrow> ci_encaps_entity option list c_result" where
  "pack_entities [] = Undef"
| "pack_entities (None # es) = Ret (None # es)"
| "pack_entities (Some e # es) =
     c_bind (pack_entity e) (\<lambda>e'. c_bind (pack_entities es) (\<lambda>es'. Ret (Some e' # es')))"

definition ci_request_t_pack ::
  "(nat \<Rightarrow> char) \<Rightarrow> (nat \<Rightarrow> bool) \<Rightarrow> bool \<Rightarrow> ci_request \<Rightarrow> ci_request c_result" where
  "ci_request_t_pack g ra is_request req =
     (let req0 = req\<lparr>rq_packed := True\<rparr> in
      c_bind (if is_request \<and> 0 \<le> rq_preview req
              then add_line g ra (rq_request_header req0) (''Preview: '' @ print_int (rq_preview req))
              else Ret (rq_request_header req0)) (\<lambda>rh.
      c_bind (pack_starts (rq_entities req0)) (\<lambda>es.
      c_bind (add_line g ra (if is_request then rh else rq_response_header req0) (encapsulated_line es)) (\<lambda>h.
      c_bind (pack_entities es) (\<lambda>es'.
      c_bind (ci_headers_pack h) (\<lambda>h'.
        Ret (if is_request then req0\<lparr>rq_request_header := h', rq_entities := es'\<rparr>
             else req0\<lparr>rq_request_header := rh, rq_response_header := h', rq_entities := es'\<rparr>)))))))"

definition ci_request_pack :: "(nat \<Rightarrow> char) \<Rightarrow> (nat \<Rightarrow> bool) \<Rightarrow> ci_request \<Rightarrow> ci_request c_result" where
  "ci_request_pack g ra req = ci_request_t_pack g ra True req"

definition ci_response_pack :: "(nat \<Rightarrow> char) \<Rightarrow> (nat \<Rightarrow> bool) \<Rightarrow> ci_request \<Rightarrow> ci_request c_result" where
  "ci_response_pack g ra req = ci_request_t_pack g ra False req"

section \<open>Packing a response\<close>

text \<open>A header entity holds a list in edit mode, with its closing bytes; its bytes once packed.\<close>

definition ent_ok :: "ci_encaps_entity \<Rightarrow> bool" where
  "ent_ok e \<longleftrightarrow> (is_header_type (ee_type e) \<longrightarrow> (\<exists>h ls. ee_entity e = Some h \<and> hdr_rep h ls \<and> hdr_closed h))"

definition ent_wire :: "ci_encaps_entity \<Rightarrow> bytes" where
  "ent_wire e = (if is_header_type (ee_type e)
     then (case ee_entity e of None \<Rightarrow> [] | Some h \<Rightarrow> wire_bytes h) else [])"

definition packed_as :: "ci_encaps_entity \<Rightarrow> ci_encaps_entity \<Rightarrow> bool" where
  "packed_as e e' \<longleftrightarrow> pack_entity e = Ret e' \<and> ee_type e' = ee_type e \<and> ee_start e' = ee_start e
     \<and> sizeofencaps e = Ret (length (ent_wire e'))"

lemma pack_entity_ok:
  assumes "ent_ok e"
  obtains e' where "packed_as e e'"
proof (cases "is_header_type (ee_type e)")
  case True
  then obtain h ls where h: "ee_entity e = Some h" "hdr_rep h ls" "hdr_closed h"
    using assms by (auto simp: ent_ok_def)
  obtain h' where h': "ci_headers_pack h = Ret h'"
      "take (hl_bufused h') (hl_buf h') = hwire ls @ (if hdr_closed h then CRLF else [LF])"
    by (rule pack_rep [OF h(2)])
  have "hl_bufused h = length (hstore ls)" using h(2) by (simp add: hdr_rep_def)
  then have "packed_as e (e\<lparr>ee_entity := Some h'\<rparr>)"
    using True h h' by (simp add: packed_as_def pack_entity_def sizeofencaps_def sizeofheader_def
        ent_wire_def wire_bytes_def)
  then show ?thesis by (rule that)
next
  case False
  then have "packed_as e e" by (simp add: packed_as_def pack_entity_def sizeofencaps_def ent_wire_def)
  then show ?thesis by (rule that)
qed

lemma start_irrelevant [simp]:
  "sizeofencaps (e\<lparr>ee_start := v\<rparr>) = sizeofencaps e" "ent_wire (e\<lparr>ee_start := v\<rparr>) = ent_wire e"
  by (simp_all add: sizeofencaps_def ent_wire_def)

lemma pack_entity_start:
  assumes "pack_entity e = Ret e'"
  shows "pack_entity (e\<lparr>ee_start := v\<rparr>) = Ret (e'\<lparr>ee_start := v\<rparr>)"
proof (cases "is_header_type (ee_type e)")
  case True
  then obtain h where h: "ee_entity e = Some h"
    using assms by (cases "ee_entity e") (simp_all add: pack_entity_def)
  obtain h' where h': "ci_headers_pack h = Ret h'"
    using assms True h by (cases "ci_headers_pack h") (simp_all add: pack_entity_def)
  have "e' = e\<lparr>ee_entity := Some h'\<rparr>" using assms True h h' by (simp add: pack_entity_def)
  then show ?thesis using True h h' by (simp add: pack_entity_def)
qed (use assms in \<open>simp add: pack_entity_def\<close>)

lemma packed_as_start: "packed_as e e' \<Longrightarrow> packed_as (e\<lparr>ee_start := v\<rparr>) (e'\<lparr>ee_start := v\<rparr>)"
  using pack_entity_start [of e e' v] unfolding packed_as_def by simp

lemma pack_entities_all:
  assumes "list_all2 packed_as es es'"
  shows "pack_entities (map Some es @ None # r) = Ret (map Some es' @ None # r)"
  using assms by (induction rule: list_all2_induct) (simp_all add: packed_as_def)

text \<open>The starts of at most three entities, and the list with these starts.\<close>

fun starts_from :: "int \<Rightarrow> ci_encaps_entity list \<Rightarrow> ci_encaps_entity list \<Rightarrow> ci_encaps_entity list" where
  "starts_from n (e # es) (e' # es') = e\<lparr>ee_start := n\<rparr> # starts_from (n + int (length (ent_wire e'))) es es'"
| "starts_from n _ _ = []"

lemma list_up_to_three:
  assumes "length es \<le> 3"
  obtains "es = []" | a where "es = [a]" | a b where "es = [a, b]" | a b c where "es = [a, b, c]"
proof (cases es)
  case (Cons a as)
  show ?thesis
  proof (cases as)
    case Cons2: (Cons b bs)
    show ?thesis
    proof (cases bs)
      case (Cons c cs)
      then have "cs = []" using assms \<open>es = a # as\<close> Cons2 by simp
      with Cons Cons2 \<open>es = a # as\<close> show ?thesis using that(4) by simp
    qed (use that(3) Cons2 \<open>es = a # as\<close> in simp)
  qed (use that(2) Cons in simp)
qed (use that(1) in simp)

lemma pack_starts_three:
  assumes "length es \<le> 3" "list_all2 packed_as es es'"
  shows "pack_starts (map Some es @ replicate (5 - length es) None)
         = Ret (map Some (starts_from 0 es es') @ replicate (5 - length es) None)"
  using assms(1)
proof (cases rule: list_up_to_three)
  case 1
  then show ?thesis by (simp add: pack_starts_def)
next
  case (2 a)
  with assms(2) show ?thesis by (auto simp: list_all2_Cons1 pack_starts_def set_start_def)
next
  case (3 a b)
  with assms(2) show ?thesis
    by (auto simp: list_all2_Cons1 pack_starts_def set_start_def packed_as_def)
next
  case (4 a b c)
  with assms(2) show ?thesis
    by (auto simp: list_all2_Cons1 pack_starts_def set_start_def packed_as_def add.commute)
qed

lemma starts_from_packed:
  assumes "list_all2 packed_as es es'"
  shows "list_all2 packed_as (starts_from n es es') (starts_from n es' es')"
    "length (starts_from n es es') = length es"
    "map ee_type (starts_from n es' es') = map ee_type es"
    "map ent_wire (starts_from n es' es') = map ent_wire es'"
  using assms
proof (induction arbitrary: n rule: list_all2_induct)
  case (Cons e es e' es')
  {
    case 1
    then show ?case using Cons packed_as_start by simp
  next
    case 2
    then show ?case using Cons by simp
  next
    case 3
    then show ?case using Cons by (simp add: packed_as_def)
  next
    case 4
    then show ?case using Cons by (simp add: ent_wire_def)
  }
qed simp_all

lemma starts_from_nth:
  "i < length es' \<Longrightarrow>
    ee_start (starts_from n es' es' ! i) = n + int (length (concat (map ent_wire (take i es'))))"
proof (induction es' arbitrary: n i)
  case (Cons e es)
  then show ?case by (cases i) simp_all
qed simp

lemma encaps_items_cong:
  "map (map_option (\<lambda>e. (ee_type e, ee_start e))) es = map (map_option (\<lambda>e. (ee_type e, ee_start e))) fs
   \<Longrightarrow> encaps_items i es = encaps_items i fs"
proof (induction es arbitrary: i fs)
  case (Cons e es)
  then obtain f gs where "fs = f # gs" by (cases fs) auto
  with Cons show ?case by (cases e; cases f) (auto simp: encaps_item_def)
qed simp

lemma encapsulated_line_packed:
  assumes "list_all2 packed_as es es'"
  shows "encapsulated_line (map Some es @ r) = encapsulated_line (map Some es' @ r)"
proof -
  have "map (map_option (\<lambda>e. (ee_type e, ee_start e))) (map Some es @ r)
      = map (map_option (\<lambda>e. (ee_type e, ee_start e))) (map Some es' @ r)"
    using assms by (induction rule: list_all2_induct) (simp_all add: packed_as_def)
  from encaps_items_cong [OF this, of 0] show ?thesis
    using assms by (cases es; cases es') (auto simp: encapsulated_line_def)
qed

lemma NUL_notin_print_int: "NUL \<notin> set (print_int v)"
proof -
  have "\<not> is_digit 10 NUL" by (simp add: is_digit_def digit_val_def)
  then have "NUL \<notin> set (print_base 10 n)" for n using print_base_digits [of 10 n] by auto
  then show ?thesis by (simp add: print_int_def)
qed

lemma NUL_notin_entity_string: "NUL \<notin> set (ci_encaps_entity_string t)"
proof (cases "ICAP_REQ_HDR \<le> t \<and> t \<le> ICAP_OPT_BODY")
  case True
  then have "nat t \<in> {0, 1, 2, 3, 4, 5}" by (auto simp: ci_consts)
  with True show ?thesis by (auto simp: ci_encaps_entity_string_def ci_encaps_entities_def)
qed (auto simp: ci_encaps_entity_string_def)

lemma NUL_notin_encapsulated_line: "NUL \<notin> set (encapsulated_line es)"
proof -
  have "NUL \<notin> set (encaps_items i es)" for i
    by (induction i es rule: encaps_items.induct)
      (simp_all add: encaps_item_def NUL_notin_print_int NUL_notin_entity_string)
  then show ?thesis by (simp add: encapsulated_line_def)
qed

lemma packed_all:
  assumes "\<forall>e \<in> set es. ent_ok e"
  obtains es' where "list_all2 packed_as es es'"
proof -
  have "\<exists>es'. list_all2 packed_as es es'"
    using assms by (induction es) (auto simp: list_all2_Cons1 elim!: pack_entity_ok)
  with that show ?thesis by blast
qed

lemma response_packed:
  assumes "rq_entities req = map Some es @ replicate (5 - length es) None" "length es \<le> 3"
    "\<forall>e \<in> set es. ent_ok e" "hdr_rep (rq_response_header req) ls"
  shows "\<exists>req' es'. ci_response_pack g (\<lambda>_. True) req = Ret req'
    \<and> rq_entities req' = map Some es' @ replicate (5 - length es) None
    \<and> map ee_type es' = map ee_type es
    \<and> (\<forall>i < length es'. ee_start (es' ! i) = int (length (concat (map ent_wire (take i es')))))
    \<and> wire_bytes (rq_response_header req') = hwire (ls @ [encapsulated_line (rq_entities req')]) @ CRLF"
proof -
  let ?r = "replicate (5 - length es) (None :: ci_encaps_entity option)"
  obtain es' where p: "list_all2 packed_as es es'" using packed_all [OF assms(3)] by blast
  let ?a = "starts_from 0 es es'" and ?b = "starts_from 0 es' es'"
  have ab: "list_all2 packed_as ?a ?b" "map ee_type ?b = map ee_type es" "map ent_wire ?b = map ent_wire es'"
    using starts_from_packed [OF p] by blast+
  obtain n where r: "?r = None # replicate n None"
    using assms(2) by (cases "5 - length es") simp_all
  have starts: "pack_starts (rq_entities req) = Ret (map Some ?a @ ?r)"
    unfolding assms(1) by (rule pack_starts_three [OF assms(2) p])
  have pe: "pack_entities (map Some ?a @ ?r) = Ret (map Some ?b @ ?r)"
    unfolding r by (rule pack_entities_all [OF ab(1)])
  obtain h h' where h: "add_lines (add_line g (\<lambda>_. True)) (rq_response_header req)
        [encapsulated_line (map Some ?a @ ?r)] = Ret h" "ci_headers_pack h = Ret h'"
      "wire_bytes h' = hwire (ls @ [encapsulated_line (map Some ?a @ ?r)]) @ CRLF"
    using hdr.build_and_pack [OF assms(4), of "[encapsulated_line (map Some ?a @ ?r)]" g]
      NUL_notin_encapsulated_line by auto
  let ?q = "req\<lparr>rq_packed := True, rq_response_header := h', rq_entities := map Some ?b @ ?r\<rparr>"
  have "ci_response_pack g (\<lambda>_. True) req = Ret ?q"
    using starts pe h(1,2) by (simp add: ci_response_pack_def ci_request_t_pack_def Let_def c_bind_eq_Ret)
  moreover have "length ?b = length es'" using list_all2_lengthD [OF ab(1)] starts_from_packed(2) [OF p, of 0]
      list_all2_lengthD [OF p] by simp
  moreover have "ee_start (?b ! i) = int (length (concat (map ent_wire (take i ?b))))"
    if "i < length es'" for i
    using starts_from_nth [OF that, of 0] ab(3) by (simp add: take_map [symmetric])
  moreover have "wire_bytes (rq_response_header ?q) = hwire (ls @ [encapsulated_line (rq_entities ?q)]) @ CRLF"
    using h(3) encapsulated_line_packed [OF ab(1), of ?r] by simp
  ultimately show ?thesis using ab(2) by (intro exI [of _ ?q] exI [of _ ?b]) simp
qed

text \<open>
  C17.  \<^verbatim>\<open>ci_response_pack\<close> on a response with up to three entities, whose header lists are in edit
  mode with their closing bytes, returns; every offset in the \<^verbatim>\<open>Encapsulated\<close> header is exactly the
  number of bytes that the packed header blocks of the entities before it put on the wire, and
  the ICAP header on the wire is its lines, the \<^verbatim>\<open>Encapsulated\<close> line with these offsets, and the
  empty line.
\<close>

theorem response_pack_offsets:
  assumes "rq_entities req = map Some es @ replicate (5 - length es) None" "length es \<le> 3"
    "\<forall>e \<in> set es. ent_ok e" "hdr_rep (rq_response_header req) ls"
  shows "\<exists>req' es'. ci_response_pack g (\<lambda>_. True) req = Ret req'
    \<and> rq_entities req' = map Some es' @ replicate (5 - length es) None
    \<and> map ee_type es' = map ee_type es
    \<and> (\<forall>i < length es'. ee_start (es' ! i) = int (length (concat (map ent_wire (take i es')))))
    \<and> wire_bytes (rq_response_header req') = hwire (ls @ [encapsulated_line (rq_entities req')]) @ CRLF"
  by (rule response_packed [OF assms])

text \<open>A new request, for the examples.\<close>

definition new_request :: ci_request where
  "new_request =
     (case ci_request_alloc (\<lambda>_. NUL) (\<lambda>_. True) True of Ret (Some r) \<Rightarrow> r | _ \<Rightarrow> undefined)"

lemma new_request_facts:
  "hdr_rep (rq_response_header new_request) []" "hdr_rep (rq_request_header new_request) []"
  "hdr_rep (rq_xheaders new_request) []"
  "rq_entities new_request = replicate 5 None" "rq_trash new_request = replicate 7 None"
  using ci_headers_create_rep [of "\<lambda>_. NUL" "\<lambda>_. True"]
  by (simp_all add: new_request_def ci_request_alloc_def ci_headers_create_def)

definition res_hdr_entity :: ci_encaps_entity where
  "res_hdr_entity = \<lparr>ee_start = 9, ee_type = 1, ee_entity = Some two_headers\<rparr>"

definition res_body_entity :: ci_encaps_entity where
  "res_body_entity = \<lparr>ee_start = 9, ee_type = 3, ee_entity = None\<rparr>"

lemma res_entities_ok: "ent_ok res_hdr_entity" "ent_ok res_body_entity"
proof -
  have "hdr_closed two_headers" by (simp add: hdr_closed_def two_headers_def)
  then show "ent_ok res_hdr_entity"
    using two_headers_rep by (auto simp: ent_ok_def res_hdr_entity_def)
  show "ent_ok res_body_entity" by (simp add: ent_ok_def res_body_entity_def is_header_type_def ci_consts)
qed

theorem response_pack_offsets_witness:
  "\<exists>req' es'. ci_response_pack (\<lambda>_. NUL) (\<lambda>_. True)
       (new_request\<lparr>rq_entities := [Some res_hdr_entity, Some res_body_entity, None, None, None]\<rparr>) = Ret req'
    \<and> rq_entities req' = map Some es' @ replicate 3 None \<and> map ee_type es' = [1, 3]
    \<and> ee_start (es' ! 1) = int (length (ent_wire (es' ! 0)))"
proof -
  let ?req = "new_request\<lparr>rq_entities := [Some res_hdr_entity, Some res_body_entity, None, None, None]\<rparr>"
  have five: "rq_entities ?req = map Some [res_hdr_entity, res_body_entity]
      @ replicate (5 - length [res_hdr_entity, res_body_entity]) None"
    by (simp add: numeral_3_eq_3)
  obtain req' es' where r: "ci_response_pack (\<lambda>_. NUL) (\<lambda>_. True) ?req = Ret req'"
      "rq_entities req' = map Some es' @ replicate (5 - length [res_hdr_entity, res_body_entity]) None"
      "map ee_type es' = map ee_type [res_hdr_entity, res_body_entity]"
      "\<forall>i < length es'. ee_start (es' ! i) = int (length (concat (map ent_wire (take i es'))))"
  proof -
    have "length [res_hdr_entity, res_body_entity] \<le> 3"
        "\<forall>e \<in> set [res_hdr_entity, res_body_entity]. ent_ok e" "hdr_rep (rq_response_header ?req) []"
      using res_entities_ok new_request_facts(1) by simp_all
    from response_pack_offsets [OF five this, of "\<lambda>_. NUL"] that show ?thesis by blast
  qed
  then obtain a b where ab: "es' = [a, b]"
    by (auto simp: map_eq_Cons_conv)
  with r(4) have "ee_start (es' ! 1) = int (length (ent_wire (es' ! 0)))"
    by (elim allE [of _ 1]) simp
  with r ab show ?thesis
    by (intro exI [of _ req'] exI [of _ es']) (simp add: res_hdr_entity_def res_body_entity_def)
qed

section \<open>Reading the Encapsulated header back\<close>

fun item_list :: "ci_encaps_entity list \<Rightarrow> bytes" where
  "item_list [] = []"
| "item_list [e] = encaps_item e"
| "item_list (e # es) = encaps_item e @ '', '' @ item_list es"

definition good_item :: "ci_encaps_entity \<Rightarrow> bool" where
  "good_item e \<longleftrightarrow> 0 \<le> ee_type e \<and> ee_type e \<le> ICAP_NULL_BODY \<and> 0 \<le> ee_start e \<and> ee_start e < 2 ^ 31"

lemma encaps_value_item:
  assumes "0 \<le> v" "v < 2 ^ 31" "hd rest = CHR '','' \<or> hd rest = NUL" "rest \<noteq> []" "length nm = n"
  shows "encaps_value t n (nm @ print_int v @ rest) = (t, v, length (nm @ print_int v))"
proof -
  obtain k where k: "v = int k" using assms(1) by (rule nonneg_int_cases)
  have "strtol 10 (print_base 10 k @ rest) = (int k, length (print_base 10 k))"
    using assms k by (intro strtol_print_base) (auto simp: LONG_MAX_def is_digit_def digit_val_def)
  then show ?thesis
    using assms k by (simp add: encaps_value_def print_int_def)
qed

lemma get_encaps_type_item:
  assumes "good_item e" "hd rest = CHR '','' \<or> hd rest = NUL" "rest \<noteq> []"
  shows "get_encaps_type (encaps_item e @ rest) = Some (ee_type e, ee_start e, length (encaps_item e))"
proof -
  have t: "ee_type e \<in> {0, 1, 2, 3, 4}" and v: "0 \<le> ee_start e" "ee_start e < 2 ^ 31"
    using assms(1) by (auto simp: good_item_def ci_consts)
  note ev = encaps_value_item [OF v assms(2,3)]
  show ?thesis
    using t ev [of "''req-hdr=''" 8 0] ev [of "''res-hdr=''" 8 1] ev [of "''req-body=''" 9 2]
      ev [of "''res-body=''" 9 3] ev [of "''null-body=''" 10 4]
    by (elim insertE emptyE)
      (simp_all add: encaps_item_def ci_encaps_entity_string_def ci_encaps_entities_def ci_consts
        get_encaps_type_def starts_with_def)
qed

lemma item_starts_with_letter:
  assumes "good_item e"
  shows "\<not> isspace_c (hd (encaps_item e))" "hd (encaps_item e) \<noteq> CHR '',''" "hd (encaps_item e) \<noteq> NUL"
    "encaps_item e \<noteq> []"
proof -
  have "ee_type e \<in> {0, 1, 2, 3, 4}" using assms by (auto simp: good_item_def ci_consts)
  then show "\<not> isspace_c (hd (encaps_item e))" "hd (encaps_item e) \<noteq> CHR '',''" "hd (encaps_item e) \<noteq> NUL"
    "encaps_item e \<noteq> []"
    by (auto simp: encaps_item_def ci_encaps_entity_string_def ci_encaps_entities_def ci_consts isspace_c_def)
qed

text \<open>One entity of the list: the parser stores it in the next slot and moves to the next one.\<close>

lemma alloc_entity_values:
  assumes "0 \<le> t" "t \<le> ICAP_OPT_BODY" "length (rq_trash req) = 7"
  obtains e' tr where "ci_request_alloc_entity g (\<lambda>_. True) req t v = (req\<lparr>rq_trash := tr\<rparr>, Some e')"
    "length tr = 7" "ee_type e' = t" "ee_start e' = v"
proof (cases "rq_trash req ! nat t")
  case None
  then show ?thesis
    using assms by (intro that [of "rq_trash req"]) (auto simp: ci_request_alloc_entity_def mk_encaps_entity_def)
next
  case (Some e)
  then show ?thesis
    using assms
    by (intro that [of "(rq_trash req)[nat t := None]"])
      (auto simp: ci_request_alloc_entity_def Let_def reset_entity_headers_def)
qed

lemma encaps_loop_step:
  assumes e: "good_item e" "\<forall>f \<in> set es. good_item f"
    and s: "drop pos s = item_list (e # es) @ NUL # rest" and n: "num < 5"
    and req: "length (rq_entities req) = 5" "length (rq_trash req) = 7"
  obtains e' tr where "process_encapsulated_loop g (\<lambda>_. True) s pos num hb req
      = process_encapsulated_loop g (\<lambda>_. True) s (pos + length (item_list (e # es)) - length (item_list es))
          (Suc num) (hb \<and> ee_type e \<noteq> ICAP_NULL_BODY)
          (req\<lparr>rq_trash := tr, rq_entities := (rq_entities req)[num := Some e']\<rparr>)"
    "length tr = 7" "ee_type e' = ee_type e" "ee_start e' = ee_start e"
    "drop (pos + length (item_list (e # es)) - length (item_list es)) s = item_list es @ NUL # rest"
proof -
  let ?i = "encaps_item e"
  let ?sep = "if es = [] then [] else '', ''"
  have il: "item_list (e # es) = ?i @ ?sep @ item_list es" by (cases es) simp_all
  obtain e' tr where a: "ci_request_alloc_entity g (\<lambda>_. True) req (ee_type e) (ee_start e) = (req\<lparr>rq_trash := tr\<rparr>, Some e')"
      "length tr = 7" "ee_type e' = ee_type e" "ee_start e' = ee_start e"
  proof -
    have "0 \<le> ee_type e" "ee_type e \<le> ICAP_OPT_BODY" using e(1) by (simp_all add: good_item_def ci_consts)
    from alloc_entity_values [OF this req(2), of g "ee_start e"] that show ?thesis by blast
  qed
  let ?tail = "?sep @ item_list es @ NUL # rest"
  have tail: "hd ?tail = CHR '','' \<or> hd ?tail = NUL" "?tail \<noteq> []" by (cases es) simp_all
  have ds: "drop pos s = ?i @ ?tail" using s il by simp
  note first = item_starts_with_letter [OF e(1)]
  have pos: "pos < length s" "s ! pos \<noteq> NUL"
  proof -
    have "drop pos s \<noteq> []" using ds first(4) by simp
    then show "pos < length s" by simp
    then have "s ! pos = hd ?i" using ds first(4) hd_drop_conv_nth [of pos s] by simp
    then show "s ! pos \<noteq> NUL" using first(3) by simp
  qed
  have d2: "drop (pos + length ?i) s = ?tail"
    using ds by (metis add.commute append_eq_conv_conj drop_drop)
  have skip: "takeWhile (\<lambda>c. isspace_c c \<or> c = CHR '','') ?tail = ?sep"
  proof (cases es)
    case Nil
    then show ?thesis by (simp add: isspace_c_def)
  next
    case (Cons f fs)
    have f: "good_item f" using e(2) Cons by simp
    obtain r where r: "item_list es @ NUL # rest = encaps_item f @ r"
      by (cases fs) (auto simp: Cons)
    obtain c r2 where c: "encaps_item f = c # r2"
      using item_starts_with_letter(4) [OF f] by (cases "encaps_item f") auto
    have "\<not> isspace_c c" "c \<noteq> CHR '',''" using item_starts_with_letter(1,2) [OF f] c by simp_all
    then show ?thesis
      unfolding r c using Cons by (simp add: isspace_c_def)
  qed
  have "pos + length (item_list (e # es)) - length (item_list es) = pos + length ?i + length ?sep"
    unfolding il by simp
  moreover have "drop (pos + length ?i + length ?sep) s = item_list es @ NUL # rest"
    using d2 by (metis add.commute append_eq_conv_conj drop_drop)
  moreover have "process_encapsulated_loop g (\<lambda>_. True) s pos num hb req
      = process_encapsulated_loop g (\<lambda>_. True) s (pos + length ?i + length ?sep) (Suc num)
          (hb \<and> ee_type e \<noteq> ICAP_NULL_BODY)
          (req\<lparr>rq_trash := tr, rq_entities := (rq_entities req)[num := Some e']\<rparr>)"
    using pos n req(1) a(1) d2 skip
    by (subst process_encapsulated_loop.simps)
      (simp add: ds get_encaps_type_item [OF e(1) tail])
  ultimately show ?thesis using a by (intro that [of e' tr]) simp_all
qed

text \<open>What is parsed into the slots from \<open>num\<close> on.\<close>

definition parsed_as :: "ci_encaps_entity list \<Rightarrow> ci_encaps_entity list \<Rightarrow> bool" where
  "parsed_as es es' \<longleftrightarrow>
     map (\<lambda>e. (ee_type e, ee_start e)) es' = map (\<lambda>e. (ee_type e, ee_start e)) es"

lemma encaps_loop_items:
  assumes "\<forall>e \<in> set es. good_item e" "drop pos s = item_list es @ NUL # rest" "length ps + length es \<le> 5"
    "rq_entities req = ps @ replicate (5 - length ps) None" "length (rq_trash req) = 7"
  shows "\<exists>req' es'. process_encapsulated_loop g (\<lambda>_. True) s pos (length ps) hb req = Ret (req', EC_100)
    \<and> rq_entities req' = ps @ map Some es' @ replicate (5 - length ps - length es) None
    \<and> parsed_as es es' \<and> rq_hasbody req' = (hb \<and> (\<forall>e \<in> set es. ee_type e \<noteq> ICAP_NULL_BODY))"
  using assms
proof (induction es arbitrary: pos ps req hb)
  case Nil
  have "pos < length s" "s ! pos = NUL"
    using Nil.prems(2) by (auto simp: drop_Cons' Cons_nth_drop_Suc [symmetric])
      (metis drop_all list.distinct(1) not_less, metis hd_drop_conv_nth list.sel(1) drop_eq_Nil list.distinct(1) not_less)
  with Nil show ?case
    by (subst process_encapsulated_loop.simps) (auto simp: parsed_as_def)
next
  case (Cons e es)
  obtain e' tr where st: "process_encapsulated_loop g (\<lambda>_. True) s pos (length ps) hb req
      = process_encapsulated_loop g (\<lambda>_. True) s (pos + length (item_list (e # es)) - length (item_list es))
          (Suc (length ps)) (hb \<and> ee_type e \<noteq> ICAP_NULL_BODY)
          (req\<lparr>rq_trash := tr, rq_entities := (rq_entities req)[length ps := Some e']\<rparr>)"
    and tr: "length tr = 7" "ee_type e' = ee_type e" "ee_start e' = ee_start e"
    and dr: "drop (pos + length (item_list (e # es)) - length (item_list es)) s = item_list es @ NUL # rest"
    by (rule encaps_loop_step [of e es pos s rest "length ps" req])
      (use Cons.prems in \<open>auto\<close>)
  let ?req = "req\<lparr>rq_trash := tr, rq_entities := (rq_entities req)[length ps := Some e']\<rparr>"
  obtain n where n: "5 - length ps = Suc n" using Cons.prems(3) by (cases "5 - length ps") auto
  have slots: "rq_entities ?req = (ps @ [Some e']) @ replicate (5 - length (ps @ [Some e'])) None"
  proof -
    have "5 - length (ps @ [Some e']) = n" using n by simp
    then show ?thesis using Cons.prems(4) n by (simp add: list_update_append)
  qed
  have all: "\<forall>e \<in> set es. good_item e" "length (ps @ [Some e']) + length es \<le> 5" "length (rq_trash ?req) = 7"
    using Cons.prems tr by simp_all
  obtain req' es' where "process_encapsulated_loop g (\<lambda>_. True) s
        (pos + length (item_list (e # es)) - length (item_list es)) (length (ps @ [Some e']))
        (hb \<and> ee_type e \<noteq> ICAP_NULL_BODY) ?req = Ret (req', EC_100)"
      "rq_entities req' = (ps @ [Some e']) @ map Some es' @ replicate (5 - length (ps @ [Some e']) - length es) None"
      "parsed_as es es'"
      "rq_hasbody req' = ((hb \<and> ee_type e \<noteq> ICAP_NULL_BODY) \<and> (\<forall>e \<in> set es. ee_type e \<noteq> ICAP_NULL_BODY))"
    using Cons.IH [OF all(1) dr all(2) slots all(3)] by blast
  with st tr show ?case
    by (intro exI [of _ req'] exI [of _ "e' # es'"]) (simp add: parsed_as_def)
qed

lemma encaps_items_item_list:
  assumes "i + length es \<le> 3"
  shows "encaps_items i (map Some es @ None # r) = (if i \<noteq> 0 \<and> es \<noteq> [] then '', '' else []) @ item_list es"
  using assms
proof (induction es arbitrary: i)
  case (Cons e es)
  then show ?case by (cases es) (simp_all)
qed simp

text \<open>
  C18.  \<^verbatim>\<open>process_encapsulated\<close> reads back what \<^verbatim>\<open>ci_request_t_pack\<close> writes: for one to three
  entities of the types an \<^verbatim>\<open>Encapsulated\<close> header of a request can name, the entities of the parsed
  request have the same types and offsets in the same order, and the request has a body exactly
  when no \<^verbatim>\<open>null-body\<close> was announced.
\<close>

theorem encapsulated_round_trip:
  assumes "es \<noteq> []" "length es \<le> 3" "\<forall>e \<in> set es. good_item e"
    "rq_entities req = replicate 5 None" "length (rq_trash req) = 7"
  shows "\<exists>req' es'. process_encapsulated g (\<lambda>_. True) req
        (encapsulated_line (map Some es @ replicate (5 - length es) None) @ NUL # rest) = Ret (req', EC_100)
    \<and> rq_entities req' = map Some es' @ replicate (5 - length es) None
    \<and> map (\<lambda>e. (ee_type e, ee_start e)) es' = map (\<lambda>e. (ee_type e, ee_start e)) es
    \<and> rq_hasbody req' = (\<forall>e \<in> set es. ee_type e \<noteq> ICAP_NULL_BODY)"
proof -
  let ?r = "replicate (5 - length es) (None :: ci_encaps_entity option)"
  let ?s = "encapsulated_line (map Some es @ ?r) @ NUL # rest"
  obtain n where r: "?r = None # replicate n None"
    using assms(2) by (cases "5 - length es") simp_all
  obtain e fs where es: "es = e # fs" using assms(1) by (cases es) auto
  have e: "good_item e" using assms(3) es by simp
  have s: "?s = ''Encapsulated: '' @ item_list es @ NUL # rest"
    unfolding r using encaps_items_item_list [of 0 es "replicate n None"] assms(2)
    by (simp add: encapsulated_line_def es)
  obtain c t where c: "item_list es @ NUL # rest = c # t" "c = hd (encaps_item e)"
    using item_starts_with_letter(4) [OF e] by (cases fs; cases "encaps_item e") (auto simp: es)
  have ws: "length (takeWhile isspace_c (drop 13 ?s)) = 1"
    unfolding s using item_starts_with_letter(1) [OF e] c by (simp add: isspace_c_def)
  have dr: "drop (13 + 1) ?s = item_list es @ NUL # rest" unfolding s by simp
  show ?thesis
    unfolding process_encapsulated_def ws
    using encaps_loop_items [OF assms(3) dr, of "[]" req g True] assms by (simp add: parsed_as_def)
qed

theorem encapsulated_round_trip_witness:
  "\<exists>req' es'. process_encapsulated (\<lambda>_. NUL) (\<lambda>_. True) new_request
        (encapsulated_line (map Some [res_hdr_entity, res_body_entity] @ replicate (5 - length [res_hdr_entity, res_body_entity]) None) @ NUL # []) = Ret (req', EC_100)
    \<and> rq_entities req' = map Some es' @ replicate (5 - length [res_hdr_entity, res_body_entity]) None
    \<and> map (\<lambda>e. (ee_type e, ee_start e)) es' = [(1, 9), (3, 9)] \<and> rq_hasbody req'"
  using encapsulated_round_trip [of "[res_hdr_entity, res_body_entity]" new_request "\<lambda>_. NUL" "[]"]
    new_request_facts
  by (simp add: good_item_def res_hdr_entity_def res_body_entity_def ci_consts)

text \<open>
  The bound of the loop is one too large: a sixth entity in the \<^verbatim>\<open>Encapsulated\<close> header passes
  the check \<^verbatim>\<open>num > 5\<close> and is stored in \<^verbatim>\<open>entities[5]\<close>, behind the array of five.
\<close>

lemma encaps_loop_overrun:
  assumes "\<forall>e \<in> set es. good_item e" "drop pos s = item_list es @ NUL # rest" "num \<le> 5" "5 < num + length es"
    "length (rq_entities req) = 5" "length (rq_trash req) = 7"
  shows "process_encapsulated_loop g (\<lambda>_. True) s pos num hb req = Undef"
  using assms
proof (induction es arbitrary: pos num req hb)
  case (Cons e es)
  show ?case
  proof (cases "num = 5")
    case False
    obtain e' tr where st: "process_encapsulated_loop g (\<lambda>_. True) s pos num hb req
        = process_encapsulated_loop g (\<lambda>_. True) s (pos + length (item_list (e # es)) - length (item_list es))
            (Suc num) (hb \<and> ee_type e \<noteq> ICAP_NULL_BODY)
            (req\<lparr>rq_trash := tr, rq_entities := (rq_entities req)[num := Some e']\<rparr>)"
      and tr: "length tr = 7"
      and dr: "drop (pos + length (item_list (e # es)) - length (item_list es)) s = item_list es @ NUL # rest"
      by (rule encaps_loop_step [of e es pos s rest num req])
        (use Cons.prems False in \<open>auto\<close>)
    show ?thesis
      unfolding st using Cons.prems False tr by (intro Cons.IH [OF _ dr]) auto
  next
    case True
    have e: "good_item e" using Cons.prems by simp
    let ?tail = "(if es = [] then [] else '', '') @ item_list es @ NUL # rest"
    have ds: "drop pos s = encaps_item e @ ?tail" using Cons.prems(2) by (cases es) simp_all
    have tail: "hd ?tail = CHR '','' \<or> hd ?tail = NUL" "?tail \<noteq> []" by (cases es) simp_all
    have "drop pos s \<noteq> []" using ds item_starts_with_letter(4) [OF e] by simp
    then have "pos < length s" by simp
    moreover from this have "s ! pos = hd (encaps_item e)"
      using ds item_starts_with_letter(4) [OF e] hd_drop_conv_nth [of pos s] by simp
    ultimately show ?thesis
      using item_starts_with_letter(3) [OF e] Cons.prems True
      by (subst process_encapsulated_loop.simps) (simp add: ds get_encaps_type_item [OF e tail])
  qed
qed simp

theorem encapsulated_overrun:
  assumes "6 \<le> length es" "\<forall>e \<in> set es. good_item e"
    "length (rq_entities req) = 5" "length (rq_trash req) = 7"
  shows "process_encapsulated g (\<lambda>_. True) req (''Encapsulated: '' @ item_list es @ NUL # rest) = Undef"
proof -
  let ?s = "''Encapsulated: '' @ item_list es @ NUL # rest"
  obtain e fs where es: "es = e # fs" using assms(1) by (cases es) auto
  have e: "good_item e" using assms(2) es by simp
  obtain c t where c: "item_list es @ NUL # rest = c # t" "c = hd (encaps_item e)"
    using item_starts_with_letter(4) [OF e] by (cases fs; cases "encaps_item e") (auto simp: es)
  have ws: "length (takeWhile isspace_c (drop 13 ?s)) = 1"
    using item_starts_with_letter(1) [OF e] c by (simp add: isspace_c_def)
  have dr: "drop (13 + 1) ?s = item_list es @ NUL # rest" by simp
  show ?thesis
    unfolding process_encapsulated_def ws
    by (rule encaps_loop_overrun [OF assms(2) dr _ _ assms(3,4)]) (use assms(1) in linarith)+
qed

theorem encapsulated_overrun_witness:
  "process_encapsulated (\<lambda>_. NUL) (\<lambda>_. True) new_request
     (''Encapsulated: '' @ item_list (replicate 6 res_body_entity) @ NUL # []) = Undef"
  using new_request_facts
  by (intro encapsulated_overrun) (simp_all add: good_item_def res_body_entity_def ci_consts)

section \<open>Reuse of a request\<close>

lemma release_entities_all:
  assumes "rq_entities req = replicate k None @ map Some es @ None # r" "\<forall>e \<in> set es. good_item e"
  shows "\<exists>tr. release_entities k req
    = Ret (req\<lparr>rq_trash := tr, rq_entities := replicate k None @ replicate (length es) None @ None # r\<rparr>)"
  using assms
proof (induction es arbitrary: k req)
  case Nil
  then have "release_entities k req = Ret req"
    by (subst release_entities.simps) (simp add: nth_append)
  moreover have "req\<lparr>rq_trash := rq_trash req, rq_entities := rq_entities req\<rparr> = req" by simp
  ultimately show ?case using Nil.prems(1) by (intro exI [of _ "rq_trash req"]) simp
next
  case (Cons e es)
  let ?tr = "(rq_trash req)[nat (ee_type e) := Some e]"
  let ?req = "req\<lparr>rq_trash := ?tr, rq_entities := replicate (Suc k) None @ map Some es @ None # r\<rparr>"
  have at: "rq_entities req ! k = Some e" "k < length (rq_entities req)"
    using Cons.prems(1) by (simp_all add: nth_append)
  have upd: "(rq_entities req)[k := None] = replicate (Suc k) None @ map Some es @ None # r"
    using Cons.prems(1) list_update_length [of "replicate k None" "Some e" "map Some es @ None # r" None]
    by (simp add: replicate_app_Cons_same)
  have "0 \<le> ee_type e" "ee_type e \<le> ICAP_OPT_BODY"
    using Cons.prems(2) by (simp_all add: good_item_def ci_consts)
  then have "release_entities k req = release_entities (Suc k) ?req"
    using at upd by (subst release_entities.simps) (simp add: ci_request_release_entity_def)
  moreover have "\<exists>tr. release_entities (Suc k) ?req
      = Ret (?req\<lparr>rq_trash := tr, rq_entities := replicate (Suc k) None @ replicate (length es) None @ None # r\<rparr>)"
    using Cons.prems(2) by (intro Cons.IH) simp_all
  ultimately show ?case by (auto simp: replicate_app_Cons_same)
qed

text \<open>
  C20.  \<^verbatim>\<open>ci_request_reset\<close>, which prepares a request for the next one on the same connection, leaves
  nothing of the old request but its memory: apart from the input and output buffers, the (emptied)
  preview and header buffers, the entities kept for reuse, the access type and the server name, it
  is the request that \<^verbatim>\<open>ci_request_alloc\<close> makes.
\<close>

theorem request_reset_fresh:
  assumes "rq_entities req = map Some es @ replicate (5 - length es) None" "length es < 5"
    "\<forall>e \<in> set es. good_item e"
  shows "\<exists>tr. ci_request_reset req = Ret (new_request\<lparr>rq_rbuf := rq_rbuf req,
      rq_preview_data := (rq_preview_data req)\<lparr>cb_used := 0\<rparr>,
      rq_req_server := rq_req_server req, rq_access_type := rq_access_type req,
      rq_request_header := ci_headers_reset (rq_request_header req),
      rq_response_header := ci_headers_reset (rq_response_header req),
      rq_xheaders := ci_headers_reset (rq_xheaders req), rq_trash := tr, rq_wbuf := rq_wbuf req\<rparr>)"
proof -
  let ?c = "clear_request req"
  obtain n where r: "replicate (5 - length es) (None :: ci_encaps_entity option) = None # replicate n None"
      "n = 4 - length es"
    using assms(2) by (cases "5 - length es") auto
  have "rq_entities ?c = replicate 0 None @ map Some es @ None # replicate n None"
    using assms(1) r by (simp add: clear_request_def)
  from release_entities_all [OF this assms(3)] obtain tr where
      rel: "release_entities 0 ?c = Ret (?c\<lparr>rq_trash := tr,
        rq_entities := replicate (length es) None @ None # replicate n None\<rparr>)"
    by auto
  have five: "replicate (length es) None @ None # replicate n None = replicate 5 (None :: ci_encaps_entity option)"
  proof -
    have "replicate (length es) None @ replicate (Suc n) None = replicate 5 (None :: ci_encaps_entity option)"
      unfolding replicate_add [symmetric] using r(2) assms(2) by simp
    then show ?thesis by simp
  qed
  let ?tr = "rq_trash (reset_trash_header (nat ICAP_RES_HDR) (reset_trash_header (nat ICAP_REQ_HDR)
      (?c\<lparr>rq_trash := tr, rq_entities := replicate 5 None\<rparr>)))"
  show ?thesis
    unfolding ci_request_reset_def rel five c_bind.simps
    by (intro exI [of _ ?tr]) (simp add: reset_trash_header_def clear_request_def new_request_def
        ci_request_alloc_def ci_headers_create_def ci_buf_reset_def)
qed

theorem request_reset_fresh_witness:
  "\<exists>tr. ci_request_reset (new_request\<lparr>rq_type := 4, rq_service := ''echo'',
        rq_entities := [Some res_hdr_entity, Some res_body_entity, None, None, None]\<rparr>)
     = Ret (new_request\<lparr>rq_preview_data := (rq_preview_data new_request)\<lparr>cb_used := 0\<rparr>,
      rq_request_header := ci_headers_reset (rq_request_header new_request),
      rq_response_header := ci_headers_reset (rq_response_header new_request),
      rq_xheaders := ci_headers_reset (rq_xheaders new_request), rq_trash := tr\<rparr>)"
proof -
  have "rq_entities (new_request\<lparr>rq_type := 4, rq_service := ''echo'',
        rq_entities := [Some res_hdr_entity, Some res_body_entity, None, None, None]\<rparr>)
      = map Some [res_hdr_entity, res_body_entity] @ replicate (5 - length [res_hdr_entity, res_body_entity]) None"
    by (simp add: numeral_3_eq_3)
  from request_reset_fresh [OF this] show ?thesis
    by (simp add: good_item_def res_hdr_entity_def res_body_entity_def ci_consts)
qed

end
