(* ===== verification/Request_Parse.thy ===== *)
theory Request_Parse
  imports Request
begin

text \<open>
  The front half of \<^verbatim>\<open>request.c\<close>: waiting for input, reading the ICAP header from the connection in
  small blocks, splitting it into lines, parsing the request line and the header fields, checking
  the combination of encapsulated entities, and reading the encapsulated HTTP headers.

  The input of the connection is the list of events of the theory \<^verbatim>\<open>Chunk_Parser\<close>; the bytes a read
  asks for are taken from the event at the head, the rest stays there.

  Proved: the ICAP header is found at the first empty line, however the network cuts the input,
  and the bytes after it are kept for the body parser; a well-formed request line is taken apart
  into its parts; \<^verbatim>\<open>check_request\<close> accepts exactly the entity lists the protocol allows; an
  encapsulated header is read completely or not at all, and an \<^verbatim>\<open>Encapsulated\<close> header with
  decreasing offsets makes the copy run with a negative size.
\<close>

section \<open>Waiting\<close>

definition ci_wait_for_read :: int where "ci_wait_for_read = 1"
definition ci_wait_for_write :: int where "ci_wait_for_write = 2"
definition ci_wait_should_retry :: int where "ci_wait_should_retry = 4"

text \<open>
  \<^verbatim>\<open>wait_for_data\<close>: the argument lists what the successive calls of \<^verbatim>\<open>ci_connection_wait\<close> return,
  each with the value of \<^verbatim>\<open>CHILD_HALT\<close> after it; \<open>None\<close> when it would go on waiting.
\<close>

fun wait_loop :: "(int \<times> bool) list \<Rightarrow> int option" where
  "wait_loop [] = None"
| "wait_loop ((st, halt) # ws) =
     (if st < 0 then Some (-1)
      else if st = 0 \<and> halt then Some (-1)
      else if (st div 4) mod 2 = 1 then wait_loop ws
      else if st = 0 then Some (-1)
      else Some st)"

definition wait_for_data :: "bool \<Rightarrow> (int \<times> bool) list \<Rightarrow> int option" where
  "wait_for_data child_halt ws = (if child_halt then Some (-1) else wait_loop ws)"

lemma wait_for_data_result:
  "wait_for_data halt ws = Some r \<Longrightarrow> r = -1 \<or> (0 < r \<and> (r div 4) mod 2 = 0)"
proof -
  have "wait_loop ws = Some r \<Longrightarrow> r = -1 \<or> (0 < r \<and> (r div 4) mod 2 = 0)"
    by (induction ws rule: wait_loop.induct) (auto split: if_splits)
  then show "wait_for_data halt ws = Some r \<Longrightarrow> r = -1 \<or> (0 < r \<and> (r div 4) mod 2 = 0)"
    by (auto simp: wait_for_data_def split: if_splits)
qed

text \<open>\<open>wait_result\<close> is what \<^verbatim>\<open>wait_for_data\<close> returns when it is called.\<close>

definition keepalive_request :: "bool \<Rightarrow> int \<Rightarrow> ci_request \<Rightarrow> (ci_request \<times> int) c_result" where
  "keepalive_request PIPELINING wait_result req =
     c_bind (ci_request_reset req) (\<lambda>r.
       let r1 = (if PIPELINING then r\<lparr>rq_pstr := rq_pstr req, rq_pstr_len := rq_pstr_len req\<rparr> else r) in
       Ret (r1, if rq_pstr r1 \<noteq> P_null \<and> 0 < rq_pstr_len r1 then 1 else wait_result))"

section \<open>Reading the ICAP header\<close>

definition ICAP_HEADER_READSIZE :: nat where "ICAP_HEADER_READSIZE = 512"

definition icap_header_check_realloc ::
  "(nat \<Rightarrow> char) \<Rightarrow> (nat \<Rightarrow> bool) \<Rightarrow> bytes \<Rightarrow> nat \<Rightarrow> nat \<Rightarrow> bytes \<times> int" where
  "icap_header_check_realloc g ra buf used mustadded =
     (if length buf < used + mustadded then
        let len = length buf + ICAP_HEADER_READSIZE in
        if \<not> ra len then (buf, EC_500) else (grow_mem g len buf, EC_100)
      else (buf, EC_100))"

text \<open>A read of at most \<open>n\<close> bytes: the bytes, or \<open>None\<close> when waiting or reading fails.\<close>

fun net_take :: "nat \<Rightarrow> net_in list \<Rightarrow> bytes option \<times> net_in list" where
  "net_take n [] = (None, [])"
| "net_take n (Net_fail # es) = (None, es)"
| "net_take n (Net_error # es) = (None, es)"
| "net_take n (Net_data d # es) =
     (Some (take n d), if length d \<le> n then es else Net_data (drop n d) # es)"

fun net_size :: "net_in list \<Rightarrow> nat" where
  "net_size [] = 0"
| "net_size (Net_data d # es) = length d + 1 + net_size es"
| "net_size (_ # es) = 1 + net_size es"

lemma net_take_shrinks: "\<lbrakk>(Some d, es') = net_take n es; 0 < n\<rbrakk> \<Longrightarrow> net_size es' < net_size es"
  by (cases "(n, es)" rule: net_take.cases) (auto split: if_splits)

text \<open>
  The state of the loop of \<^verbatim>\<open>ci_read_icap_header\<close>: the buffer, how much is in it, the place of the
  last block, where in relation to it the search starts, and the bytes counted.  The first
  component of the result is false when the function returned early (\<^verbatim>\<open>EC_408\<close>), before the header
  object was updated.
\<close>

definition end_of_header :: "bytes \<Rightarrow> nat \<Rightarrow> nat \<Rightarrow> nat option" where
  "end_of_header buf lo readed = find (\<lambda>p. seg p 4 buf = CRLF @ CRLF) [lo..<readed - 3]"

record hdr_read =
  hr_buf :: bytes
  hr_readed :: nat
  hr_buf_end :: nat
  hr_search :: nat
  hr_bytes_in :: nat

text \<open>
  After a block has arrived: search from \<open>hr_search\<close> on (the code keeps it relative to
  \<^verbatim>\<open>buf_end\<close>, at most three bytes before it), else make room for the next block.
\<close>

definition header_search_step ::
  "(nat \<Rightarrow> char) \<Rightarrow> (nat \<Rightarrow> bool) \<Rightarrow> hdr_read \<Rightarrow> (hdr_read \<times> int) + hdr_read" where
  "header_search_step g ra st =
     (case end_of_header (hr_buf st) (hr_search st) (hr_readed st) of
        Some p \<Rightarrow> Inl (st\<lparr>hr_buf_end := p + 2\<rparr>, EC_100)
      | None \<Rightarrow>
          (case icap_header_check_realloc g ra (hr_buf st) (hr_readed st) ICAP_HEADER_READSIZE of
             (buf, rc) \<Rightarrow>
               if rc \<noteq> EC_100 then Inl (st, rc)
               else Inr (st\<lparr>hr_buf := buf, hr_buf_end := hr_readed st,
                            hr_search := hr_readed st - min 3 (hr_readed st)\<rparr>)))"

function header_read_loop ::
  "(nat \<Rightarrow> char) \<Rightarrow> (nat \<Rightarrow> bool) \<Rightarrow> net_in list \<Rightarrow> hdr_read \<Rightarrow> (bool \<times> hdr_read \<times> int \<times> net_in list) c_result" where
  "header_read_loop g ra es st =
     (case net_take ICAP_HEADER_READSIZE es of
        (None, es1) \<Rightarrow> Ret (False, st, EC_408, es1)
      | (Some d, es1) \<Rightarrow>
          if d = [] then header_read_loop g ra es1 st
          else if length (hr_buf st) < hr_buf_end st + length d then Undef
          else (case header_search_step g ra
                  (st\<lparr>hr_buf := mem_write (hr_buf_end st) d (hr_buf st),
                      hr_readed := hr_readed st + length d, hr_bytes_in := hr_bytes_in st + length d\<rparr>) of
                  Inl (st1, rc) \<Rightarrow> Ret (True, st1, rc, es1)
                | Inr st1 \<Rightarrow> header_read_loop g ra es1 st1))"
  by pat_completeness auto
termination
  by (relation "measure (\<lambda>(g, ra, es, st). net_size es)")
    (auto simp: ICAP_HEADER_READSIZE_def dest!: net_take_shrinks)

declare header_read_loop.simps [simp del]

text \<open>
  \<^verbatim>\<open>ci_read_icap_header\<close>.  With \<^verbatim>\<open>PIPELINING\<close> the bytes left from the request before are searched
  first, before anything is read.
\<close>

definition finish_icap_header ::
  "ci_request \<Rightarrow> ci_headers_list \<Rightarrow> bool \<times> hdr_read \<times> int \<times> net_in list
   \<Rightarrow> ci_request \<times> ci_headers_list \<times> int \<times> net_in list" where
  "finish_icap_header req h res =
     (case res of (done, st, rc, es) \<Rightarrow>
        let h1 = h\<lparr>hl_buf := hr_buf st, hl_bufsize := length (hr_buf st)\<rparr>;
            req1 = req\<lparr>rq_bytes_in := rq_bytes_in req + of_nat (hr_bytes_in st)\<rparr>
        in if \<not> done then (req1, h1, rc, es)
           else (req1\<lparr>rq_pstr := P_block (hr_buf st) (int (hr_buf_end st) + 2),
                      rq_pstr_len := int (hr_readed st) - int (hr_buf_end st) - 2,
                      rq_request_bytes_in := of_nat (hr_buf_end st + 2)\<rparr>,
                 h1\<lparr>hl_bufused := hr_buf_end st\<rparr>, rc, es))"

definition ci_read_icap_header ::
  "(nat \<Rightarrow> char) \<Rightarrow> (nat \<Rightarrow> bool) \<Rightarrow> bool \<Rightarrow> net_in list \<Rightarrow> ci_request \<Rightarrow> ci_headers_list
   \<Rightarrow> (ci_request \<times> ci_headers_list \<times> int \<times> net_in list) c_result" where
  "ci_read_icap_header g ra PIPELINING es req h =
     (if PIPELINING \<and> rq_pstr req \<noteq> P_null \<and> 0 < rq_pstr_len req then
        case icap_header_check_realloc g ra (hl_buf h) (nat (rq_pstr_len req)) ICAP_HEADER_READSIZE of
          (buf, rc) \<Rightarrow>
            if rc \<noteq> EC_100 then Ret (req, h, rc, es)
            else if length buf < nat (rq_pstr_len req) then Undef
            else let st = \<lparr>hr_buf = mem_write 0 (rq_text req) buf, hr_readed = nat (rq_pstr_len req),
                           hr_buf_end = 0, hr_search = 0, hr_bytes_in = 0\<rparr>;
                     req1 = req\<lparr>rq_pstr := P_null, rq_pstr_len := 0\<rparr>
              in (case header_search_step g ra st of
                    Inl (st1, rc) \<Rightarrow> Ret (finish_icap_header req1 h (True, st1, rc, es))
                  | Inr st1 \<Rightarrow> c_bind (header_read_loop g ra es st1) (\<lambda>res. Ret (finish_icap_header req1 h res)))
      else
        c_bind (header_read_loop g ra es
            \<lparr>hr_buf = hl_buf h, hr_readed = 0, hr_buf_end = 0, hr_search = 0, hr_bytes_in = 0\<rparr>)
          (\<lambda>res. Ret (finish_icap_header req h res)))"

section \<open>The request line\<close>

definition get_method :: "bytes \<Rightarrow> int \<times> bytes" where
  "get_method buf =
     (if starts_with ''OPTIONS'' buf then (ICAP_OPTIONS, drop 7 buf)
      else if starts_with ''REQMOD'' buf then (ICAP_REQMOD, drop 6 buf)
      else if starts_with ''RESPMOD'' buf then (ICAP_RESPMOD, drop 7 buf)
      else (-1, buf))"

text \<open>The services the server knows, and the aliases (name, arguments, service).\<close>

record service_table =
  st_services :: "ci_service_module list"
  st_aliases :: "(bytes \<times> bytes \<times> ci_service_module) list"
  st_default :: "bytes option"

definition find_service :: "service_table \<Rightarrow> bytes \<Rightarrow> ci_service_module option" where
  "find_service T name = find (\<lambda>m. mod_name m = name) (st_services T)"

definition find_service_alias :: "service_table \<Rightarrow> bytes \<Rightarrow> (bytes \<times> bytes \<times> ci_service_module) option" where
  "find_service_alias T name = find (\<lambda>a. fst a = name) (st_aliases T)"

text \<open>The parts of the request line after the method, on the rest of the C string.\<close>

definition skip_scheme :: "bytes \<Rightarrow> bytes option" where
  "skip_scheme s =
     (let start = dropWhile (\<lambda>c. c = SP) s in
      if starts_with_ci ''icap://'' start then Some (drop 7 start)
      else if starts_with_ci ''icaps://'' start then Some (drop 8 start)
      else None)"

definition append_args :: "bytes \<Rightarrow> bytes \<Rightarrow> bytes c_result" where
  "append_args args new =
     (let args1 = (if args \<noteq> [] \<and> new \<noteq> [] then args @ ''&'' else args) in
      if MAX_SERVICE_ARGS < length args1 then Undef
      else Ret (args1 @ take (MAX_SERVICE_ARGS - length args1) new))"

text \<open>Service name and arguments; the rest of the line is \<open>None\<close> on a parse error.\<close>

definition parse_path :: "ci_request \<Rightarrow> bytes \<Rightarrow> (ci_request \<times> bytes option) c_result" where
  "parse_path req s =
     (if s \<noteq> [] \<and> hd s = CHR ''/'' then
        let start = tl s;
            name = takeWhile (\<lambda>c. c \<noteq> SP \<and> c \<noteq> CHR ''?'') start;
            rest = drop (length name) start;
            req1 = (if name \<noteq> [] then req\<lparr>rq_service := take MAX_SERVICE_NAME name\<rparr> else req)
        in if rest \<noteq> [] \<and> hd rest = CHR ''?'' then
             let args = takeWhile (\<lambda>c. c \<noteq> SP) (tl rest) in
             if SP \<in> set (tl rest) then
               c_bind (append_args (rq_args req1) args) (\<lambda>a.
                 Ret (req1\<lparr>rq_args := a\<rparr>, Some (drop (length args) (tl rest))))
             else Ret (req1, None)
           else Ret (req1, Some rest)
      else Ret (req, Some s))"

definition parse_version :: "bytes \<Rightarrow> int \<times> int" where
  "parse_version s =
     (if starts_with ''ICAP/'' s then
        let s1 = drop 5 s; (v, k) = strtol 10 s1; vmajor = int32 v; rest = drop k s1 in
        if 0 < vmajor \<and> rest \<noteq> [] \<and> hd rest = CHR ''.'' then
          let (w, j) = strtol 10 (tl rest) in (vmajor, if j = 0 then -1 else int32 w)
        else (vmajor, -1)
      else (-1, -1))"

definition select_service :: "service_table \<Rightarrow> ci_request \<Rightarrow> ci_request" where
  "select_service T req =
     (let req1 = (case st_default T of
                    Some d \<Rightarrow> if rq_service req = [] then req\<lparr>rq_service := take MAX_SERVICE_NAME d\<rparr> else req
                  | None \<Rightarrow> req)
      in if rq_service req1 = [] then req1\<lparr>rq_service_mod := None\<rparr>
         else case find_service T (rq_service req1) of
                Some m \<Rightarrow> req1\<lparr>rq_service_mod := Some m\<rparr>
              | None \<Rightarrow>
                  (case find_service_alias T (rq_service req1) of
                     None \<Rightarrow> req1\<lparr>rq_service_mod := None\<rparr>
                   | Some (_, args, m) \<Rightarrow>
                       (if args \<noteq> [] then req1\<lparr>rq_args := args\<rparr> else req1)\<lparr>rq_service_mod := Some m\<rparr>))"

definition parse_request :: "service_table \<Rightarrow> ci_request \<Rightarrow> bytes \<Rightarrow> (ci_request \<times> int) c_result" where
  "parse_request T req buf =
     (let (typ, s) = get_method buf; req0 = req\<lparr>rq_type := typ\<rparr> in
      if typ < 0 then Ret (req0, EC_400)
      else case skip_scheme s of
             None \<Rightarrow> Ret (req0, EC_400)
           | Some start \<Rightarrow>
               let host = takeWhile (\<lambda>c. c \<noteq> CHR ''/'' \<and> c \<noteq> SP) start;
                   req1 = req0\<lparr>rq_req_server := take CI_MAXHOSTNAMELEN host\<rparr>
               in c_bind (parse_path req1 (drop (length host) start)) (\<lambda>(req2, rest).
                    case rest of
                      None \<Rightarrow> Ret (req2, EC_400)
                    | Some r \<Rightarrow>
                        let (vmajor, vminor) = parse_version (dropWhile (\<lambda>c. c = SP) r) in
                        if vminor = -1 \<or> vmajor < 1 then Ret (req2, EC_400)
                        else let req3 = select_service T req2 in
                          (case rq_service_mod req3 of
                             None \<Rightarrow> Ret (req3, EC_404)
                           | Some m \<Rightarrow>
                               if \<not> ci_method_support (mod_type m) (rq_type req3) \<and> rq_type req3 \<noteq> ICAP_OPTIONS
                               then Ret (req3, EC_405) else Ret (req3, EC_100))))"

section \<open>Checking the request\<close>

text \<open>The type of an entity, -1 for a null pointer.\<close>

definition type_at :: "ci_request \<Rightarrow> nat \<Rightarrow> int" where
  "type_at req i = (case rq_entities req ! i of None \<Rightarrow> -1 | Some e \<Rightarrow> ee_type e)"

abbreviation has_at :: "ci_request \<Rightarrow> nat \<Rightarrow> bool" where
  "has_at req i \<equiv> rq_entities req ! i \<noteq> None"

definition check_request :: "ci_request \<Rightarrow> int c_result" where
  "check_request req =
     (if \<not> has_at req 0 \<and> rq_type req \<noteq> ICAP_OPTIONS then Ret EC_400
      else if rq_type req = ICAP_REQMOD then
        if has_at req 2 then Ret EC_400
        else if has_at req 1 then
          if type_at req 0 \<noteq> ICAP_REQ_HDR then Ret EC_400
          else if type_at req 1 \<noteq> ICAP_REQ_BODY \<and> type_at req 1 \<noteq> ICAP_NULL_BODY then Ret EC_400
          else Ret EC_100
        else if type_at req 0 \<noteq> ICAP_REQ_BODY then Ret EC_400
        else Ret EC_100
      else if rq_type req = ICAP_RESPMOD then
        if has_at req 3 then Ret EC_400
        else if has_at req 2 then
          if \<not> has_at req 0 \<or> \<not> has_at req 1 then Abort
          else if type_at req 0 \<noteq> ICAP_REQ_HDR then Ret EC_400
          else if type_at req 1 \<noteq> ICAP_RES_HDR then Ret EC_400
          else if type_at req 2 \<noteq> ICAP_RES_BODY \<and> type_at req 2 \<noteq> ICAP_NULL_BODY then Ret EC_400
          else Ret EC_100
        else if has_at req 1 then
          if type_at req 0 \<noteq> ICAP_RES_HDR \<and> type_at req 0 \<noteq> ICAP_REQ_HDR then Ret EC_400
          else if type_at req 1 \<noteq> ICAP_RES_BODY \<and> type_at req 1 \<noteq> ICAP_NULL_BODY then Ret EC_400
          else Ret EC_100
        else if type_at req 0 \<noteq> ICAP_RES_BODY then Ret EC_400
        else Ret EC_100
      else Ret EC_100)"

section \<open>The header fields\<close>

text \<open>
  One header line, as the memory that starts there.  The size of the preview buffer is the sum
  \<^verbatim>\<open>result + 64\<close> of \<^verbatim>\<open>int\<close>s, which has no value when it overflows.
\<close>

definition parse_preview ::
  "(nat \<Rightarrow> char) \<Rightarrow> (int \<Rightarrow> bool) \<Rightarrow> ci_request \<Rightarrow> bytes \<Rightarrow> ci_request c_result" where
  "parse_preview g rai req val =
     (if strtol_erange 10 val then Ret req
      else let result = int32 (fst (strtol 10 val)); req1 = req\<lparr>rq_preview := result\<rparr> in
        if result < 0 then Ret req1
        else if 2 ^ 31 \<le> result + 64 then Undef
        else Ret (req1\<lparr>rq_preview_data := fst (ci_buf_reset_size rai g (rq_preview_data req1) (result + 64))\<rparr>))"

definition parse_field ::
  "(nat \<Rightarrow> char) \<Rightarrow> (nat \<Rightarrow> bool) \<Rightarrow> (int \<Rightarrow> bool) \<Rightarrow> ci_request \<Rightarrow> bytes \<Rightarrow> (ci_request \<times> int) c_result" where
  "parse_field g ra rai req s =
     (let line = cstr s in
      if starts_with_ci ''Preview:'' line then
        c_bind (parse_preview g rai req (dropWhile isspace_c (drop 8 line))) (\<lambda>r. Ret (r, EC_100))
      else if starts_with_ci ''Encapsulated:'' line then process_encapsulated g ra req s
      else if starts_with_ci ''Connection:'' line then
        Ret (if starts_with_ci ''close'' (dropWhile isspace_c (drop 11 line))
             then req\<lparr>rq_keepalive := False\<rparr> else req, EC_100)
      else if starts_with_ci ''Allow:'' line then
        Ret (req\<lparr>rq_allow204 := rq_allow204 req \<or> find_sub ''204'' (drop 6 line) \<noteq> None,
                 rq_allow206 := rq_allow206 req \<or> find_sub ''206'' (drop 6 line) \<noteq> None\<rparr>, EC_100)
      else Ret (req, EC_100))"

fun parse_fields ::
  "(nat \<Rightarrow> char) \<Rightarrow> (nat \<Rightarrow> bool) \<Rightarrow> (int \<Rightarrow> bool) \<Rightarrow> bytes \<Rightarrow> nat list \<Rightarrow> ci_request \<Rightarrow> (ci_request \<times> int) c_result" where
  "parse_fields g ra rai buf [] req = Ret (req, EC_100)"
| "parse_fields g ra rai buf (p # ps) req =
     c_bind (parse_field g ra rai req (drop p buf)) (\<lambda>(req1, st).
       if st \<noteq> EC_100 then Ret (req1, st) else parse_fields g ra rai buf ps req1)"

definition parse_header ::
  "(nat \<Rightarrow> char) \<Rightarrow> (nat \<Rightarrow> bool) \<Rightarrow> (int \<Rightarrow> bool) \<Rightarrow> bool \<Rightarrow> service_table \<Rightarrow> net_in list \<Rightarrow> ci_request
   \<Rightarrow> (ci_request \<times> int \<times> net_in list) c_result" where
  "parse_header g ra rai PIPELINING T es req =
     c_bind (ci_read_icap_header g ra PIPELINING es req (rq_request_header req)) (\<lambda>(req1, h1, st, es1).
       if st \<noteq> EC_100 then Ret (req1\<lparr>rq_request_header := h1\<rparr>, st, es1)
       else c_bind (ci_headers_unpack ra h1) (\<lambda>(h2, st2).
         let req2 = req1\<lparr>rq_request_header := h2\<rparr> in
         if st2 \<noteq> EC_100 then Ret (req2, st2, es1)
         else c_bind (parse_request T req2 (cstr (drop (hl_headers h2 ! 0) (hl_buf h2)))) (\<lambda>(req3, st3).
           if st3 \<noteq> EC_100 then Ret (req3, st3, es1)
           else c_bind (parse_fields g ra rai (hl_buf h2) (tl (hl_headers h2)) req3) (\<lambda>(req4, st4).
             if st4 \<noteq> EC_100 then Ret (req4, st4, es1)
             else c_bind (check_request req4) (\<lambda>st5. Ret (req4, st5, es1))))))"

section \<open>The encapsulated headers\<close>

text \<open>The loop that reads the \<open>n\<close> bytes still missing at the offset \<open>p\<close>.\<close>

function encaps_read_loop ::
  "net_in list \<Rightarrow> nat \<Rightarrow> nat \<Rightarrow> bytes \<Rightarrow> ci_request \<Rightarrow> (bytes \<times> ci_request \<times> bool \<times> net_in list)" where
  "encaps_read_loop es n p buf req =
     (if n = 0 then (buf, req, True, es)
      else case net_take n es of
             (None, es1) \<Rightarrow> (buf, req, False, es1)
           | (Some d, es1) \<Rightarrow>
               encaps_read_loop es1 (n - length d) (p + length d) (mem_write p d buf)
                 (req\<lparr>rq_bytes_in := rq_bytes_in req + of_nat (length d)\<rparr>))"
  by pat_completeness auto
termination
  by (relation "measure (\<lambda>(es, n, p, buf, req). net_size es)") (auto dest!: net_take_shrinks)

declare encaps_read_loop.simps [simp del]

text \<open>
  \<^verbatim>\<open>read_encaps_header\<close>.  A negative size is a huge unsigned one for \<^verbatim>\<open>memcpy\<close>; a size below four
  makes the comparison with the last four bytes read before the buffer.
\<close>

definition read_encaps_header ::
  "(nat \<Rightarrow> char) \<Rightarrow> (nat \<Rightarrow> bool) \<Rightarrow> bool \<Rightarrow> net_in list \<Rightarrow> ci_request \<Rightarrow> ci_headers_list \<Rightarrow> int
   \<Rightarrow> (ci_request \<times> ci_headers_list \<times> int \<times> net_in list) c_result" where
  "read_encaps_header g ra BUGGY es req h sz =
     (case (if sz + (if BUGGY then 2 else 0) < 0 then (h, True)
            else ci_headers_setsize g ra h (nat (sz + (if BUGGY then 2 else 0)))) of
        (h1, False) \<Rightarrow> Ret (req, h1, EC_500, es)
      | (h1, True) \<Rightarrow>
          if sz < 0 then Undef
          else
            let n = nat sz;
                readed = (if 0 < rq_pstr_len req then min n (nat (rq_pstr_len req)) else 0);
                buf0 = mem_write 0 (take readed (rq_text req)) (hl_buf h1);
                req0 = (if \<not> 0 < rq_pstr_len req then req
                        else if sz \<le> rq_pstr_len req then advance (int readed) req
                        else req\<lparr>rq_pstr := P_null, rq_pstr_len := 0\<rparr>)
            in (case encaps_read_loop es (n - readed) readed buf0 req0 of
                  (buf, req1, False, es1) \<Rightarrow> Ret (req1, h1\<lparr>hl_buf := buf\<rparr>, CI_ERROR, es1)
                | (buf, req1, True, es1) \<Rightarrow>
                    if n < 4 then Undef
                    else let req2 = req1\<lparr>rq_http_bytes_in := rq_http_bytes_in req1 + of_nat n,
                                    rq_request_bytes_in := rq_request_bytes_in req1 + of_nat n\<rparr>;
                        h2 = (if seg (n - 4) 4 buf = CRLF @ CRLF then h1\<lparr>hl_buf := buf, hl_bufused := n - 2\<rparr>
                              else if BUGGY \<and> seg (n - 2) 2 buf \<noteq> CRLF
                              then h1\<lparr>hl_buf := buf[n := CR, n + 1 := LF], hl_bufused := n + 2\<rparr>
                              else h1\<lparr>hl_buf := buf, hl_bufused := n\<rparr>)
                    in Ret (req2, h2, EC_100, es1)))"

text \<open>The loop of \<^verbatim>\<open>parse_encaps_headers\<close> at the entity \<open>i\<close>.\<close>

function parse_encaps_from ::
  "(nat \<Rightarrow> char) \<Rightarrow> (nat \<Rightarrow> bool) \<Rightarrow> bool \<Rightarrow> nat \<Rightarrow> net_in list \<Rightarrow> ci_request
   \<Rightarrow> (ci_request \<times> int \<times> net_in list) c_result" where
  "parse_encaps_from g ra BUGGY i es req =
     (if 5 \<le> i then Undef
      else case rq_entities req ! i of
             None \<Rightarrow> Ret (req, EC_100, es)
           | Some e \<Rightarrow>
               if ICAP_RES_HDR < ee_type e then Ret (req, EC_100, es)
               else if i = 4 then Undef
               else (case (rq_entities req ! (i + 1), ee_entity e) of
                       (None, _) \<Rightarrow> Ret (req, EC_400, es)
                     | (Some e1, None) \<Rightarrow> Undef
                     | (Some e1, Some h) \<Rightarrow>
                         c_bind (read_encaps_header g ra BUGGY es req h (ee_start e1 - ee_start e)) (\<lambda>(req1, h1, st, es1).
                           let put = (\<lambda>r h. r\<lparr>rq_entities := (rq_entities r)[i := Some (e\<lparr>ee_entity := Some h\<rparr>)]\<rparr>) in
                           if st \<noteq> EC_100 then Ret (put req1 h1, st, es1)
                           else c_bind (ci_headers_unpack ra h1) (\<lambda>(h2, st2).
                             if st2 \<noteq> EC_100 then Ret (put req1 h2, st2, es1)
                             else parse_encaps_from g ra BUGGY (i + 1) es1 (put req1 h2)))))"
  by pat_completeness auto
termination
  by (relation "measure (\<lambda>(g, ra, B, i, es, req). 5 - i)") auto

declare parse_encaps_from.simps [simp del]

definition parse_encaps_headers ::
  "(nat \<Rightarrow> char) \<Rightarrow> (nat \<Rightarrow> bool) \<Rightarrow> bool \<Rightarrow> net_in list \<Rightarrow> ci_request \<Rightarrow> (ci_request \<times> int \<times> net_in list) c_result" where
  "parse_encaps_headers g ra BUGGY es req = parse_encaps_from g ra BUGGY 0 es req"

section \<open>The header is found wherever the input is cut\<close>

text \<open>\<open>D\<close> is all the input, whose first empty line is after the \<open>n\<close> bytes of the header lines.\<close>

definition first_eoh :: "bytes \<Rightarrow> nat \<Rightarrow> bool" where
  "first_eoh D n \<longleftrightarrow> seg n 4 D = CRLF @ CRLF \<and> (\<forall>p < n. seg p 4 D \<noteq> CRLF @ CRLF)"

text \<open>The bytes a list of events delivers before the first failure.\<close>

fun net_bytes :: "net_in list \<Rightarrow> bytes" where
  "net_bytes (Net_data d # es) = d @ net_bytes es"
| "net_bytes _ = []"

lemma net_take_bytes:
  "net_bytes es \<noteq> [] \<Longrightarrow> \<exists>d es'. net_take n es = (Some d, es') \<and> net_bytes es = d @ net_bytes es'"
  by (cases "(n, es)" rule: net_take.cases) auto

text \<open>
  The state before a read while the header is not complete, and the state in which its end was
  found: the buffer holds the first \<open>hr_readed\<close> bytes of the input, the events the others.
\<close>

definition header_read :: "bytes \<Rightarrow> net_in list \<Rightarrow> hdr_read \<Rightarrow> bool" where
  "header_read D es st \<longleftrightarrow>
     hr_readed st \<le> length (hr_buf st) \<and> take (hr_readed st) (hr_buf st) @ net_bytes es = D"

definition header_reading :: "bytes \<Rightarrow> nat \<Rightarrow> net_in list \<Rightarrow> hdr_read \<Rightarrow> bool" where
  "header_reading D n es st \<longleftrightarrow>
     header_read D es st \<and> hr_readed st < n + 4 \<and> hr_buf_end st = hr_readed st
     \<and> hr_search st = hr_readed st - min 3 (hr_readed st)
     \<and> hr_readed st + ICAP_HEADER_READSIZE \<le> length (hr_buf st)"

lemma seg_take_eq: "\<lbrakk>take m a = take m b; p + k \<le> m\<rbrakk> \<Longrightarrow> seg p k a = seg p k b"
  by (metis (no_types) add.commute drop_take le_add_diff_inverse2 min.absorb1 seg_def take_take
      le_diff_conv add_le_imp_le_diff)

lemma find_append_skip: "find P xs = None \<Longrightarrow> find P (xs @ ys) = find P ys"
  by (induction xs) (auto split: if_splits)

lemma end_of_header_found:
  assumes D: "first_eoh D n" and t: "take m buf = take m D" and lo: "lo \<le> n" and m: "n + 4 \<le> m"
  shows "end_of_header buf lo m = Some n"
proof -
  have same: "p + 4 \<le> m \<Longrightarrow> seg p 4 buf = seg p 4 D" for p
    using t by (rule seg_take_eq)
  have "[lo..<m - 3] = [lo..<n] @ [n..<m - 3]"
    using lo m upt_add_eq_append [of lo n "m - 3 - n"] by simp
  moreover have "[n..<m - 3] = n # [Suc n..<m - 3]" using m by (simp add: upt_conv_Cons)
  moreover have "find (\<lambda>p. seg p 4 buf = CRLF @ CRLF) [lo..<n] = None"
    unfolding find_None_iff using same D m by (auto simp: first_eoh_def)
  moreover have "seg n 4 buf = CRLF @ CRLF" using same [of n] D m by (simp add: first_eoh_def)
  ultimately show ?thesis
    unfolding end_of_header_def by (simp add: find_append_skip)
qed

lemma end_of_header_not_yet:
  assumes D: "first_eoh D n" and t: "take m buf = take m D" and m: "m < n + 4"
  shows "end_of_header buf lo m = None"
proof -
  have "seg p 4 buf \<noteq> CRLF @ CRLF" if "p < m - 3" for p
  proof -
    have "seg p 4 buf = seg p 4 D" using t that by (intro seg_take_eq) auto
    moreover have "p < n" using that m by linarith
    ultimately show ?thesis using D by (simp add: first_eoh_def)
  qed
  then show ?thesis unfolding end_of_header_def find_None_iff by auto
qed

lemma header_read_take:
  "header_read D es st \<Longrightarrow> take (hr_readed st) (hr_buf st) = take (hr_readed st) D"
  by (auto simp: header_read_def)

lemma first_eoh_length: "first_eoh D n \<Longrightarrow> n + 4 \<le> length D"
  using length_seg [of n 4 D] by (auto simp: first_eoh_def simp del: length_seg)

lemma header_search_found:
  assumes "first_eoh D n" "header_read D es st" "hr_search st \<le> n" "n + 4 \<le> hr_readed st"
  shows "header_search_step g ra st = Inl (st\<lparr>hr_buf_end := n + 2\<rparr>, EC_100)"
  using end_of_header_found [OF assms(1) header_read_take [OF assms(2)] assms(3,4)]
  by (simp add: header_search_step_def)

lemma header_search_not_yet:
  assumes "first_eoh D n" "header_read D es st" "hr_readed st < n + 4"
  shows "\<exists>st'. header_search_step g (\<lambda>_. True) st = Inr st' \<and> header_reading D n es st'
           \<and> hr_bytes_in st' = hr_bytes_in st"
  using end_of_header_not_yet [OF assms(1) header_read_take [OF assms(2)] assms(3)] assms(2,3)
  by (auto simp: header_search_step_def icap_header_check_realloc_def header_reading_def
      header_read_def Let_def)

lemma header_read_step:
  assumes "header_reading D n es st" "net_bytes es = d @ net_bytes es1" "length d \<le> ICAP_HEADER_READSIZE"
  shows "header_read D es1 (st\<lparr>hr_buf := mem_write (hr_buf_end st) d (hr_buf st),
      hr_readed := hr_readed st + length d, hr_bytes_in := hr_bytes_in st + length d\<rparr>)"
  using assms by (auto simp: header_reading_def header_read_def take_mem_write_end)

lemma header_read_loop_finds:
  assumes "first_eoh D n" "header_reading D n es st"
  shows "\<exists>st' es'. header_read_loop g (\<lambda>_. True) es st = Ret (True, st', EC_100, es')
           \<and> header_read D es' st' \<and> n + 4 \<le> hr_readed st' \<and> hr_buf_end st' = n + 2"
  using assms(2)
proof (induction "net_size es" arbitrary: es st rule: less_induct)
  case less
  have "net_bytes es \<noteq> []"
    using less.prems first_eoh_length [OF assms(1)]
    by (auto simp: header_reading_def header_read_def)
  then obtain d es1 where d: "net_take ICAP_HEADER_READSIZE es = (Some d, es1)"
      "net_bytes es = d @ net_bytes es1"
    using net_take_bytes by blast
  have sz: "net_size es1 < net_size es"
    using net_take_shrinks [OF d(1) [symmetric]] by (simp add: ICAP_HEADER_READSIZE_def)
  have ld: "length d \<le> ICAP_HEADER_READSIZE"
    using d(1) by (cases "(ICAP_HEADER_READSIZE, es)" rule: net_take.cases) auto
  let ?st = "st\<lparr>hr_buf := mem_write (hr_buf_end st) d (hr_buf st),
      hr_readed := hr_readed st + length d, hr_bytes_in := hr_bytes_in st + length d\<rparr>"
  have rd: "header_read D es1 ?st" using less.prems d(2) ld by (rule header_read_step)
  have room: "\<not> length (hr_buf st) < hr_buf_end st + length d"
    using less.prems ld by (simp add: header_reading_def)
  have lo: "hr_search ?st \<le> n" using less.prems by (auto simp: header_reading_def)
  consider "d = []" | "d \<noteq> []" "n + 4 \<le> hr_readed ?st" | "d \<noteq> []" "hr_readed ?st < n + 4" by fastforce
  then show ?case
  proof cases
    case 1
    then have "header_reading D n es1 st" using less.prems d(2) by (simp add: header_reading_def header_read_def)
    with less.hyps [OF sz] 1 show ?thesis by (simp add: header_read_loop.simps [of g _ es] d(1))
  next
    case 2
    have "header_read_loop g (\<lambda>_. True) es st = Ret (True, ?st\<lparr>hr_buf_end := n + 2\<rparr>, EC_100, es1)"
      using 2(1) room header_search_found [OF assms(1) rd lo 2(2)]
      by (simp add: header_read_loop.simps [of g _ es] d(1))
    moreover have "header_read D es1 (?st\<lparr>hr_buf_end := n + 2\<rparr>)" using rd by (simp add: header_read_def)
    ultimately show ?thesis using 2(2) by auto
  next
    case 3
    obtain st' where st': "header_search_step g (\<lambda>_. True) ?st = Inr st'" "header_reading D n es1 st'"
      using header_search_not_yet [OF assms(1) rd 3(2)] by blast
    with less.hyps [OF sz st'(2)] 3(1) room show ?thesis
      by (simp add: header_read_loop.simps [of g _ es] d(1))
  qed
qed

text \<open>What is left for the body parser when the end of the header was found.\<close>

definition header_arrived :: "bytes \<Rightarrow> nat \<Rightarrow> (ci_request \<times> ci_headers_list \<times> int \<times> net_in list) \<Rightarrow> bool" where
  "header_arrived D n res =
     (case res of (req, h, rc, es) \<Rightarrow>
        rc = EC_100 \<and> hl_bufused h = n + 2 \<and> take (n + 4) (hl_buf h) = take (n + 4) D
        \<and> n + 4 \<le> hl_bufsize h \<and> hl_bufsize h = length (hl_buf h)
        \<and> win req \<and> rq_text req @ net_bytes es = drop (n + 4) D)"

lemma finish_icap_header_arrived:
  assumes D: "first_eoh D n" and rd: "header_read D es st" "n + 4 \<le> hr_readed st" "hr_buf_end st = n + 2"
  shows "header_arrived D n (finish_icap_header req h (True, st, EC_100, es))"
proof -
  have le: "hr_readed st \<le> length (hr_buf st)" using rd(1) by (simp add: header_read_def)
  have "take (n + 4) (hr_buf st) = take (n + 4) D"
    using header_read_take [OF rd(1)] rd(2) by (metis min.absorb1 take_take)
  moreover have "take (hr_readed st - (n + 4)) (drop (n + 4) (hr_buf st)) @ net_bytes es = drop (n + 4) D"
  proof -
    have "drop (n + 4) D = drop (n + 4) (take (hr_readed st) (hr_buf st) @ net_bytes es)"
      using rd(1) by (simp add: header_read_def)
    then show ?thesis using rd(2) le by (simp add: drop_take)
  qed
  ultimately show ?thesis
    using rd le
    by (simp add: header_arrived_def finish_icap_header_def Let_def win_def rq_text_def
        nat_diff_distrib nat_add_distrib of_nat_diff add.commute [of 4 n])
qed

text \<open>
  C21.  However the network cuts its input (and, with \<^verbatim>\<open>PIPELINING\<close>, whatever part of the request
  is left over from the read before), \<^verbatim>\<open>ci_read_icap_header\<close> returns with the ICAP header up to the
  first empty line in the header buffer, the search across block borders included, and every byte
  after the empty line is either in the window of the body parser or still to be read: nothing is
  lost and nothing is parsed twice.
\<close>

theorem read_icap_header_any_segmentation:
  assumes D: "first_eoh D n" "D = (if PIPELINING then rq_text req else []) @ net_bytes es"
    and req: "win req" and h: "ICAP_HEADER_READSIZE \<le> length (hl_buf h)" "length (rq_text req) \<le> length (hl_buf h)"
  shows "\<exists>res. ci_read_icap_header g (\<lambda>_. True) PIPELINING es req h = Ret res \<and> header_arrived D n res"
proof (cases "PIPELINING \<and> rq_pstr req \<noteq> P_null \<and> 0 < rq_pstr_len req")
  case False
  have "PIPELINING \<Longrightarrow> rq_text req = []"
    using False by (cases "rq_pstr req") (auto simp: rq_text_def split: option.splits)
  then have "header_reading D n es
      \<lparr>hr_buf = hl_buf h, hr_readed = 0, hr_buf_end = 0, hr_search = 0, hr_bytes_in = 0\<rparr>"
    using D(2) h by (simp add: header_reading_def header_read_def)
  from header_read_loop_finds [OF D(1) this, of g] show ?thesis
    using False finish_icap_header_arrived [OF D(1)] by (fastforce simp: ci_read_icap_header_def)
next
  case True
  have len: "nat (rq_pstr_len req) = length (rq_text req)" using win_mem [OF req] by (metis nat_int)
  define buf where "buf = fst (icap_header_check_realloc g (\<lambda>_. True) (hl_buf h) (nat (rq_pstr_len req)) ICAP_HEADER_READSIZE)"
  have re: "icap_header_check_realloc g (\<lambda>_. True) (hl_buf h) (nat (rq_pstr_len req)) ICAP_HEADER_READSIZE = (buf, EC_100)"
      "length (rq_text req) \<le> length buf"
    using h(2) by (auto simp: buf_def icap_header_check_realloc_def Let_def)
  let ?st = "\<lparr>hr_buf = mem_write 0 (rq_text req) buf, hr_readed = length (rq_text req),
      hr_buf_end = 0, hr_search = 0, hr_bytes_in = 0\<rparr>"
  let ?req = "req\<lparr>rq_pstr := P_null, rq_pstr_len := 0\<rparr>"
  have rd: "header_read D es ?st"
    using D(2) True re(2) by (simp add: header_read_def mem_write_def)
  have ev: "ci_read_icap_header g (\<lambda>_. True) PIPELINING es req h =
      (case header_search_step g (\<lambda>_. True) ?st of
         Inl (st1, rc) \<Rightarrow> Ret (finish_icap_header ?req h (True, st1, rc, es))
       | Inr st1 \<Rightarrow> c_bind (header_read_loop g (\<lambda>_. True) es st1) (\<lambda>res. Ret (finish_icap_header ?req h res)))"
    using True re by (simp add: ci_read_icap_header_def len Let_def)
  show ?thesis
  proof (cases "n + 4 \<le> hr_readed ?st")
    case True
    have "header_read D es (?st\<lparr>hr_buf_end := n + 2\<rparr>)" using rd by (simp add: header_read_def)
    from finish_icap_header_arrived [OF D(1) this, of ?req h] True
    show ?thesis using header_search_found [OF D(1) rd] ev by simp
  next
    case False
    then obtain st' where st': "header_search_step g (\<lambda>_. True) ?st = Inr st'" "header_reading D n es st'"
      using header_search_not_yet [OF D(1) rd] by force
    from header_read_loop_finds [OF D(1) st'(2), of g] show ?thesis
      using ev st'(1) finish_icap_header_arrived [OF D(1)] by fastforce
  qed
qed

text \<open>An input whose empty line is cut twice.\<close>

definition cut_input :: "net_in list" where
  "cut_input = [Net_data (''A'' @ [CR]), Net_data ([LF] @ ''B'' @ CRLF @ [CR]), Net_data ([LF] @ ''XY'')]"

lemma cut_input_bytes: "net_bytes cut_input = ''A'' @ CRLF @ ''B'' @ CRLF @ CRLF @ ''XY''"
  by (simp add: cut_input_def)

lemma cut_input_eoh: "first_eoh (''A'' @ CRLF @ ''B'' @ CRLF @ CRLF @ ''XY'') 4"
  unfolding first_eoh_def by code_simp

theorem read_icap_header_any_segmentation_witness:
  "\<exists>res. ci_read_icap_header (\<lambda>_. NUL) (\<lambda>_. True) False cut_input new_request
           ((rq_request_header new_request)\<lparr>hl_buf := replicate 512 NUL\<rparr>) = Ret res
      \<and> header_arrived (''A'' @ CRLF @ ''B'' @ CRLF @ CRLF @ ''XY'') 4 res"
proof -
  have "win new_request" "rq_text new_request = []"
    by (simp_all add: new_request_def win_def rq_text_def ci_request_alloc_def ci_headers_create_def)
  then show ?thesis
    by (intro read_icap_header_any_segmentation)
      (simp_all add: cut_input_eoh cut_input_bytes ICAP_HEADER_READSIZE_def del: append.simps)
qed

section \<open>A well-formed request line\<close>

text \<open>What an ICAP client writes: \<open>maj\<close> and \<open>mnr\<close> are the version numbers, no arguments is \<open>None\<close>.\<close>

definition request_line :: "bytes \<Rightarrow> bytes \<Rightarrow> bytes \<Rightarrow> bytes option \<Rightarrow> nat \<Rightarrow> nat \<Rightarrow> bytes" where
  "request_line m host svc args maj mnr =
     m @ '' icap://'' @ host @ ''/'' @ svc @ (case args of None \<Rightarrow> [] | Some a \<Rightarrow> ''?'' @ a)
     @ '' ICAP/'' @ print_base 10 maj @ ''.'' @ print_base 10 mnr"

definition method_names :: "(int \<times> bytes) list" where
  "method_names = [(ICAP_OPTIONS, ''OPTIONS''), (ICAP_REQMOD, ''REQMOD''), (ICAP_RESPMOD, ''RESPMOD'')]"

lemma get_method_name:
  "(t, m) \<in> set method_names \<Longrightarrow> get_method (m @ r) = (t, r) \<and> 0 \<le> t"
  by (auto simp: method_names_def get_method_def starts_with_def ICAP_OPTIONS_def ICAP_REQMOD_def
      ICAP_RESPMOD_def)

lemma skip_scheme_icap: "skip_scheme ('' icap://'' @ r) = Some r"
  by (simp add: skip_scheme_def starts_with_ci_def)

lemma takeWhile_until: "\<lbrakk>\<forall>x \<in> set xs. P x; \<not> P y\<rbrakk> \<Longrightarrow> takeWhile P (xs @ y # ys) = xs"
  by (simp add: takeWhile_append)

lemma parse_version_printed:
  assumes "0 < maj" "maj < 2 ^ 31" "mnr < 2 ^ 31"
  shows "parse_version (''ICAP/'' @ print_base 10 maj @ ''.'' @ print_base 10 mnr) = (int maj, int mnr)"
proof -
  have "strtol 10 (print_base 10 maj @ ''.'' @ print_base 10 mnr) = (int maj, length (print_base 10 maj))"
    using assms(2) by (intro strtol_print_base) (simp_all add: is_digit_def digit_val_def LONG_MAX_def)
  moreover have "strtol 10 (print_base 10 mnr @ []) = (int mnr, length (print_base 10 mnr))"
    using assms(3) by (intro strtol_print_base) (simp_all add: LONG_MAX_def)
  ultimately show ?thesis
    using assms by (simp add: parse_version_def starts_with_def)
qed

lemma parse_path_wellformed:
  assumes "svc \<noteq> []" "length svc \<le> MAX_SERVICE_NAME" "\<forall>c \<in> set svc. c \<noteq> SP \<and> c \<noteq> CHR ''?''"
    and "case args of None \<Rightarrow> True | Some a \<Rightarrow> SP \<notin> set a \<and> length a \<le> MAX_SERVICE_ARGS"
    and "rq_args req = []"
  shows "parse_path req (''/'' @ svc @ (case args of None \<Rightarrow> [] | Some a \<Rightarrow> ''?'' @ a) @ SP # r)
    = Ret (req\<lparr>rq_service := svc, rq_args := (case args of None \<Rightarrow> [] | Some a \<Rightarrow> a)\<rparr>, Some (SP # r))"
proof (cases args)
  case None
  have "takeWhile (\<lambda>c. c \<noteq> SP \<and> c \<noteq> CHR ''?'') (svc @ SP # r) = svc"
    using assms(3) by (intro takeWhile_until) auto
  then show ?thesis using None assms(1,2,5) by (simp add: parse_path_def Let_def)
next
  case (Some a)
  have "takeWhile (\<lambda>c. c \<noteq> SP \<and> c \<noteq> CHR ''?'') (svc @ CHR ''?'' # a @ SP # r) = svc"
    using assms(3) by (intro takeWhile_until) auto
  moreover have "takeWhile (\<lambda>c. c \<noteq> SP) (a @ SP # r) = a"
    using assms(4) Some by (intro takeWhile_until) auto
  ultimately show ?thesis
    using Some assms(1,2,4,5) by (simp add: parse_path_def Let_def append_args_def)
qed

lemma parse_request_parts:
  assumes "get_method buf = (t, s)" "0 \<le> t" "skip_scheme s = Some start"
    and "takeWhile (\<lambda>c. c \<noteq> CHR ''/'' \<and> c \<noteq> SP) start = host" "drop (length host) start = path"
    and "length host \<le> CI_MAXHOSTNAMELEN"
    and "parse_path (req\<lparr>rq_type := t, rq_req_server := host\<rparr>) path = Ret (r, Some rest)"
    and "parse_version (dropWhile (\<lambda>c. c = SP) rest) = (maj, mnr)" "mnr \<noteq> -1" "1 \<le> maj"
  shows "parse_request T req buf =
     (let req3 = select_service T r in
      case rq_service_mod req3 of
        None \<Rightarrow> Ret (req3, EC_404)
      | Some sm \<Rightarrow>
          if \<not> ci_method_support (mod_type sm) (rq_type req3) \<and> rq_type req3 \<noteq> ICAP_OPTIONS
          then Ret (req3, EC_405) else Ret (req3, EC_100))"
  using assms by (simp add: parse_request_def Let_def)

text \<open>
  C22.  \<^verbatim>\<open>parse_request\<close> takes a well-formed request line apart: the method, the host, the service
  name, the arguments and the version come out as they were written, the service is looked up
  under the name (or its alias), and the status is 404, 405 or 100 by the result of that.
\<close>

theorem parse_request_wellformed:
  assumes m: "(t, m) \<in> set method_names"
    and host: "length host \<le> CI_MAXHOSTNAMELEN" "\<forall>c \<in> set host. c \<noteq> CHR ''/'' \<and> c \<noteq> SP"
    and svc: "svc \<noteq> []" "length svc \<le> MAX_SERVICE_NAME" "\<forall>c \<in> set svc. c \<noteq> SP \<and> c \<noteq> CHR ''?''"
    and args: "case args of None \<Rightarrow> True | Some a \<Rightarrow> SP \<notin> set a \<and> length a \<le> MAX_SERVICE_ARGS" "rq_args req = []"
    and v: "0 < maj" "maj < 2 ^ 31" "mnr < 2 ^ 31"
  shows "parse_request T req (request_line m host svc args maj mnr) =
    (let r = select_service T (req\<lparr>rq_type := t, rq_req_server := host, rq_service := svc,
                                   rq_args := (case args of None \<Rightarrow> [] | Some a \<Rightarrow> a)\<rparr>)
     in Ret (r, case rq_service_mod r of
                  None \<Rightarrow> EC_404
                | Some sm \<Rightarrow> if \<not> ci_method_support (mod_type sm) t \<and> t \<noteq> ICAP_OPTIONS
                             then EC_405 else EC_100))"
proof -
  let ?v = "''ICAP/'' @ print_base 10 maj @ ''.'' @ print_base 10 mnr"
  let ?path = "''/'' @ svc @ (case args of None \<Rightarrow> [] | Some a \<Rightarrow> ''?'' @ a) @ SP # ?v"
  let ?req = "req\<lparr>rq_type := t, rq_req_server := host\<rparr>"
  let ?r = "?req\<lparr>rq_service := svc, rq_args := (case args of None \<Rightarrow> [] | Some a \<Rightarrow> a)\<rparr>"
  have line: "request_line m host svc args maj mnr = m @ '' icap://'' @ host @ ?path"
    by (simp add: request_line_def)
  have tw: "takeWhile (\<lambda>c. c \<noteq> CHR ''/'' \<and> c \<noteq> SP) (host @ ?path) = host"
    using takeWhile_until [of host "\<lambda>c. c \<noteq> CHR ''/'' \<and> c \<noteq> SP" "CHR ''/''" "tl ?path"] host(2)
    by simp
  have path: "parse_path ?req ?path = Ret (?r, Some (SP # ?v))"
    by (rule parse_path_wellformed) (use svc args in simp_all)
  have ver: "parse_version (dropWhile (\<lambda>c. c = SP) (SP # ?v)) = (int maj, int mnr)"
    using parse_version_printed [OF v] by simp
  have ty: "rq_type (select_service T ?r) = t"
    by (simp add: select_service_def Let_def split: option.splits)
  have m': "get_method (request_line m host svc args maj mnr) = (t, '' icap://'' @ host @ ?path)" "0 \<le> t"
    unfolding line using get_method_name [OF m] by blast+
  from parse_request_parts [OF m' skip_scheme_icap tw _ host(1) path ver, of T]
  have "parse_request T req (request_line m host svc args maj mnr) =
     (let req3 = select_service T ?r in
      case rq_service_mod req3 of
        None \<Rightarrow> Ret (req3, EC_404)
      | Some sm \<Rightarrow>
          if \<not> ci_method_support (mod_type sm) (rq_type req3) \<and> rq_type req3 \<noteq> ICAP_OPTIONS
          then Ret (req3, EC_405) else Ret (req3, EC_100))"
    using v(1) by simp
  then show ?thesis by (simp add: ty Let_def split: option.split)
qed

definition echo_module :: ci_service_module where
  "echo_module = \<lparr>mod_name = ''echo'', mod_short_descr = None, mod_type = 6, mod_xdata = None\<rparr>"

theorem parse_request_wellformed_witness:
  "\<exists>r. parse_request \<lparr>st_services = [echo_module], st_aliases = [], st_default = None\<rparr>
       (new_request\<lparr>rq_args := []\<rparr>) (request_line ''RESPMOD'' ''host'' ''echo'' (Some ''a=1'') 1 0) = Ret (r, EC_100)
     \<and> rq_type r = ICAP_RESPMOD \<and> rq_service r = ''echo'' \<and> rq_args r = ''a=1''
     \<and> rq_service_mod r = Some echo_module"
  by (subst parse_request_wellformed [of ICAP_RESPMOD])
    (simp_all add: method_names_def CI_MAXHOSTNAMELEN_def MAX_SERVICE_NAME_def MAX_SERVICE_ARGS_def
      select_service_def find_service_def Let_def echo_module_def ci_method_support_def has_flag_def
      ICAP_RESPMOD_def)

section \<open>The entity lists that are accepted\<close>

definition reqmod_forms :: "int list list" where
  "reqmod_forms = [[ICAP_REQ_BODY], [ICAP_REQ_HDR, ICAP_REQ_BODY], [ICAP_REQ_HDR, ICAP_NULL_BODY]]"

definition respmod_forms :: "int list list" where
  "respmod_forms =
     [[ICAP_RES_BODY],
      [ICAP_REQ_HDR, ICAP_RES_BODY], [ICAP_REQ_HDR, ICAP_NULL_BODY],
      [ICAP_RES_HDR, ICAP_RES_BODY], [ICAP_RES_HDR, ICAP_NULL_BODY],
      [ICAP_REQ_HDR, ICAP_RES_HDR, ICAP_RES_BODY], [ICAP_REQ_HDR, ICAP_RES_HDR, ICAP_NULL_BODY]]"

definition accepted_forms :: "int \<Rightarrow> int list \<Rightarrow> bool" where
  "accepted_forms t ts =
     (if t = ICAP_REQMOD then ts \<in> set reqmod_forms
      else if t = ICAP_RESPMOD then ts \<in> set respmod_forms
      else t = ICAP_OPTIONS \<or> ts \<noteq> [])"

lemma length_le_5_cases:
  assumes "length xs \<le> (5::nat)"
  obtains "xs = []" | a where "xs = [a]" | a b where "xs = [a, b]" | a b c where "xs = [a, b, c]"
    | a b c d where "xs = [a, b, c, d]" | a b c d e where "xs = [a, b, c, d, e]"
  using assms by (auto simp: le_Suc_eq numeral_eq_Suc length_Suc_conv)

text \<open>
  C23.  \<^verbatim>\<open>check_request\<close> is equivalent to a table: on the entities of any \<^verbatim>\<open>Encapsulated\<close> header it
  returns 100 when their types are one of the forms of the method, and 400 otherwise; no
  assertion in it can fail.
\<close>

theorem check_request_accepts:
  assumes "length es \<le> 5" "rq_entities req = map Some es @ replicate (5 - length es) None"
  shows "check_request req =
    Ret (if accepted_forms (rq_type req) (map ee_type es) then EC_100 else EC_400)"
  using assms
  by (cases es rule: length_le_5_cases)
    (auto simp: check_request_def type_at_def accepted_forms_def reqmod_forms_def respmod_forms_def
      numeral_eq_Suc ICAP_OPTIONS_def ICAP_REQMOD_def ICAP_RESPMOD_def ICAP_REQ_HDR_def ICAP_RES_HDR_def
      ICAP_REQ_BODY_def ICAP_RES_BODY_def ICAP_NULL_BODY_def)

theorem check_request_accepts_witness:
  "check_request (new_request\<lparr>rq_type := ICAP_RESPMOD,
       rq_entities := [Some res_hdr_entity, Some res_body_entity, None, None, None]\<rparr>) = Ret EC_100"
  using check_request_accepts [of "[res_hdr_entity, res_body_entity]"
      "new_request\<lparr>rq_type := ICAP_RESPMOD,
         rq_entities := [Some res_hdr_entity, Some res_body_entity, None, None, None]\<rparr>"]
  by (simp add: numeral_eq_Suc accepted_forms_def respmod_forms_def res_hdr_entity_def res_body_entity_def
      ICAP_REQMOD_def ICAP_RESPMOD_def ICAP_REQ_HDR_def ICAP_RES_HDR_def
      ICAP_REQ_BODY_def ICAP_RES_BODY_def ICAP_NULL_BODY_def)

section \<open>Encapsulated headers are read completely\<close>

lemma encaps_read_loop_reads:
  assumes "n \<le> length (net_bytes es)" "p + n \<le> length buf"
  shows "\<exists>x es'. encaps_read_loop es n p buf req
      = (mem_write p (take n (net_bytes es)) buf, req\<lparr>rq_bytes_in := x\<rparr>, True, es')
      \<and> net_bytes es' = drop n (net_bytes es)"
  using assms
proof (induction "net_size es" arbitrary: es n p buf req rule: less_induct)
  case less
  show ?case
  proof (cases "n = 0")
    case True
    then show ?thesis by (intro exI [of _ "rq_bytes_in req"]) (simp add: encaps_read_loop.simps)
  next
    case False
    then have "net_bytes es \<noteq> []" using less.prems by auto
    then obtain d es1 where d: "net_take n es = (Some d, es1)" "net_bytes es = d @ net_bytes es1"
      using net_take_bytes by blast
    have ld: "length d \<le> n" using d(1) by (cases "(n, es)" rule: net_take.cases) auto
    have "net_size es1 < net_size es" using net_take_shrinks [OF d(1) [symmetric]] False by simp
    moreover have "n - length d \<le> length (net_bytes es1)"
        "p + length d + (n - length d) \<le> length (mem_write p d buf)"
      using less.prems d(2) ld by simp_all
    ultimately obtain x es' where r: "encaps_read_loop es1 (n - length d) (p + length d) (mem_write p d buf)
          (req\<lparr>rq_bytes_in := rq_bytes_in req + of_nat (length d)\<rparr>)
        = (mem_write (p + length d) (take (n - length d) (net_bytes es1)) (mem_write p d buf),
           req\<lparr>rq_bytes_in := x\<rparr>, True, es')" "net_bytes es' = drop (n - length d) (net_bytes es1)"
      using less.hyps [of es1 "n - length d" "p + length d" "mem_write p d buf"
          "req\<lparr>rq_bytes_in := rq_bytes_in req + of_nat (length d)\<rparr>"] by auto
    have "mem_write (p + length d) t (mem_write p d buf) = mem_write p (d @ t) buf"
      if "p + length d + length t \<le> length buf" for t
      using that by (simp add: mem_write_def add.assoc add.commute [of "length t"])
    then have "encaps_read_loop es n p buf req
        = (mem_write p (take n (net_bytes es)) buf, req\<lparr>rq_bytes_in := x\<rparr>, True, es')"
      using False d ld r(1) less.prems by (simp add: encaps_read_loop.simps [of es n])
    then show ?thesis using r(2) d(2) ld by auto
  qed
qed

lemma setsize_room:
  assumes "hl_bufsize h = length (hl_buf h)"
  shows "\<exists>h1. ci_headers_setsize g (\<lambda>_. True) h n = (h1, True) \<and> n < length (hl_buf h1)
           \<and> hl_bufsize h1 = length (hl_buf h1) \<and> hl_size h1 = hl_size h"
proof -
  have "n < (n div HEADSBUFSIZE + 1) * HEADSBUFSIZE"
    using div_mult_mod_eq [of n HEADSBUFSIZE] mod_less_divisor [of HEADSBUFSIZE n]
    by (simp add: HEADSBUFSIZE_def)
  then show ?thesis using assms by (auto simp: ci_headers_setsize_def Let_def)
qed

text \<open>The window and the events together hold the input that is still to be parsed.\<close>

definition rq_input :: "ci_request \<Rightarrow> net_in list \<Rightarrow> bytes" where
  "rq_input req es = rq_text req @ net_bytes es"

lemma read_encaps_header_reads:
  assumes "win req" "4 \<le> n" "n \<le> length (rq_input req es)" "hl_bufsize h = length (hl_buf h)"
    and "seg (n - 4) 4 (rq_input req es) = CRLF @ CRLF"
  shows "\<exists>req' h' es'. read_encaps_header g (\<lambda>_. True) BUGGY es req h (int n) = Ret (req', h', EC_100, es')
      \<and> win req' \<and> rq_input req' es' = drop n (rq_input req es) \<and> rq_entities req' = rq_entities req
      \<and> (\<exists>post. hl_buf h' = take n (rq_input req es) @ post) \<and> hl_bufused h' = n - 2
      \<and> hl_bufsize h' = length (hl_buf h') \<and> hl_size h' = hl_size h"
proof -
  let ?T = "rq_text req" and ?N = "net_bytes es"
  let ?m = "min n (length ?T)"
  have in_def: "rq_input req es = ?T @ ?N" by (simp add: rq_input_def)
  obtain h1 where h1: "ci_headers_setsize g (\<lambda>_. True) h (n + (if BUGGY then 2 else 0)) = (h1, True)"
      "n \<le> length (hl_buf h1)" "hl_bufsize h1 = length (hl_buf h1)" "hl_size h1 = hl_size h"
    using setsize_room [OF assms(4), of g "n + (if BUGGY then 2 else 0)"] by auto
  have len: "rq_pstr_len req = int (length ?T)" using assms(1) by (rule win_mem)
  define req0 where "req0 = (if \<not> 0 < rq_pstr_len req then req
      else if int n \<le> rq_pstr_len req then advance (int ?m) req
      else req\<lparr>rq_pstr := P_null, rq_pstr_len := 0\<rparr>)"
  have req0: "win req0" "rq_text req0 = drop n ?T" "rq_entities req0 = rq_entities req"
  proof -
    have e: "rq_text (req\<lparr>rq_pstr := P_null, rq_pstr_len := 0\<rparr>) = []"
      by (simp add: rq_text_def [of "_\<lparr>rq_pstr := _, rq_pstr_len := _\<rparr>"])
    show "win req0"
      using assms(1) advance_text [OF assms(1), of ?m] by (simp add: req0_def win_def)
    show "rq_text req0 = drop n ?T"
      using advance_text [OF assms(1), of ?m] e by (auto simp: req0_def len)
    show "rq_entities req0 = rq_entities req" by (simp add: req0_def advance_def)
  qed
  let ?b = "mem_write 0 (take ?m ?T) (hl_buf h1)"
  have "n - ?m \<le> length ?N" "?m + (n - ?m) \<le> length ?b"
    using assms(3) h1(2) by (auto simp: in_def min_def)
  then obtain x es' where lp: "encaps_read_loop es (n - ?m) ?m ?b req0
      = (mem_write ?m (take (n - ?m) ?N) ?b, req0\<lparr>rq_bytes_in := x\<rparr>, True, es')"
      "net_bytes es' = drop (n - ?m) ?N"
    using encaps_read_loop_reads [of "n - ?m" es ?m ?b req0] by blast
  define buf where "buf = mem_write ?m (take (n - ?m) ?N) ?b"
  have buf: "buf = take n (?T @ ?N) @ drop n (hl_buf h1)"
  proof (cases "n \<le> length ?T")
    case False
    then have "length (take (n - length ?T) ?N) + length ?T = n" using assms(3) by (simp add: in_def)
    with False h1(2) show ?thesis by (simp add: buf_def mem_write_def add.commute)
  qed (use h1(2) in \<open>simp add: buf_def mem_write_def\<close>)
  have "length (take n (?T @ ?N)) = n" using assms(3) by (simp add: in_def)
  then have "take n buf = take n (?T @ ?N)" by (metis append_eq_conv_conj buf)
  then have sg: "seg (n - 4) 4 buf = CRLF @ CRLF"
    using assms(2,5) seg_take_eq [of n buf "?T @ ?N" "n - 4" 4] by (simp add: in_def)
  let ?r = "req0\<lparr>rq_bytes_in := x, rq_http_bytes_in := rq_http_bytes_in req0 + of_nat n,
      rq_request_bytes_in := rq_request_bytes_in req0 + of_nat n\<rparr>"
  have rr: "read_encaps_header g (\<lambda>_. True) BUGGY es req h (int n)
      = Ret (?r, h1\<lparr>hl_buf := buf, hl_bufused := n - 2\<rparr>, EC_100, es')"
  proof -
    have a: "nat (int n + (if BUGGY then 2 else 0)) = n + (if BUGGY then 2 else 0)" by (simp add: nat_add_distrib)
    have b: "(if 0 < rq_pstr_len req then min n (nat (rq_pstr_len req)) else 0) = ?m" by (simp add: len)
    show ?thesis
      unfolding read_encaps_header_def Let_def b nat_int req0_def [symmetric] a h1(1)
      using lp(1) assms(2) sg h1(1) by (simp add: buf_def [symmetric])
  qed
  have "win ?r" "rq_text ?r = drop n ?T" using req0 win_cong [of ?r req0] by auto
  then have "rq_input ?r es' = drop n (rq_input req es)" using lp(2) by (simp add: rq_input_def min_def)
  moreover have "length buf = length (hl_buf h1)" using buf h1(2) assms(3) by (simp add: in_def)
  ultimately show ?thesis using rr buf \<open>win ?r\<close> req0(3) h1(3,4) by (auto simp: in_def)
qed

text \<open>
  The entities of a message: header entities, each as far before the next as its block is long,
  and one that is not a header.
\<close>

fun encaps_layout :: "ci_encaps_entity list \<Rightarrow> ci_encaps_entity \<Rightarrow> bytes list list \<Rightarrow> bool" where
  "encaps_layout [] b [] \<longleftrightarrow> ICAP_RES_HDR < ee_type b"
| "encaps_layout (e # es) b (ls # lss) \<longleftrightarrow>
     ee_type e \<le> ICAP_RES_HDR
     \<and> ee_start (hd (es @ [b])) - ee_start e = int (length (hwire ls @ CRLF))
     \<and> (\<exists>h. ee_entity e = Some h \<and> hl_bufsize h = length (hl_buf h) \<and> 1 \<le> hl_size h)
     \<and> ls \<noteq> [] \<and> (\<forall>l \<in> set ls. hdr_line l) \<and> encaps_layout es b lss"
| "encaps_layout _ b _ \<longleftrightarrow> False"

definition header_blocks :: "bytes list list \<Rightarrow> bytes" where
  "header_blocks lss = concat (map (\<lambda>ls. hwire ls @ CRLF) lss)"

definition holds_lines :: "ci_encaps_entity \<Rightarrow> bytes list \<Rightarrow> bool" where
  "holds_lines e ls \<longleftrightarrow> (\<exists>h. ee_entity e = Some h \<and> hdr_rep h ls)"

lemma hwire_tail:
  assumes "ls \<noteq> []"
  shows "2 \<le> length (hwire ls)" "seg (length (hwire ls) - 2) 4 (hwire ls @ CRLF @ r) = CRLF @ CRLF"
proof -
  have w: "hwire ls = (hwire (butlast ls) @ last ls) @ CRLF"
    using assms by (metis append_butlast_last_id append.assoc hwire_simps append_Nil2)
  then show "2 \<le> length (hwire ls)" by simp
  have "seg (length (hwire (butlast ls) @ last ls)) (length (CRLF @ CRLF))
      ((hwire (butlast ls) @ last ls) @ (CRLF @ CRLF) @ r) = CRLF @ CRLF"
    by (rule seg_append)
  then show "seg (length (hwire ls) - 2) 4 (hwire ls @ CRLF @ r) = CRLF @ CRLF"
    unfolding w by (simp add: eval_nat_numeral)
qed

text \<open>One header entity: read, then split into its lines.\<close>

lemma parse_encaps_one:
  assumes "win req" "rq_input req es = hwire ls @ CRLF @ r" "ls \<noteq> []" "\<forall>l \<in> set ls. hdr_line l"
    and "hl_bufsize h = length (hl_buf h)" "1 \<le> hl_size h"
  obtains req' h1 h2 es' where
    "read_encaps_header g (\<lambda>_. True) BUGGY es req h (int (length (hwire ls @ CRLF))) = Ret (req', h1, EC_100, es')"
    "ci_headers_unpack (\<lambda>_. True) h1 = Ret (h2, EC_100)" "hdr_rep h2 ls"
    "win req'" "rq_input req' es' = r" "rq_entities req' = rq_entities req"
proof -
  let ?n = "length (hwire ls @ CRLF)"
  have "4 \<le> ?n" "?n \<le> length (rq_input req es)" "seg (?n - 4) 4 (rq_input req es) = CRLF @ CRLF"
    using hwire_tail [OF assms(3)] by (simp_all add: assms(2))
  from read_encaps_header_reads [OF assms(1) this(1,2) assms(5) this(3), of g BUGGY]
  obtain req' h1 es' post where r: "read_encaps_header g (\<lambda>_. True) BUGGY es req h (int ?n) = Ret (req', h1, EC_100, es')"
      "win req'" "rq_input req' es' = drop ?n (rq_input req es)" "rq_entities req' = rq_entities req"
      "hl_buf h1 = take ?n (rq_input req es) @ post" "hl_bufused h1 = ?n - 2"
      "hl_bufsize h1 = length (hl_buf h1)" "hl_size h1 = hl_size h"
    by blast
  have b: "hl_buf h1 = hwire ls @ CRLF @ post" using r(5) by (simp add: assms(2))
  obtain h2 where "ci_headers_unpack (\<lambda>_. True) h1 = Ret (h2, EC_100)" "hdr_rep h2 ls"
    by (rule unpack_rep [OF assms(3,4) _ b _ _ r(7), of "\<lambda>_. True"]) (use r(6,8) assms(6) in simp_all)
  with r(1-4) show ?thesis by (intro that [of req' h1 es' h2]) (simp_all add: assms(2))
qed

lemma parse_encaps_from_reads:
  assumes "encaps_layout hes b lss" "rq_entities req = pre @ map Some (hes @ [b]) @ post"
    and "length (rq_entities req) = 5" "win req" "rq_input req es = header_blocks lss @ r"
  shows "\<exists>req' es' hes'. parse_encaps_from g (\<lambda>_. True) BUGGY (length pre) es req = Ret (req', EC_100, es')
      \<and> rq_entities req' = pre @ map Some (hes' @ [b]) @ post \<and> list_all2 holds_lines hes' lss
      \<and> win req' \<and> rq_input req' es' = r"
  using assms
proof (induction hes b lss arbitrary: req pre es rule: encaps_layout.induct)
  case (1 b)
  then have "parse_encaps_from g (\<lambda>_. True) BUGGY (length pre) es req = Ret (req, EC_100, es)"
    by (subst parse_encaps_from.simps) (simp add: nth_append)
  then show ?case using 1 by (simp add: header_blocks_def)
next
  case (2 e hes b ls lss)
  obtain h where e: "ee_entity e = Some h" "hl_bufsize h = length (hl_buf h)" "1 \<le> hl_size h"
    using 2(2) by auto
  have inp: "rq_input req es = hwire ls @ CRLF @ header_blocks lss @ r"
    using 2(6) by (simp add: header_blocks_def)
  obtain req' h1 h2 es1 where one:
    "read_encaps_header g (\<lambda>_. True) BUGGY es req h (int (length (hwire ls @ CRLF))) = Ret (req', h1, EC_100, es1)"
    "ci_headers_unpack (\<lambda>_. True) h1 = Ret (h2, EC_100)" "hdr_rep h2 ls"
    "win req'" "rq_input req' es1 = header_blocks lss @ r" "rq_entities req' = rq_entities req"
    by (rule parse_encaps_one [OF 2(5) inp _ _ e(2,3)]) (use 2(2) in simp_all)
  let ?e = "e\<lparr>ee_entity := Some h2\<rparr>"
  let ?req = "req'\<lparr>rq_entities := (pre @ [Some ?e]) @ map Some (hes @ [b]) @ post\<rparr>"
  have nx: "rq_entities req ! (length pre + 1) = Some (hd (hes @ [b]))"
      "rq_entities req ! length pre = Some e" "\<not> 4 \<le> length pre"
    using 2(3,4) by (cases hes; simp add: nth_append)+
  have upd: "(rq_entities req')[length pre := Some ?e] = (pre @ [Some ?e]) @ map Some (hes @ [b]) @ post"
    using 2(3) one(6) by (simp add: list_update_append)
  have step: "parse_encaps_from g (\<lambda>_. True) BUGGY (length pre) es req
      = parse_encaps_from g (\<lambda>_. True) BUGGY (length (pre @ [Some ?e])) es1 ?req"
    using 2(2) nx e(1) one(1,2) upd
    by (subst parse_encaps_from.simps) (simp only: length_append, simp add: not_le Let_def)
  have "win ?req" "rq_input ?req es1 = header_blocks lss @ r"
    using one(4,5) win_cong [of ?req req'] by (simp_all add: rq_input_def)
  moreover have "encaps_layout hes b lss" "length (rq_entities ?req) = 5" using 2(2,3,4) by simp_all
  moreover have "rq_entities ?req = (pre @ [Some ?e]) @ map Some (hes @ [b]) @ post" by simp
  ultimately obtain req2 es2 hes' where
      "parse_encaps_from g (\<lambda>_. True) BUGGY (length (pre @ [Some ?e])) es1 ?req = Ret (req2, EC_100, es2)"
      "rq_entities req2 = (pre @ [Some ?e]) @ map Some (hes' @ [b]) @ post" "list_all2 holds_lines hes' lss"
      "win req2" "rq_input req2 es2 = r"
    using 2(1) by blast
  moreover have "holds_lines ?e ls" using one(3) by (simp add: holds_lines_def)
  ultimately show ?case using step
    by (intro exI [of _ req2] exI [of _ es2] exI [of _ "?e # hes'"]) simp
qed auto

text \<open>
  C24.  For an \<^verbatim>\<open>Encapsulated\<close> header whose offsets describe the header blocks that follow,
  \<^verbatim>\<open>parse_encaps_headers\<close> reads every block completely, whatever part of it is already in the window
  and however the network delivers the rest, splits it into its lines, and leaves exactly the
  bytes of the body as the next input.
\<close>

theorem parse_encaps_headers_reads:
  assumes "encaps_layout hes b lss" "rq_entities req = map Some (hes @ [b]) @ replicate (4 - length hes) None"
    and "length hes \<le> 4" "win req" "rq_input req es = header_blocks lss @ body"
  shows "\<exists>req' es' hes'. parse_encaps_headers g (\<lambda>_. True) BUGGY es req = Ret (req', EC_100, es')
      \<and> rq_entities req' = map Some (hes' @ [b]) @ replicate (4 - length hes) None
      \<and> list_all2 holds_lines hes' lss \<and> win req' \<and> rq_input req' es' = body"
  using parse_encaps_from_reads [of hes b lss req "[]" "replicate (4 - length hes) None" es body g BUGGY]
    assms by (simp add: parse_encaps_headers_def)

lemma new_request_input: "win new_request" "rq_text new_request = []"
  by (simp_all add: new_request_def win_def rq_text_def ci_request_alloc_def ci_headers_create_def)

definition status_entity :: ci_encaps_entity where
  "status_entity = \<lparr>ee_start = 0, ee_type = 1, ee_entity = Some (rq_xheaders new_request)\<rparr>"

definition status_request :: ci_request where
  "status_request = new_request\<lparr>rq_entities :=
     [Some status_entity, Some (res_body_entity\<lparr>ee_start := 19\<rparr>), None, None, None]\<rparr>"

lemma status_layout: "encaps_layout [status_entity] (res_body_entity\<lparr>ee_start := 19\<rparr>) [[''HTTP/1.1 200 OK'']]"
  by (simp add: status_entity_def res_body_entity_def new_request_def ci_request_alloc_def
      ci_headers_create_def ICAP_RES_HDR_def hdr_line_def HEADERSTARTSIZE_def fresh_mem_def)

theorem parse_encaps_headers_reads_witness:
  "\<exists>req' es' e'. parse_encaps_headers (\<lambda>_. NUL) (\<lambda>_. True) False
        [Net_data ''HTTP/1.'', Net_data (''1 200 OK'' @ CRLF @ [CR]), Net_data ([LF] @ ''2'' @ CRLF)]
        status_request = Ret (req', EC_100, es')
     \<and> rq_entities req' ! 0 = Some e' \<and> holds_lines e' [''HTTP/1.1 200 OK''] \<and> rq_input req' es' = ''2'' @ CRLF"
proof -
  let ?es = "[Net_data ''HTTP/1.'', Net_data (''1 200 OK'' @ CRLF @ [CR]), Net_data ([LF] @ ''2'' @ CRLF)]"
  have w: "win status_request" "rq_text status_request = []"
    using win_cong [of status_request new_request] new_request_input by (simp_all add: status_request_def)
  have i: "rq_input status_request ?es = header_blocks [[''HTTP/1.1 200 OK'']] @ ''2'' @ CRLF"
    by (simp add: rq_input_def w(2) header_blocks_def)
  have e: "rq_entities status_request = map Some ([status_entity] @ [res_body_entity\<lparr>ee_start := 19\<rparr>])
      @ replicate (4 - length [status_entity]) None"
    by (simp add: status_request_def numeral_eq_Suc)
  from parse_encaps_headers_reads [OF status_layout e _ w(1) i, of "\<lambda>_. NUL" False]
  show ?thesis by (auto simp: list_all2_Cons2)
qed

text \<open>
  Nothing checks that the offsets of the \<^verbatim>\<open>Encapsulated\<close> header increase: when the second
  offset is smaller than the first, the difference is used as a size, and the server copies a
  negative number of bytes or compares bytes before its buffer, whatever else was sent.
\<close>

theorem parse_encaps_headers_decreasing:
  assumes "rq_entities req = Some e # Some e1 # rest" "ee_type e \<le> ICAP_RES_HDR"
    and "ee_entity e = Some h" "ee_start e1 < ee_start e"
  shows "parse_encaps_headers g (\<lambda>_. True) BUGGY es req = Undef"
proof -
  have "read_encaps_header g (\<lambda>_. True) BUGGY es req h (ee_start e1 - ee_start e) = Undef"
    using assms(4)
    by (auto simp: read_encaps_header_def ci_headers_setsize_def Let_def split: prod.split bool.split)
  then show ?thesis
    unfolding parse_encaps_headers_def using assms by (subst parse_encaps_from.simps) simp
qed

theorem parse_encaps_headers_decreasing_witness:
  "parse_encaps_headers (\<lambda>_. NUL) (\<lambda>_. True) True [Net_data ''GET / HTTP/1.0'']
     (status_request\<lparr>rq_entities :=
        [Some (status_entity\<lparr>ee_start := 5\<rparr>), Some (res_body_entity\<lparr>ee_start := 0\<rparr>), None, None, None]\<rparr>) = Undef"
  by (rule parse_encaps_headers_decreasing [of _ "status_entity\<lparr>ee_start := 5\<rparr>"
        "res_body_entity\<lparr>ee_start := 0\<rparr>" "[None, None, None]" "rq_xheaders new_request"])
    (simp_all add: status_entity_def ICAP_RES_HDR_def)

end
