(* ===== verification/Simple_Api.thy ===== *)
theory Simple_Api
  imports Request
begin

text \<open>
  The accessors of \<^verbatim>\<open>simple_api.c\<close> that the server and the services use on the HTTP headers of a
  request: finding the encapsulated request or response header, creating new ones, adding,
  removing and reading header lines, the content length and the request URL.

  A pointer to a header list is the place where it is: an entity of the request, or the entity of
  a type in the trash list (\<^verbatim>\<open>ci_http_request_headers\<close> looks there too).

  Proved: a response created by a service has exactly the entities it asked for, in the order the
  protocol requires, with an empty header, and the lines added to it afterwards are the lines
  of its header; the request URL stays inside the buffer of the caller.
\<close>

datatype hdr_loc = L_entity nat | L_trash nat

fun hdr_slot :: "ci_request \<Rightarrow> hdr_loc \<Rightarrow> ci_encaps_entity option" where
  "hdr_slot req (L_entity i) = rq_entities req ! i"
| "hdr_slot req (L_trash t) = rq_trash req ! t"

text \<open>The list at a place; a null pointer there is dereferenced by the code, which has no value.\<close>

definition hdr_at :: "ci_request \<Rightarrow> hdr_loc \<Rightarrow> ci_headers_list c_result" where
  "hdr_at req loc =
     (case hdr_slot req loc of
        None \<Rightarrow> Undef
      | Some e \<Rightarrow> (case ee_entity e of None \<Rightarrow> Undef | Some h \<Rightarrow> Ret h))"

fun hdr_put :: "ci_request \<Rightarrow> hdr_loc \<Rightarrow> ci_headers_list \<Rightarrow> ci_request" where
  "hdr_put req (L_entity i) h =
     req\<lparr>rq_entities := (rq_entities req)[i := map_option (\<lambda>e. e\<lparr>ee_entity := Some h\<rparr>) (rq_entities req ! i)]\<rparr>"
| "hdr_put req (L_trash t) h =
     req\<lparr>rq_trash := (rq_trash req)[t := map_option (\<lambda>e. e\<lparr>ee_entity := Some h\<rparr>) (rq_trash req ! t)]\<rparr>"

section \<open>Finding a header\<close>

fun response_entity :: "ci_encaps_entity option list \<Rightarrow> nat \<Rightarrow> nat option" where
  "response_entity (Some e # es) i =
     (if 3 \<le> i then None
      else if ee_type e = ICAP_RES_HDR then Some i
      else response_entity es (i + 1))"
| "response_entity _ i = None"

text \<open>
  The result is the entity, not yet its header: a header entity whose list could not be allocated
  makes the C function return the null pointer in \<^verbatim>\<open>entity\<close>, which \<open>usable\<close> reflects.
\<close>

definition usable :: "ci_request \<Rightarrow> hdr_loc \<Rightarrow> hdr_loc option" where
  "usable req loc =
     (case hdr_slot req loc of
        None \<Rightarrow> None
      | Some e \<Rightarrow> (case ee_entity e of None \<Rightarrow> None | Some _ \<Rightarrow> Some loc))"

definition ci_http_response_headers :: "ci_request \<Rightarrow> hdr_loc option" where
  "ci_http_response_headers req =
     (case response_entity (rq_entities req) 0 of
        None \<Rightarrow> None
      | Some i \<Rightarrow> usable req (L_entity i))"

definition ci_http_request_headers :: "ci_request \<Rightarrow> hdr_loc option" where
  "ci_http_request_headers req =
     (if (case rq_entities req ! 0 of None \<Rightarrow> False | Some e \<Rightarrow> ee_type e = ICAP_REQ_HDR)
      then usable req (L_entity 0)
      else case rq_trash req ! nat ICAP_REQ_HDR of
             None \<Rightarrow> None
           | Some e \<Rightarrow>
               (case ee_entity e of
                  None \<Rightarrow> None
                | Some h \<Rightarrow> if hl_used h \<noteq> 0 then Some (L_trash (nat ICAP_REQ_HDR)) else None))"

definition reset_headers :: "(ci_request \<Rightarrow> hdr_loc option) \<Rightarrow> ci_request \<Rightarrow> (ci_request \<times> bool) c_result" where
  "reset_headers lookup_loc req =
     (case lookup_loc req of
        None \<Rightarrow> Ret (req, False)
      | Some l \<Rightarrow> c_bind (hdr_at req l) (\<lambda>h. Ret (hdr_put req l (ci_headers_reset h), True)))"

definition ci_http_response_reset_headers :: "ci_request \<Rightarrow> (ci_request \<times> bool) c_result" where
  "ci_http_response_reset_headers req = reset_headers ci_http_response_headers req"

definition ci_http_request_reset_headers :: "ci_request \<Rightarrow> (ci_request \<times> bool) c_result" where
  "ci_http_request_reset_headers req = reset_headers ci_http_request_headers req"

section \<open>Creating the message of a response\<close>

text \<open>The loop over the first four entities, and the new entities after it.\<close>

fun release_first :: "nat \<Rightarrow> ci_request \<Rightarrow> ci_request" where
  "release_first 0 req = req"
| "release_first (Suc n) req =
     (let r = release_first n req in fst (ci_request_release_entity r n))"

definition put_new_entity ::
  "(nat \<Rightarrow> char) \<Rightarrow> (nat \<Rightarrow> bool) \<Rightarrow> int \<Rightarrow> nat \<Rightarrow> ci_request \<Rightarrow> ci_request" where
  "put_new_entity g ra typ i req =
     (case ci_request_alloc_entity g ra req typ 0 of
        (r, e) \<Rightarrow> r\<lparr>rq_entities := (rq_entities r)[i := e]\<rparr>)"

definition ci_http_response_create ::
  "(nat \<Rightarrow> char) \<Rightarrow> (nat \<Rightarrow> bool) \<Rightarrow> ci_request \<Rightarrow> bool \<Rightarrow> bool \<Rightarrow> ci_request" where
  "ci_http_response_create g ra req has_reshdr has_body =
     (let r0 = release_first 4 req;
          (r1, i) = (if has_reshdr then (put_new_entity g ra ICAP_RES_HDR 0 r0, 1) else (r0, 0))
      in put_new_entity g ra (if has_body then ICAP_RES_BODY else ICAP_NULL_BODY) i r1)"

definition ci_http_request_create ::
  "(nat \<Rightarrow> char) \<Rightarrow> (nat \<Rightarrow> bool) \<Rightarrow> ci_request \<Rightarrow> bool \<Rightarrow> ci_request" where
  "ci_http_request_create g ra req has_body =
     (let r1 = put_new_entity g ra ICAP_REQ_HDR 0 (release_first 4 req)
      in put_new_entity g ra (if has_body then ICAP_REQ_BODY else ICAP_NULL_BODY) 1 r1)"

section \<open>Header lines\<close>

definition add_header ::
  "(nat \<Rightarrow> char) \<Rightarrow> (nat \<Rightarrow> bool) \<Rightarrow> (ci_request \<Rightarrow> hdr_loc option) \<Rightarrow> ci_request \<Rightarrow> bytes
   \<Rightarrow> (ci_request \<times> bool) c_result" where
  "add_header g ra lookup_loc req header =
     (if rq_packed req then Ret (req, False)
      else case lookup_loc req of
             None \<Rightarrow> Ret (req, False)
           | Some l \<Rightarrow>
               c_bind (hdr_at req l) (\<lambda>h.
                 c_bind (ci_headers_add g ra h header) (\<lambda>(h1, p). Ret (hdr_put req l h1, p \<noteq> None))))"

definition ci_http_response_add_header ::
  "(nat \<Rightarrow> char) \<Rightarrow> (nat \<Rightarrow> bool) \<Rightarrow> ci_request \<Rightarrow> bytes \<Rightarrow> (ci_request \<times> bool) c_result" where
  "ci_http_response_add_header g ra req header = add_header g ra ci_http_response_headers req header"

definition ci_http_request_add_header ::
  "(nat \<Rightarrow> char) \<Rightarrow> (nat \<Rightarrow> bool) \<Rightarrow> ci_request \<Rightarrow> bytes \<Rightarrow> (ci_request \<times> bool) c_result" where
  "ci_http_request_add_header g ra req header = add_header g ra ci_http_request_headers req header"

definition remove_header ::
  "(ci_request \<Rightarrow> hdr_loc option) \<Rightarrow> ci_request \<Rightarrow> bytes \<Rightarrow> (ci_request \<times> bool) c_result" where
  "remove_header lookup_loc req header =
     (if rq_packed req then Ret (req, False)
      else case lookup_loc req of
             None \<Rightarrow> Ret (req, False)
           | Some l \<Rightarrow>
               c_bind (hdr_at req l) (\<lambda>h.
                 c_bind (ci_headers_remove h header) (\<lambda>(h1, ok). Ret (hdr_put req l h1, ok))))"

definition ci_http_response_remove_header :: "ci_request \<Rightarrow> bytes \<Rightarrow> (ci_request \<times> bool) c_result" where
  "ci_http_response_remove_header req header = remove_header ci_http_response_headers req header"

definition ci_http_request_remove_header :: "ci_request \<Rightarrow> bytes \<Rightarrow> (ci_request \<times> bool) c_result" where
  "ci_http_request_remove_header req header = remove_header ci_http_request_headers req header"

text \<open>The value of a header, as the memory that starts there.\<close>

definition get_header ::
  "(ci_request \<Rightarrow> hdr_loc option) \<Rightarrow> ci_request \<Rightarrow> bytes \<Rightarrow> bytes option c_result" where
  "get_header lookup_loc req name =
     (case lookup_loc req of
        None \<Rightarrow> Ret None
      | Some l \<Rightarrow>
          c_bind (hdr_at req l) (\<lambda>h.
            c_bind (ci_headers_value h name) (\<lambda>v. Ret (map_option (\<lambda>p. drop p (hl_buf h)) v))))"

definition ci_http_response_get_header :: "ci_request \<Rightarrow> bytes \<Rightarrow> bytes option c_result" where
  "ci_http_response_get_header req name = get_header ci_http_response_headers req name"

definition ci_http_request_get_header :: "ci_request \<Rightarrow> bytes \<Rightarrow> bytes option c_result" where
  "ci_http_request_get_header req name = get_header ci_http_request_headers req name"

definition any_headers :: "ci_request \<Rightarrow> hdr_loc option" where
  "any_headers req =
     (case ci_http_response_headers req of Some l \<Rightarrow> Some l | None \<Rightarrow> ci_http_request_headers req)"

text \<open>
  \<^verbatim>\<open>ci_http_content_length\<close>: 0 without any header, -1 without the line, -2 for a value that is out
  of range or not a number (\<^verbatim>\<open>ci_off_t\<close> has 64 bits, so the conversion is that of \<^verbatim>\<open>strtol\<close>).
\<close>

definition ci_http_content_length :: "ci_request \<Rightarrow> int c_result" where
  "ci_http_content_length req =
     (case any_headers req of
        None \<Rightarrow> Ret 0
      | Some l \<Rightarrow>
          c_bind (get_header any_headers req ''Content-Length'') (\<lambda>v.
            case v of
              None \<Rightarrow> Ret (-1)
            | Some s \<Rightarrow>
                let (r, k) = strtol 10 (cstr s) in
                if strtol_erange 10 (cstr s) then Ret (-2)
                else if k = 0 then Ret (-2)
                else Ret r))"

definition ci_http_request :: "ci_request \<Rightarrow> bytes option c_result" where
  "ci_http_request req =
     (case ci_http_request_headers req of
        None \<Rightarrow> Ret None
      | Some l \<Rightarrow>
          c_bind (hdr_at req l) (\<lambda>h.
            Ret (if hl_used h = 0 then None else Some (drop (hl_headers h ! 0) (hl_buf h)))))"

definition ci_icap_add_xheader ::
  "(nat \<Rightarrow> char) \<Rightarrow> (nat \<Rightarrow> bool) \<Rightarrow> ci_request \<Rightarrow> bytes \<Rightarrow> (ci_request \<times> bool) c_result" where
  "ci_icap_add_xheader g ra req header =
     c_bind (ci_headers_add g ra (rq_xheaders req) header) (\<lambda>(h, p).
       Ret (req\<lparr>rq_xheaders := h\<rparr>, p \<noteq> None))"

definition ci_icap_append_xheaders ::
  "(nat \<Rightarrow> char) \<Rightarrow> (nat \<Rightarrow> bool) \<Rightarrow> ci_request \<Rightarrow> ci_headers_list \<Rightarrow> (ci_request \<times> bool) c_result" where
  "ci_icap_append_xheaders g ra req headers =
     c_bind (ci_headers_addheaders g ra (rq_xheaders req) headers) (\<lambda>(h, ok).
       Ret (req\<lparr>rq_xheaders := h\<rparr>, ok))"

section \<open>The request URL\<close>

definition header_end :: "char \<Rightarrow> bool" where
  "header_end e = (e = NUL \<or> e = LF \<or> e = CR)"

text \<open>
  \<^verbatim>\<open>ci_http_request_url\<close>: the bytes it puts in the buffer of \<open>buf_size\<close> bytes before the final NUL,
  \<open>None\<close> where it returns without writing.  A buffer of size 0 is written outside.
\<close>

definition url_part :: "int \<Rightarrow> (char \<Rightarrow> bool) \<Rightarrow> bytes \<Rightarrow> bytes" where
  "url_part room stop s = take (nat room) (takeWhile (\<lambda>c. \<not> header_end c \<and> \<not> isspace_c c \<and> \<not> stop c) s)"

definition url_bytes :: "int \<Rightarrow> bytes option \<Rightarrow> bytes \<Rightarrow> bytes" where
  "url_bytes buf_size host str =
     (let hpart = (case host of None \<Rightarrow> [] | Some v \<Rightarrow> url_part (buf_size - 1) (\<lambda>_. False) v);
          room = buf_size - int (length hpart)
      in hpart @ url_part (room - 1) (\<lambda>c. c = CHR ''?'') str)"

definition url_from :: "ci_headers_list \<Rightarrow> int \<Rightarrow> bytes \<Rightarrow> bytes option c_result" where
  "url_from h buf_size str =
     c_bind (if str \<noteq> [] \<and> hd str = CHR ''/'' then ci_headers_value h ''Host'' else Ret None) (\<lambda>host.
       if buf_size \<le> 0 then Undef
       else Ret (Some (url_bytes buf_size (map_option (\<lambda>p. drop p (hl_buf h)) host) str)))"

definition url_of :: "ci_headers_list \<Rightarrow> int \<Rightarrow> bytes option c_result" where
  "url_of h buf_size =
     (if hl_used h = 0 then Ret None
      else let first = cstr (drop (hl_headers h ! 0) (hl_buf h)) in
        if SP \<notin> set first then Ret None
        else url_from h buf_size (dropWhile (\<lambda>c. c = SP) (dropWhile (\<lambda>c. c \<noteq> SP) first)))"

definition ci_http_request_url :: "ci_request \<Rightarrow> int \<Rightarrow> bytes option c_result" where
  "ci_http_request_url req buf_size =
     (case ci_http_request_headers req of
        None \<Rightarrow> Ret None
      | Some l \<Rightarrow> c_bind (hdr_at req l) (\<lambda>h. url_of h buf_size))"

section \<open>Content encodings\<close>

definition CI_ENCODE_UNKNOWN :: int where "CI_ENCODE_UNKNOWN = -1"
definition CI_ENCODE_NONE :: int where "CI_ENCODE_NONE = 0"
definition CI_ENCODE_GZIP :: int where "CI_ENCODE_GZIP = 1"
definition CI_ENCODE_DEFLATE :: int where "CI_ENCODE_DEFLATE = 2"
definition CI_ENCODE_BZIP2 :: int where "CI_ENCODE_BZIP2 = 3"
definition CI_ENCODE_BROTLI :: int where "CI_ENCODE_BROTLI = 4"

definition strcasestr :: "bytes \<Rightarrow> bytes \<Rightarrow> bool" where
  "strcasestr s pat = (find_sub (map tolower_c pat) (map tolower_c (cstr s)) \<noteq> None)"

definition ci_encoding_method :: "bytes option \<Rightarrow> int" where
  "ci_encoding_method ce =
     (case ce of
        None \<Rightarrow> CI_ENCODE_NONE
      | Some s \<Rightarrow>
          if strcasestr s ''gzip'' then CI_ENCODE_GZIP
          else if strcasestr s ''deflate'' then CI_ENCODE_DEFLATE
          else if strcasestr s ''br'' then CI_ENCODE_BROTLI
          else if strcasestr s ''bzip2'' then CI_ENCODE_BZIP2
          else CI_ENCODE_UNKNOWN)"

definition ci_http_response_content_encoding :: "ci_request \<Rightarrow> int c_result" where
  "ci_http_response_content_encoding req =
     (case ci_http_response_headers req of
        None \<Rightarrow> Ret CI_ENCODE_UNKNOWN
      | Some l \<Rightarrow> c_bind (ci_http_response_get_header req ''Content-Encoding'') (\<lambda>v. Ret (ci_encoding_method v)))"

section \<open>A response made by a service\<close>

definition hdr_memory :: "ci_encaps_entity \<Rightarrow> bool" where
  "hdr_memory e \<longleftrightarrow> (\<exists>h. ee_entity e = Some h \<and> length (hl_buf h) = hl_bufsize h \<and> 2 \<le> hl_bufsize h)"

definition entities_ok :: "ci_request \<Rightarrow> bool" where
  "entities_ok req \<longleftrightarrow>
     length (rq_entities req) = 5 \<and> length (rq_trash req) = 7
     \<and> (\<forall>i < 5. \<forall>e. rq_entities req ! i = Some e \<longrightarrow> is_header_type (ee_type e) \<longrightarrow> hdr_memory e)
     \<and> (\<forall>t < 7. \<forall>e. rq_trash req ! t = Some e \<longrightarrow> is_header_type (int t) \<longrightarrow> hdr_memory e)"

lemma nth_update_cases: "xs[i := x] ! t = y \<Longrightarrow> (t = i \<and> x = y) \<or> xs ! t = y"
  by (cases "i = t"; cases "i < length xs") (auto simp: not_less list_update_beyond)

lemma release_entity_ok:
  assumes "entities_ok req" "i < 5"
  shows "entities_ok (fst (ci_request_release_entity req i))
    \<and> rq_entities (fst (ci_request_release_entity req i)) = (rq_entities req)[i := None]
    \<and> rq_packed (fst (ci_request_release_entity req i)) = rq_packed req"
proof (cases "rq_entities req ! i")
  case None
  then have "(rq_entities req)[i := None] = rq_entities req" by (metis list_update_id)
  then show ?thesis using assms(1) None by (simp add: ci_request_release_entity_def)
next
  case (Some e)
  then have m: "is_header_type (ee_type e) \<Longrightarrow> hdr_memory e" using assms by (auto simp: entities_ok_def)
  then have "entities_ok (fst (ci_request_release_entity req i))"
    using assms Some unfolding entities_ok_def
    by (auto simp: ci_request_release_entity_def split: if_splits dest!: nth_update_cases)
  then show ?thesis using Some by (simp add: ci_request_release_entity_def)
qed

lemma release_first_ok:
  "\<lbrakk>entities_ok req; n \<le> 5\<rbrakk> \<Longrightarrow> entities_ok (release_first n req)
     \<and> rq_entities (release_first n req) = replicate n None @ drop n (rq_entities req)
     \<and> rq_packed (release_first n req) = rq_packed req"
proof (induction n)
  case (Suc n)
  let ?r = "release_first n req"
  have r: "entities_ok ?r" "rq_entities ?r = replicate n None @ drop n (rq_entities req)"
      "rq_packed ?r = rq_packed req" "n < 5"
    using Suc by auto
  have "n < length (rq_entities req)" using Suc.prems by (simp add: entities_ok_def)
  then have "(rq_entities ?r)[n := None] = replicate (Suc n) None @ drop (Suc n) (rq_entities req)"
    by (simp add: r(2) list_update_append Cons_nth_drop_Suc [symmetric] replicate_app_Cons_same)
  then show ?case using release_entity_ok [OF r(1,4)] r(3) by (simp add: Let_def)
qed simp

lemma put_new_entity_spec:
  assumes "entities_ok req" "i < 5" "0 \<le> typ" "typ \<le> ICAP_OPT_BODY"
  shows "\<exists>e. rq_entities (put_new_entity g (\<lambda>_. True) typ i req) = (rq_entities req)[i := Some e]
    \<and> ee_type e = typ \<and> ee_start e = 0
    \<and> (is_header_type typ \<longrightarrow> (\<exists>h. ee_entity e = Some h \<and> hdr_rep h []))
    \<and> entities_ok (put_new_entity g (\<lambda>_. True) typ i req)
    \<and> rq_packed (put_new_entity g (\<lambda>_. True) typ i req) = rq_packed req"
proof (cases "rq_trash req ! nat typ")
  case None
  obtain h where h: "ci_headers_create g (\<lambda>_. True) = Some h" by (simp add: ci_headers_create_def)
  have "length (hl_buf h) = hl_bufsize h" "2 \<le> hl_bufsize h" "hdr_rep h []"
    using ci_headers_create_rep [OF h] by (auto simp: hdr_rep_def)
  then show ?thesis using None assms h
    by (auto simp: put_new_entity_def ci_request_alloc_entity_def mk_encaps_entity_def entities_ok_def
        nth_list_update hdr_memory_def)
next
  case (Some e)
  have "nat typ < 7" using assms(3,4) by (simp add: ICAP_OPT_BODY_def)
  then have m: "is_header_type typ \<Longrightarrow> hdr_memory e" using assms(1,3) Some by (auto simp: entities_ok_def)
  have rs: "\<lbrakk>length (hl_buf h) = hl_bufsize h; 2 \<le> hl_bufsize h\<rbrakk> \<Longrightarrow> hdr_rep (ci_headers_reset h) []" for h
    by (rule ci_headers_reset_rep)
  let ?e1 = "e\<lparr>ee_type := typ, ee_start := 0\<rparr>"
  let ?e = "if is_header_type typ then reset_entity_headers ?e1 else ?e1"
  have ent: "rq_entities (put_new_entity g (\<lambda>_. True) typ i req) = (rq_entities req)[i := Some ?e]"
      "rq_packed (put_new_entity g (\<lambda>_. True) typ i req) = rq_packed req"
      "rq_trash (put_new_entity g (\<lambda>_. True) typ i req) = (rq_trash req)[nat typ := None]"
    using assms Some by (simp_all add: put_new_entity_def ci_request_alloc_entity_def Let_def)
  have hd: "is_header_type typ \<Longrightarrow> \<exists>h. ee_entity ?e = Some h \<and> hdr_rep h []"
    using m rs by (auto simp: reset_entity_headers_def hdr_memory_def)
  have mem: "is_header_type typ \<Longrightarrow> hdr_memory ?e"
    using m by (auto simp: reset_entity_headers_def hdr_memory_def ci_headers_reset_def)
  have ty: "ee_type ?e = typ" "ee_start ?e = 0" by (simp_all add: reset_entity_headers_def)
  have "entities_ok (put_new_entity g (\<lambda>_. True) typ i req)"
    using assms(1,2) mem ty(1) unfolding entities_ok_def ent
    by (auto split: if_splits dest!: nth_update_cases)
  then show ?thesis using ent hd ty by blast
qed

lemma response_add_header_line:
  assumes "rq_entities req = [Some e, Some b, None, None, None]" "ee_type e = ICAP_RES_HDR"
    and "ee_entity e = Some h" "hdr_rep h ls" "\<not> rq_packed req" "NUL \<notin> set l"
  shows "\<exists>h'. ci_http_response_add_header g (\<lambda>_. True) req l
      = Ret (req\<lparr>rq_entities := [Some (e\<lparr>ee_entity := Some h'\<rparr>), Some b, None, None, None]\<rparr>, True)
    \<and> hdr_rep h' (ls @ [l])"
proof -
  obtain h' where "ci_headers_add g (\<lambda>_. True) h l = Ret (h', Some (length (hstore ls)))" "hdr_rep h' (ls @ [l])"
    by (rule add_rep [OF assms(4,6), of "\<lambda>_. True" g]) simp_all
  then show ?thesis using assms(1-3,5)
    by (intro exI [of _ h']) (simp add: ci_http_response_add_header_def add_header_def ci_http_response_headers_def usable_def
        hdr_at_def)
qed

definition add_response_line ::
  "(nat \<Rightarrow> char) \<Rightarrow> (nat \<Rightarrow> bool) \<Rightarrow> ci_request \<Rightarrow> bytes \<Rightarrow> ci_request c_result" where
  "add_response_line g ra req l = c_bind (ci_http_response_add_header g ra req l) (\<lambda>r. Ret (fst r))"

lemma add_response_lines:
  assumes "rq_entities req = [Some e, Some b, None, None, None]" "ee_type e = ICAP_RES_HDR"
    and "ee_entity e = Some h" "hdr_rep h ls" "\<not> rq_packed req" "\<forall>l \<in> set ms. NUL \<notin> set l"
  shows "\<exists>req' h'. add_lines (add_response_line g (\<lambda>_. True)) req ms = Ret req'
    \<and> rq_entities req' = [Some (e\<lparr>ee_entity := Some h'\<rparr>), Some b, None, None, None]
    \<and> hdr_rep h' (ls @ ms)"
  using assms
proof (induction ms arbitrary: req e h ls)
  case Nil
  then have "e\<lparr>ee_entity := Some h\<rparr> = e" by simp
  with Nil show ?case by (intro exI [of _ req] exI [of _ h]) simp
next
  case (Cons l ms)
  let ?req = "\<lambda>h'. req\<lparr>rq_entities := [Some (e\<lparr>ee_entity := Some h'\<rparr>), Some b, None, None, None]\<rparr>"
  obtain h' where h': "ci_http_response_add_header g (\<lambda>_. True) req l = Ret (?req h', True)"
      "hdr_rep h' (ls @ [l])"
    using response_add_header_line [OF Cons.prems(1-5)] Cons.prems(6) by (metis list.set_intros(1))
  have "\<exists>req' h''. add_lines (add_response_line g (\<lambda>_. True)) (?req h') ms = Ret req'
      \<and> rq_entities req' = [Some ((e\<lparr>ee_entity := Some h'\<rparr>)\<lparr>ee_entity := Some h''\<rparr>), Some b, None, None, None]
      \<and> hdr_rep h'' ((ls @ [l]) @ ms)"
    using Cons.prems h'(2) by (intro Cons.IH) simp_all
  then show ?case using h'(1) by (simp add: add_response_line_def [of g _ req])
qed

section \<open>The response header of a message\<close>

text \<open>Changing the header at its place; \<open>at_response\<close> is where the accessors find it.\<close>

definition at_response :: "ci_request \<Rightarrow> hdr_loc \<Rightarrow> ci_headers_list \<Rightarrow> bool" where
  "at_response req l h \<longleftrightarrow> ci_http_response_headers req = Some l \<and> hdr_at req l = Ret h"

definition drop_header :: "bytes \<Rightarrow> bytes list \<Rightarrow> bytes list" where
  "drop_header name ls = (case find_header name ls of None \<Rightarrow> ls | Some i \<Rightarrow> take i ls @ drop (Suc i) ls)"

lemma response_entity_Some:
  assumes "response_entity es i = Some j"
  shows "i \<le> j \<and> j - i < length es \<and> (\<exists>e. es ! (j - i) = Some e \<and> ee_type e = ICAP_RES_HDR)"
  using assms
proof (induction es i rule: response_entity.induct)
  case (1 e es i)
  then show ?case by (auto simp: Suc_diff_le nth_Cons' split: if_splits)
qed simp_all

lemma response_entity_update:
  assumes "response_entity es i = Some j" "ee_type e' = ICAP_RES_HDR"
  shows "response_entity (es[j - i := Some e']) i = Some j"
  using assms
proof (induction es i rule: response_entity.induct)
  case (1 e es i)
  show ?case
  proof (cases "3 \<le> i \<or> ee_type e = ICAP_RES_HDR")
    case True
    with 1 show ?thesis by (auto split: if_splits)
  next
    case False
    with 1 have r: "response_entity es (i + 1) = Some j" by simp
    then have "j - i = Suc (j - (i + 1))" using response_entity_Some [OF r] by linarith
    with False r 1 show ?thesis by simp
  qed
qed simp_all

lemma at_response_put:
  assumes "at_response req l h"
  shows "at_response (hdr_put req l h') l h'"
proof -
  obtain i where i: "response_entity (rq_entities req) 0 = Some i" "l = L_entity i"
    using assms by (auto simp: at_response_def ci_http_response_headers_def usable_def split: option.splits)
  obtain e where e: "i < length (rq_entities req)" "rq_entities req ! i = Some e" "ee_type e = ICAP_RES_HDR"
    using response_entity_Some [OF i(1)] by auto
  have "response_entity ((rq_entities req)[i := Some (e\<lparr>ee_entity := Some h'\<rparr>)]) 0 = Some i"
    using response_entity_update [OF i(1), of "e\<lparr>ee_entity := Some h'\<rparr>"] e(3) by simp
  with e i(2) show ?thesis
    by (simp add: at_response_def ci_http_response_headers_def usable_def hdr_at_def)
qed

lemma hdr_put_frame [simp]:
  "rq_packed (hdr_put req l h) = rq_packed req" "rq_type (hdr_put req l h) = rq_type req"
  "rq_data_locked (hdr_put req l h) = rq_data_locked req"
  by (cases l; simp)+

lemma hdr_put_same:
  assumes "hdr_at req l = Ret h"
  shows "hdr_put req l h = req"
proof -
  obtain e where e: "hdr_slot req l = Some e" "ee_entity e = Some h"
    using assms by (auto simp: hdr_at_def split: option.splits)
  have same: "e\<lparr>ee_entity := Some h\<rparr> = e" using e(2) by simp
  show ?thesis
  proof (cases l)
    case (L_entity i)
    then have "(rq_entities req)[i := Some e] = rq_entities req" using e(1) by (metis hdr_slot.simps(1) list_update_id)
    with L_entity e(1) same show ?thesis by (cases req) simp
  next
    case (L_trash i)
    then have "(rq_trash req)[i := Some e] = rq_trash req" using e(1) by (metis hdr_slot.simps(2) list_update_id)
    with L_trash e(1) same show ?thesis by (cases req) simp
  qed
qed

text \<open>All but the header at \<open>l\<close> is as it was.\<close>

definition hdr_changed :: "hdr_loc \<Rightarrow> ci_request \<Rightarrow> ci_request \<Rightarrow> bool" where
  "hdr_changed l req req' \<longleftrightarrow> (\<exists>h. req' = hdr_put req l h)"

lemma hdr_put_put: "hdr_put (hdr_put req l a) l b = hdr_put req l b"
proof (cases l)
  case (L_entity i)
  then show ?thesis by (cases "i < length (rq_entities req)") (simp_all add: option.map_comp comp_def list_update_beyond not_less)
next
  case (L_trash i)
  then show ?thesis by (cases "i < length (rq_trash req)") (simp_all add: option.map_comp comp_def list_update_beyond not_less)
qed

lemma hdr_changed_put [simp]: "hdr_changed l req (hdr_put req l h)"
  by (auto simp: hdr_changed_def)

lemma hdr_changed_refl: "at_response req l h \<Longrightarrow> hdr_changed l req req"
  unfolding hdr_changed_def at_response_def by (metis hdr_put_same)

lemma hdr_changed_trans: "\<lbrakk>hdr_changed l a b; hdr_changed l b c\<rbrakk> \<Longrightarrow> hdr_changed l a c"
  by (auto simp: hdr_changed_def hdr_put_put)

lemma response_add_at:
  assumes "at_response req l h" "hdr_rep h ls" "\<not> rq_packed req" "NUL \<notin> set line"
  obtains h' where "ci_http_response_add_header g (\<lambda>_. True) req line = Ret (hdr_put req l h', True)"
    "hdr_rep h' (ls @ [line])"
proof -
  obtain h' where "ci_headers_add g (\<lambda>_. True) h line = Ret (h', Some (length (hstore ls)))" "hdr_rep h' (ls @ [line])"
    by (rule add_rep [OF assms(2,4), of "\<lambda>_. True" g]) simp_all
  then show ?thesis using assms(1,3)
    by (intro that [of h']) (simp_all add: ci_http_response_add_header_def add_header_def at_response_def)
qed

lemma response_remove_at:
  assumes "at_response req l h" "hdr_rep h ls" "\<not> rq_packed req" "NUL \<notin> set name"
  obtains h' b where "ci_http_response_remove_header req name = Ret (hdr_put req l h', b)" "hdr_rep h' (drop_header name ls)"
proof (cases "find_header name ls")
  case None
  with remove_rep(1) [OF assms(2,4)] assms(1-3) show ?thesis
    by (intro that [of h False]) (simp_all add: ci_http_response_remove_header_def remove_header_def at_response_def drop_header_def hdr_put_same)
next
  case (Some i)
  with remove_rep(2) [OF assms(2,4), of i] assms(1-3) obtain h' where "ci_headers_remove h name = Ret (h', True)"
      "hdr_rep h' (drop_header name ls)"
    by (auto simp: drop_header_def)
  with assms(1,3) show ?thesis
    by (intro that [of h' True]) (simp_all add: ci_http_response_remove_header_def remove_header_def at_response_def)
qed

lemma response_add_lines_at:
  assumes "at_response req l h" "hdr_rep h ls" "\<not> rq_packed req" "\<forall>m \<in> set ms. NUL \<notin> set m"
  shows "\<exists>h' req'. add_lines (add_response_line g (\<lambda>_. True)) req ms = Ret req' \<and> at_response req' l h' \<and> hdr_rep h' (ls @ ms)
    \<and> rq_packed req' = rq_packed req \<and> rq_type req' = rq_type req \<and> hdr_changed l req req'"
  using assms
proof (induction ms arbitrary: req h ls)
  case Nil
  then show ?case by (auto intro: hdr_changed_refl)
next
  case (Cons m ms)
  obtain h1 where h1: "ci_http_response_add_header g (\<lambda>_. True) req m = Ret (hdr_put req l h1, True)" "hdr_rep h1 (ls @ [m])"
    by (rule response_add_at [OF Cons.prems(1-3)]) (use Cons.prems(4) in auto)
  from Cons.IH [OF at_response_put [OF Cons.prems(1)] h1(2)] Cons.prems(3,4)
  obtain h' req' where i: "add_lines (add_response_line g (\<lambda>_. True)) (hdr_put req l h1) ms = Ret req'" "at_response req' l h'"
      "hdr_rep h' ((ls @ [m]) @ ms)" "rq_packed req' = rq_packed req" "rq_type req' = rq_type req" "hdr_changed l (hdr_put req l h1) req'"
    by auto
  from h1(1)
  have "add_response_line g (\<lambda>_. True) req m = Ret (hdr_put req l h1)" by (simp add: add_response_line_def)
  with i(1-5) hdr_changed_trans [OF hdr_changed_put i(6)] show ?case by auto
qed

text \<open>
  C26.  A service that answers with a page of its own calls \<^verbatim>\<open>ci_http_response_create\<close> and adds the
  lines of the HTTP header one by one.  Whatever entities the request had before (reused ones
  included), it has exactly the response header and the body (or null-body) entity afterwards,
  in the order the protocol requires, and the header consists of the added lines, with nothing
  left of an older header.
\<close>

theorem response_create_lines:
  assumes "entities_ok req" "rq_entities req ! 4 = None" "\<not> rq_packed req" "\<forall>l \<in> set ls. NUL \<notin> set l"
  shows "\<exists>req' e b h. add_lines (add_response_line g (\<lambda>_. True))
        (ci_http_response_create g (\<lambda>_. True) req True has_body) ls = Ret req'
    \<and> rq_entities req' = [Some e, Some b, None, None, None]
    \<and> ee_type e = ICAP_RES_HDR \<and> ee_type b = (if has_body then ICAP_RES_BODY else ICAP_NULL_BODY)
    \<and> ee_entity e = Some h \<and> hdr_rep h ls"
proof -
  let ?r0 = "release_first 4 req" and ?t = "if has_body then ICAP_RES_BODY else ICAP_NULL_BODY"
  let ?r1 = "put_new_entity g (\<lambda>_. True) ICAP_RES_HDR 0 ?r0"
  let ?r2 = "put_new_entity g (\<lambda>_. True) ?t 1 ?r1"
  have l5: "length (rq_entities req) = 5" using assms(1) by (simp add: entities_ok_def)
  have "drop 4 (rq_entities req) = [None]"
    using l5 assms(2) Cons_nth_drop_Suc [of 4 "rq_entities req"] by simp
  with release_first_ok [OF assms(1), of 4]
  have r0: "entities_ok ?r0" "rq_entities ?r0 = [None, None, None, None, None]" "\<not> rq_packed ?r0"
    using assms(3) by (simp_all add: numeral_eq_Suc)
  obtain e h where e: "rq_entities ?r1 = (rq_entities ?r0)[0 := Some e]" "ee_type e = ICAP_RES_HDR"
      "ee_entity e = Some h" "hdr_rep h []" "entities_ok ?r1" "\<not> rq_packed ?r1"
    using put_new_entity_spec [OF r0(1), of 0 ICAP_RES_HDR g] r0(3)
    by (auto simp: ICAP_RES_HDR_def ICAP_OPT_BODY_def is_header_type_def)
  have "0 \<le> ?t" "?t \<le> ICAP_OPT_BODY" "1 < (5::nat)"
    by (simp_all add: ICAP_RES_BODY_def ICAP_NULL_BODY_def ICAP_OPT_BODY_def)
  then obtain b where b: "rq_entities ?r2 = (rq_entities ?r1)[1 := Some b]" "ee_type b = ?t" "\<not> rq_packed ?r2"
    using put_new_entity_spec [OF e(5), of 1 ?t g] e(6) by blast
  have cr: "ci_http_response_create g (\<lambda>_. True) req True has_body = ?r2"
    by (simp add: ci_http_response_create_def Let_def)
  have "rq_entities ?r2 = [Some e, Some b, None, None, None]" using b(1) e(1) r0(2) by simp
  from add_response_lines [OF this e(2-4) b(3) assms(4), of g] show ?thesis
    unfolding cr using e(2) b(2) by fastforce
qed

lemma example_entities_ok:
  "entities_ok (new_request\<lparr>rq_entities := [Some res_hdr_entity, Some res_body_entity, None, None, None]\<rparr>)"
  using two_headers_rep
  by (auto simp: entities_ok_def new_request_facts res_hdr_entity_def res_body_entity_def hdr_memory_def
      hdr_rep_def is_header_type_def ICAP_REQ_HDR_def ICAP_RES_HDR_def less_Suc_eq numeral_eq_Suc)

theorem response_create_lines_witness:
  "\<exists>req' e b h. add_lines (add_response_line (\<lambda>_. NUL) (\<lambda>_. True))
        (ci_http_response_create (\<lambda>_. NUL) (\<lambda>_. True)
           (new_request\<lparr>rq_entities := [Some res_hdr_entity, Some res_body_entity, None, None, None]\<rparr>) True True)
        [''HTTP/1.0 403 Forbidden'', ''Server: C-ICAP''] = Ret req'
    \<and> rq_entities req' = [Some e, Some b, None, None, None] \<and> ee_type b = ICAP_RES_BODY
    \<and> ee_entity e = Some h \<and> hdr_rep h [''HTTP/1.0 403 Forbidden'', ''Server: C-ICAP'']"
proof -
  have "\<not> rq_packed new_request" by (simp add: new_request_def ci_request_alloc_def ci_headers_create_def)
  with response_create_lines [OF example_entities_ok, of "[''HTTP/1.0 403 Forbidden'', ''Server: C-ICAP'']"
      "\<lambda>_. NUL" True]
  show ?thesis by auto
qed

text \<open>The URL and its final NUL fit in the buffer of the caller.\<close>

lemma url_bytes_length:
  assumes "0 < n"
  shows "int (length (url_bytes n host str)) < n"
proof -
  have u: "length (url_part r p s) \<le> nat r" for r p s by (simp add: url_part_def)
  show ?thesis
  proof (cases host)
    case None
    show ?thesis using u [of "n - 1" "\<lambda>c. c = CHR ''?''" str] assms
      by (simp add: None url_bytes_def)
  next
    case (Some v)
    let ?h = "url_part (n - 1) (\<lambda>_. False) v"
    show ?thesis using u [of "n - 1" "\<lambda>_. False" v] u [of "n - int (length ?h) - 1" "\<lambda>c. c = CHR ''?''" str] assms
      by (simp add: Some url_bytes_def Let_def)
  qed
qed

lemma url_from_fits: "url_from h n str = Ret (Some url) \<Longrightarrow> 0 < n \<and> int (length url) < n"
  by (auto simp: url_from_def c_bind_eq_Ret not_le url_bytes_length split: if_split_asm)

lemma url_of_fits: "url_of h n = Ret (Some url) \<Longrightarrow> 0 < n \<and> int (length url) < n"
  by (auto simp: url_of_def Let_def split: if_split_asm dest: url_from_fits)

lemma request_url_fits:
  "ci_http_request_url req n = Ret (Some url) \<Longrightarrow> 0 < n \<and> int (length url) < n"
  unfolding ci_http_request_url_def
  by (cases "ci_http_request_headers req") (auto simp: c_bind_eq_Ret dest: url_of_fits)

end
