(* ===== verification/Response.thy ===== *)
theory Response
  imports Request_Parse Simple_Api
begin

text \<open>
  The back half of \<^verbatim>\<open>request.c\<close>: the error and \<^verbatim>\<open>OPTIONS\<close> responses, the response header, and the
  state machine that sends the response header, the encapsulated headers and the body in chunks.

  A service is reached through function pointers; they are the fields of the record \<open>service_ops\<close>
  over a type of service data.  The bytes that go to the client are the second component of the
  results; each time the server waits for the connection to take bytes, an event tells how many it
  takes or that waiting or writing failed (no further event is a timeout).

  Proved: the send status only moves forward through its states; whatever the service supplies
  and however the connection takes the bytes, the response on the wire is the packed ICAP header,
  the encapsulated headers in order, one chunk per block of the service, and the last chunk.
\<close>

section \<open>The environment\<close>

record server_env =
  sv_version :: bytes
  sv_hostname :: bytes
  sv_allow204_as_200 :: bool
  sv_fake_allow204 :: bool
  sv_pipelining :: bool
  sv_buggy_client :: bool
  sv_services :: service_table

text \<open>
  The read and write function of a service gets the room in the buffer it may fill (nothing for a
  null pointer), the body bytes offered to it, whether these are the last, and the request with
  its own data; it answers with the bytes it put in the buffer, the two lengths it stores and its
  return value.  \<open>None\<close> is a call that does not return.
\<close>

type_synonym 's service_io =
  "nat option \<Rightarrow> bytes option \<Rightarrow> bool \<Rightarrow> ci_request \<times> 's \<Rightarrow> ((ci_request \<times> 's) \<times> bytes \<times> int \<times> int \<times> int) option"

record 's service_ops =
  so_init :: "(ci_request \<times> 's \<Rightarrow> (ci_request \<times> 's) \<times> bool) option"
  so_release :: "('s \<Rightarrow> 's c_result) option"
  so_preview :: "(bytes option \<Rightarrow> ci_request \<times> 's \<Rightarrow> ((ci_request \<times> 's) \<times> int) c_result option) option"
  so_end_of_data :: "(ci_request \<times> 's \<Rightarrow> ((ci_request \<times> 's) \<times> int) c_result option) option"
  so_io :: "'s service_io option"
  so_options :: "(bytes \<times> (ci_request \<Rightarrow> int)) list"

datatype net_write = W_ok | W_fail nat

fun wire_of :: "net_write \<Rightarrow> bytes \<Rightarrow> bytes" where
  "wire_of W_ok b = b"
| "wire_of (W_fail k) b = take k b"

section \<open>Error responses\<close>

definition status_line :: "int \<Rightarrow> bytes" where
  "status_line ec = ''ICAP/1.0 '' @ print_int (ci_error_code ec) @ '' '' @ ci_error_code_string ec"

definition ec_responce_simple :: "net_write \<Rightarrow> ci_request \<Rightarrow> int \<Rightarrow> ci_request \<times> bytes" where
  "ec_responce_simple w req ec =
     (let buf = take 255 (status_line ec @ CRLF @ CRLF) in
      (req\<lparr>rq_bytes_out := rq_bytes_out req + of_nat (length buf), rq_return_code := ec\<rparr>, wire_of w buf))"

definition add_xheaders ::
  "(nat \<Rightarrow> char) \<Rightarrow> (nat \<Rightarrow> bool) \<Rightarrow> ci_request \<Rightarrow> ci_headers_list \<Rightarrow> ci_headers_list c_result" where
  "add_xheaders g ra req h =
     (if hl_used (rq_xheaders req) = 0 then Ret h else append_list g ra h (rq_xheaders req))"

definition common_lines :: "server_env \<Rightarrow> bytes \<Rightarrow> bool \<Rightarrow> bytes list" where
  "common_lines sv status keepalive =
     [status, ''Server: C-ICAP/'' @ sv_version sv,
      if keepalive then ''Connection: keep-alive'' else ''Connection: close'']"

definition req_xdata :: "ci_request \<Rightarrow> ci_service_xdata option" where
  "req_xdata req = (case rq_service_mod req of None \<Rightarrow> None | Some m \<Rightarrow> mod_xdata m)"

definition ec_responce ::
  "(nat \<Rightarrow> char) \<Rightarrow> (nat \<Rightarrow> bool) \<Rightarrow> server_env \<Rightarrow> net_write \<Rightarrow> ci_request \<Rightarrow> int \<Rightarrow> (ci_request \<times> bytes \<times> int) c_result" where
  "ec_responce g ra sv w req ec0 =
     (let to200 = (ec0 = EC_204 \<and> sv_allow204_as_200 sv); ec = (if to200 then EC_200 else ec0);
          tag = (case req_xdata req of None \<Rightarrow> [] | Some x \<Rightarrow> [sx_ISTag x])
      in c_bind (add_lines (add_line g ra) (ci_headers_reset (rq_response_header req))
               (common_lines sv (take 255 (status_line ec)) (rq_keepalive req) @ tag)) (\<lambda>h1.
         c_bind (add_xheaders g ra req h1) (\<lambda>h2.
         c_bind (if to200 then
                   add_line g ra h2 (if rq_type req = ICAP_REQMOD then ''Encapsulated: req-hdr=0, null-body=0''
                                     else ''Encapsulated: res-hdr=0, null-body=0'')
                 else Ret h2) (\<lambda>h3.
         c_bind (ci_headers_pack h3) (\<lambda>h4.
           let req1 = req\<lparr>rq_response_header := h4, rq_return_code := ec, rq_status := SEND_EOF\<rparr> in
           Ret (case w of
                  W_ok \<Rightarrow> (req1\<lparr>rq_bytes_out := rq_bytes_out req + of_nat (hl_bufused h4)\<rparr>, wire_bytes h4,
                           int (hl_bufused h4))
                | W_fail k \<Rightarrow> (req1, take k (wire_bytes h4), -1)))))))"

section \<open>The response header\<close>

text \<open>For \<^verbatim>\<open>RESPMOD\<close> the request header is dropped and the entities move up.\<close>

definition drop_request_header :: "ci_request \<Rightarrow> ci_request c_result" where
  "drop_request_header req =
     (if rq_type req = ICAP_RESPMOD then
        case rq_entities req ! 0 of
          None \<Rightarrow> Undef
        | Some e \<Rightarrow>
            if ee_type e = ICAP_REQ_HDR then
              let r = fst (ci_request_release_entity req 0); es = rq_entities r in
              Ret (r\<lparr>rq_entities := es[0 := es ! 1, 1 := es ! 2, 2 := None]\<rparr>)
            else Ret req
      else Ret req)"

definition via_line :: "server_env \<Rightarrow> ci_service_module \<Rightarrow> bytes" where
  "via_line sv m =
     take 511 (''Via: ICAP/1.0 '' @ sv_hostname sv @ '' (C-ICAP/'' @ sv_version sv @ '' ''
       @ (case mod_short_descr m of Some d \<Rightarrow> d | None \<Rightarrow> mod_name m) @ '' )'')"

definition mk_responce_header ::
  "(nat \<Rightarrow> char) \<Rightarrow> (nat \<Rightarrow> bool) \<Rightarrow> server_env \<Rightarrow> ci_request \<Rightarrow> ci_request c_result" where
  "mk_responce_header g ra sv req =
     (case rq_service_mod req of
        None \<Rightarrow> Undef
      | Some m \<Rightarrow>
          if rq_return_code req < EC_100 \<or> EC_MAX \<le> rq_return_code req then Abort
          else (case mod_xdata m of
                  None \<Rightarrow> Undef
                | Some x \<Rightarrow>
                    c_bind (add_lines (add_line g ra) (ci_headers_reset (rq_response_header req))
                        (common_lines sv (take 511 (status_line (rq_return_code req))) (rq_keepalive req)
                         @ [sx_ISTag x])) (\<lambda>h1.
                    c_bind (add_xheaders g ra req h1) (\<lambda>h2.
                    c_bind (drop_request_header (req\<lparr>rq_response_header := h2\<rparr>)) (\<lambda>req1.
                    c_bind (if rq_type req1 = ICAP_RESPMOD then ci_http_response_add_header g ra req1 (via_line sv m)
                            else if rq_type req1 = ICAP_REQMOD then ci_http_request_add_header g ra req1 (via_line sv m)
                            else Ret (req1, False)) (\<lambda>(req2, _).
                    ci_response_pack g ra req2))))))"

section \<open>Sending blocks\<close>

datatype net_out = Out_fail | Out_take nat

fun block_bytes :: "ci_request \<Rightarrow> bytes option" where
  "block_bytes req =
     (case rq_block req of
        R_null \<Rightarrow> None
      | R_wbuf off \<Rightarrow> if off + nat (rq_remain req) \<le> length (rq_wbuf req)
                      then Some (seg off (nat (rq_remain req)) (rq_wbuf req)) else None
      | R_block b off \<Rightarrow> if off + nat (rq_remain req) \<le> length b
                         then Some (seg off (nat (rq_remain req)) b) else None)"

declare block_bytes.simps [simp del]

fun resp_add :: "resp_ptr \<Rightarrow> nat \<Rightarrow> resp_ptr" where
  "resp_add R_null n = R_null"
| "resp_add (R_wbuf off) n = R_wbuf (off + n)"
| "resp_add (R_block b off) n = R_block b (off + n)"

text \<open>
  One write of the current block; the result is the number of bytes that remain, or
  \<^verbatim>\<open>CI_ERROR\<close>.
\<close>

definition send_current_block_data :: "net_out \<Rightarrow> ci_request \<Rightarrow> (ci_request \<times> bytes \<times> int) c_result" where
  "send_current_block_data ev req =
     (if rq_remain req = 0 then Ret (req, [], 0)
      else case ev of
             Out_fail \<Rightarrow> Ret (req, [], CI_ERROR)
           | Out_take k \<Rightarrow>
               (if rq_remain req < 0 then Undef
                else case block_bytes req of
                       None \<Rightarrow> Undef
                     | Some b \<Rightarrow>
                         let n = min k (length b);
                             req1 = req\<lparr>rq_block := resp_add (rq_block req) n,
                                        rq_remain := rq_remain req - int n,
                                        rq_bytes_out := rq_bytes_out req + of_nat n\<rparr>;
                             req2 = (if SEND_HEAD1 \<le> rq_status req \<and> rq_status req \<le> SEND_HEAD3
                                     then req1\<lparr>rq_http_bytes_out := rq_http_bytes_out req + of_nat n\<rparr>
                                     else req1)
                         in Ret (req2, take n b, rq_remain req2)))"

fun body_entities :: "ci_encaps_entity option list \<Rightarrow> bool c_result" where
  "body_entities [] = Undef"
| "body_entities (None # es) = Ret True"
| "body_entities (Some e # es) = (if ee_type e = ICAP_NULL_BODY then Ret False else body_entities es)"

definition resp_check_body :: "ci_request \<Rightarrow> bool c_result" where
  "resp_check_body req = body_entities (rq_entities req)"

definition next_header :: "ci_request \<Rightarrow> int \<Rightarrow> ci_headers_list option c_result" where
  "next_header req status =
     (case rq_entities req ! nat (status - SEND_HEAD1) of
        None \<Rightarrow> Ret None
      | Some e \<Rightarrow>
          if is_header_type (ee_type e)
          then (case ee_entity e of None \<Rightarrow> Undef | Some h \<Rightarrow> Ret (Some h)) else Ret None)"

definition update_send_status ::
  "(nat \<Rightarrow> char) \<Rightarrow> (nat \<Rightarrow> bool) \<Rightarrow> server_env \<Rightarrow> ci_request \<Rightarrow> (ci_request \<times> int) c_result" where
  "update_send_status g ra sv req =
     (if rq_status req = SEND_NOTHING then
        c_bind (mk_responce_header g ra sv req) (\<lambda>req1.
        c_bind (resp_check_body req1) (\<lambda>b.
          let h = rq_response_header req1 in
          Ret (req1\<lparr>rq_responce_hasbody := b, rq_block := R_block (hl_buf h) 0,
                    rq_remain := int (hl_bufused h), rq_status := SEND_RESPHEAD\<rparr>, CI_OK)))
      else if rq_status req = SEND_EOF then
        Ret (req, if rq_remain req = 0 then CI_EOF else CI_OK)
      else if rq_status req = SEND_BODY then Ret (req, CI_OK)
      else
        let status = (if rq_status req < SEND_HEAD3 then rq_status req + 1 else rq_status req) in
        if SEND_RESPHEAD < status \<and> status < SEND_BODY then
          c_bind (next_header req status) (\<lambda>nh. case nh of
             Some h \<Rightarrow>
               Ret (req\<lparr>rq_block := R_block (hl_buf h) 0, rq_remain := int (hl_bufused h),
                        rq_status := status\<rparr>, CI_OK)
           | None \<Rightarrow>
               if rq_responce_hasbody req then Ret (req\<lparr>rq_status := SEND_BODY\<rparr>, CI_OK)
               else Ret (req\<lparr>rq_status := SEND_EOF, rq_block := R_null, rq_remain := 0\<rparr>, CI_EOF))
        else Ret (req, CI_ERROR))"

section \<open>Input and output of the body\<close>

text \<open>The two services of the server itself: one that drops the body, one that echoes it.\<close>

definition mod_null_io :: "'s service_io" where
  "mod_null_io room data iseof rs =
     Some (rs, [], (if iseof then CI_EOF else 0), (case data of None \<Rightarrow> 0 | Some d \<Rightarrow> int (length d)), CI_OK)"

definition echo_write :: "bytes option \<Rightarrow> ci_ring_buf \<Rightarrow> (ci_ring_buf \<times> int) option" where
  "echo_write data b = (case data of None \<Rightarrow> Some (b, 0) | Some d \<Rightarrow> ci_ring_buf_write b d)"

definition echo_read :: "nat option \<Rightarrow> ci_ring_buf \<Rightarrow> (ci_ring_buf \<times> bytes) option" where
  "echo_read room b = (case room of None \<Rightarrow> Some (b, []) | Some n \<Rightarrow> ci_ring_buf_read b n)"

text \<open>On an error the length for the bytes read keeps the value it came with.\<close>

definition len_of :: "nat option \<Rightarrow> int" where
  "len_of room = (case room of None \<Rightarrow> 0 | Some n \<Rightarrow> int n)"

definition mod_echo_io :: "'s service_io" where
  "mod_echo_io room data iseof rs =
     (case rs of (req, s) \<Rightarrow>
        (case rq_echo_body req of
           None \<Rightarrow> Some ((req, s), [], len_of room, (case data of None \<Rightarrow> 0 | Some d \<Rightarrow> int (length d)), CI_ERROR)
         | Some b \<Rightarrow>
             (case echo_write data b of
                None \<Rightarrow> None
              | Some (b1, rlen) \<Rightarrow>
                  if rlen < 0 then Some ((req\<lparr>rq_echo_body := Some b1\<rparr>, s), [], len_of room, rlen, CI_ERROR)
                  else (case echo_read room b1 of
                          None \<Rightarrow> None
                        | Some (b2, out) \<Rightarrow>
                            let wlen = (if room \<noteq> None \<and> out = [] \<and> rq_eof_received req then CI_EOF
                                        else int (length out))
                            in Some ((req\<lparr>rq_echo_body := Some b2\<rparr>, s), out, wlen, rlen, CI_OK)))))"

definition pick_io :: "'s service_ops \<Rightarrow> ci_request \<Rightarrow> 's service_io option" where
  "pick_io so req = (if rq_echo_body req \<noteq> None then Some mod_echo_io else so_io so)"

text \<open>
  \<^verbatim>\<open>send_remaining_response\<close>.  Its inner loop sends the current block; the flag is false when it
  returned with \<^verbatim>\<open>CI_ERROR\<close>.
\<close>

fun send_block_loop :: "net_out list \<Rightarrow> ci_request \<Rightarrow> (ci_request \<times> bytes \<times> bool \<times> net_out list) c_result" where
  "send_block_loop [] req = Ret (req, [], rq_remain req \<le> 0, [])"
| "send_block_loop (ev # es) req =
     (if rq_remain req \<le> 0 then Ret (req, [], True, ev # es)
      else c_bind (send_current_block_data ev req) (\<lambda>(req1, out, st).
        if st = CI_ERROR then Ret (req1, out, False, es)
        else c_bind (send_block_loop es req1) (\<lambda>(req2, out2, ok, es2). Ret (req2, out @ out2, ok, es2))))"

text \<open>
  The body step asks the service for a block of at most \<^verbatim>\<open>MAX_CHUNK_SIZE\<close> bytes behind the space
  for the chunk definition and makes a chunk of it.  Its result is the state, and \<open>None\<close> to go on
  or the status with which the loop is left.
\<close>

definition apply_format :: "ci_request \<Rightarrow> (ci_request \<times> int) c_result" where
  "apply_format req =
     (let use206 = (if rq_return_code req = EC_206 \<and> 0 \<le> rq_i206 req then Some (rq_i206 req) else None);
          off = (case rq_block req of R_wbuf off \<Rightarrow> off | _ \<Rightarrow> 0)
      in c_bind (format_body_chunk (rq_responce_hasbody req) use206 (rq_wbuf req) off (rq_remain req))
           (\<lambda>(w, off1, remain, n, st).
              Ret (if rq_responce_hasbody req \<and> (0 < rq_remain req \<or> rq_remain req = CI_EOF)
                   then req\<lparr>rq_wbuf := w, rq_block := R_wbuf off1, rq_remain := remain,
                            rq_http_bytes_out := rq_http_bytes_out req + of_nat n,
                            rq_body_bytes_out := rq_body_bytes_out req + of_nat n\<rparr>
                   else req, st)))"

definition body_step ::
  "'s service_io \<Rightarrow> ci_request \<times> 's \<Rightarrow> ((ci_request \<times> 's) \<times> int option) c_result option" where
  "body_step sio rs =
     (case rs of (req, s) \<Rightarrow>
        if rq_status req = SEND_BODY \<and> rq_remain req = 0 then
          (case sio (Some MAX_CHUNK_SIZE) None True
                 (req\<lparr>rq_block := R_wbuf EXTRA_CHUNK_SIZE, rq_remain := int MAX_CHUNK_SIZE\<rparr>, s) of
             None \<Rightarrow> None
           | Some ((req1, s1), out, wlen, _, _) \<Rightarrow>
               let req2 = req1\<lparr>rq_wbuf := mem_write EXTRA_CHUNK_SIZE out (rq_wbuf req1), rq_remain := wlen\<rparr> in
               if wlen = CI_ERROR then Some (Ret ((req2, s1), Some CI_ERROR))
               else if wlen = 0 then Some (Ret ((req2, s1), Some CI_OK))
               else Some (c_bind (apply_format req2) (\<lambda>(req3, st).
                      Ret ((if st = CI_EOF then req3\<lparr>rq_status := SEND_EOF\<rparr> else req3, s1), None))))
        else Some (Ret ((req, s), None)))"

text \<open>
  A \<^verbatim>\<open>break\<close> with an empty block leaves the last status, which is not \<^verbatim>\<open>CI_ERROR\<close>, so the function
  returns \<^verbatim>\<open>CI_OK\<close>.
\<close>

fun prepend_out :: "bytes \<Rightarrow> ('r \<times> bytes \<times> int \<times> 'e) c_result \<Rightarrow> ('r \<times> bytes \<times> int \<times> 'e) c_result" where
  "prepend_out out (Ret (rs, out2, st, es)) = Ret (rs, out @ out2, st, es)"
| "prepend_out out r = r"

partial_function (option) send_loop ::
  "(nat \<Rightarrow> char) \<Rightarrow> (nat \<Rightarrow> bool) \<Rightarrow> server_env \<Rightarrow> 's service_io \<Rightarrow> net_out list \<Rightarrow> ci_request \<times> 's
   \<Rightarrow> ((ci_request \<times> 's) \<times> bytes \<times> int \<times> net_out list) c_result option" where
  [code]: "send_loop g ra sv sio es rs =
     (case send_block_loop es (fst rs) of
        Abort \<Rightarrow> Some Abort
      | Undef \<Rightarrow> Some Undef
      | Ret (req1, out, ok, es1) \<Rightarrow>
          if \<not> ok then Some (Ret ((req1, snd rs), out, CI_ERROR, es1))
          else (case body_step sio (req1, snd rs) of
                  None \<Rightarrow> None
                | Some Abort \<Rightarrow> Some Abort
                | Some Undef \<Rightarrow> Some Undef
                | Some (Ret (rs2, Some st)) \<Rightarrow> Some (Ret (rs2, out, st, es1))
                | Some (Ret (rs2, None)) \<Rightarrow>
                    (case update_send_status g ra sv (fst rs2) of
                       Abort \<Rightarrow> Some Abort
                     | Undef \<Rightarrow> Some Undef
                     | Ret (req3, st) \<Rightarrow>
                         if 0 \<le> st then
                           Option.bind (send_loop g ra sv sio es1 (req3, snd rs2)) (\<lambda>r. Some (prepend_out out r))
                         else Some (Ret ((req3, snd rs2), out, if st = CI_ERROR then st else CI_OK, es1)))))"

definition send_remaining_response ::
  "(nat \<Rightarrow> char) \<Rightarrow> (nat \<Rightarrow> bool) \<Rightarrow> server_env \<Rightarrow> 's service_ops \<Rightarrow> net_out list \<Rightarrow> ci_request \<times> 's
   \<Rightarrow> ((ci_request \<times> 's) \<times> bytes \<times> int \<times> net_out list) c_result option" where
  "send_remaining_response g ra sv so es rs =
     (case pick_io so (fst rs) of
        None \<Rightarrow> Some (Ret (rs, [], CI_ERROR, es))
      | Some sio \<Rightarrow>
          if rq_status (fst rs) = SEND_EOF \<and> rq_remain (fst rs) = 0 then Some (Ret (rs, [], CI_OK, es))
          else send_loop g ra sv sio es rs)"

section \<open>The answer to OPTIONS\<close>

definition MAX_HEADER_SIZE :: nat where "MAX_HEADER_SIZE = 1023"

definition CI_XCLIENTIP :: "32 word" where "CI_XCLIENTIP = 1"
definition CI_XSERVERIP :: "32 word" where "CI_XSERVERIP = 2"
definition CI_XSUBSCRIBERID :: "32 word" where "CI_XSUBSCRIBERID = 4"
definition CI_XAUTHENTICATEDUSER :: "32 word" where "CI_XAUTHENTICATEDUSER = 8"
definition CI_XAUTHENTICATEDGROUPS :: "32 word" where "CI_XAUTHENTICATEDGROUPS = 16"

text \<open>
  \<^verbatim>\<open>run_services_option_handlers\<close> of \<^verbatim>\<open>service.c\<close>: the first handler that fails ends it and is named
  in an extra header.
\<close>

fun run_services_option_handlers ::
  "(nat \<Rightarrow> char) \<Rightarrow> (nat \<Rightarrow> bool) \<Rightarrow> (bytes \<times> (ci_request \<Rightarrow> int)) list \<Rightarrow> ci_request \<Rightarrow> (ci_request \<times> int) c_result" where
  "run_services_option_handlers g ra [] req = Ret (req, CI_OK)"
| "run_services_option_handlers g ra ((name, handler) # hs) req =
     (if handler req \<noteq> CI_OK then
        c_bind (ci_icap_add_xheader g ra req (take 1023 (''X-C-ICAP-Fail: '' @ name))) (\<lambda>(req1, _).
          Ret (req1, CI_ERROR))
      else run_services_option_handlers g ra hs req)"

definition methods_line :: "ci_service_module \<Rightarrow> bytes" where
  "methods_line m =
     ''Methods: '' @ (if ci_method_support (mod_type m) ICAP_RESPMOD
                      then ''RESPMOD'' @ (if ci_method_support (mod_type m) ICAP_REQMOD then '', REQMOD'' else [])
                      else ''REQMOD'')"

definition transfer_lines :: "ci_service_xdata \<Rightarrow> bytes list" where
  "transfer_lines x =
     (let tp = (if sx_TransferPreview x \<noteq> [] \<and> 0 \<le> sx_preview_size x then [sx_TransferPreview x] else []);
          ti = (if sx_TransferIgnore x \<noteq> [] then [sx_TransferIgnore x] else []);
          tc = (if sx_TransferComplete x \<noteq> [] then [sx_TransferComplete x] else []);
          t = tp @ ti @ tc
      in t @ (if t = [] \<and> 0 \<le> sx_preview_size x then [''Transfer-Preview: *''] else []))"

fun join :: "bytes list \<Rightarrow> bytes" where
  "join [] = []"
| "join [x] = x"
| "join (x # xs) = x @ '', '' @ join xs"

text \<open>The local copy \<^verbatim>\<open>xopts\<close> of the 64-bit options has 32 bits.\<close>

definition include_names :: "32 word \<Rightarrow> bytes list" where
  "include_names xopts =
     (if has_flag xopts CI_XCLIENTIP then [''X-Client-IP''] else [])
     @ (if has_flag xopts CI_XSERVERIP then [''X-Server-IP''] else [])
     @ (if has_flag xopts CI_XSUBSCRIBERID then [''X-Subscriber-ID''] else [])
     @ (if has_flag xopts CI_XAUTHENTICATEDUSER then [''X-Authenticated-User''] else [])
     @ (if has_flag xopts CI_XAUTHENTICATEDGROUPS then [''X-Authenticated-Groups''] else [])"

definition include_line :: "32 word \<Rightarrow> bytes list" where
  "include_line xopts =
     (if include_names xopts = [] then [] else [''X-Include: '' @ join (include_names xopts)])"

definition options_lines :: "server_env \<Rightarrow> bytes \<Rightarrow> bool \<Rightarrow> ci_service_module \<Rightarrow> ci_service_xdata \<Rightarrow> bytes list" where
  "options_lines sv date ok m x =
     [if ok then ''ICAP/1.0 200 OK'' else ''ICAP/1.0 500 Server Error'', methods_line m,
      take (MAX_HEADER_SIZE - 1) (''Service: C-ICAP/'' @ sv_version sv @ '' server - ''
        @ (case mod_short_descr m of Some d \<Rightarrow> d | None \<Rightarrow> mod_name m)),
      sx_ISTag x]
     @ transfer_lines x
     @ [if 0 < sx_options_ttl x then ''Options-TTL: '' @ print_int (sx_options_ttl x) else ''Options-TTL: 3600'',
        ''Date: '' @ date]
     @ (if 0 \<le> sx_preview_size x then [''Preview: '' @ print_int (sx_preview_size x)] else [])
     @ (if 0 \<le> sx_max_connections x then [''Max-Connections: '' @ print_int (sx_max_connections x)] else [])
     @ (if sx_allow_204 x \<and> sx_allow_206 x then [''Allow: 204, 206'']
        else if sx_allow_204 x then [''Allow: 204''] else [])
     @ include_line (ucast (sx_xopts x))"

text \<open>The last loop sends the header until it is out or writing fails.\<close>

definition options_responce ::
  "(nat \<Rightarrow> char) \<Rightarrow> (nat \<Rightarrow> bool) \<Rightarrow> server_env \<Rightarrow> bytes \<Rightarrow> 's service_ops \<Rightarrow> net_out list \<Rightarrow> ci_request
   \<Rightarrow> (ci_request \<times> bytes \<times> net_out list) c_result" where
  "options_responce g ra sv date so es req0 =
     (let req = req0\<lparr>rq_return_code := EC_200, rq_response_header := ci_headers_reset (rq_response_header req0)\<rparr> in
      case rq_service_mod req of
        None \<Rightarrow> Undef
      | Some m \<Rightarrow>
          (case mod_xdata m of
             None \<Rightarrow> Undef
           | Some x \<Rightarrow>
               c_bind (run_services_option_handlers g ra (so_options so) req) (\<lambda>(req1, rc).
               c_bind (add_lines (add_line g ra) (rq_response_header req1) (options_lines sv date (rc = CI_OK) m x)) (\<lambda>h1.
               c_bind (add_xheaders g ra req1 h1) (\<lambda>h2.
               c_bind (ci_response_pack g ra (req1\<lparr>rq_response_header := h2\<rparr>)) (\<lambda>req2.
               let h = rq_response_header req2 in
               c_bind (send_block_loop es (req2\<lparr>rq_block := R_block (hl_buf h) 0, rq_remain := int (hl_bufused h)\<rparr>))
                 (\<lambda>(req3, out, _, es1). Ret (req3, out, es1))))))))"

section \<open>What goes on the wire\<close>

text \<open>Sending the current block, with a connection that takes at least one byte each time.\<close>

definition progress :: "nat list \<Rightarrow> nat \<Rightarrow> bool" where
  "progress ks n \<longleftrightarrow> (\<forall>k \<in> set ks. 1 \<le> k) \<and> n \<le> length ks"

definition current_block :: "ci_request \<Rightarrow> bytes \<Rightarrow> bool" where
  "current_block req blk \<longleftrightarrow>
     rq_remain req = int (length blk) \<and> (blk \<noteq> [] \<longrightarrow> block_bytes req = Some blk)"

lemma seg_tail: "\<lbrakk>seg off n b = blk; off + n \<le> length b; k \<le> n\<rbrakk> \<Longrightarrow> seg (off + k) (n - k) b = drop k blk"
  by (auto simp: drop_seg)

lemma block_bytes_advance:
  assumes "block_bytes req = Some blk" "rq_remain req = int (length blk)" "k \<le> length blk"
    and "rq_block q = resp_add (rq_block req) k" "rq_remain q = rq_remain req - int k" "rq_wbuf q = rq_wbuf req"
  shows "block_bytes q = Some (drop k blk)"
proof -
  have "nat (rq_remain q) = length blk - k" using assms by (simp add: nat_diff_distrib)
  then show ?thesis using assms
    by (cases "rq_block req")
      (auto simp: block_bytes.simps seg_tail split: if_splits)
qed

lemma sent_refl:
  "rq_remain req = 0 \<Longrightarrow> req\<lparr>rq_block := rq_block req, rq_remain := 0, rq_bytes_out := rq_bytes_out req,
     rq_http_bytes_out := rq_http_bytes_out req\<rparr> = req"
  by simp

text \<open>One write sends a non-empty part of the block.\<close>

lemma send_current_step:
  assumes "current_block req blk" "blk \<noteq> []" "1 \<le> k"
  obtains m z where "1 \<le> m" "m \<le> length blk"
    "send_current_block_data (Out_take k) req =
       Ret (req\<lparr>rq_block := resp_add (rq_block req) m, rq_remain := rq_remain req - int m,
              rq_bytes_out := rq_bytes_out req + of_nat m, rq_http_bytes_out := z\<rparr>, take m blk,
            int (length blk - m))"
    "current_block (req\<lparr>rq_block := resp_add (rq_block req) m, rq_remain := rq_remain req - int m,
       rq_bytes_out := rq_bytes_out req + of_nat m, rq_http_bytes_out := z\<rparr>) (drop m blk)"
proof -
  have b: "block_bytes req = Some blk" "rq_remain req = int (length blk)" "0 < rq_remain req"
    using assms by (simp_all add: current_block_def)
  define m where "m = min k (length blk)"
  have m: "1 \<le> m" "m \<le> length blk"
    using assms(2,3) by (auto simp: Suc_le_eq m_def)
  define z where "z = (if SEND_HEAD1 \<le> rq_status req \<and> rq_status req \<le> SEND_HEAD3
      then rq_http_bytes_out req + of_nat m else rq_http_bytes_out req)"
  let ?q = "req\<lparr>rq_block := resp_add (rq_block req) m, rq_remain := rq_remain req - int m,
      rq_bytes_out := rq_bytes_out req + of_nat m, rq_http_bytes_out := z\<rparr>"
  have "send_current_block_data (Out_take k) req = Ret (?q, take m blk, int (length blk - m))"
    using b m by (simp add: send_current_block_data_def Let_def z_def m_def [symmetric])
  moreover have "block_bytes ?q = Some (drop m blk)"
    using b m by (intro block_bytes_advance [of req]) simp_all
  then have "current_block ?q (drop m blk)"
    using b(2) m(2) by (simp add: current_block_def of_nat_diff)
  ultimately show ?thesis using m by (intro that [of m z]) simp_all
qed

lemma send_block_all:
  assumes "current_block req blk" "progress ks (length blk + n)"
  shows "\<exists>ks' x y z. send_block_loop (map Out_take ks) req
      = Ret (req\<lparr>rq_block := x, rq_remain := 0, rq_bytes_out := y, rq_http_bytes_out := z\<rparr>, blk, True, map Out_take ks')
      \<and> progress ks' n"
  using assms
proof (induction ks arbitrary: req blk)
  case Nil
  then have "blk = []" "n = 0" by (auto simp: progress_def)
  with Nil have "rq_remain req = 0" by (simp add: current_block_def)
  with \<open>blk = []\<close> \<open>n = 0\<close> show ?case
    by (intro exI [of _ "[]"] exI [of _ "rq_block req"] exI [of _ "rq_bytes_out req"]
        exI [of _ "rq_http_bytes_out req"]) (simp add: progress_def sent_refl)
next
  case (Cons k ks)
  show ?case
  proof (cases "blk = []")
    case True
    then have "rq_remain req = 0" using Cons.prems by (simp add: current_block_def)
    then show ?thesis using True Cons.prems(2)
      by (intro exI [of _ "k # ks"] exI [of _ "rq_block req"] exI [of _ "rq_bytes_out req"]
          exI [of _ "rq_http_bytes_out req"]) (simp add: progress_def sent_refl)
  next
    case False
    obtain m z where m: "1 \<le> m" "m \<le> length blk" and step: "send_current_block_data (Out_take k) req =
        Ret (req\<lparr>rq_block := resp_add (rq_block req) m, rq_remain := rq_remain req - int m,
               rq_bytes_out := rq_bytes_out req + of_nat m, rq_http_bytes_out := z\<rparr>, take m blk,
             int (length blk - m))"
      and cur: "current_block (req\<lparr>rq_block := resp_add (rq_block req) m, rq_remain := rq_remain req - int m,
        rq_bytes_out := rq_bytes_out req + of_nat m, rq_http_bytes_out := z\<rparr>) (drop m blk)"
      using send_current_step [OF Cons.prems(1) False, of k] Cons.prems(2) by (auto simp: progress_def)
    let ?q = "req\<lparr>rq_block := resp_add (rq_block req) m, rq_remain := rq_remain req - int m,
        rq_bytes_out := rq_bytes_out req + of_nat m, rq_http_bytes_out := z\<rparr>"
    have b: "0 < rq_remain req" using Cons.prems(1) False by (simp add: current_block_def)
    note cur
    moreover have "progress ks (length (drop m blk) + n)"
      using Cons.prems(2) m by (auto simp: progress_def)
    ultimately obtain ks' x y z' where r: "send_block_loop (map Out_take ks) ?q
        = Ret (?q\<lparr>rq_block := x, rq_remain := 0, rq_bytes_out := y, rq_http_bytes_out := z'\<rparr>, drop m blk, True,
               map Out_take ks')" "progress ks' n"
      using Cons.IH [of ?q "drop m blk"] by blast
    have "int (length blk - m) \<noteq> CI_ERROR" by (simp add: CI_ERROR_def)
    then show ?thesis using b step r
      by (intro exI [of _ ks'] exI [of _ x] exI [of _ y] exI [of _ z']) simp
  qed
qed

text \<open>
  C28.  \<^verbatim>\<open>update_send_status\<close> is a state machine that only moves forward: from any of its states it
  reaches a state that is not before it, it never reports an error (the branch marked as not
  reachable in the code is not), and it reports the end only in \<^verbatim>\<open>SEND_EOF\<close> with nothing left to
  send.
\<close>

theorem update_send_status_forward:
  assumes "SEND_NOTHING \<le> rq_status req" "rq_status req \<le> SEND_EOF"
    and "update_send_status g ra sv req = Ret (q, st)"
  shows "rq_status req \<le> rq_status q \<and> rq_status q \<le> SEND_EOF \<and> st \<noteq> CI_ERROR
    \<and> (st = CI_EOF \<longrightarrow> rq_status q = SEND_EOF \<and> rq_remain q = 0)
    \<and> (rq_status q = rq_status req \<longrightarrow> rq_status req \<in> {SEND_HEAD3, SEND_BODY, SEND_EOF})"
proof -
  consider "rq_status req = SEND_NOTHING" | "rq_status req = SEND_EOF" | "rq_status req = SEND_BODY"
    | "SEND_RESPHEAD \<le> rq_status req" "rq_status req \<le> SEND_HEAD3"
    using assms(1,2) by (force simp: ci_consts)
  then show ?thesis
  proof cases
    case 4
    define t where "t = (if rq_status req < SEND_HEAD3 then rq_status req + 1 else rq_status req)"
    have t: "SEND_RESPHEAD < t" "t < SEND_BODY" "rq_status req \<le> t" "t = rq_status req \<longrightarrow> t = SEND_HEAD3"
      using 4 by (auto simp: t_def ci_consts)
    have "update_send_status g ra sv req = c_bind (next_header req t) (\<lambda>nh. case nh of
             Some h \<Rightarrow> Ret (req\<lparr>rq_block := R_block (hl_buf h) 0, rq_remain := int (hl_bufused h), rq_status := t\<rparr>, CI_OK)
           | None \<Rightarrow>
               if rq_responce_hasbody req then Ret (req\<lparr>rq_status := SEND_BODY\<rparr>, CI_OK)
               else Ret (req\<lparr>rq_status := SEND_EOF, rq_block := R_null, rq_remain := 0\<rparr>, CI_EOF))"
    proof -
      have "rq_status req \<noteq> SEND_NOTHING" "rq_status req \<noteq> SEND_EOF" "rq_status req \<noteq> SEND_BODY"
        using 4 by (auto simp: ci_consts)
      with t(1,2) show ?thesis unfolding update_send_status_def Let_def t_def [symmetric] by simp
    qed
    from this [symmetric] have "\<exists>nh. next_header req t = Ret nh \<and> (case nh of
             Some h \<Rightarrow> Ret (req\<lparr>rq_block := R_block (hl_buf h) 0, rq_remain := int (hl_bufused h), rq_status := t\<rparr>, CI_OK)
           | None \<Rightarrow>
               if rq_responce_hasbody req then Ret (req\<lparr>rq_status := SEND_BODY\<rparr>, CI_OK)
               else Ret (req\<lparr>rq_status := SEND_EOF, rq_block := R_null, rq_remain := 0\<rparr>, CI_EOF)) = Ret (q, st)"
      unfolding assms(3) by (rule c_bind_eq_Ret [THEN iffD1])
    then obtain nh :: "ci_headers_list option" where nh: "(case nh of
             Some h \<Rightarrow> Ret (req\<lparr>rq_block := R_block (hl_buf h) 0, rq_remain := int (hl_bufused h), rq_status := t\<rparr>, CI_OK)
           | None \<Rightarrow>
               if rq_responce_hasbody req then Ret (req\<lparr>rq_status := SEND_BODY\<rparr>, CI_OK)
               else Ret (req\<lparr>rq_status := SEND_EOF, rq_block := R_null, rq_remain := 0\<rparr>, CI_EOF)) = Ret (q, st)"
      by blast
    show ?thesis
    proof (cases nh)
      case None
      with nh 4 show ?thesis by (cases "rq_responce_hasbody req") (auto simp: ci_consts)
    next
      case (Some h)
      with nh 4 t show ?thesis by (auto simp: ci_consts)
    qed
  qed (use assms(3) in \<open>auto simp: update_send_status_def ci_consts Let_def c_bind_eq_Ret split: if_splits\<close>)
qed

theorem update_send_status_forward_witness:
  "\<exists>q. update_send_status (\<lambda>_. NUL) (\<lambda>_. True)
        \<lparr>sv_version = ''0.5'', sv_hostname = ''h'', sv_allow204_as_200 = False, sv_fake_allow204 = True,
          sv_pipelining = True, sv_buggy_client = False,
          sv_services = \<lparr>st_services = [], st_aliases = [], st_default = None\<rparr>\<rparr>
        (new_request\<lparr>rq_status := SEND_HEAD1\<rparr>) = Ret (q, CI_EOF)
      \<and> rq_status q = SEND_EOF \<and> rq_remain q = 0"
proof -
  let ?r = "new_request\<lparr>rq_status := SEND_HEAD1\<rparr>"
  let ?sv = "\<lparr>sv_version = ''0.5'', sv_hostname = ''h'', sv_allow204_as_200 = False, sv_fake_allow204 = True,
          sv_pipelining = True, sv_buggy_client = False,
          sv_services = \<lparr>st_services = [], st_aliases = [], st_default = None\<rparr>\<rparr>"
  let ?q = "?r\<lparr>rq_status := SEND_EOF, rq_block := R_null, rq_remain := 0\<rparr>"
  have "\<not> rq_responce_hasbody new_request"
    by (simp add: new_request_def ci_request_alloc_def ci_headers_create_def)
  then have "update_send_status (\<lambda>_. NUL) (\<lambda>_. True) ?sv ?r = Ret (?q, CI_EOF)"
    by (simp add: update_send_status_def next_header_def new_request_facts ci_consts Let_def)
  with update_send_status_forward [of ?r "\<lambda>_. NUL" "\<lambda>_. True" ?sv ?q CI_EOF] show ?thesis
    by (auto simp: SEND_NOTHING_def SEND_HEAD1_def SEND_EOF_def)
qed

section \<open>A service as a source of body blocks\<close>

text \<open>
  What the sending loop relies on: in the states \<open>ok\<close>, a call of the read function with a whole
  buffer gives the next of the blocks \<open>src\<close>, none of them empty or larger than the buffer, and the
  end of data after the last; of the request it changes at most the echo buffer.
\<close>

definition io_frame :: "ci_request \<Rightarrow> ci_request \<Rightarrow> bool" where
  "io_frame req q \<longleftrightarrow> q = req\<lparr>rq_echo_body := rq_echo_body q\<rparr>"

definition source_view :: "ci_request \<Rightarrow> ci_request \<Rightarrow> bool" where
  "source_view r q \<longleftrightarrow> rq_echo_body r = rq_echo_body q \<and> rq_eof_received r = rq_eof_received q"

locale body_source =
  fixes sio :: "'s service_io"
    and ok :: "ci_request \<times> 's \<Rightarrow> bool"
    and src :: "ci_request \<times> 's \<Rightarrow> bytes list"
  assumes view: "source_view r q \<Longrightarrow> ok (r, s) = ok (q, s) \<and> src (r, s) = src (q, s)"
    and block: "\<lbrakk>ok (req, s); src (req, s) = d # ds\<rbrakk> \<Longrightarrow>
      \<exists>q s' n st. sio (Some MAX_CHUNK_SIZE) None True (req, s) = Some ((q, s'), d, int (length d), n, st)
        \<and> io_frame req q \<and> ok (q, s') \<and> src (q, s') = ds"
    and block_size: "\<lbrakk>ok (req, s); d \<in> set (src (req, s))\<rbrakk> \<Longrightarrow> d \<noteq> [] \<and> length d \<le> MAX_CHUNK_SIZE"
    and finish: "\<lbrakk>ok (req, s); src (req, s) = []\<rbrakk> \<Longrightarrow>
      \<exists>q s' n st. sio (Some MAX_CHUNK_SIZE) None True (req, s) = Some ((q, s'), [], CI_EOF, n, st)
        \<and> io_frame req q \<and> ok (q, s') \<and> src (q, s') = []"

definition chunk_wire :: "bytes \<Rightarrow> bytes" where
  "chunk_wire d = chunk_head (length d) @ d @ CRLF"

definition use206 :: "ci_request \<Rightarrow> int option" where
  "use206 req = (if rq_return_code req = EC_206 \<and> 0 \<le> rq_i206 req then Some (rq_i206 req) else None)"

definition body_wire :: "ci_request \<Rightarrow> bytes list \<Rightarrow> bytes" where
  "body_wire req ds = concat (map chunk_wire ds) @ eof_chunk (use206 req)"

lemma chunk_wire_nonempty: "chunk_wire d \<noteq> []"
  by (simp add: chunk_wire_def)

lemma seg_in_bounds: "\<lbrakk>seg off (length c) w = c; c \<noteq> []\<rbrakk> \<Longrightarrow> off + length c \<le> length w"
  using length_seg [of off "length c" w] by (cases c) (auto simp: min_def split: if_splits)

lemma apply_format_data:
  assumes "rq_responce_hasbody req" "rq_remain req = int (length d)" "d \<noteq> []" "length d \<le> MAX_CHUNK_SIZE"
    and W: "length W = EXTRA_CHUNK_SIZE + MAX_CHUNK_SIZE + 2" "rq_wbuf req = mem_write EXTRA_CHUNK_SIZE d W"
  shows "\<exists>w x y z. apply_format req = Ret (req\<lparr>rq_wbuf := w, rq_block := R_wbuf x,
        rq_remain := int (length (chunk_wire d)), rq_http_bytes_out := y, rq_body_bytes_out := z\<rparr>, CI_OK)
      \<and> length w = length W \<and> x + length (chunk_wire d) \<le> length w \<and> seg x (length (chunk_wire d)) w = chunk_wire d"
proof -
  let ?A = "take EXTRA_CHUNK_SIZE W" and ?B = "drop (EXTRA_CHUNK_SIZE + length d) W"
  have A: "length ?A = EXTRA_CHUNK_SIZE" "2 \<le> length ?B" using W(1) assms(4) by simp_all
  have wb: "rq_wbuf req = ?A @ d @ ?B" using W by (simp add: mem_write_def)
  let ?off = "case rq_block req of R_wbuf off \<Rightarrow> off | _ \<Rightarrow> 0"
  obtain w off where f: "format_body_chunk True (use206 req) (?A @ d @ ?B) ?off (int (length d))
        = Ret (w, off, int (length (chunk_head (length d) @ d @ CRLF)), length d, CI_OK)"
    "length w = length (?A @ d @ ?B)"
    "seg off (length (chunk_head (length d) @ d @ CRLF)) w = chunk_head (length d) @ d @ CRLF"
    by (rule format_data_chunk [OF A(1) assms(3,4) A(2)])
  have "length w = length W" using f(2) W(1) assms(4) by simp
  moreover have "off + length (chunk_wire d) \<le> length w"
    using f(3) chunk_wire_nonempty [of d] by (intro seg_in_bounds) (simp_all add: chunk_wire_def)
  moreover have "apply_format req = Ret (req\<lparr>rq_wbuf := w, rq_block := R_wbuf off,
        rq_remain := int (length (chunk_wire d)), rq_http_bytes_out := rq_http_bytes_out req + of_nat (length d),
        rq_body_bytes_out := rq_body_bytes_out req + of_nat (length d)\<rparr>, CI_OK)"
    using assms(1-3) f(1) wb by (simp add: apply_format_def Let_def use206_def chunk_wire_def)
  ultimately show ?thesis using f(3) unfolding chunk_wire_def by blast
qed

lemma apply_format_eof:
  assumes "rq_responce_hasbody req" "rq_remain req = CI_EOF"
  shows "\<exists>w y z. apply_format req = Ret (req\<lparr>rq_wbuf := w, rq_block := R_wbuf 0,
        rq_remain := int (length (eof_chunk (use206 req))), rq_http_bytes_out := y, rq_body_bytes_out := z\<rparr>, CI_EOF)
      \<and> length (eof_chunk (use206 req)) \<le> length w
      \<and> seg 0 (length (eof_chunk (use206 req))) w = eof_chunk (use206 req)"
proof -
  let ?c = "eof_chunk (use206 req)"
  let ?w = "mem_write 0 (?c @ [NUL]) (rq_wbuf req)"
  have "apply_format req = Ret (req\<lparr>rq_wbuf := ?w, rq_block := R_wbuf 0, rq_remain := int (length ?c),
      rq_http_bytes_out := rq_http_bytes_out req, rq_body_bytes_out := rq_body_bytes_out req\<rparr>, CI_EOF)"
    unfolding apply_format_def Let_def use206_def [symmetric] assms(2)
    using assms(1) by (simp add: format_eof_chunk(1))
  moreover have "length ?c \<le> length ?w" by (simp add: mem_write_def)
  ultimately show ?thesis using format_eof_chunk(2) [of "use206 req" "rq_wbuf req"] by blast
qed

text \<open>
  The states of the loop.  \<open>hes\<close> are the packed header entities of the response (at most two), then
  comes the body entity \<open>b\<close>.  \<open>unsent\<close> is what the client has still to get after the current block.
\<close>

definition resp_entities :: "ci_encaps_entity list \<Rightarrow> ci_encaps_entity \<Rightarrow> ci_request \<Rightarrow> bool" where
  "resp_entities hes b req \<longleftrightarrow>
     length hes \<le> 2 \<and> rq_entities req = map Some (hes @ [b]) @ replicate (4 - length hes) None
     \<and> (\<forall>e \<in> set hes. is_header_type (ee_type e) \<and> (\<exists>h. ee_entity e = Some h \<and> hl_bufused h \<le> length (hl_buf h)))
     \<and> \<not> is_header_type (ee_type b)"

definition unsent :: "(ci_request \<times> 's \<Rightarrow> bytes list) \<Rightarrow> ci_encaps_entity list \<Rightarrow> ci_request \<times> 's \<Rightarrow> bytes" where
  "unsent src hes rs =
     (let req = fst rs; body = (if rq_responce_hasbody req then body_wire req (src rs) else []) in
      if rq_status req = SEND_EOF then []
      else if rq_status req = SEND_BODY then body
      else concat (map ent_wire (drop (nat (rq_status req - SEND_RESPHEAD)) hes)) @ body)"

definition sending :: "(ci_request \<times> 's \<Rightarrow> bool) \<Rightarrow> ci_encaps_entity list \<Rightarrow> ci_encaps_entity \<Rightarrow> ci_request \<times> 's \<Rightarrow> bool" where
  "sending ok hes b rs \<longleftrightarrow>
     ok rs \<and> resp_entities hes b (fst rs)
     \<and> (rq_status (fst rs) = SEND_EOF \<or> length (rq_wbuf (fst rs)) = EXTRA_CHUNK_SIZE + MAX_CHUNK_SIZE + 2)
     \<and> (rq_status (fst rs) = SEND_EOF \<or> rq_status (fst rs) = SEND_BODY \<and> rq_responce_hasbody (fst rs)
        \<or> SEND_RESPHEAD \<le> rq_status (fst rs) \<and> rq_status (fst rs) \<le> SEND_RESPHEAD + int (length hes))"

lemma header_block:
  assumes "hl_bufused h \<le> length (hl_buf h)"
  shows "block_bytes (req\<lparr>rq_block := R_block (hl_buf h) 0, rq_remain := int (hl_bufused h)\<rparr>) = Some (wire_bytes h)"
  using assms by (simp add: block_bytes.simps wire_bytes_def seg_def)

text \<open>The next state after a block was sent, for the states that have a header next or not.\<close>

lemma update_status_header:
  assumes "resp_entities hes b req" "rq_status req = SEND_RESPHEAD + int k" "k < length hes"
  obtains h where "ee_entity (hes ! k) = Some h" "hl_bufused h \<le> length (hl_buf h)"
    "update_send_status g ra sv req = Ret (req\<lparr>rq_block := R_block (hl_buf h) 0,
       rq_remain := int (hl_bufused h), rq_status := SEND_RESPHEAD + int (Suc k)\<rparr>, CI_OK)"
proof -
  have "hes ! k \<in> set hes" using assms(3) by simp
  then obtain h where h: "ee_entity (hes ! k) = Some h" "hl_bufused h \<le> length (hl_buf h)"
      "is_header_type (ee_type (hes ! k))"
    using assms(1) by (auto simp: resp_entities_def)
  have "rq_entities req ! k = Some (hes ! k)" using assms(1,3) by (simp add: resp_entities_def nth_append)
  moreover have "k < 2" using assms(1,3) by (simp add: resp_entities_def)
  ultimately have "update_send_status g ra sv req = Ret (req\<lparr>rq_block := R_block (hl_buf h) 0,
       rq_remain := int (hl_bufused h), rq_status := SEND_RESPHEAD + int (Suc k)\<rparr>, CI_OK)"
    using assms(2) h by (simp add: update_send_status_def next_header_def ci_consts Let_def)
  with h show ?thesis by (intro that)
qed

lemma update_status_body:
  assumes "resp_entities hes b req" "rq_status req = SEND_RESPHEAD + int (length hes)"
  shows "update_send_status g ra sv req =
    Ret (if rq_responce_hasbody req then (req\<lparr>rq_status := SEND_BODY\<rparr>, CI_OK)
         else (req\<lparr>rq_status := SEND_EOF, rq_block := R_null, rq_remain := 0\<rparr>, CI_EOF))"
proof -
  have "rq_entities req ! length hes = Some b" "length hes \<le> 2" "\<not> is_header_type (ee_type b)"
    using assms(1) by (auto simp: resp_entities_def nth_append)
  then show ?thesis
    using assms(2) by (simp add: update_send_status_def next_header_def ci_consts Let_def)
qed

lemma current_block_wbuf:
  assumes "rq_block q = R_wbuf x" "rq_remain q = int (length c)" "x + length c \<le> length (rq_wbuf q)"
    and "seg x (length c) (rq_wbuf q) = c"
  shows "current_block q c"
  using assms by (simp add: current_block_def block_bytes.simps)

lemma eof_chunk_nonempty: "eof_chunk u \<noteq> []"
  by (simp add: eof_chunk_def split: option.split)

text \<open>Fields that matter to \<open>sending\<close> and \<open>unsent\<close> but for the status.\<close>

definition resp_view :: "ci_request \<Rightarrow> ci_request \<Rightarrow> bool" where
  "resp_view r q \<longleftrightarrow> rq_entities r = rq_entities q \<and> length (rq_wbuf r) = length (rq_wbuf q)
     \<and> rq_responce_hasbody r = rq_responce_hasbody q \<and> rq_return_code r = rq_return_code q
     \<and> rq_i206 r = rq_i206 q"

lemma resp_view_entities: "resp_view r q \<Longrightarrow> resp_entities hes b r = resp_entities hes b q"
  by (simp add: resp_view_def resp_entities_def)

lemma resp_view_206: "resp_view r q \<Longrightarrow> use206 r = use206 q"
  by (simp add: resp_view_def use206_def)

lemma resp_view_body: "resp_view r q \<Longrightarrow> body_wire r ds = body_wire q ds"
  by (simp add: body_wire_def resp_view_206)

context body_source
begin

lemma same_state:
  assumes "resp_view r q" "source_view r q" "rq_status r = rq_status q"
  shows "sending ok hes b (r, s) = sending ok hes b (q, s)" "unsent src hes (r, s) = unsent src hes (q, s)"
  using assms view [OF assms(2), of s] resp_view_entities [OF assms(1)] resp_view_body [OF assms(1)]
  by (simp_all add: sending_def unsent_def Let_def resp_view_def)

lemma body_step_block:
  assumes rs: "sending ok hes b (req, s)" "rq_status req = SEND_BODY" "rq_remain req = 0" "rq_responce_hasbody req"
    and d: "src (req, s) = d # ds"
  obtains q s' where "body_step sio (req, s) = Some (Ret ((q, s'), None))" "sending ok hes b (q, s')"
    "rq_status q = SEND_BODY" "current_block q (chunk_wire d)" "unsent src hes (q, s') = body_wire req ds"
proof -
  let ?r = "req\<lparr>rq_block := R_wbuf EXTRA_CHUNK_SIZE, rq_remain := int MAX_CHUNK_SIZE\<rparr>"
  have v: "source_view ?r req" by (simp add: source_view_def)
  have ok: "ok (req, s)" "ok (?r, s)" "src (?r, s) = d # ds"
    using rs(1) d view [OF v, of s] by (simp_all add: sending_def)
  obtain q s' n st where io: "sio (Some MAX_CHUNK_SIZE) None True (?r, s) = Some ((q, s'), d, int (length d), n, st)"
      "io_frame ?r q" "ok (q, s')" "src (q, s') = ds"
    using block [OF ok(2,3)] by blast
  have dd: "d \<noteq> []" "length d \<le> MAX_CHUNK_SIZE" using block_size [OF ok(1)] d by auto
  obtain eb where q: "q = ?r\<lparr>rq_echo_body := eb\<rparr>" using io(2) unfolding io_frame_def by blast
  let ?q = "q\<lparr>rq_wbuf := mem_write EXTRA_CHUNK_SIZE d (rq_wbuf q), rq_remain := int (length d)\<rparr>"
  have W: "length (rq_wbuf q) = EXTRA_CHUNK_SIZE + MAX_CHUNK_SIZE + 2"
    using rs(1,2) by (simp add: q sending_def ci_consts)
  obtain w x y z where f: "apply_format ?q = Ret (?q\<lparr>rq_wbuf := w, rq_block := R_wbuf x,
        rq_remain := int (length (chunk_wire d)), rq_http_bytes_out := y, rq_body_bytes_out := z\<rparr>, CI_OK)"
      "length w = length (rq_wbuf q)" "x + length (chunk_wire d) \<le> length w" "seg x (length (chunk_wire d)) w = chunk_wire d"
    using apply_format_data [of ?q d "rq_wbuf q"] dd W rs(4) by (auto simp: q)
  let ?z = "?q\<lparr>rq_wbuf := w, rq_block := R_wbuf x, rq_remain := int (length (chunk_wire d)),
      rq_http_bytes_out := y, rq_body_bytes_out := z\<rparr>"
  have "body_step sio (req, s) = Some (Ret ((?z, s'), None))"
    using rs(2,3) io(1) f(1) dd by (simp add: body_step_def Let_def CI_ERROR_def CI_OK_def CI_EOF_def)
  moreover have rv: "resp_view ?z req" using W f(2) by (simp add: resp_view_def q)
  have "source_view ?z q" by (simp add: source_view_def)
  from view [OF this, of s'] have "ok (?z, s')" "src (?z, s') = ds" using io(3,4) by simp_all
  with rs rv have "sending ok hes b (?z, s')" "unsent src hes (?z, s') = body_wire req ds"
    using resp_view_body [OF rv] resp_view_entities [OF rv] f(2) W
    by (simp_all add: sending_def unsent_def q ci_consts)
  moreover have "rq_status ?z = SEND_BODY" using rs(2) by (simp add: q)
  moreover have "current_block ?z (chunk_wire d)" using f by (intro current_block_wbuf [of _ x]) simp_all
  ultimately show ?thesis by (intro that)
qed

lemma body_step_finish:
  assumes rs: "sending ok hes b (req, s)" "rq_status req = SEND_BODY" "rq_remain req = 0" "rq_responce_hasbody req"
    and d: "src (req, s) = []"
  obtains q s' where "body_step sio (req, s) = Some (Ret ((q, s'), None))" "sending ok hes b (q, s')"
    "rq_status q = SEND_EOF" "current_block q (eof_chunk (use206 req))"
proof -
  let ?r = "req\<lparr>rq_block := R_wbuf EXTRA_CHUNK_SIZE, rq_remain := int MAX_CHUNK_SIZE\<rparr>"
  have v: "source_view ?r req" by (simp add: source_view_def)
  have ok: "ok (?r, s)" "src (?r, s) = []" using rs(1) d view [OF v, of s] by (simp_all add: sending_def)
  obtain q s' n st where io: "sio (Some MAX_CHUNK_SIZE) None True (?r, s) = Some ((q, s'), [], CI_EOF, n, st)"
      "io_frame ?r q" "ok (q, s')"
    using finish [OF ok] by blast
  obtain eb where q: "q = ?r\<lparr>rq_echo_body := eb\<rparr>" using io(2) unfolding io_frame_def by blast
  let ?q = "q\<lparr>rq_wbuf := mem_write EXTRA_CHUNK_SIZE [] (rq_wbuf q), rq_remain := CI_EOF\<rparr>"
  have u: "use206 ?q = use206 req" by (simp add: use206_def q)
  obtain w y z where f: "apply_format ?q = Ret (?q\<lparr>rq_wbuf := w, rq_block := R_wbuf 0,
        rq_remain := int (length (eof_chunk (use206 req))), rq_http_bytes_out := y, rq_body_bytes_out := z\<rparr>, CI_EOF)"
      "length (eof_chunk (use206 req)) \<le> length w"
      "seg 0 (length (eof_chunk (use206 req))) w = eof_chunk (use206 req)"
    using apply_format_eof [of ?q] rs(4) unfolding u by (auto simp: q)
  let ?z = "?q\<lparr>rq_wbuf := w, rq_block := R_wbuf 0, rq_remain := int (length (eof_chunk (use206 req))),
      rq_http_bytes_out := y, rq_body_bytes_out := z, rq_status := SEND_EOF\<rparr>"
  have "body_step sio (req, s) = Some (Ret ((?z, s'), None))"
    using rs(2,3) io(1) f(1) by (simp add: body_step_def Let_def CI_ERROR_def CI_EOF_def)
  moreover have "source_view ?z q" by (simp add: source_view_def)
  from view [OF this, of s'] have "ok (?z, s')" using io(3) by simp
  then have "sending ok hes b (?z, s')" using rs(1) by (simp add: sending_def q resp_entities_def)
  moreover have "current_block ?z (eof_chunk (use206 req))"
    using f by (intro current_block_wbuf [of _ 0]) simp_all
  ultimately show ?thesis by (intro that) simp_all
qed

text \<open>
  One turn of the loop: the current block is sent, and the loop ends with everything sent or goes
  on with a smaller amount of work.
\<close>

definition work :: "ci_encaps_entity list \<Rightarrow> bytes \<Rightarrow> ci_request \<times> 's \<Rightarrow> nat" where
  "work hes blk rs =
     2 * (length blk + length (unsent src hes rs)) + 2 * nat (SEND_EOF - rq_status (fst rs))
     + (if blk = [] then 1 else 0)"

lemma send_round:
  assumes st: "sending ok hes b (req, s)" and blk: "current_block req blk"
    and ks: "progress ks (length blk + length (unsent src hes (req, s)))"
  obtains q ks' where "send_loop g ra sv sio (map Out_take ks) (req, s)
        = Some (Ret ((q, s), blk, CI_OK, map Out_take ks'))"
      "unsent src hes (req, s) = []" "rq_status q = SEND_EOF" "rq_remain q = 0"
  | q s' blk' ks' where "send_loop g ra sv sio (map Out_take ks) (req, s)
        = Option.bind (send_loop g ra sv sio (map Out_take ks') (q, s')) (\<lambda>r. Some (prepend_out blk r))"
      "sending ok hes b (q, s')" "current_block q blk'" "unsent src hes (req, s) = blk' @ unsent src hes (q, s')"
      "progress ks' (length (unsent src hes (req, s)))" "work hes blk' (q, s') < work hes blk (req, s)"
proof -
  obtain ks' x y z where sb: "send_block_loop (map Out_take ks) req
      = Ret (req\<lparr>rq_block := x, rq_remain := 0, rq_bytes_out := y, rq_http_bytes_out := z\<rparr>, blk, True, map Out_take ks')"
      and pg: "progress ks' (length (unsent src hes (req, s)))"
    using send_block_all [OF blk ks] by blast
  let ?r = "req\<lparr>rq_block := x, rq_remain := 0, rq_bytes_out := y, rq_http_bytes_out := z\<rparr>"
  have sv: "resp_view ?r req" "source_view ?r req" "rq_status ?r = rq_status req"
    by (simp_all add: resp_view_def source_view_def)
  have r: "sending ok hes b (?r, s)" "unsent src hes (?r, s) = unsent src hes (req, s)"
    using same_state [OF sv] st by simp_all
  have ent: "resp_entities hes b ?r" using r(1) by (simp add: sending_def)
  have nop: "body_step sio (?r, s) = Some (Ret ((?r, s), None))" if "rq_status req \<noteq> SEND_BODY"
    using that by (simp add: body_step_def)
  have go: "send_loop g ra sv sio (map Out_take ks) (req, s)
      = Option.bind (send_loop g ra sv sio (map Out_take ks') (q', s')) (\<lambda>r. Some (prepend_out blk r))"
    if "body_step sio (?r, s) = Some (Ret ((q, s'), None))" "update_send_status g ra sv q = Ret (q', CI_OK)" for q q' s'
    using that by (subst send_loop.simps) (simp add: sb CI_OK_def)
  have stop: "send_loop g ra sv sio (map Out_take ks) (req, s) = Some (Ret ((q', s), blk, CI_OK, map Out_take ks'))"
    if "rq_status req \<noteq> SEND_BODY" "update_send_status g ra sv ?r = Ret (q', CI_EOF)" for q'
    using that nop by (subst send_loop.simps) (simp add: sb CI_EOF_def CI_ERROR_def)
  consider (eof) "rq_status req = SEND_EOF"
    | (header) k where "rq_status req = SEND_RESPHEAD + int k" "k < length hes"
    | (last) "rq_status req = SEND_RESPHEAD + int (length hes)"
    | (block) d ds where "rq_status req = SEND_BODY" "rq_responce_hasbody req" "src (?r, s) = d # ds"
    | (finished) "rq_status req = SEND_BODY" "rq_responce_hasbody req" "src (?r, s) = []"
  proof -
    consider "rq_status req = SEND_EOF" | "rq_status req = SEND_BODY \<and> rq_responce_hasbody req"
      | "SEND_RESPHEAD \<le> rq_status req" "rq_status req \<le> SEND_RESPHEAD + int (length hes)"
      using st by (auto simp: sending_def)
    then show ?thesis
    proof cases
      case 3
      then obtain k where "rq_status req = SEND_RESPHEAD + int k" by (metis zle_iff_zadd)
      with 3 that(2,3) show ?thesis by (cases "k < length hes") auto
    qed (use that in \<open>cases "src (?r, s)"; blast\<close>)+
  qed
  then show ?thesis
  proof cases
    case eof
    then have "update_send_status g ra sv ?r = Ret (?r, CI_EOF)"
      by (simp add: update_send_status_def ci_consts)
    with eof stop show ?thesis by (intro that(1) [of ?r ks']) (simp_all add: unsent_def ci_consts)
  next
    case (header k)
    obtain h where h: "ee_entity (hes ! k) = Some h" "hl_bufused h \<le> length (hl_buf h)"
      "update_send_status g ra sv ?r = Ret (?r\<lparr>rq_block := R_block (hl_buf h) 0,
         rq_remain := int (hl_bufused h), rq_status := SEND_RESPHEAD + int (Suc k)\<rparr>, CI_OK)"
      using update_status_header [OF ent, of k g ra sv] header by auto
    let ?q = "?r\<lparr>rq_block := R_block (hl_buf h) 0, rq_remain := int (hl_bufused h),
        rq_status := SEND_RESPHEAD + int (Suc k)\<rparr>"
    have k2: "k < 2" "is_header_type (ee_type (hes ! k))"
      using ent header(2) by (auto simp: resp_entities_def)
    have w: "ent_wire (hes ! k) = wire_bytes h" using h(1) k2(2) by (simp add: ent_wire_def)
    have "source_view ?q req" "resp_view ?q req" by (simp_all add: source_view_def resp_view_def)
    then have v: "ok (?q, s)" "src (?q, s) = src (req, s)" "body_wire ?q ds = body_wire req ds" for ds
      using view [of ?q req s] st resp_view_body by (auto simp: sending_def)
    have us: "unsent src hes (req, s) = wire_bytes h @ unsent src hes (?q, s)"
      using header k2(1) v(2,3) w Cons_nth_drop_Suc [OF header(2), symmetric]
      by (simp add: unsent_def Let_def ci_consts nat_add_distrib)
    have "sending ok hes b (?q, s)"
      using st header k2(1) v(1) by (auto simp: sending_def resp_entities_def ci_consts)
    moreover have "current_block ?q (wire_bytes h)"
      using h(2) header_block [OF h(2), of "?r\<lparr>rq_status := SEND_RESPHEAD + int (Suc k)\<rparr>"]
      by (simp add: current_block_def wire_bytes_def block_bytes.simps)
    moreover have "work hes (wire_bytes h) (?q, s) < work hes blk (req, s)"
    proof -
      have "nat (5 - int k) = Suc (nat (4 - int k))" using k2(1) by linarith
      then show ?thesis using us header by (simp add: work_def ci_consts)
    qed
    ultimately show ?thesis
      using go [OF nop h(3)] header k2(1) us pg by (intro that(2) [of ks' ?q s "wire_bytes h"]) (simp_all add: ci_consts)
  next
    case last
    have l2: "length hes \<le> 2" using ent by (simp add: resp_entities_def)
    show ?thesis
    proof (cases "rq_responce_hasbody req")
      case False
      then have "unsent src hes (req, s) = []" using last l2 by (simp add: unsent_def Let_def ci_consts)
      with False stop update_status_body [OF ent, of g ra sv] last l2 show ?thesis
        by (intro that(1) [of "?r\<lparr>rq_status := SEND_EOF, rq_block := R_null, rq_remain := 0\<rparr>" ks'])
          (simp_all add: ci_consts)
    next
      case True
      let ?q = "?r\<lparr>rq_status := SEND_BODY\<rparr>"
      have "source_view ?q req" "resp_view ?q req" by (simp_all add: source_view_def resp_view_def)
      then have v: "ok (?q, s)" "src (?q, s) = src (req, s)" "body_wire ?q ds = body_wire req ds" for ds
        using view [of ?q req s] st resp_view_body by (auto simp: sending_def)
      have us: "unsent src hes (req, s) = unsent src hes (?q, s)"
        using last l2 True v(2,3) by (simp add: unsent_def Let_def ci_consts)
      have up: "update_send_status g ra sv ?r = Ret (?q, CI_OK)"
        using True update_status_body [OF ent, of g ra sv] last by simp
      have "sending ok hes b (?q, s)" "current_block ?q []"
        using st last l2 True v(1) by (auto simp: sending_def resp_entities_def ci_consts current_block_def)
      moreover have "work hes [] (?q, s) < work hes blk (req, s)"
        using us last l2 by (auto simp: work_def ci_consts)
      ultimately show ?thesis
        using go [OF nop up] last l2 us pg by (intro that(2) [of ks' ?q s "[]"]) (simp_all add: ci_consts)
    qed
  next
    case (block d ds)
    obtain q s' where q: "body_step sio (?r, s) = Some (Ret ((q, s'), None))" "sending ok hes b (q, s')"
        "rq_status q = SEND_BODY" "current_block q (chunk_wire d)" "unsent src hes (q, s') = body_wire ?r ds"
      by (rule body_step_block [OF r(1) _ _ _ block(3)]) (use block in simp_all)
    have up: "update_send_status g ra sv q = Ret (q, CI_OK)"
      using q(3) by (simp add: update_send_status_def ci_consts)
    have us: "unsent src hes (req, s) = chunk_wire d @ unsent src hes (q, s')"
      using block r(2) q(5) by (simp add: unsent_def Let_def ci_consts body_wire_def)
    moreover have "work hes (chunk_wire d) (q, s') < work hes blk (req, s)"
      using us q(3) block(1) chunk_wire_nonempty [of d] by (auto simp: work_def)
    ultimately show ?thesis
      using go [OF q(1) up] q pg by (intro that(2) [of ks' q s' "chunk_wire d"]) simp_all
  next
    case finished
    obtain q s' where q: "body_step sio (?r, s) = Some (Ret ((q, s'), None))" "sending ok hes b (q, s')"
        "rq_status q = SEND_EOF" "current_block q (eof_chunk (use206 ?r))"
      by (rule body_step_finish [OF r(1) _ _ _ finished(3)]) (use finished in simp_all)
    have ne: "rq_remain q \<noteq> 0" using q(4) eof_chunk_nonempty [of "use206 ?r"] by (simp add: current_block_def)
    have up: "update_send_status g ra sv q = Ret (q, CI_OK)"
      using q(3) ne by (simp add: update_send_status_def ci_consts)
    have us: "unsent src hes (req, s) = eof_chunk (use206 ?r) @ unsent src hes (q, s')"
      using finished r(2) q(3) by (simp add: unsent_def Let_def ci_consts body_wire_def)
    moreover have "work hes (eof_chunk (use206 ?r)) (q, s') < work hes blk (req, s)"
      using us q(3) finished(1) eof_chunk_nonempty [of "use206 ?r"] by (auto simp: work_def ci_consts)
    ultimately show ?thesis
      using go [OF q(1) up] q pg by (intro that(2) [of ks' q s' "eof_chunk (use206 ?r)"]) simp_all
  qed
qed

lemma send_loop_all:
  assumes "sending ok hes b (req, s)" "current_block req blk"
    and "progress ks (length blk + length (unsent src hes (req, s)))"
  shows "\<exists>q s' ks'. send_loop g ra sv sio (map Out_take ks) (req, s)
      = Some (Ret ((q, s'), blk @ unsent src hes (req, s), CI_OK, map Out_take ks'))
      \<and> rq_status q = SEND_EOF \<and> rq_remain q = 0"
  using assms
proof (induction "work hes blk (req, s)" arbitrary: req s blk ks rule: less_induct)
  case less
  from send_round [OF less.prems, of g ra sv] show ?case
  proof cases
    case (1 q ks')
    then show ?thesis by auto
  next
    case (2 q s' blk' ks')
    have "progress ks' (length blk' + length (unsent src hes (q, s')))" using 2(4,5) by simp
    from less.hyps [OF 2(6) 2(2,3) this] 2(1,4) show ?thesis by auto
  qed
qed

end

text \<open>
  C27.  Once the ICAP response header is packed (status \<^verbatim>\<open>SEND_RESPHEAD\<close>), \<^verbatim>\<open>send_remaining_response\<close>
  returns \<^verbatim>\<open>CI_OK\<close>, and the bytes the client gets are exactly: the packed ICAP header, the packed
  encapsulated headers in their order, and, if the response has a body, one chunk for every block
  the service supplies and the last chunk; for any way in which the connection takes them (at
  least one byte at a time).  The service is any one that supplies its blocks as \<open>body_source\<close>
  says.
\<close>

theorem send_remaining_response_wire:
  assumes "body_source sio ok src" "pick_io so req = Some sio"
    and "ok (req, s)" "resp_entities hes b req" "length (rq_wbuf req) = EXTRA_CHUNK_SIZE + MAX_CHUNK_SIZE + 2"
    and "rq_status req = SEND_RESPHEAD" "current_block req head"
    and wire: "wire = head @ concat (map ent_wire hes)
      @ (if rq_responce_hasbody req then concat (map chunk_wire (src (req, s))) @ eof_chunk (use206 req) else [])"
    and "\<forall>k \<in> set ks. 1 \<le> k" "length wire \<le> length ks"
  shows "\<exists>rs' ks'. send_remaining_response g ra sv so (map Out_take ks) (req, s)
      = Some (Ret (rs', wire, CI_OK, map Out_take ks')) \<and> rq_status (fst rs') = SEND_EOF"
proof -
  have u: "wire = head @ unsent src hes (req, s)"
    unfolding wire using assms(6) by (simp add: unsent_def Let_def ci_consts body_wire_def)
  have st: "sending ok hes b (req, s)" using assms by (simp add: sending_def ci_consts)
  have pg: "progress ks (length head + length (unsent src hes (req, s)))"
    using assms(9,10) u by (simp add: progress_def)
  have "send_remaining_response g ra sv so (map Out_take ks) (req, s) = send_loop g ra sv sio (map Out_take ks) (req, s)"
    using assms(2,6) by (simp add: send_remaining_response_def ci_consts)
  with body_source.send_loop_all [OF assms(1) st assms(7) pg, of g ra sv] u show ?thesis by auto
qed

section \<open>Echoing as a source\<close>

fun blocks_of :: "nat \<Rightarrow> bytes \<Rightarrow> bytes list" where
  "blocks_of n b = (if b = [] \<or> n = 0 then [] else take n b # blocks_of n (drop n b))"

declare blocks_of.simps [simp del]

lemma blocks_of_size: "d \<in> set (blocks_of n b) \<Longrightarrow> d \<noteq> [] \<and> length d \<le> n"
proof (induction n b rule: blocks_of.induct)
  case (1 n b)
  then show ?case using blocks_of.simps [of n b] by (auto split: if_splits)
qed

lemma concat_blocks_of: "0 < n \<Longrightarrow> concat (blocks_of n b) = b"
  by (induction n b rule: blocks_of.induct) (subst blocks_of.simps, auto)

definition echo_ok :: "ci_request \<times> 's \<Rightarrow> bool" where
  "echo_ok rs \<longleftrightarrow> rq_eof_received (fst rs) \<and> (\<exists>r. rq_echo_body (fst rs) = Some r \<and> rb_invar r)"

definition echo_src :: "ci_request \<times> 's \<Rightarrow> bytes list" where
  "echo_src rs = (case rq_echo_body (fst rs) of None \<Rightarrow> [] | Some r \<Rightarrow> blocks_of MAX_CHUNK_SIZE (rb_contents r))"

lemma echo_call:
  assumes "rq_echo_body req = Some r" "rb_invar r" "rq_eof_received req"
  obtains r' where "mod_echo_io (Some MAX_CHUNK_SIZE) None True (req, s)
      = Some ((req\<lparr>rq_echo_body := Some r'\<rparr>, s), take MAX_CHUNK_SIZE (rb_contents r),
          if rb_contents r = [] then CI_EOF else int (length (take MAX_CHUNK_SIZE (rb_contents r))), 0, CI_OK)"
    "rb_invar r'" "rb_contents r' = drop MAX_CHUNK_SIZE (rb_contents r)"
proof -
  obtain r' where r': "ci_ring_buf_read r MAX_CHUNK_SIZE = Some (r', take MAX_CHUNK_SIZE (rb_contents r))"
      "rb_invar r'" "rb_contents r' = drop MAX_CHUNK_SIZE (rb_contents r)"
    using ring_read_refines [OF assms(2)] by blast
  have "take MAX_CHUNK_SIZE (rb_contents r) = [] \<longleftrightarrow> rb_contents r = []" by (simp add: MAX_CHUNK_SIZE_def)
  with r' assms show ?thesis
    by (intro that [of r']) (simp_all add: mod_echo_io_def echo_write_def echo_read_def)
qed

interpretation echo: body_source mod_echo_io echo_ok echo_src
proof
  show "echo_ok (r, s) = echo_ok (q, s) \<and> echo_src (r, s) = echo_src (q, s)" if "source_view r q" for r q and s :: 's
    using that by (simp add: echo_ok_def echo_src_def source_view_def)
  show "\<exists>q s' n st. mod_echo_io (Some MAX_CHUNK_SIZE) None True (req, s) = Some ((q, s'), d, int (length d), n, st)
      \<and> io_frame req q \<and> echo_ok (q, s') \<and> echo_src (q, s') = ds"
    if o: "echo_ok (req, s)" and e: "echo_src (req, s) = d # ds" for req d ds and s :: 's
  proof -
    obtain r where r: "rq_echo_body req = Some r" "rb_invar r" "rq_eof_received req"
      using o by (auto simp: echo_ok_def)
    have b: "blocks_of MAX_CHUNK_SIZE (rb_contents r) = d # ds" using e r(1) by (simp add: echo_src_def)
    then have d: "rb_contents r \<noteq> []" "d = take MAX_CHUNK_SIZE (rb_contents r)"
        "ds = blocks_of MAX_CHUNK_SIZE (drop MAX_CHUNK_SIZE (rb_contents r))"
      by (subst (asm) blocks_of.simps; simp split: if_splits)+
    obtain r' where "mod_echo_io (Some MAX_CHUNK_SIZE) None True (req, s)
      = Some ((req\<lparr>rq_echo_body := Some r'\<rparr>, s), take MAX_CHUNK_SIZE (rb_contents r),
          if rb_contents r = [] then CI_EOF else int (length (take MAX_CHUNK_SIZE (rb_contents r))), 0, CI_OK)"
      "rb_invar r'" "rb_contents r' = drop MAX_CHUNK_SIZE (rb_contents r)"
      by (rule echo_call [OF r])
    with d r(3) show ?thesis by (simp add: io_frame_def echo_ok_def echo_src_def)
  qed
  show "d \<noteq> [] \<and> length d \<le> MAX_CHUNK_SIZE" if "echo_ok (req, s)" "d \<in> set (echo_src (req, s))"
    for req d and s :: 's
    using that blocks_of_size [of d MAX_CHUNK_SIZE] by (cases "rq_echo_body req") (auto simp: echo_src_def)
  show "\<exists>q s' n st. mod_echo_io (Some MAX_CHUNK_SIZE) None True (req, s) = Some ((q, s'), [], CI_EOF, n, st)
      \<and> io_frame req q \<and> echo_ok (q, s') \<and> echo_src (q, s') = []"
    if o: "echo_ok (req, s)" and e: "echo_src (req, s) = []" for req and s :: 's
  proof -
    obtain r where r: "rq_echo_body req = Some r" "rb_invar r" "rq_eof_received req"
      using o by (auto simp: echo_ok_def)
    have "blocks_of MAX_CHUNK_SIZE (rb_contents r) = []" using e r(1) by (simp add: echo_src_def)
    then have z: "rb_contents r = []"
      by (subst (asm) blocks_of.simps) (simp add: MAX_CHUNK_SIZE_def split: if_splits)
    obtain r' where "mod_echo_io (Some MAX_CHUNK_SIZE) None True (req, s)
      = Some ((req\<lparr>rq_echo_body := Some r'\<rparr>, s), take MAX_CHUNK_SIZE (rb_contents r),
          if rb_contents r = [] then CI_EOF else int (length (take MAX_CHUNK_SIZE (rb_contents r))), 0, CI_OK)"
      "rb_invar r'" "rb_contents r' = drop MAX_CHUNK_SIZE (rb_contents r)"
      by (rule echo_call [OF r])
    with z r(3) show ?thesis by (simp add: io_frame_def echo_ok_def echo_src_def blocks_of.simps)
  qed
qed

text \<open>A response of three header bytes and the echoed body \<^verbatim>\<open>abc\<close>.\<close>

definition echo_response :: ci_request where
  "echo_response = new_request\<lparr>rq_status := SEND_RESPHEAD, rq_block := R_block ''HDR'' 0, rq_remain := 3,
     rq_entities := [Some res_body_entity, None, None, None, None], rq_responce_hasbody := True,
     rq_echo_body := Some ring_example, rq_eof_received := True\<rparr>"

definition no_service :: "unit service_ops" where
  "no_service = \<lparr>so_init = None, so_release = None, so_preview = None, so_end_of_data = None, so_io = None, so_options = []\<rparr>"

lemma echo_response_src: "echo_src (echo_response, ()) = [''abc'']" "echo_ok (echo_response, ())"
proof -
  have c: "rb_contents ring_example = ''abc''" "rb_invar ring_example"
    by (simp_all add: rb_contents_def rb_invar_def ring_example_def)
  then show "echo_src (echo_response, ()) = [''abc'']" "echo_ok (echo_response, ())"
    by (simp_all add: echo_src_def echo_ok_def echo_response_def blocks_of.simps MAX_CHUNK_SIZE_def)
qed

lemma new_request_wbuf: "length (rq_wbuf new_request) = EXTRA_CHUNK_SIZE + MAX_CHUNK_SIZE + 2"
  by (simp add: new_request_def ci_request_alloc_def ci_headers_create_def fresh_mem_def)

theorem send_remaining_response_wire_witness:
  "\<exists>rs' ks'. send_remaining_response (\<lambda>_. NUL) (\<lambda>_. True)
        \<lparr>sv_version = ''0.5'', sv_hostname = ''h'', sv_allow204_as_200 = False, sv_fake_allow204 = True,
          sv_pipelining = True, sv_buggy_client = False,
          sv_services = \<lparr>st_services = [], st_aliases = [], st_default = None\<rparr>\<rparr>
        no_service (map Out_take (replicate 40 1)) (echo_response, ())
      = Some (Ret (rs', ''HDR'' @ ''3'' @ CRLF @ ''abc'' @ CRLF @ ''0'' @ CRLF @ CRLF, CI_OK, map Out_take ks'))
      \<and> rq_status (fst rs') = SEND_EOF"
proof (rule send_remaining_response_wire [OF echo.body_source_axioms, where hes = "[]" and b = res_body_entity
      and head = "''HDR''"])
  have "rq_return_code new_request = -1"
    by (simp add: new_request_def ci_request_alloc_def ci_headers_create_def)
  then have "rq_responce_hasbody echo_response" "use206 echo_response = None"
    by (simp_all add: echo_response_def use206_def EC_206_def)
  moreover have "chunk_head 3 = ''3'' @ CRLF" by code_simp
  ultimately show "''HDR'' @ ''3'' @ CRLF @ ''abc'' @ CRLF @ ''0'' @ CRLF @ CRLF = ''HDR'' @ concat (map ent_wire [])
      @ (if rq_responce_hasbody echo_response
         then concat (map chunk_wire (echo_src (echo_response, ()))) @ eof_chunk (use206 echo_response) else [])"
    by (simp add: echo_response_src chunk_wire_def eof_chunk_def eval_nat_numeral)
  show "echo_ok (echo_response, ())" by (rule echo_response_src)
  show "length (rq_wbuf echo_response) = EXTRA_CHUNK_SIZE + MAX_CHUNK_SIZE + 2"
    by (simp add: echo_response_def new_request_wbuf)
qed (simp_all add: pick_io_def echo_response_def resp_entities_def res_body_entity_def is_header_type_def
    ICAP_REQ_HDR_def ICAP_RES_HDR_def current_block_def block_bytes.simps seg_def numeral_eq_Suc)

end
