(* ===== verification/Body_Io.thy ===== *)
theory Body_Io
  imports Response
begin

text \<open>
  \<^verbatim>\<open>get_send_body\<close> of \<^verbatim>\<open>request.c\<close>: the loop that reads the chunked body of a request, feeds it to the
  service and, when the service has unlocked its data, sends the response at the same time.

  The local variables of the function are a record.  Each time the loop waits, an event says that
  waiting failed or which directions are ready and what reading and writing then do; only the
  directions that the loop asked for count, and no direction (or no further event) is a timeout.

  Proved: with locked data a body is delivered to the service byte for byte for every
  segmentation of the input and nothing is sent; an echoed body is truncated when the last
  chunk arrives while a chunk is being sent and the echo buffer is full.
\<close>

section \<open>Events\<close>

datatype io_in = In_error | In_data bytes

datatype io_ev = Io_fail | Io_ev "io_in option" "net_out option"

text \<open>What a wait for the directions asked for reports: \<open>None\<close> for a failure or a timeout.\<close>

fun io_wait :: "bool \<Rightarrow> bool \<Rightarrow> io_ev list \<Rightarrow> ((io_in option \<times> net_out option) \<times> io_ev list) option" where
  "io_wait rd wr [] = None"
| "io_wait rd wr (Io_fail # es) = None"
| "io_wait rd wr (Io_ev i t # es) =
     (let i1 = (if rd then i else None); o1 = (if wr then t else None) in
      if i1 = None \<and> o1 = None then None else Some ((i1, o1), es))"

text \<open>Reading when the connection is readable; bytes that do not fit stay for the next event.\<close>

fun io_read :: "io_in option \<Rightarrow> io_ev list \<Rightarrow> ci_request \<Rightarrow> (ci_request \<times> int) \<times> io_ev list" where
  "io_read None es req = ((req, CI_OK), es)"
| "io_read (Some In_error) es req = (net_data_read (\<lambda>_. None) req, es)"
| "io_read (Some (In_data d)) es req =
     (let room = nat (BUFSIZE - rq_pstr_len req) in
      (net_data_read (\<lambda>n. Some (take n d)) req,
       if length d \<le> room then es else Io_ev (Some (In_data (drop room d))) None # es))"

text \<open>Writing when it is writable; the result of \<^verbatim>\<open>update_send_status\<close> is not looked at here.\<close>

definition io_write ::
  "(nat \<Rightarrow> char) \<Rightarrow> (nat \<Rightarrow> bool) \<Rightarrow> server_env \<Rightarrow> net_out option \<Rightarrow> ci_request \<Rightarrow> (ci_request \<times> bytes \<times> int) c_result" where
  "io_write g ra sv ev req =
     (case ev of
        None \<Rightarrow> Ret (req, [], CI_OK)
      | Some ev \<Rightarrow>
          c_bind (if \<not> rq_data_locked req \<and> rq_status req = SEND_NOTHING
                  then c_bind (update_send_status g ra sv req) (\<lambda>(req1, _). Ret req1) else Ret req)
            (send_current_block_data ev))"

section \<open>One exchange with the service\<close>

record 's gsb =
  gs_req :: ci_request
  gs_srv :: 's
  gs_wdata :: "pstr option"
  gs_rdata :: "nat option"
  gs_full :: bool
  gs_eof :: bool

text \<open>Parsing the next piece, if there is input and the piece before has been taken.\<close>

definition gsb_parse :: "'s gsb \<Rightarrow> int \<Rightarrow> ('s gsb \<times> int) c_result option" where
  "gsb_parse st pret =
     (let req = gs_req st in
      if rq_pstr_len req \<noteq> 0 \<and> rq_pending req = 0 then
        (case parse_chunk_data req of
           None \<Rightarrow> None
         | Some Abort \<Rightarrow> Some Abort
         | Some Undef \<Rightarrow> Some Undef
         | Some (Ret (q, ret, wd)) \<Rightarrow>
             Some (Ret (st\<lparr>gs_req := (if ret = CI_EOF then q\<lparr>rq_eof_received := True\<rparr> else q),
                           gs_wdata := wd\<rparr>, ret)))
      else Some (Ret (st, pret)))"

text \<open>The room that is offered to the service, in \<^verbatim>\<open>wbuf\<close> behind the space for the chunk definition.\<close>

definition gsb_room :: "bool \<Rightarrow> 's gsb \<Rightarrow> 's gsb \<times> nat" where
  "gsb_room formatted st =
     (if rq_status (gs_req st) = SEND_BODY \<and> \<not> gs_eof st then
        let st1 = (if rq_remain (gs_req st) = 0
                   then st\<lparr>gs_rdata := Some EXTRA_CHUNK_SIZE,
                           gs_req := (gs_req st)\<lparr>rq_block := R_wbuf EXTRA_CHUNK_SIZE\<rparr>, gs_full := False\<rparr>
                   else st);
            room = int MAX_CHUNK_SIZE - rq_remain (gs_req st1)
        in if 0 < room \<and> \<not> formatted then (st1, nat room) else (st1\<lparr>gs_full := True\<rparr>, 0)
      else (st, 0))"

definition gsb_offer :: "'s gsb \<Rightarrow> bytes option c_result" where
  "gsb_offer st =
     (case gs_wdata st of
        None \<Rightarrow> Ret None
      | Some p \<Rightarrow>
          if length (handed (gs_req st) (Some p)) \<noteq> unat (rq_pending (gs_req st)) then Undef
          else Ret (Some (handed (gs_req st) (Some p))))"

text \<open>What is done with the two lengths that the service stored.\<close>

definition gsb_taken :: "int \<Rightarrow> 's gsb \<Rightarrow> 's gsb" where
  "gsb_taken wbytes st =
     (if wbytes = 0 then st
      else st\<lparr>gs_wdata := map_option (\<lambda>p. pstr_add p wbytes) (gs_wdata st),
              gs_req := (gs_req st)\<lparr>rq_pending := rq_pending (gs_req st) - word_of_int wbytes\<rparr>\<rparr>)"

definition gsb_given :: "int \<Rightarrow> 's gsb \<Rightarrow> 's gsb" where
  "gsb_given rbytes st =
     (if 0 < rbytes then
        st\<lparr>gs_rdata := map_option (\<lambda>off. off + nat rbytes) (gs_rdata st),
           gs_req := (gs_req st)\<lparr>rq_remain := rq_remain (gs_req st) + rbytes\<rparr>\<rparr>
      else if rbytes = CI_EOF then st\<lparr>gs_eof := True\<rparr> else st)"

text \<open>The call of the service; the flag is false when it returned \<^verbatim>\<open>CI_ERROR\<close>.\<close>

definition gsb_call ::
  "'s service_io \<Rightarrow> nat \<Rightarrow> 's gsb \<Rightarrow> ('s gsb \<times> int \<times> int \<times> bool) c_result option" where
  "gsb_call sio room st =
     (case gsb_offer st of
        Abort \<Rightarrow> Some Abort
      | Undef \<Rightarrow> Some Undef
      | Ret data \<Rightarrow>
          (case sio (map_option (\<lambda>_. room) (gs_rdata st)) data (rq_eof_received (gs_req st)) (gs_req st, gs_srv st) of
             None \<Rightarrow> None
           | Some ((req1, s1), out, rbytes, wbytes, ret) \<Rightarrow>
               (case gs_rdata st of
                  None \<Rightarrow> if out = [] then Some (Ret (st\<lparr>gs_req := req1, gs_srv := s1\<rparr>, rbytes, wbytes, ret \<noteq> CI_ERROR))
                          else Some Undef
                | Some off \<Rightarrow>
                    if off + length out \<le> length (rq_wbuf req1) then
                      Some (Ret (st\<lparr>gs_req := req1\<lparr>rq_wbuf := mem_write off out (rq_wbuf req1)\<rparr>, gs_srv := s1\<rparr>,
                                 rbytes, wbytes, ret \<noteq> CI_ERROR))
                    else Some Undef)))"

text \<open>
  The inner loop.  \<open>formatted\<close> is \<^verbatim>\<open>has_formated_data\<close> and \<open>pret\<close> is \<^verbatim>\<open>parse_chunk_ret\<close>; the flag of
  the result is false when the function returns \<^verbatim>\<open>CI_ERROR\<close>.
\<close>

partial_function (option) io_loop ::
  "'s service_io \<Rightarrow> bool \<Rightarrow> int \<Rightarrow> 's gsb \<Rightarrow> ('s gsb \<times> bool) c_result option" where
  [code]: "io_loop sio formatted pret st =
     (case gsb_parse st pret of
        None \<Rightarrow> None
      | Some Abort \<Rightarrow> Some Abort
      | Some Undef \<Rightarrow> Some Undef
      | Some (Ret (st1, pret1)) \<Rightarrow>
          if pret1 = CI_ERROR then Some (Ret (st1, False))
          else let (st2, room) = gsb_room formatted st1 in
            (case gsb_call sio room st2 of
               None \<Rightarrow> None
             | Some Abort \<Rightarrow> Some Abort
             | Some Undef \<Rightarrow> Some Undef
             | Some (Ret (st3, rbytes, wbytes, ok)) \<Rightarrow>
                 if \<not> ok then Some (Ret (st3, False))
                 else let st4 = gsb_given rbytes (gsb_taken wbytes st3) in
                   if \<not> (rbytes = 0 \<and> wbytes = 0) \<and> rq_pstr_len (gs_req st4) \<noteq> 0
                     \<and> pret1 \<noteq> CI_NEEDS_MORE \<and> pret1 \<noteq> CI_EOF \<and> \<not> gs_full st4
                   then io_loop sio formatted pret1 st4
                   else Some (Ret (st4, True))))"

section \<open>The outer loop\<close>

text \<open>
  A pass of the outer loop after reading and writing: the state and what comes next, a return
  or the directions to wait for and whether the service changed the lock.
\<close>

datatype gsb_next = G_return int | G_next bool bool bool

definition gsb_start :: "(nat \<Rightarrow> char) \<Rightarrow> (nat \<Rightarrow> bool) \<Rightarrow> server_env \<Rightarrow> ci_request \<Rightarrow> (ci_request \<times> int) c_result" where
  "gsb_start g ra sv req =
     (if \<not> rq_data_locked req \<and> rq_remain req = 0 then update_send_status g ra sv req else Ret (req, CI_OK))"

definition gsb_format :: "bool \<Rightarrow> bool \<Rightarrow> ci_request \<Rightarrow> ci_request c_result" where
  "gsb_format formatted service_eof req =
     (if rq_status req = SEND_BODY then
        let req1 = (if rq_remain req = 0 \<and> service_eof then req\<lparr>rq_remain := CI_EOF\<rparr> else req) in
        if \<not> formatted then
          c_bind (apply_format req1) (\<lambda>(req2, st). Ret (if st = CI_EOF then req2\<lparr>rq_status := SEND_EOF\<rparr> else req2))
        else Ret req1
      else Ret req)"

definition gsb_end :: "bool \<Rightarrow> bool \<Rightarrow> 's gsb \<Rightarrow> ('s gsb \<times> gsb_next) c_result" where
  "gsb_end lock_status formatted st =
     (let rd = (rq_pending (gs_req st) = 0); st1 = (if rd then st\<lparr>gs_wdata := None\<rparr> else st) in
      c_bind (gsb_format formatted (gs_eof st1) (gs_req st1)) (\<lambda>req.
        Ret (st1\<lparr>gs_req := req\<rparr>, G_next rd (rq_remain req \<noteq> 0) (lock_status \<noteq> rq_data_locked req))))"

definition gsb_pass ::
  "(nat \<Rightarrow> char) \<Rightarrow> (nat \<Rightarrow> bool) \<Rightarrow> server_env \<Rightarrow> 's service_io \<Rightarrow> 's gsb \<Rightarrow> ('s gsb \<times> gsb_next) c_result option" where
  "gsb_pass g ra sv sio st =
     (case gsb_start g ra sv (gs_req st) of
        Abort \<Rightarrow> Some Abort
      | Undef \<Rightarrow> Some Undef
      | Ret (req, us) \<Rightarrow>
          if us = CI_ERROR then Some (Ret (st\<lparr>gs_req := req\<rparr>, G_return CI_ERROR))
          else let formatted = (rq_remain req \<noteq> 0) in
            (case io_loop sio formatted 0 (st\<lparr>gs_req := req\<rparr>) of
               None \<Rightarrow> None
             | Some Abort \<Rightarrow> Some Abort
             | Some Undef \<Rightarrow> Some Undef
             | Some (Ret (st1, ok)) \<Rightarrow>
                 if \<not> ok then Some (Ret (st1, G_return CI_ERROR))
                 else Some (gsb_end (rq_data_locked req) formatted st1)))"

text \<open>Reading and writing at the start of a pass; the flag is false when the function returns \<^verbatim>\<open>CI_ERROR\<close>.\<close>

definition gsb_net ::
  "(nat \<Rightarrow> char) \<Rightarrow> (nat \<Rightarrow> bool) \<Rightarrow> server_env \<Rightarrow> io_in option \<times> net_out option \<Rightarrow> io_ev list \<Rightarrow> ci_request
   \<Rightarrow> (ci_request \<times> bytes \<times> bool \<times> io_ev list) c_result" where
  "gsb_net g ra sv io es req =
     (case io_read (fst io) es req of
        ((req1, st), es1) \<Rightarrow>
          if st = CI_ERROR then Ret (req1, [], False, es1)
          else c_bind (io_write g ra sv (snd io) req1) (\<lambda>(req2, out, st2). Ret (req2, out, st2 \<noteq> CI_ERROR, es1)))"

definition gsb_finish :: "'s gsb \<Rightarrow> io_ev list \<Rightarrow> ((ci_request \<times> 's) \<times> bytes \<times> int \<times> io_ev list) c_result" where
  "gsb_finish st es = Ret ((gs_req st, gs_srv st), [], if rq_eof_received (gs_req st) then CI_OK else CI_ERROR, es)"

definition gsb_go_on :: "bool \<Rightarrow> ci_request \<Rightarrow> bool" where
  "gsb_go_on again req \<longleftrightarrow> (\<not> rq_eof_received req \<or> rq_pending req \<noteq> 0) \<and> again"

partial_function (option) gsb_loop ::
  "(nat \<Rightarrow> char) \<Rightarrow> (nat \<Rightarrow> bool) \<Rightarrow> server_env \<Rightarrow> 's service_io \<Rightarrow> bool \<Rightarrow> bool \<Rightarrow> io_ev list \<Rightarrow> 's gsb
   \<Rightarrow> ((ci_request \<times> 's) \<times> bytes \<times> int \<times> io_ev list) c_result option" where
  [code]: "gsb_loop g ra sv sio rd wr es st =
     (case (if rd \<or> wr then io_wait rd wr es else Some ((None, None), es)) of
        None \<Rightarrow> Some (gsb_finish st (tl es))
      | Some (io, es1) \<Rightarrow>
          (case gsb_net g ra sv io es1 (gs_req st) of
             Abort \<Rightarrow> Some Abort
           | Undef \<Rightarrow> Some Undef
           | Ret (req, out, ok, es2) \<Rightarrow>
               if \<not> ok then Some (Ret ((req, gs_srv st), out, CI_ERROR, es2))
               else (case gsb_pass g ra sv sio (st\<lparr>gs_req := req\<rparr>) of
                       None \<Rightarrow> None
                     | Some Abort \<Rightarrow> Some Abort
                     | Some Undef \<Rightarrow> Some Undef
                     | Some (Ret (st2, G_return ret)) \<Rightarrow> Some (Ret ((gs_req st2, gs_srv st2), out, ret, es2))
                     | Some (Ret (st2, G_next rd2 wr2 lock_changed)) \<Rightarrow>
                         if gsb_go_on (rd2 \<or> wr2 \<or> lock_changed) (gs_req st2) then
                           Option.bind (gsb_loop g ra sv sio rd2 wr2 es2 st2) (\<lambda>r. Some (prepend_out out r))
                         else Some (prepend_out out (gsb_finish st2 es2)))))"

definition pick_body_io :: "bool \<Rightarrow> 's service_ops \<Rightarrow> ci_request \<Rightarrow> 's service_io option" where
  "pick_body_io parse_only so req = (if parse_only then Some mod_null_io else pick_io so req)"

definition gsb_init :: "ci_request \<times> 's \<Rightarrow> 's gsb" where
  "gsb_init rs = \<lparr>gs_req = (fst rs)\<lparr>rq_status := SEND_NOTHING\<rparr>, gs_srv = snd rs, gs_wdata = None,
     gs_rdata = None, gs_full = False, gs_eof = False\<rparr>"

definition get_send_body ::
  "(nat \<Rightarrow> char) \<Rightarrow> (nat \<Rightarrow> bool) \<Rightarrow> server_env \<Rightarrow> 's service_ops \<Rightarrow> bool \<Rightarrow> io_ev list \<Rightarrow> ci_request \<times> 's
   \<Rightarrow> ((ci_request \<times> 's) \<times> bytes \<times> int \<times> io_ev list) c_result option" where
  "get_send_body g ra sv so parse_only es rs =
     (case pick_body_io parse_only so (fst rs) of
        None \<Rightarrow> Some (Ret (rs, [], CI_ERROR, es))
      | Some sio \<Rightarrow> gsb_loop g ra sv sio (rq_pstr_len (fst rs) = 0) False es (gsb_init rs))"

section \<open>A service as a sink of body bytes\<close>

text \<open>
  What reading a body with locked data relies on: a service in a state that is \<open>good\<close> for some
  bytes takes all that it is offered of them.  \<open>after s d e s'\<close> says that \<open>s'\<close> is a state after it took
  \<open>d\<close>, and, if \<open>e\<close>, was told that this is the end.
\<close>

definition offered :: "bytes option \<Rightarrow> bytes" where
  "offered data = (case data of None \<Rightarrow> [] | Some d \<Rightarrow> d)"

lemma offered_simps [simp]: "offered None = []" "offered (Some d) = d"
  by (simp_all add: offered_def)

locale body_sink =
  fixes sio :: "'s service_io"
    and good :: "'s \<Rightarrow> bytes \<Rightarrow> bool"
    and after :: "'s \<Rightarrow> bytes \<Rightarrow> bool \<Rightarrow> 's \<Rightarrow> bool"
  assumes takes: "\<lbrakk>good s (offered data @ rest); eof \<longrightarrow> rest = []\<rbrakk> \<Longrightarrow>
      \<exists>s' r. sio None data eof (req, s) = Some ((req, s'), [], r, int (length (offered data)), CI_OK)
        \<and> (r = 0 \<or> r = CI_EOF) \<and> after s (offered data) eof s' \<and> good s' rest"
    and after_append: "\<lbrakk>after s a False s'; after s' b e s''\<rbrakk> \<Longrightarrow> after s (a @ b) e s''"

text \<open>
  The state between two exchanges while body bytes \<open>P\<close> are still to be delivered (\<open>F\<close> not yet read
  from the connection, \<open>Y\<close> following the body), and at the end of the body.
\<close>

definition idle_output :: "'s gsb \<Rightarrow> bool" where
  "idle_output st \<longleftrightarrow> rq_status (gs_req st) = SEND_NOTHING \<and> gs_rdata st = None \<and> \<not> gs_full st"

definition feeding :: "zero_ext \<Rightarrow> bytes \<Rightarrow> bytes \<Rightarrow> bytes \<Rightarrow> 's gsb \<Rightarrow> bool" where
  "feeding x Y F P st \<longleftrightarrow> idle_output st
     \<and> win (gs_req st) \<and> rq_pending (gs_req st) = 0 \<and> \<not> rq_eof_received (gs_req st)
     \<and> (in_def x Y (gs_req st) (rq_text (gs_req st) @ F) P \<or> in_data x Y (gs_req st) (rq_text (gs_req st) @ F) P)"

definition fed :: "bytes \<Rightarrow> bytes \<Rightarrow> 's gsb \<Rightarrow> bool" where
  "fed Y F st \<longleftrightarrow> idle_output st \<and> rq_pending (gs_req st) = 0 \<and> rq_eof_received (gs_req st)
     \<and> rq_text (gs_req st) @ F = Y"

definition same_request :: "ci_request \<Rightarrow> ci_request \<Rightarrow> bool" where
  "same_request q r \<longleftrightarrow> ci_req_in.more q = ci_req_in.more r \<and> rq_rbuf q = rq_rbuf r"

lemma same_more:
  assumes "ci_req_in.more q = ci_req_in.more (r :: ci_request)"
  shows "rq_status q = rq_status r" "rq_data_locked q = rq_data_locked r" "rq_remain q = rq_remain r"
    "rq_echo_body q = rq_echo_body r" "rq_responce_hasbody q = rq_responce_hasbody r" "rq_wbuf q = rq_wbuf r"
    "rq_block q = rq_block r"
  using assms by (cases q; cases r; simp)+

lemma win_len: "win r \<Longrightarrow> rq_pstr_len r = int (length (rq_text r))"
  using win_mem [of r] by blast

lemma handed_cong:
  assumes "rq_rbuf q = rq_rbuf r" "rq_pending q = rq_pending r"
  shows "handed q wd = handed r wd"
  unfolding handed_def assms by (rule refl)

text \<open>A call of the parser by the loop.\<close>

lemma gsb_parse_feeding:
  assumes "good_ext x" "feeding x Y F P st" "rq_text (gs_req st) \<noteq> []"
  obtains q ret wd P' where "gsb_parse st pret = Some (Ret (st\<lparr>gs_req := q, gs_wdata := wd\<rparr>, ret))"
    "same_request q (gs_req st)" "win q" "unat (rq_pending q) = length (handed q wd)" "P = handed q wd @ P'"
    "ret = CI_EOF \<and> P' = [] \<and> rq_text q @ F = Y \<and> rq_eof_received q
     \<or> \<not> rq_eof_received q \<and> (in_def x Y q (rq_text q @ F) P' \<or> in_data x Y q (rq_text q @ F) P')
       \<and> (ret = CI_NEEDS_MORE \<and> F \<noteq> [] \<and> length (rq_text q) < 4096
          \<or> ret = CI_OK \<and> handed q wd \<noteq> [] \<and> length (rq_text q) < length (rq_text (gs_req st)))"
proof -
  let ?r = "gs_req st"
  have r: "win ?r" "rq_pending ?r = 0" "\<not> rq_eof_received ?r"
      "in_def x Y ?r (rq_text ?r @ F) P \<or> in_data x Y ?r (rq_text ?r @ F) P"
    using assms(2) by (auto simp: feeding_def)
  have len: "rq_pstr_len ?r \<noteq> 0" using win_len [OF r(1)] assms(3) by simp
  obtain q ret wd where q: "parse_chunk_data ?r = Some (Ret (q, ret, wd))"
      "parse_result x Y F P ?r (q, ret, wd)" "ci_req_in.more q = ci_req_in.more ?r"
    by (rule parse_chunk_data_result [OF assms(1) r(1,2,4)])
  define z where "z = (if ret = CI_EOF then q\<lparr>rq_eof_received := True\<rparr> else q)"
  have f: "rq_rbuf z = rq_rbuf q" "rq_pstr z = rq_pstr q" "rq_pstr_len z = rq_pstr_len q"
      "rq_pending z = rq_pending q" "rq_chunk_len z = rq_chunk_len q" "rq_chunk_read z = rq_chunk_read q"
      "ci_req_in.more z = ci_req_in.more q" "rq_eof_received z = (rq_eof_received q \<or> ret = CI_EOF)"
    unfolding z_def by (simp_all split: if_split)
  have z: "rq_text z = rq_text q" "win z \<longleftrightarrow> win q" "handed z wd = handed q wd"
      "in_def x Y z = in_def x Y q" "in_data x Y z = in_data x Y q"
    by (rule win_cong [OF f(1-3)] handed_cong [OF f(1,4)] expects_cong [OF f(5,6)])+
  have "gsb_parse st pret = Some (Ret (st\<lparr>gs_req := z, gs_wdata := wd\<rparr>, ret))"
    using q(1) r(2) len by (simp add: gsb_parse_def Let_def z_def)
  moreover obtain P' where "win q" "rq_rbuf q = rq_rbuf ?r" "unat (rq_pending q) = length (handed q wd)"
      "P = handed q wd @ P'"
      "ret = CI_EOF \<and> P' = [] \<and> rq_text q @ F = Y
       \<or> rq_eof_received q = rq_eof_received ?r
         \<and> (in_def x Y q (rq_text q @ F) P' \<or> in_data x Y q (rq_text q @ F) P')
         \<and> (ret = CI_NEEDS_MORE \<and> F \<noteq> [] \<and> length (rq_text q) < 4096
            \<or> ret = CI_OK \<and> handed q wd \<noteq> [] \<and> length (rq_text q) < length (rq_text ?r))"
    using q(2) unfolding parse_result_def by auto
  ultimately show ?thesis
    using q(3) r(3) by (intro that [of wd z ret P']) (auto simp: z f same_request_def ci_consts)
qed

text \<open>The events of a connection that delivers a body in pieces; it may be writable at any time.\<close>

definition body_events :: "(bytes \<times> net_out option) list \<Rightarrow> io_ev list" where
  "body_events evs = map (\<lambda>(d, t). Io_ev (Some (In_data d)) t) evs"

definition input_size :: "(bytes \<times> net_out option) list \<Rightarrow> nat" where
  "input_size evs = (\<Sum>(d, t) \<leftarrow> evs. length d + 1)"

lemma io_read_piece:
  assumes "win req" "length (rq_rbuf req) = 4096" "length (rq_text req) < 4096"
  obtains q evs' where "io_read (Some (In_data d)) (body_events evs) req = ((q, CI_OK), body_events evs')"
    "rq_text q @ concat (map fst evs') = rq_text req @ d @ concat (map fst evs)" "win q" "length (rq_rbuf q) = 4096"
    "rq_chunk_len q = rq_chunk_len req" "rq_chunk_read q = rq_chunk_read req"
    "rq_pending q = rq_pending req" "rq_eof_received q = rq_eof_received req"
    "ci_req_in.more q = ci_req_in.more req" "input_size evs' < input_size ((d, t) # evs)"
proof -
  let ?n = "4096 - length (rq_text req)"
  have room: "nat (BUFSIZE - rq_pstr_len req) = ?n"
    using win_len [OF assms(1)] assms(3) by (simp add: BUFSIZE_def)
  obtain q where q: "net_data_read (\<lambda>n. Some (take n d)) req = (q, CI_OK)" "win q"
      "rq_text q = rq_text req @ take ?n d" "length (rq_rbuf q) = 4096"
      "rq_chunk_len q = rq_chunk_len req" "rq_chunk_read q = rq_chunk_read req"
      "rq_pending q = rq_pending req" "rq_eof_received q = rq_eof_received req"
      "ci_req_in.more q = ci_req_in.more req"
    by (rule net_data_read_text [OF assms, of "\<lambda>n. Some (take n d)" "take ?n d"]) simp_all
  show ?thesis
  proof (cases "length d \<le> ?n")
    case True
    with q room assms(3) show ?thesis
      by (intro that [of q evs]) (simp_all add: Let_def input_size_def)
  next
    case False
    have "?n > 0" using assms(3) by simp
    with q room assms(3) False show ?thesis
      by (intro that [of q "(drop ?n d, None) # evs"]) (simp_all add: Let_def input_size_def body_events_def)
  qed
qed

context body_sink
begin

text \<open>The service takes what the parser handed over.\<close>

lemma call_takes:
  assumes "good (gs_srv st) (d @ rest)" "idle_output (st :: 's gsb)" "rq_eof_received (gs_req st) \<longrightarrow> rest = []"
    and d: "d = handed (gs_req st) (gs_wdata st)" "unat (rq_pending (gs_req st)) = length d"
  obtains r s' st' where "gsb_room f st = (st, 0)"
    "gsb_call sio 0 st = Some (Ret (st\<lparr>gs_srv := s'\<rparr>, r, int (length d), True))"
    "gsb_given r (gsb_taken (int (length d)) (st\<lparr>gs_srv := s'\<rparr>)) = st'"
    "gs_req st' = (gs_req st)\<lparr>rq_pending := 0\<rparr>" "idle_output st'"
    "gs_srv st' = s'" "after (gs_srv st) d (rq_eof_received (gs_req st)) s'" "good s' rest"
proof -
  have room: "gsb_room f st = (st, 0)"
    using assms(2) by (simp add: gsb_room_def idle_output_def ci_consts)
  obtain data where data: "gsb_offer st = Ret data" "offered data = d"
    using d by (cases "gs_wdata st") (auto simp: gsb_offer_def handed_def)
  obtain r s' where r: "sio None data (rq_eof_received (gs_req st)) (gs_req st, gs_srv st)
      = Some ((gs_req st, s'), [], r, int (length d), CI_OK)" "r = 0 \<or> r = CI_EOF"
      "after (gs_srv st) d (rq_eof_received (gs_req st)) s'" "good s' rest"
    using takes [of "gs_srv st" data rest "rq_eof_received (gs_req st)" "gs_req st"] assms(1,3) data(2) by auto
  have call: "gsb_call sio 0 st = Some (Ret (st\<lparr>gs_srv := s'\<rparr>, r, int (length d), True))"
    using assms(2) data r(1) by (simp add: gsb_call_def idle_output_def ci_consts)
  have "rq_pending (gs_req st) = word_of_nat (length d)"
    by (simp add: d(2) [symmetric])
  then have "rq_pending (gs_req st) - word_of_int (int (length d)) = 0" by simp
  then have p: "(gs_req st)\<lparr>rq_pending := rq_pending (gs_req st) - word_of_int (int (length d))\<rparr>
      = (gs_req st)\<lparr>rq_pending := 0\<rparr>" by simp
  have "gs_req st = (gs_req st)\<lparr>rq_pending := 0\<rparr>" if "d = []"
    using d(2) that unat_eq_zero [of "rq_pending (gs_req st)"] by simp
  then show ?thesis
    using r(2-4) assms(2) p by (intro that [OF room call refl])
      (auto simp: gsb_given_def gsb_taken_def idle_output_def ci_consts)
qed

text \<open>What a round leaves: the end of the body was delivered, or \<open>P2\<close> is still to come.\<close>

definition fed_to :: "zero_ext \<Rightarrow> bytes \<Rightarrow> bytes \<Rightarrow> bytes \<Rightarrow> 's gsb \<Rightarrow> 's gsb \<Rightarrow> bool" where
  "fed_to x Y F P st st' \<longleftrightarrow> same_request (gs_req st') (gs_req st) \<and> (\<exists>P1 P2 e. P = P1 @ P2
     \<and> after (gs_srv st) P1 e (gs_srv st') \<and> good (gs_srv st') P2
     \<and> (e \<and> fed Y F st' \<and> P2 = []
        \<or> \<not> e \<and> feeding x Y F P2 st' \<and> F \<noteq> [] \<and> length (rq_text (gs_req st')) < 4096))"

lemma fed_to_step:
  assumes "fed_to x Y F P' st' st2" "after (gs_srv st) d False (gs_srv st')" "same_request (gs_req st') (gs_req st)"
  shows "fed_to x Y F (d @ P') st st2"
proof -
  from assms(1) obtain P1 P2 e where f: "P' = P1 @ P2" "after (gs_srv st') P1 e (gs_srv st2)" "good (gs_srv st2) P2"
      "same_request (gs_req st2) (gs_req st')"
      "e \<and> fed Y F st2 \<and> P2 = [] \<or> \<not> e \<and> feeding x Y F P2 st2 \<and> F \<noteq> [] \<and> length (rq_text (gs_req st2)) < 4096"
    unfolding fed_to_def by blast
  have "d @ P' = (d @ P1) @ P2" using f(1) by simp
  moreover have "same_request (gs_req st2) (gs_req st)" using f(4) assms(3) by (simp add: same_request_def)
  ultimately show ?thesis unfolding fed_to_def using after_append [OF assms(2) f(2)] f(3,5) by blast
qed

text \<open>The inner loop delivers what is in the window, up to an incomplete chunk or the end.\<close>

lemma io_loop_feeds:
  assumes x: "good_ext x" and "feeding x Y F P st" "good (gs_srv st) P" "rq_text (gs_req st) \<noteq> []"
  shows "\<exists>st'. io_loop sio f pret st = Some (Ret (st', True)) \<and> fed_to x Y F P st st'"
  using assms(2-)
proof (induction "length (rq_text (gs_req st))" arbitrary: st P pret rule: less_induct)
  case less
  obtain q ret wd P' where q: "gsb_parse st pret = Some (Ret (st\<lparr>gs_req := q, gs_wdata := wd\<rparr>, ret))"
    "same_request q (gs_req st)" "win q" "unat (rq_pending q) = length (handed q wd)" "P = handed q wd @ P'"
    and alt: "ret = CI_EOF \<and> P' = [] \<and> rq_text q @ F = Y \<and> rq_eof_received q
     \<or> \<not> rq_eof_received q \<and> (in_def x Y q (rq_text q @ F) P' \<or> in_data x Y q (rq_text q @ F) P')
       \<and> (ret = CI_NEEDS_MORE \<and> F \<noteq> [] \<and> length (rq_text q) < 4096
          \<or> ret = CI_OK \<and> handed q wd \<noteq> [] \<and> length (rq_text q) < length (rq_text (gs_req st)))"
    by (rule gsb_parse_feeding [OF x less.prems(1,3)])
  let ?st = "st\<lparr>gs_req := q, gs_wdata := wd\<rparr>" and ?d = "handed q wd" and ?q = "q\<lparr>rq_pending := 0\<rparr>"
  have more: "ci_req_in.more q = ci_req_in.more (gs_req st)" using q(2) by (simp add: same_request_def)
  have io: "idle_output ?st"
    using less.prems(1) same_more(1) [OF more] by (simp add: feeding_def idle_output_def)
  have g: "good (gs_srv ?st) (?d @ P')" "rq_eof_received (gs_req ?st) \<longrightarrow> P' = []"
    using less.prems(2) q(5) alt by auto
  obtain r s' st' where c: "gsb_room f ?st = (?st, 0)"
    "gsb_call sio 0 ?st = Some (Ret (?st\<lparr>gs_srv := s'\<rparr>, r, int (length ?d), True))"
    "gsb_given r (gsb_taken (int (length ?d)) (?st\<lparr>gs_srv := s'\<rparr>)) = st'"
    "gs_req st' = ?q" "idle_output st'" "gs_srv st' = s'" "after (gs_srv st) ?d (rq_eof_received q) s'" "good s' P'"
    by (rule call_takes [OF g(1) io g(2), of f], use q(4) in simp, use q(4) in simp, rule that) simp_all
  have t: "rq_text ?q = rq_text q" "win ?q" "in_def x Y ?q = in_def x Y q" "in_data x Y ?q = in_data x Y q"
    using win_cong [of ?q q] expects_cong [of ?q q x Y] q(3) by simp_all
  have len: "rq_pstr_len q = int (length (rq_text q))" by (rule win_len [OF q(3)])
  have unfold: "io_loop sio f pret st =
      (if \<not> (r = 0 \<and> ?d = []) \<and> rq_text q \<noteq> [] \<and> ret \<noteq> CI_NEEDS_MORE \<and> ret \<noteq> CI_EOF
       then io_loop sio f ret st' else Some (Ret (st', True)))"
    if "ret \<noteq> CI_ERROR"
    using that q(1) c len by (subst io_loop.simps) (simp add: idle_output_def)
  have same: "same_request (gs_req st') (gs_req st)" using q(2) c(4) by (simp add: same_request_def)
  from alt consider (eof) "ret = CI_EOF" "P' = []" "rq_text q @ F = Y" "rq_eof_received q"
    | (more) "\<not> rq_eof_received q" "in_def x Y q (rq_text q @ F) P' \<or> in_data x Y q (rq_text q @ F) P'"
        "ret = CI_NEEDS_MORE" "F \<noteq> []" "length (rq_text q) < 4096"
    | (ok) "\<not> rq_eof_received q" "in_def x Y q (rq_text q @ F) P' \<or> in_data x Y q (rq_text q @ F) P'"
        "ret = CI_OK" "?d \<noteq> []" "length (rq_text q) < length (rq_text (gs_req st))"
    by argo
  then show ?case
  proof cases
    case eof
    then have "io_loop sio f pret st = Some (Ret (st', True))" "fed Y F st'"
      using unfold c(4,5) t by (simp_all add: fed_def ci_consts)
    moreover have "P = ?d @ []" using q(5) eof(2) by simp
    ultimately show ?thesis unfolding fed_to_def using c(6-8) same eof(2,4) by blast
  next
    case more
    then have "io_loop sio f pret st = Some (Ret (st', True))" "feeding x Y F P' st'"
      using unfold c(4,5) t by (simp_all add: feeding_def ci_consts)
    moreover have "length (rq_text (gs_req st')) < 4096" using more(5) c(4) t by simp
    ultimately show ?thesis unfolding fed_to_def using q(5) c(6-8) same more(1,4) by blast
  next
    case ok
    have f: "feeding x Y F P' st'" using ok(1,2) c(4,5) t by (simp add: feeding_def)
    show ?thesis
    proof (cases "rq_text q = []")
      case True
      with ok have "io_loop sio f pret st = Some (Ret (st', True))" using unfold by (simp add: ci_consts)
      moreover have "F \<noteq> []" using rest_nonempty [OF ok(2)] True by simp
      moreover have "length (rq_text (gs_req st')) < 4096" using True c(4) t by simp
      ultimately show ?thesis unfolding fed_to_def using f q(5) c(6-8) same ok(1) by blast
    next
      case False
      with ok have loop: "io_loop sio f pret st = io_loop sio f ret st'" using unfold by (simp add: ci_consts)
      have "length (rq_text (gs_req st')) < length (rq_text (gs_req st))" "rq_text (gs_req st') \<noteq> []"
        using ok(5) False c(4) t by simp_all
      from less.hyps [OF this(1) f _ this(2), of ret] c(6,8) loop obtain st2
        where st2: "io_loop sio f pret st = Some (Ret (st2, True))" "fed_to x Y F P' st' st2"
        by auto
      then show ?thesis using fed_to_step [OF st2(2) _ same, of ?d] c(6,7) ok(1) q(5) by auto
    qed
  qed
qed

lemma io_loop_round:
  assumes x: "good_ext x" and f: "feeding x Y F P st" "good (gs_srv st) P"
  shows "\<exists>st'. io_loop sio f 0 st = Some (Ret (st', True)) \<and> fed_to x Y F P st st'"
proof (cases "rq_text (gs_req st) = []")
  case True
  have st: "idle_output st" "win (gs_req st)" "rq_pending (gs_req st) = 0" "\<not> rq_eof_received (gs_req st)"
    using f(1) by (auto simp: feeding_def)
  have len: "rq_pstr_len (gs_req st) = 0" using win_len [OF st(2)] True by simp
  have d: "[] = handed (gs_req st) (gs_wdata st)" "unat (rq_pending (gs_req st)) = length ([] :: bytes)"
    "good (gs_srv st) ([] @ P)" "rq_eof_received (gs_req st) \<longrightarrow> P = []"
    using st(3,4) f(2) by simp_all
  obtain r s' st' where c: "gsb_room f st = (st, 0)"
    "gsb_call sio 0 st = Some (Ret (st\<lparr>gs_srv := s'\<rparr>, r, int (length ([] :: bytes)), True))"
    "gsb_given r (gsb_taken (int (length ([] :: bytes))) (st\<lparr>gs_srv := s'\<rparr>)) = st'"
    "gs_req st' = (gs_req st)\<lparr>rq_pending := 0\<rparr>" "idle_output st'" "gs_srv st' = s'"
    "after (gs_srv st) [] (rq_eof_received (gs_req st)) s'" "good s' P"
    by (rule call_takes [OF d(3) st(1) d(4,1,2), of f])
  have same: "gs_req st' = gs_req st" using c(4) st(3) by simp
  have "gsb_parse st 0 = Some (Ret (st, 0))" using len by (simp add: gsb_parse_def)
  then have l: "io_loop sio f 0 st = Some (Ret (st', True))"
    using c len same by (subst io_loop.simps) (simp add: ci_consts)
  have "feeding x Y F P st'" using f(1) c(5) same by (simp add: feeding_def)
  moreover have "F \<noteq> []" using f(1) rest_nonempty [of x Y "gs_req st"] True by (auto simp: feeding_def)
  ultimately have "fed_to x Y F P st st'"
    unfolding fed_to_def using True same c(6-8) st(4)
    by (intro conjI exI [of _ "[]"] exI [of _ P] exI [of _ False]) (simp_all add: same_request_def)
  with l show ?thesis by blast
qed (rule io_loop_feeds [OF assms])

definition held :: "'s gsb \<Rightarrow> bytes \<Rightarrow> bool" where
  "held st P \<longleftrightarrow> rq_data_locked (gs_req st) \<and> rq_remain (gs_req st) = 0 \<and> good (gs_srv st) P"

lemma pass_feeds:
  assumes x: "good_ext x" and f: "feeding x Y F P st" "held st P"
  shows "\<exists>st'. gsb_pass g ra sv sio st = Some (Ret (st', G_next True False False))
    \<and> rq_data_locked (gs_req st') \<and> rq_remain (gs_req st') = 0 \<and> fed_to x Y F P st st'"
proof -
  have h: "rq_data_locked (gs_req st)" "rq_remain (gs_req st) = 0" "good (gs_srv st) P"
    using f(2) by (auto simp: held_def)
  obtain st' where l: "io_loop sio False 0 st = Some (Ret (st', True))" "fed_to x Y F P st st'"
    using io_loop_round [OF x f(1) h(3), of False] by blast
  have k: "rq_data_locked (gs_req st')" "rq_remain (gs_req st') = 0"
    using l(2) h same_more [of "gs_req st'" "gs_req st"] by (simp_all add: same_request_def fed_to_def)
  have i: "idle_output st'" "rq_pending (gs_req st') = 0"
    using l(2) by (auto simp: fed_to_def fed_def feeding_def)
  let ?st = "st'\<lparr>gs_wdata := None\<rparr>"
  have "gsb_end True False st' = Ret (?st, G_next True False False)"
    using i k by (simp add: gsb_end_def gsb_format_def idle_output_def ci_consts)
  then have "gsb_pass g ra sv sio st = Some (Ret (?st, G_next True False False))"
    using h l(1) by (simp add: gsb_pass_def gsb_start_def ci_consts)
  moreover have "fed_to x Y F P st ?st"
    using l(2) unfolding fed_to_def fed_def feeding_def idle_output_def by auto
  ultimately show ?thesis using k by auto
qed

text \<open>The outer loop with locked data: it waits for input only and delivers the body.\<close>

lemma loop_feeds:
  assumes x: "good_ext x" and "feeding x Y (concat (map fst evs)) P st" "held st P"
    "length (rq_rbuf (gs_req st)) = 4096" "rd \<Longrightarrow> evs \<noteq> [] \<and> length (rq_text (gs_req st)) < 4096"
  shows "\<exists>q s' evs'. gsb_loop g ra sv sio rd False (body_events evs) st
      = Some (Ret ((q, s'), [], CI_OK, body_events evs')) \<and> after (gs_srv st) P True s'
    \<and> rq_eof_received q \<and> rq_pending q = 0 \<and> rq_text q @ concat (map fst evs') = Y
    \<and> ci_req_in.more q = ci_req_in.more (gs_req st)"
  using assms(2-)
proof (induction "2 * input_size evs + (if rd then 0 else 1)" arbitrary: evs P st rd rule: less_induct)
  case less
  let ?w = "if rd \<or> False then io_wait rd False (body_events evs) else Some ((None, None), body_events evs)"
  have "\<exists>io q es evs1. ?w = Some (io, es) \<and> snd io = None \<and> io_read (fst io) es (gs_req st) = ((q, CI_OK), body_events evs1)
      \<and> feeding x Y (concat (map fst evs1)) P (st\<lparr>gs_req := q\<rparr>) \<and> length (rq_rbuf q) = 4096
      \<and> ci_req_in.more q = ci_req_in.more (gs_req st)
      \<and> 2 * input_size evs1 < 2 * input_size evs + (if rd then 0 else 1)"
  proof (cases rd)
    case False
    with less.prems show ?thesis by auto
  next
    case True
    then obtain d t rest where evs: "evs = (d, t) # rest" using less.prems(4) by (cases evs) auto
    have f: "win (gs_req st)" "length (rq_text (gs_req st)) < 4096"
      using less.prems(1,4) True by (auto simp: feeding_def)
    obtain q evs' where q: "io_read (Some (In_data d)) (body_events rest) (gs_req st) = ((q, CI_OK), body_events evs')"
      "rq_text q @ concat (map fst evs') = rq_text (gs_req st) @ d @ concat (map fst rest)" "win q"
      "length (rq_rbuf q) = 4096" "rq_chunk_len q = rq_chunk_len (gs_req st)" "rq_chunk_read q = rq_chunk_read (gs_req st)"
      "rq_pending q = rq_pending (gs_req st)" "rq_eof_received q = rq_eof_received (gs_req st)"
      "ci_req_in.more q = ci_req_in.more (gs_req st)" "input_size evs' < input_size ((d, t) # rest)"
      by (rule io_read_piece [OF f(1) less.prems(3) f(2)])
    have "feeding x Y (concat (map fst evs')) P (st\<lparr>gs_req := q\<rparr>)"
      using less.prems(1) q same_more(1) [OF q(9)] expects_cong [OF q(5,6), of x Y] evs
      by (simp add: feeding_def idle_output_def)
    moreover have "?w = Some ((Some (In_data d), None), body_events rest)"
      using True by (simp add: evs body_events_def Let_def)
    ultimately show ?thesis using q evs True by auto
  qed
  then obtain io q es evs1 where w: "?w = Some (io, es)" "snd io = None"
      "io_read (fst io) es (gs_req st) = ((q, CI_OK), body_events evs1)"
    and f: "feeding x Y (concat (map fst evs1)) P (st\<lparr>gs_req := q\<rparr>)" "length (rq_rbuf q) = 4096"
      "ci_req_in.more q = ci_req_in.more (gs_req st)" "2 * input_size evs1 < 2 * input_size evs + (if rd then 0 else 1)"
    by blast
  have net: "gsb_net g ra sv io es (gs_req st) = Ret (q, [], True, body_events evs1)"
    using w(2,3) by (simp add: gsb_net_def io_write_def ci_consts)
  have h: "held (st\<lparr>gs_req := q\<rparr>) P" using less.prems(2) same_more [OF f(3)] by (simp add: held_def)
  obtain st' where p: "gsb_pass g ra sv sio (st\<lparr>gs_req := q\<rparr>) = Some (Ret (st', G_next True False False))"
      "rq_data_locked (gs_req st')" "rq_remain (gs_req st') = 0" "fed_to x Y (concat (map fst evs1)) P (st\<lparr>gs_req := q\<rparr>) st'"
    using pass_feeds [OF x f(1) h, of g ra sv] by auto
  from p(4) obtain P1 P2 e where d: "same_request (gs_req st') q" "P = P1 @ P2" "after (gs_srv st) P1 e (gs_srv st')"
      "good (gs_srv st') P2" and alt: "e \<and> fed Y (concat (map fst evs1)) st' \<and> P2 = []
       \<or> \<not> e \<and> feeding x Y (concat (map fst evs1)) P2 st' \<and> concat (map fst evs1) \<noteq> [] \<and> length (rq_text (gs_req st')) < 4096"
    unfolding fed_to_def by auto
  have loop: "gsb_loop g ra sv sio rd False (body_events evs) st =
      (if rq_eof_received (gs_req st') \<and> rq_pending (gs_req st') = 0
       then Some (prepend_out [] (gsb_finish st' (body_events evs1)))
       else Option.bind (gsb_loop g ra sv sio True False (body_events evs1) st') (\<lambda>r. Some (prepend_out [] r)))"
    using w(1) net p(1) by (subst gsb_loop.simps) (simp add: gsb_go_on_def)
  from alt show ?case
  proof
    assume e: "e \<and> fed Y (concat (map fst evs1)) st' \<and> P2 = []"
    then have "gsb_loop g ra sv sio rd False (body_events evs) st
        = Some (Ret ((gs_req st', gs_srv st'), [], CI_OK, body_events evs1))"
      using loop by (simp add: fed_def gsb_finish_def)
    then show ?thesis using e d f(3) by (auto simp: fed_def same_request_def)
  next
    assume e: "\<not> e \<and> feeding x Y (concat (map fst evs1)) P2 st' \<and> concat (map fst evs1) \<noteq> [] \<and> length (rq_text (gs_req st')) < 4096"
    have m: "length (rq_rbuf (gs_req st')) = 4096" "evs1 \<noteq> []" "2 * input_size evs1 + (if True then 0 else 1)
        < 2 * input_size evs + (if rd then 0 else 1)" "held st' P2"
      using p(2,3) d(1,4) f(2,4) e by (auto simp: same_request_def held_def)
    with less.hyps [of evs1 True P2 st'] e obtain q2 s2 evs2 where r:
        "gsb_loop g ra sv sio True False (body_events evs1) st' = Some (Ret ((q2, s2), [], CI_OK, body_events evs2))"
        "after (gs_srv st') P2 True s2" "rq_eof_received q2" "rq_pending q2 = 0" "rq_text q2 @ concat (map fst evs2) = Y"
        "ci_req_in.more q2 = ci_req_in.more (gs_req st')"
      by blast
    have "after (gs_srv st) P True s2" using after_append [of "gs_srv st" P1 "gs_srv st'" P2 True s2] d(2,3) r(2) e by simp
    moreover have "\<not> rq_eof_received (gs_req st')" using e by (simp add: feeding_def)
    ultimately show ?thesis using loop r d(1) f(3) by (auto simp: same_request_def)
  qed
qed

lemma get_body:
  assumes sink: "pick_body_io parse_only so req = Some sio" "good s (concat cs)"
    and locked: "rq_data_locked req" "rq_remain req = 0"
    and inp: "win req" "length (rq_rbuf req) = 4096" "rq_pending req = 0" "\<not> rq_eof_received req"
      "rq_chunk_len req = rq_chunk_read req" "length (rq_text req) < 4096"
    and body: "good_chunks cs" "good_ext x" "rq_text req @ concat (map fst evs) = chunked cs x @ Y"
  shows "\<exists>q s' evs'. get_send_body g ra sv so parse_only (body_events evs) (req, s)
      = Some (Ret ((q, s'), [], CI_OK, body_events evs')) \<and> after s (concat cs) True s'
    \<and> rq_eof_received q \<and> rq_pending q = 0 \<and> rq_text q @ concat (map fst evs') = Y
    \<and> ci_req_in.more q = ci_req_in.more (req\<lparr>rq_status := SEND_NOTHING\<rparr>)"
proof -
  let ?st = "gsb_init (req, s)"
  have t: "win (gs_req ?st)" "rq_text (gs_req ?st) = rq_text req"
    using inp(1) win_cong [of "gs_req ?st" req] by (simp_all add: gsb_init_def)
  have f: "feeding x Y (concat (map fst evs)) (concat cs) ?st"
    using t inp body by (auto simp: feeding_def idle_output_def gsb_init_def in_def_def)
  have h: "held ?st (concat cs)"
    using locked sink(2) by (simp add: held_def gsb_init_def)
  have "rq_pstr_len req = 0 \<Longrightarrow> evs \<noteq> []" using win_len [OF inp(1)] body(3) by auto
  then have r: "rq_pstr_len req = 0 \<Longrightarrow> evs \<noteq> [] \<and> length (rq_text (gs_req ?st)) < 4096"
    using t inp(6) by simp
  have b: "length (rq_rbuf (gs_req ?st)) = 4096" using inp(2) by (simp add: gsb_init_def)
  have "get_send_body g ra sv so parse_only (body_events evs) (req, s)
      = gsb_loop g ra sv sio (rq_pstr_len req = 0) False (body_events evs) ?st"
    using sink(1) by (simp add: get_send_body_def)
  with loop_feeds [OF body(2) f h b, where rd = "rq_pstr_len req = 0" and g = g and ra = ra and sv = sv, OF r]
  show ?thesis by (simp add: gsb_init_def)
qed

end

interpretation null: body_sink mod_null_io "\<lambda>_ _. True" "\<lambda>s _ _ s'. s' = s"
  by unfold_locales (auto simp: mod_null_io_def offered_def ci_consts split: option.splits)

text \<open>
  C29.  While the data of the service is locked, \<^verbatim>\<open>get_send_body\<close> returns \<^verbatim>\<open>CI_OK\<close> for every
  well-formed chunked body, however the connection cuts it into pieces (bytes already read with the
  header included) and whether or not it is writable: the service has received exactly the
  concatenation of the chunks and was told the end, nothing was sent, the rest of the request is as before, and the
  bytes after the body are the next input.  The service is any that takes what it is offered, as
  \<open>body_sink\<close> says.
\<close>

theorem get_send_body_delivers:
  assumes sink: "body_sink sio good after" "pick_body_io parse_only so req = Some sio" "good s (concat cs)"
    and locked: "rq_data_locked req" "rq_remain req = 0"
    and inp: "win req" "length (rq_rbuf req) = 4096" "rq_pending req = 0" "\<not> rq_eof_received req"
      "rq_chunk_len req = rq_chunk_read req" "length (rq_text req) < 4096"
    and body: "good_chunks cs" "good_ext x" "rq_text req @ concat (map fst evs) = chunked cs x @ Y"
  shows "\<exists>q s' evs'. get_send_body g ra sv so parse_only (body_events evs) (req, s)
      = Some (Ret ((q, s'), [], CI_OK, body_events evs')) \<and> after s (concat cs) True s'
    \<and> rq_eof_received q \<and> rq_pending q = 0 \<and> rq_text q @ concat (map fst evs') = Y
    \<and> ci_req_in.more q = ci_req_in.more (req\<lparr>rq_status := SEND_NOTHING\<rparr>)"
  using body_sink.get_body [OF assms] .

definition demo_server :: server_env where
  "demo_server = \<lparr>sv_version = ''0.5'', sv_hostname = ''h'', sv_allow204_as_200 = False, sv_fake_allow204 = True,
     sv_pipelining = True, sv_buggy_client = False,
     sv_services = \<lparr>st_services = [], st_aliases = [], st_default = None\<rparr>\<rparr>"

theorem get_send_body_delivers_witness:
  "\<exists>q s' evs'. get_send_body (\<lambda>_. NUL) (\<lambda>_. True)
      demo_server
      no_service True (body_events [(''3'' @ [CR], None), (LF # ''abc'' @ CRLF @ ''0'' @ CRLF, Some Out_fail), (CRLF @ ''X'', None)])
      (new_request, ())
      = Some (Ret ((q, s'), [], CI_OK, body_events evs')) \<and> s' = ()
    \<and> rq_eof_received q \<and> rq_pending q = 0 \<and> rq_text q @ concat (map fst evs') = ''X''
    \<and> ci_req_in.more q = ci_req_in.more (new_request\<lparr>rq_status := SEND_NOTHING\<rparr>)"
proof (rule get_send_body_delivers [OF null.body_sink_axioms, where cs = "[''abc'']" and x = X_none])
  show "pick_body_io True no_service new_request = Some mod_null_io" by (simp add: pick_body_io_def)
  have n: "rq_data_locked new_request" "rq_remain new_request = 0" "rq_pstr new_request = P_null"
      "rq_pstr_len new_request = 0" "length (rq_rbuf new_request) = 4096" "rq_pending new_request = 0"
      "\<not> rq_eof_received new_request" "rq_chunk_len new_request = rq_chunk_read new_request"
    by (simp_all add: new_request_def ci_request_alloc_def ci_headers_create_def fresh_mem_def)
  then show "rq_data_locked new_request" "rq_remain new_request = 0" "win new_request"
      "length (rq_rbuf new_request) = 4096" "rq_pending new_request = 0" "\<not> rq_eof_received new_request"
      "rq_chunk_len new_request = rq_chunk_read new_request" "length (rq_text new_request) < 4096"
    by (simp_all add: win_def rq_text_def)
  have t: "rq_text new_request = []" using n by (simp add: rq_text_def)
  have "chunked [''abc''] X_none = ''3'' @ CRLF @ ''abc'' @ CRLF @ ''0'' @ CRLF @ CRLF" by code_simp
  with t show "rq_text new_request @ concat (map fst [(''3'' @ [CR], None), (LF # ''abc'' @ CRLF @ ''0'' @ CRLF, Some Out_fail), (CRLF @ ''X'', None)])
      = chunked [''abc''] X_none @ ''X''" by simp
qed (simp_all add: good_chunks_def good_ext_def)

section \<open>Echoing a body while it is read\<close>

text \<open>
  The echo buffer is full and the parser's last piece is not completely in it.  From then on
  \<^verbatim>\<open>mod_echo_io\<close> is asked for no bytes and answers with the end of data, since the body was
  received; the loop takes this for the end of the service's data.
\<close>

lemma ring_full_write:
  assumes "rb_invar r" "rb_full r"
  shows "ci_ring_buf_write r d = Some (r, 0)"
  unfolding ci_ring_buf_write_def
  using assms by (subst ring_write_loop.simps) (simp add: ci_ring_buf_write_block_def rb_invar_def)

lemma ring_read_zero:
  assumes "rb_invar r"
  shows "ci_ring_buf_read r 0 = Some (r, [])"
proof -
  obtain rb len ret where blk: "ci_ring_buf_read_block r = (rb, len, ret)" by (cases "ci_ring_buf_read_block r") auto
  have "0 \<le> len" using blk assms by (auto simp: ci_ring_buf_read_block_def rb_invar_def split: if_splits)
  then have m: "min 0 len = (0 :: int)" by (simp add: min_def)
  show ?thesis
    unfolding ci_ring_buf_read_def
    by (subst ring_read_loop.simps)
      (simp only: blk Let_def fst_conv snd_conv of_nat_0 m, simp add: m ci_ring_buf_consume_def seg_def)
qed

lemma rb_full_contents:
  assumes "rb_invar r" "length (rb_contents r) = rb_capacity r"
  shows "rb_full r"
proof -
  obtain i j where "rb_read_pos r = int i" "rb_write_pos r = int j" "i < rb_capacity r" "j < rb_capacity r"
    using rb_invar_pos [OF assms(1)] by metis
  with assms(2) show ?thesis
    by (cases "i = j"; cases "i < j") (auto simp: rb_contents_def split: if_splits)
qed

definition choked :: "'s gsb \<Rightarrow> bool" where
  "choked st \<longleftrightarrow> (\<exists>r. rq_echo_body (gs_req st) = Some r \<and> rb_invar r \<and> rb_full r)
     \<and> rq_eof_received (gs_req st) \<and> rq_pending (gs_req st) \<noteq> 0
     \<and> (\<exists>d. gsb_offer st = Ret (Some d)) \<and> (\<exists>off. gs_rdata st = Some off \<and> off \<le> length (rq_wbuf (gs_req st)))
     \<and> gs_full st \<and> gs_eof st \<and> \<not> rq_data_locked (gs_req st) \<and> rq_responce_hasbody (gs_req st)
     \<and> EXTRA_CHUNK_SIZE \<le> length (rq_wbuf (gs_req st))"

lemma offer_cong:
  assumes "rq_rbuf q = rq_rbuf r" "rq_pending q = rq_pending r"
  shows "gsb_offer (st\<lparr>gs_req := q\<rparr>) = gsb_offer (st\<lparr>gs_req := r\<rparr>)"
  unfolding gsb_offer_def by (simp add: assms(2) handed_cong [OF assms] split: option.split)

lemma choked_io:
  assumes "choked st"
  shows "io_loop mod_echo_io f 0 st = Some (Ret (st, True))"
proof -
  obtain r d off where c: "rq_echo_body (gs_req st) = Some r" "rb_invar r" "rb_full r" "gsb_offer st = Ret (Some d)"
      "gs_rdata st = Some off" "off \<le> length (rq_wbuf (gs_req st))"
    and e: "rq_eof_received (gs_req st)" "rq_pending (gs_req st) \<noteq> 0" "gs_full st" "gs_eof st"
    using assms by (auto simp: choked_def)
  have "mod_echo_io (Some 0) (Some d) True (gs_req st, gs_srv st)
      = Some (((gs_req st)\<lparr>rq_echo_body := Some r\<rparr>, gs_srv st), [], CI_EOF, 0, CI_OK)"
    using c e by (simp add: mod_echo_io_def echo_write_def echo_read_def ring_full_write ring_read_zero)
  moreover have "(gs_req st)\<lparr>rq_echo_body := Some r\<rparr> = gs_req st" using c(1) by (cases "gs_req st") simp
  ultimately have "gsb_call mod_echo_io 0 st = Some (Ret (st, CI_EOF, 0, True))"
    using c e by (simp add: gsb_call_def ci_consts)
  moreover have "gsb_parse st 0 = Some (Ret (st, 0))" using e by (simp add: gsb_parse_def)
  moreover have "gsb_room f st = (st, 0)" using e by (simp add: gsb_room_def)
  moreover have "gsb_given CI_EOF (gsb_taken 0 st) = st" using e by (simp add: gsb_given_def gsb_taken_def ci_consts)
  ultimately show ?thesis using e by (subst io_loop.simps) (simp add: ci_consts)
qed

lemma apply_format_room:
  assumes "apply_format req = Ret (q, st)" "rq_remain req = CI_EOF"
  shows "length (rq_wbuf req) \<le> length (rq_wbuf q)"
  using assms by (auto simp: apply_format_def format_body_chunk_def mem_write_def Let_def ci_consts split: if_splits)

text \<open>A pass in this state: the block is sent, then the last chunk is made.\<close>

lemma choked_pass:
  assumes c: "choked st" and b: "current_block (gs_req st) blk"
    and s: "rq_status (gs_req st) = SEND_BODY \<or> rq_status (gs_req st) = SEND_EOF"
  shows "blk \<noteq> [] \<Longrightarrow> gsb_pass g ra sv mod_echo_io st = Some (Ret (st, G_next False True False))"
    and "\<lbrakk>blk = []; rq_status (gs_req st) = SEND_EOF\<rbrakk> \<Longrightarrow>
      gsb_pass g ra sv mod_echo_io st = Some (Ret (st, G_next False False False))"
    and "\<lbrakk>blk = []; rq_status (gs_req st) = SEND_BODY\<rbrakk> \<Longrightarrow>
      \<exists>q. gsb_pass g ra sv mod_echo_io st = Some (Ret (st\<lparr>gs_req := q\<rparr>, G_next False True False))
        \<and> choked (st\<lparr>gs_req := q\<rparr>) \<and> current_block q (eof_chunk (use206 (gs_req st))) \<and> rq_status q = SEND_EOF
        \<and> rq_echo_body q = rq_echo_body (gs_req st)"
proof -
  have l: "\<not> rq_data_locked (gs_req st)" "rq_pending (gs_req st) \<noteq> 0" "rq_responce_hasbody (gs_req st)"
      "gs_eof st"
    using c by (auto simp: choked_def)
  have io: "io_loop mod_echo_io f 0 st = Some (Ret (st, True))" for f by (rule choked_io [OF c])
  show "gsb_pass g ra sv mod_echo_io st = Some (Ret (st, G_next False True False))" if "blk \<noteq> []"
    using that b s io l by (auto simp: gsb_pass_def gsb_start_def gsb_end_def gsb_format_def current_block_def ci_consts Let_def)
  show "gsb_pass g ra sv mod_echo_io st = Some (Ret (st, G_next False False False))"
    if "blk = []" "rq_status (gs_req st) = SEND_EOF"
    using that b io l by (simp add: gsb_pass_def gsb_start_def gsb_end_def gsb_format_def current_block_def
        update_send_status_def ci_consts Let_def)
  show "\<exists>q. gsb_pass g ra sv mod_echo_io st = Some (Ret (st\<lparr>gs_req := q\<rparr>, G_next False True False))
        \<and> choked (st\<lparr>gs_req := q\<rparr>) \<and> current_block q (eof_chunk (use206 (gs_req st))) \<and> rq_status q = SEND_EOF
        \<and> rq_echo_body q = rq_echo_body (gs_req st)"
    if e: "blk = []" "rq_status (gs_req st) = SEND_BODY"
  proof -
    let ?r = "(gs_req st)\<lparr>rq_remain := CI_EOF\<rparr>" and ?c = "eof_chunk (use206 (gs_req st))"
    have u: "use206 ?r = use206 (gs_req st)" by (simp add: use206_def)
    obtain w y z where f: "apply_format ?r = Ret (?r\<lparr>rq_wbuf := w, rq_block := R_wbuf 0,
        rq_remain := int (length ?c), rq_http_bytes_out := y, rq_body_bytes_out := z\<rparr>, CI_EOF)"
      "length ?c \<le> length w" "seg 0 (length ?c) w = ?c"
      using apply_format_eof [of ?r] l(3) u by auto
    let ?q = "?r\<lparr>rq_wbuf := w, rq_block := R_wbuf 0, rq_remain := int (length ?c), rq_http_bytes_out := y,
        rq_body_bytes_out := z, rq_status := SEND_EOF\<rparr>"
    have "gsb_pass g ra sv mod_echo_io st = Some (Ret (st\<lparr>gs_req := ?q\<rparr>, G_next False True False))"
      using e b io l f(1) eof_chunk_nonempty [of "use206 (gs_req st)"]
      by (simp add: gsb_pass_def gsb_start_def gsb_end_def gsb_format_def current_block_def
        update_send_status_def ci_consts Let_def)
    moreover have "current_block ?q ?c" by (rule current_block_wbuf) (use f in simp_all)
    moreover have "length (rq_wbuf (gs_req st)) \<le> length w" using apply_format_room [OF f(1)] by simp
    then have "choked (st\<lparr>gs_req := ?q\<rparr>)"
      using c offer_cong [of ?q "gs_req st" st] by (auto simp: choked_def)
    ultimately show ?thesis by (intro exI [of _ ?q]) simp
  qed
qed

definition write_events :: "nat list \<Rightarrow> io_ev list" where
  "write_events ks = map (\<lambda>k. Io_ev None (Some (Out_take k))) ks"

lemma choked_loop:
  assumes "choked st" "current_block (gs_req st) blk" "blk \<noteq> []"
    and "rq_status (gs_req st) = SEND_BODY \<or> rq_status (gs_req st) = SEND_EOF"
    and "fin = (if rq_status (gs_req st) = SEND_BODY then eof_chunk (use206 (gs_req st)) else [])"
    and "progress ks (length blk + length fin)"
  shows "\<exists>q ks'. gsb_loop g ra sv mod_echo_io False True (write_events ks) st
      = Some (Ret ((q, gs_srv st), blk @ fin, CI_OK, write_events ks'))
    \<and> rq_status q = SEND_EOF \<and> rq_remain q = 0 \<and> rq_echo_body q = rq_echo_body (gs_req st)"
  using assms
proof (induction ks arbitrary: st blk fin)
  case Nil
  then show ?case by (simp add: progress_def)
next
  case (Cons k ks)
  note c = Cons.prems(1) and st = Cons.prems(4)
  obtain m z where m: "1 \<le> m" "m \<le> length blk"
    and send: "send_current_block_data (Out_take k) (gs_req st) =
       Ret ((gs_req st)\<lparr>rq_block := resp_add (rq_block (gs_req st)) m, rq_remain := rq_remain (gs_req st) - int m,
              rq_bytes_out := rq_bytes_out (gs_req st) + of_nat m, rq_http_bytes_out := z\<rparr>, take m blk,
            int (length blk - m))"
    and cur: "current_block ((gs_req st)\<lparr>rq_block := resp_add (rq_block (gs_req st)) m, rq_remain := rq_remain (gs_req st) - int m,
       rq_bytes_out := rq_bytes_out (gs_req st) + of_nat m, rq_http_bytes_out := z\<rparr>) (drop m blk)"
    using send_current_step [OF Cons.prems(2,3), of k] Cons.prems(6) by (auto simp: progress_def)
  define q where "q = (gs_req st)\<lparr>rq_block := resp_add (rq_block (gs_req st)) m, rq_remain := rq_remain (gs_req st) - int m,
       rq_bytes_out := rq_bytes_out (gs_req st) + of_nat m, rq_http_bytes_out := z\<rparr>"
  let ?st = "st\<lparr>gs_req := q\<rparr>"
  have ch: "choked ?st" using c offer_cong [of q "gs_req st" st] by (auto simp: choked_def q_def)
  have keep: "rq_status q = rq_status (gs_req st)" "use206 q = use206 (gs_req st)"
      "rq_echo_body q = rq_echo_body (gs_req st)" "rq_eof_received q" "rq_pending q \<noteq> 0"
    using c by (auto simp: q_def use206_def choked_def)
  have cur: "current_block (gs_req ?st) (drop m blk)" using cur by (simp add: q_def)
  have st': "rq_status (gs_req ?st) = SEND_BODY \<or> rq_status (gs_req ?st) = SEND_EOF" using st keep by simp
  have fin: "fin = (if rq_status (gs_req ?st) = SEND_BODY then eof_chunk (use206 (gs_req ?st)) else [])"
    using Cons.prems(5) keep(1,2) by simp
  have net: "gsb_net g ra sv (None, Some (Out_take k)) (write_events ks) (gs_req st)
      = Ret (q, take m blk, True, write_events ks)"
    using st send by (auto simp: gsb_net_def io_write_def q_def ci_consts)
  have ks: "progress ks (length (drop m blk) + length fin)" using Cons.prems(6) m by (auto simp: progress_def)
  have loop: "gsb_loop g ra sv mod_echo_io False True (write_events (k # ks)) st =
      (if gsb_go_on (rd2 \<or> wr2 \<or> lc) (gs_req st2)
       then Option.bind (gsb_loop g ra sv mod_echo_io rd2 wr2 (write_events ks) st2) (\<lambda>r. Some (prepend_out (take m blk) r))
       else Some (prepend_out (take m blk) (gsb_finish st2 (write_events ks))))"
    if "gsb_pass g ra sv mod_echo_io ?st = Some (Ret (st2, G_next rd2 wr2 lc))" for st2 rd2 wr2 lc
    using that net by (subst gsb_loop.simps) (simp add: write_events_def)
  have tk: "take m blk @ drop m blk @ t = blk @ t" for t by (simp flip: append.assoc)
  show ?case
  proof (cases "drop m blk = []")
    case False
    have p: "gsb_pass g ra sv mod_echo_io ?st = Some (Ret (?st, G_next False True False))"
      by (rule choked_pass(1) [OF ch cur st' False])
    obtain r ks' where "gsb_loop g ra sv mod_echo_io False True (write_events ks) ?st
        = Some (Ret ((r, gs_srv st), drop m blk @ fin, CI_OK, write_events ks'))"
        "rq_status r = SEND_EOF" "rq_remain r = 0" "rq_echo_body r = rq_echo_body (gs_req st)"
      using Cons.IH [OF ch cur False st' fin ks] keep(3) by auto
    then show ?thesis using loop [OF p] keep tk [of fin] by (auto simp: gsb_go_on_def)
  next
    case True
    show ?thesis
    proof (cases "rq_status (gs_req st) = SEND_BODY")
      case False
      then have p: "gsb_pass g ra sv mod_echo_io ?st = Some (Ret (?st, G_next False False False))"
        using choked_pass(2) [OF ch cur st' True] st keep by auto
      have "rq_remain q = 0" using cur True by (simp add: current_block_def)
      then show ?thesis
        using True False st loop [OF p] keep Cons.prems(5) by (intro exI [of _ q] exI [of _ ks]) (simp add: gsb_go_on_def gsb_finish_def)
    next
      case body: True
      let ?c = "eof_chunk (use206 (gs_req st))"
      obtain r where r: "gsb_pass g ra sv mod_echo_io ?st = Some (Ret (?st\<lparr>gs_req := r\<rparr>, G_next False True False))"
        "choked (?st\<lparr>gs_req := r\<rparr>)" "current_block r ?c" "rq_status r = SEND_EOF"
        "rq_echo_body r = rq_echo_body (gs_req st)"
        using choked_pass(3) [OF ch cur st' True, of g ra sv] body keep by auto
      have "progress ks (length ?c + length ([] :: bytes))" using ks True body Cons.prems(5) by simp
      with Cons.IH [of "?st\<lparr>gs_req := r\<rparr>" ?c "[]"] r eof_chunk_nonempty [of "use206 (gs_req st)"]
      obtain q2 ks' where "gsb_loop g ra sv mod_echo_io False True (write_events ks) (st\<lparr>gs_req := r\<rparr>)
          = Some (Ret ((q2, gs_srv st), ?c, CI_OK, write_events ks'))"
          "rq_status q2 = SEND_EOF" "rq_remain q2 = 0" "rq_echo_body q2 = rq_echo_body (gs_req st)"
        by (auto simp: ci_consts)
      then show ?thesis
        using r loop [OF r(1)] True body Cons.prems(5) by (auto simp: gsb_go_on_def choked_def)
    qed
  qed
qed

text \<open>The pass in which the end of the body is read.\<close>

lemma net_data_read_more: "ci_req_in.more (fst (net_data_read rd req)) = ci_req_in.more req"
  by (simp add: net_data_read_def rebase_def Let_def split: option.splits)

lemma parse_chunk_data_more:
  "parse_chunk_data req = Some (Ret (q, ret, wd)) \<Longrightarrow> ci_req_in.more q = ci_req_in.more req"
  using chunk_loop_keeps [of req None "Ret (q, ret, wd)"]
  by (auto simp: parse_chunk_data_def kept_def split: if_splits)

lemma echo_last_piece:
  assumes "rq_echo_body req = Some r" "rb_invar r" "rb_contents r \<noteq> []" "rb_room r < length d" "rq_eof_received req"
  obtains r' where "mod_echo_io (Some 0) (Some d) True (req, s)
      = Some ((req\<lparr>rq_echo_body := Some r'\<rparr>, s), [], CI_EOF, int (rb_room r), CI_OK)"
    "rb_invar r'" "rb_full r'" "rb_contents r' = rb_contents r @ take (rb_room r) d"
proof -
  obtain r' where r': "ci_ring_buf_write r d = Some (r', int (rb_room r))" "rb_invar r'"
      "rb_contents r' = rb_contents r @ take (rb_room r) d" "rb_capacity r' = rb_capacity r"
    using ring_write_refines [OF assms(2), of d] assms(4) by (auto simp: min_def)
  have "length (rb_contents r') = rb_capacity r'"
    using r'(3,4) assms(3,4) rb_contents_length(1) [OF assms(2)] by (simp add: rb_room_def)
  then have "rb_full r'" using r'(2) rb_full_contents by blast
  with r' assms(1,5) show ?thesis
    by (intro that [of r']) (simp_all add: mod_echo_io_def echo_write_def echo_read_def ring_read_zero)
qed

lemma offer_rest:
  assumes "gsb_offer st = Ret (Some d)" "k < length d"
  shows "\<exists>d'. gsb_offer (gsb_taken (int k) st) = Ret (Some d')"
    and "rq_pending (gs_req (gsb_taken (int k) st)) \<noteq> 0"
proof -
  let ?r = "gs_req st" and ?n = "unat (rq_pending (gs_req st))"
  obtain p where p: "gs_wdata st = Some p" "d = handed ?r (Some p)" "length d = ?n"
    using assms(1) by (auto simp: gsb_offer_def split: option.splits if_splits)
  obtain s where s: "ptr_mem (rq_rbuf ?r) p (uint (rq_pending ?r)) = Some s" "d = take ?n s"
    using p(2,3) assms(2) by (auto simp: handed_def split: option.splits)
  define n' where "n' = rq_pending ?r - word_of_nat k"
  have small: "k < 2 ^ 32"
    using p(3) assms(2) unsigned_less [of "rq_pending ?r", where 'a = nat] by simp
  then have k: "unat (word_of_nat k :: 32 word) = k" by (simp add: unat_of_nat take_bit_nat_eq_self)
  then have n': "unat n' = ?n - k"
    using p(3) assms(2) unfolding n'_def by (simp add: unat_sub word_le_nat_alt)
  have eq: "gs_wdata (gsb_taken (int k) st) = Some (pstr_add p (int k))" "rq_pending (gs_req (gsb_taken (int k) st)) = n'"
      "rq_rbuf (gs_req (gsb_taken (int k) st)) = rq_rbuf ?r"
    using p(1) by (cases p; simp add: gsb_taken_def n'_def)+
  show "rq_pending (gs_req (gsb_taken (int k) st)) \<noteq> 0"
    using n' p(3) assms(2) eq(2) by auto
  have u: "uint w = int (unat w)" for w :: "32 word" by simp
  have "uint n' = uint (rq_pending ?r) - int k"
    unfolding u n' using p(3) assms(2) by (intro of_nat_diff) simp
  then have "ptr_mem (rq_rbuf ?r) (pstr_add p (int k)) (uint n') = Some (drop k s)"
    using ptr_mem_add [OF s(1), of "int k"] p(3) assms(2) by (simp add: u del: of_nat_unat)
  moreover have "length (take (unat n') (drop k s)) = unat n'"
    using s(2) p(3) n' by (simp add: min_def split: if_splits)
  ultimately show "\<exists>d'. gsb_offer (gsb_taken (int k) st) = Ret (Some d')"
    by (simp add: gsb_offer_def handed_def eq)
qed

lemma last_piece_pass:
  assumes req: "rq_status q0 = SEND_BODY" "\<not> rq_data_locked q0" "rq_responce_hasbody q0"
      "EXTRA_CHUNK_SIZE \<le> length (rq_wbuf q0)" "rq_remain q0 \<noteq> 0" "rq_pstr_len q0 \<noteq> 0"
    and ring: "rq_echo_body q0 = Some r" "rb_invar r" "rb_contents r \<noteq> []"
    and st: "gs_req st = q0" "gs_rdata st = Some off" "off \<le> length (rq_wbuf q0)" "\<not> gs_eof st"
    and parse: "parse_chunk_data q0 = Some (Ret (q, CI_EOF, wd))" "length (handed q wd) = unat (rq_pending q)"
      "rb_room r < length (handed q wd)"
  obtains st' r' where "gsb_pass g ra sv mod_echo_io st = Some (Ret (st', G_next False True False))" "choked st'"
    "gs_req st' = q\<lparr>rq_eof_received := True, rq_echo_body := Some r', rq_pending := rq_pending (gs_req st')\<rparr>"
    "rb_contents r' = rb_contents r @ take (rb_room r) (handed q wd)" "gs_srv st' = gs_srv st"
proof -
  let ?d = "handed q wd" and ?q = "q\<lparr>rq_eof_received := True\<rparr>"
  note m = same_more [OF parse_chunk_data_more [OF parse(1)]]
  have pend: "rq_pending q0 = 0" using parse(1) by (auto simp: parse_chunk_data_def ci_consts split: if_splits)
  obtain p where wd: "wd = Some p" using parse(3) by (cases wd) (auto simp: handed_def)
  let ?s1 = "st\<lparr>gs_req := ?q, gs_wdata := wd, gs_full := True\<rparr>"
  have p1: "gsb_parse st 0 = Some (Ret (st\<lparr>gs_req := ?q, gs_wdata := wd\<rparr>, CI_EOF))"
    using st(1) req(6) pend parse(1) by (simp add: gsb_parse_def)
  have room: "gsb_room True (st\<lparr>gs_req := ?q, gs_wdata := wd\<rparr>) = (?s1, 0)"
    using req(1,5) m st(4) by (simp add: gsb_room_def)
  have hd: "handed ?q wd = ?d" by (rule handed_cong) simp_all
  then have offer: "gsb_offer ?s1 = Ret (Some ?d)" using parse(2) wd by (simp add: gsb_offer_def)
  obtain r' where echo: "mod_echo_io (Some 0) (Some ?d) True (?q, gs_srv st)
      = Some ((?q\<lparr>rq_echo_body := Some r'\<rparr>, gs_srv st), [], CI_EOF, int (rb_room r), CI_OK)"
    "rb_invar r'" "rb_full r'" "rb_contents r' = rb_contents r @ take (rb_room r) ?d"
    by (rule echo_last_piece [of ?q r ?d "gs_srv st"]) (use ring m parse(3) in simp_all)
  define s2 where "s2 = ?s1\<lparr>gs_req := ?q\<lparr>rq_echo_body := Some r'\<rparr>\<rparr>"
  have call: "gsb_call mod_echo_io 0 ?s1 = Some (Ret (s2, CI_EOF, int (rb_room r), True))"
    using offer echo(1) st m by (simp add: gsb_call_def s2_def ci_consts)
  have "handed (?q\<lparr>rq_echo_body := Some r'\<rparr>) wd = ?d" by (rule handed_cong) simp_all
  then have offer2: "gsb_offer s2 = Ret (Some ?d)" using parse(2) wd by (simp add: gsb_offer_def s2_def)
  define s3 where "s3 = gsb_given CI_EOF (gsb_taken (int (rb_room r)) s2)"
  have s3: "s3 = (gsb_taken (int (rb_room r)) s2)\<lparr>gs_eof := True\<rparr>" by (simp add: s3_def gsb_given_def ci_consts)
  have io: "io_loop mod_echo_io True 0 st = Some (Ret (s3, True))"
    using p1 room call by (subst io_loop.simps) (simp add: s3_def ci_consts)
  have f: "gs_req s3 = ?q\<lparr>rq_echo_body := Some r', rq_pending := rq_pending (gs_req s3)\<rparr>" "gs_rdata s3 = Some off"
      "gs_full s3" "gs_eof s3" "gs_srv s3 = gs_srv st"
    using st(2) by (simp_all add: s3 gsb_taken_def s2_def)
  have pend3: "rq_pending (gs_req s3) \<noteq> 0" using offer_rest(2) [OF offer2 parse(3)] by (simp add: s3)
  have "gsb_offer s3 = gsb_offer (gsb_taken (int (rb_room r)) s2)" by (simp add: s3 gsb_offer_def split: option.split)
  then have offer3: "\<exists>d'. gsb_offer s3 = Ret (Some d')" using offer_rest(1) [OF offer2 parse(3)] by simp
  have g: "rq_echo_body (gs_req s3) = Some r'" "rq_eof_received (gs_req s3)" "rq_responce_hasbody (gs_req s3)"
      "rq_wbuf (gs_req s3) = rq_wbuf q0" "rq_remain (gs_req s3) = rq_remain q0" "rq_data_locked (gs_req s3) = rq_data_locked q0"
    by (subst f(1), simp add: m req(3))+
  have ch: "choked s3"
    unfolding choked_def using f(2-4) pend3 offer3 g echo(2,3) req(2-4) st(3) by simp
  have rem: "rq_remain (gs_req s3) \<noteq> 0" "rq_data_locked (gs_req s3) = rq_data_locked q0"
    using g(5,6) req(5) by simp_all
  have "gsb_end (rq_data_locked q0) True s3 = Ret (s3, G_next False True False)"
    using pend3 rem by (simp add: gsb_end_def gsb_format_def Let_def)
  moreover have same: "st\<lparr>gs_req := q0\<rparr> = st" using st(1) by (cases st) simp
  have "io_loop mod_echo_io True 0 (st\<lparr>gs_req := q0\<rparr>) = Some (Ret (s3, True))" unfolding same by (rule io)
  ultimately have "gsb_pass g ra sv mod_echo_io st = Some (Ret (s3, G_next False True False))"
    using st(1) req(2,5) by (simp add: gsb_pass_def gsb_start_def ci_consts)
  then show ?thesis using ch f(1,5) echo(4) by (intro that [of s3 r']) simp_all
qed

text \<open>
  C30.  A defect of the code.  While a body is echoed (\<^verbatim>\<open>FAKE_ALLOW204\<close>), let the end of the body be
  read at a moment when a chunk of the response is still being sent and the echo buffer, not
  empty, has no room for all bytes of the last piece.  Then \<^verbatim>\<open>get_send_body\<close> finishes the chunk
  and sends the last chunk: it returns \<^verbatim>\<open>CI_OK\<close>, \<^verbatim>\<open>send_remaining_response\<close> sends nothing more, and the
  client gets a complete response without the bytes that are in the echo buffer and without the
  rest of the body.
\<close>

theorem get_send_body_echo_truncates:
  assumes "rq_status req = SEND_BODY" "\<not> rq_data_locked req" "rq_responce_hasbody req"
      "EXTRA_CHUNK_SIZE \<le> length (rq_wbuf req)" "current_block req blk" "blk \<noteq> []"
    and "rq_echo_body req = Some r" "rb_invar r" "rb_contents r \<noteq> []"
    and "gs_req st = req" "gs_rdata st = Some off" "off \<le> length (rq_wbuf req)" "\<not> gs_eof st"
    and read: "net_data_read (\<lambda>n. Some (take n w)) req = (q0, CI_OK)" "int (length w) \<le> BUFSIZE - rq_pstr_len req"
      "rq_pstr_len q0 \<noteq> 0"
    and parse: "parse_chunk_data q0 = Some (Ret (q, CI_EOF, wd))" "length (handed q wd) = unat (rq_pending q)"
      "rb_room r < length (handed q wd)"
    and "progress ks (length blk + length (eof_chunk (use206 q)))"
  shows "\<exists>q' r' ks'. gsb_loop g ra sv mod_echo_io True True (Io_ev (Some (In_data w)) None # write_events ks) st
      = Some (Ret ((q', gs_srv st), blk @ eof_chunk (use206 q), CI_OK, write_events ks'))
    \<and> rq_echo_body q' = Some r' \<and> rb_contents r' = rb_contents r @ take (rb_room r) (handed q wd)
    \<and> send_remaining_response g ra sv so es (q', gs_srv st) = Some (Ret ((q', gs_srv st), [], CI_OK, es))"
proof -
  have "ci_req_in.more q0 = ci_req_in.more req"
    using net_data_read_more [of "\<lambda>n. Some (take n w)" req] read(1) by simp
  note m0 = same_more [OF this] and mq = same_more [OF parse_chunk_data_more [OF parse(1)]]
  obtain st' r' where p: "gsb_pass g ra sv mod_echo_io (st\<lparr>gs_req := q0\<rparr>) = Some (Ret (st', G_next False True False))"
      "choked st'" "gs_req st' = q\<lparr>rq_eof_received := True, rq_echo_body := Some r', rq_pending := rq_pending (gs_req st')\<rparr>"
      "rb_contents r' = rb_contents r @ take (rb_room r) (handed q wd)" "gs_srv st' = gs_srv (st\<lparr>gs_req := q0\<rparr>)"
    by (rule last_piece_pass [where ?q0.0 = q0 and st = "st\<lparr>gs_req := q0\<rparr>" and r = r and q = q and wd = wd and off = off])
      (use assms m0 in \<open>auto simp: current_block_def\<close>)
  have g: "rq_echo_body (gs_req st') = Some r'" "rq_status (gs_req st') = SEND_BODY" "use206 (gs_req st') = use206 q"
      "rq_block (gs_req st') = rq_block req" "rq_remain (gs_req st') = rq_remain req" "rq_wbuf (gs_req st') = rq_wbuf req"
    by (subst p(3), simp add: mq m0 assms(1) use206_def)+
  have "block_bytes (gs_req st') = block_bytes req" unfolding block_bytes.simps g(4-6) by (rule refl)
  then have cur: "current_block (gs_req st') blk" using assms(5) g(5) by (simp add: current_block_def)
  obtain q' ks' where l: "gsb_loop g ra sv mod_echo_io False True (write_events ks) st'
      = Some (Ret ((q', gs_srv st'), blk @ eof_chunk (use206 q), CI_OK, write_events ks'))"
    "rq_status q' = SEND_EOF" "rq_remain q' = 0" "rq_echo_body q' = rq_echo_body (gs_req st')"
    using choked_loop [OF p(2) cur assms(6) _ refl, of ks g ra sv] g(2,3) assms(20) by auto
  have go: "gsb_go_on True (gs_req st')" using p(2) by (simp add: gsb_go_on_def choked_def)
  have "length w \<le> nat (BUFSIZE - rq_pstr_len req)" using read(2) by linarith
  then have net: "gsb_net g ra sv (Some (In_data w), None) (write_events ks) req = Ret (q0, [], True, write_events ks)"
    using read(1) by (simp add: gsb_net_def io_write_def Let_def ci_consts)
  have "gsb_loop g ra sv mod_echo_io True True (Io_ev (Some (In_data w)) None # write_events ks) st
      = Some (Ret ((q', gs_srv st), blk @ eof_chunk (use206 q), CI_OK, write_events ks'))"
    using net p(1,5) l(1) go assms(10) by (subst gsb_loop.simps) simp
  moreover have "send_remaining_response g ra sv so es (q', gs_srv st) = Some (Ret ((q', gs_srv st), [], CI_OK, es))"
    using l(2-4) g(1) by (simp add: send_remaining_response_def pick_io_def)
  ultimately show ?thesis using l(4) g(1) p(4) by auto
qed

text \<open>
  A request with one byte of a chunk left to send and a full echo buffer; the input is a chunk of
  two bytes and the last chunk.
\<close>

definition full_ring :: ci_ring_buf where
  "full_ring = \<lparr>rb_buf = ''abcd'', rb_end_buf = 3, rb_read_pos = 1, rb_write_pos = 1, rb_full = True\<rparr>"

definition last_piece :: bytes where
  "last_piece = ''2'' @ CRLF @ ''xy'' @ CRLF @ ''0'' @ CRLF @ CRLF"

definition last_input :: "bytes \<Rightarrow> pstr \<Rightarrow> int \<Rightarrow> 'a \<Rightarrow> 'a ci_req_in_scheme" where
  "last_input b p n m = \<lparr>rq_rbuf = b, rq_pstr = p, rq_pstr_len = n, rq_chunk_len = 0, rq_chunk_read = 0,
     rq_pending = 0, rq_eof_received = False, rq_i206 = -1, rq_bytes_in = word_of_int n, rq_request_bytes_in = 0,
     rq_http_bytes_in = 0, rq_body_bytes_in = 0, rq_preview_data = ci_buf_init, \<dots> = m\<rparr>"

definition echoing_request :: ci_request where
  "echoing_request = last_input [] P_null 0 (ci_req_in.more (new_request\<lparr>rq_status := SEND_BODY,
     rq_data_locked := False, rq_responce_hasbody := True, rq_wbuf := replicate 40 LF, rq_block := R_wbuf 39,
     rq_remain := 1, rq_echo_body := Some full_ring\<rparr>))"

definition echoing_state :: "unit gsb" where
  "echoing_state = \<lparr>gs_req = echoing_request, gs_srv = (), gs_wdata = None, gs_rdata = Some 30, gs_full = True, gs_eof = False\<rparr>"

lemma last_piece_parsed: "(case parse_chunk_data (last_input last_piece (P_rbuf 0) 12 m) of
     Some (Ret (q, ret, wd)) \<Rightarrow> ret = CI_EOF \<and> handed q wd = ''xy'' \<and> rq_pending q = 2 \<and> rq_i206 q = -1
   | _ \<Rightarrow> False)"
  by code_simp

lemma last_piece_read: "net_data_read (\<lambda>n. Some (take n last_piece)) (last_input [] P_null 0 m)
    = (last_input last_piece (P_rbuf 0) 12 m, CI_OK)"
  by (simp add: net_data_read_def last_input_def rebase_def rq_text_def BUFSIZE_def last_piece_def mem_write_def)

theorem get_send_body_echo_truncates_witness:
  "\<exists>q' r' ks'. gsb_loop (\<lambda>_. NUL) (\<lambda>_. True)
      demo_server
      mod_echo_io True True (Io_ev (Some (In_data last_piece)) None # write_events (replicate 6 1))
      echoing_state
      = Some (Ret ((q', ()), LF # ''0'' @ CRLF @ CRLF, CI_OK, write_events ks'))
    \<and> rq_echo_body q' = Some r' \<and> rb_contents r' = ''bcda''"
proof -
  let ?m = "ci_req_in.more (new_request\<lparr>rq_status := SEND_BODY,
     rq_data_locked := False, rq_responce_hasbody := True, rq_wbuf := replicate 40 LF, rq_block := R_wbuf 39,
     rq_remain := 1, rq_echo_body := Some full_ring\<rparr>)"
  let ?q0 = "last_input last_piece (P_rbuf 0) 12 ?m"
  obtain q wd where q: "parse_chunk_data ?q0 = Some (Ret (q, CI_EOF, wd))" "handed q wd = ''xy''"
      "rq_pending q = 2" "rq_i206 q = -1"
    using last_piece_parsed [of ?m] by (auto split: option.splits c_result.splits prod.splits)
  have e: "use206 q = None" using q(4) by (simp add: use206_def)
  have f: "rb_contents full_ring = ''bcda''" "rb_invar full_ring" "rb_room full_ring = 0"
    by (simp_all add: full_ring_def rb_contents_def rb_invar_def rb_room_def)
  have m: "ci_req_in.more echoing_request = ?m" by (simp add: echoing_request_def last_input_def)
  have r: "rq_status echoing_request = SEND_BODY" "\<not> rq_data_locked echoing_request" "rq_responce_hasbody echoing_request"
      "rq_wbuf echoing_request = replicate 40 LF" "rq_block echoing_request = R_wbuf 39"
      "rq_remain echoing_request = 1" "rq_echo_body echoing_request = Some full_ring"
    by (simp_all add: same_more [OF m])
  have rd: "net_data_read (\<lambda>n. Some (take n last_piece)) echoing_request = (?q0, CI_OK)"
    unfolding echoing_request_def by (rule last_piece_read)
  have n: "int (length last_piece) \<le> BUFSIZE - rq_pstr_len echoing_request" "rq_pstr_len ?q0 \<noteq> 0"
    by (simp_all add: echoing_request_def last_input_def last_piece_def BUFSIZE_def)
  have c: "current_block echoing_request [LF]"
    using r by (simp add: current_block_def block_bytes.simps seg_def)
  have "\<exists>q' r' ks'. gsb_loop (\<lambda>_. NUL) (\<lambda>_. True)
      demo_server
      mod_echo_io True True (Io_ev (Some (In_data last_piece)) None # write_events (replicate 6 1))
      echoing_state
      = Some (Ret ((q', gs_srv echoing_state),
          [LF] @ eof_chunk (use206 q), CI_OK, write_events ks'))
    \<and> rq_echo_body q' = Some r' \<and> rb_contents r' = rb_contents full_ring @ take (rb_room full_ring) (handed q wd)
    \<and> send_remaining_response (\<lambda>_. NUL) (\<lambda>_. True)
      demo_server no_service []
        (q', gs_srv echoing_state)
      = Some (Ret ((q', gs_srv echoing_state), [], CI_OK, []))"
    by (rule get_send_body_echo_truncates [OF r(1-3) _ c _ r(7) f(2) _ _ _ _ _ rd n(1,2) q(1), where off = 30])
      (use r f q e in \<open>simp_all add: echoing_state_def EXTRA_CHUNK_SIZE_def progress_def eof_chunk_def\<close>)
  then show ?thesis using f e by (auto simp: eof_chunk_def)
qed

end
