(* ===== verification/Stats.thy ===== *)
theory Stats
  imports Icap_Prelude
begin

unbundle bit_operations_syntax

text \<open>
  The statistics of \<^verbatim>\<open>stats.c\<close>: counters are registered under a label and a group and get an index;
  every child process counts in its own memory block, and the blocks are merged for the report.

  Whether an allocation succeeds is an argument (\<^verbatim>\<open>strdup\<close>, whose result the code does not check,
  is taken to succeed).  A memory block is its two arrays of counters; the 64-bit counter, the
  kilobyte counter (64-bit) and the bytes below a kilobyte (32-bit) are words, so overflow is
  that of the code.  An increment through the macros \<^verbatim>\<open>STATS_INT64_INC\<close> and \<^verbatim>\<open>STATS_KBS_INC\<close>, which
  do not look at the size, is undefined outside of the arrays.

  Proved: registration gives equal labels equal and different labels different indexes and never
  moves one; merging the blocks of several processes gives the block that one process would
  have after all their increments, in any order.
\<close>

section \<open>Registration\<close>

datatype ci_stat_type = STAT_INT64_T | STAT_KBS_T

record stat_entry =
  se_label :: bytes
  se_type :: ci_stat_type
  se_gid :: nat

record stat_entry_list =
  sl_entries :: "stat_entry list"
  sl_size :: nat

record stat_groups_list =
  sg_groups :: "bytes list"
  sg_size :: nat

definition STEP :: nat where "STEP = 128"

text \<open>The index of a label, or \<open>-1\<close>; the array of entries is null while its size is 0.\<close>

fun find_label :: "bytes \<Rightarrow> int \<Rightarrow> bytes list \<Rightarrow> int" where
  "find_label l i [] = -1"
| "find_label l i (x # xs) = (if l = x then i else find_label l (i + 1) xs)"

definition stat_entry_by_name :: "stat_entry_list \<Rightarrow> bytes \<Rightarrow> int" where
  "stat_entry_by_name lst label =
     (if sl_size lst = 0 then -1 else find_label label 0 (map se_label (sl_entries lst)))"

definition stat_entry_add ::
  "bool \<Rightarrow> stat_entry_list \<Rightarrow> bytes \<Rightarrow> ci_stat_type \<Rightarrow> nat \<Rightarrow> stat_entry_list \<times> int" where
  "stat_entry_add alloc_ok lst label typ gid =
     (let indx = stat_entry_by_name lst label in
      if 0 \<le> indx then (lst, indx)
      else if sl_size lst = length (sl_entries lst) \<and> \<not> alloc_ok then (lst, -1)
      else let size = (if sl_size lst = length (sl_entries lst) then sl_size lst + STEP else sl_size lst)
        in (\<lparr>sl_entries = sl_entries lst @ [\<lparr>se_label = label, se_type = typ, se_gid = gid\<rparr>], sl_size = size\<rparr>,
            int (length (sl_entries lst))))"

definition stat_entry_release_list :: "stat_entry_list \<Rightarrow> stat_entry_list" where
  "stat_entry_release_list lst = (if sl_size lst = 0 then lst else \<lparr>sl_entries = [], sl_size = 0\<rparr>)"

definition stat_group_add :: "bool \<Rightarrow> stat_groups_list \<Rightarrow> bytes \<Rightarrow> stat_groups_list \<times> int" where
  "stat_group_add alloc_ok gs grp =
     (let gid = find_label grp 0 (sg_groups gs) in
      if 0 \<le> gid then (gs, gid)
      else if (sg_size gs = 0 \<or> sg_size gs = length (sg_groups gs)) \<and> \<not> alloc_ok then (gs, -1)
      else let size = (if sg_size gs = 0 then STEP
                       else if sg_size gs = length (sg_groups gs) then sg_size gs + STEP else sg_size gs)
        in (\<lparr>sg_groups = sg_groups gs @ [grp], sg_size = size\<rparr>, int (length (sg_groups gs))))"

record stat_tables =
  STAT_INT64 :: stat_entry_list
  STAT_KBS :: stat_entry_list
  STAT_GROUPS :: stat_groups_list

definition ci_stat_entry_register ::
  "bool \<Rightarrow> bool \<Rightarrow> stat_tables \<Rightarrow> bytes \<Rightarrow> ci_stat_type \<Rightarrow> bytes \<Rightarrow> stat_tables \<times> int" where
  "ci_stat_entry_register group_alloc entry_alloc T label typ grp =
     (case stat_group_add group_alloc (STAT_GROUPS T) grp of
        (gs, gid) \<Rightarrow>
          let T1 = T\<lparr>STAT_GROUPS := gs\<rparr> in
          if gid < 0 then (T1, -1)
          else case typ of
                 STAT_INT64_T \<Rightarrow>
                   (case stat_entry_add entry_alloc (STAT_INT64 T1) label typ (nat gid) of
                      (lst, i) \<Rightarrow> (T1\<lparr>STAT_INT64 := lst\<rparr>, i))
               | STAT_KBS_T \<Rightarrow>
                   (case stat_entry_add entry_alloc (STAT_KBS T1) label typ (nat gid) of
                      (lst, i) \<Rightarrow> (T1\<lparr>STAT_KBS := lst\<rparr>, i)))"

definition ci_stat_entry_release_lists :: "stat_tables \<Rightarrow> stat_tables" where
  "ci_stat_entry_release_lists T =
     T\<lparr>STAT_INT64 := stat_entry_release_list (STAT_INT64 T), STAT_KBS := stat_entry_release_list (STAT_KBS T)\<rparr>"

section \<open>Counters\<close>

record kbs =
  k_kb :: "64 word"
  k_bytes :: "32 word"

definition kbs_zero :: kbs where "kbs_zero = \<lparr>k_kb = 0, k_bytes = 0\<rparr>"

definition kbs_carry :: "kbs \<Rightarrow> kbs" where
  "kbs_carry k = \<lparr>k_kb = k_kb k + ucast (drop_bit 10 (k_bytes k)), k_bytes = (k_bytes k) AND 0x3FF\<rparr>"

text \<open>\<^verbatim>\<open>count\<close> is an \<^verbatim>\<open>int\<close> that is converted to the unsigned type of the counter.\<close>

definition kbs_inc :: "int \<Rightarrow> kbs \<Rightarrow> kbs" where
  "kbs_inc count k = kbs_carry (k\<lparr>k_bytes := k_bytes k + word_of_int count\<rparr>)"

definition kbs_merge :: "kbs \<Rightarrow> kbs \<Rightarrow> kbs" where
  "kbs_merge d s = kbs_carry \<lparr>k_kb = k_kb d + k_kb s, k_bytes = k_bytes d + k_bytes s\<rparr>"

record stat_memblock =
  mb_counters64 :: "64 word list"
  mb_counterskbs :: "kbs list"

definition stat_memblock_bytes :: nat where "stat_memblock_bytes = 32"

definition ci_stat_memblock_size :: "stat_tables \<Rightarrow> nat" where
  "ci_stat_memblock_size T =
     stat_memblock_bytes + length (sl_entries (STAT_INT64 T)) * 8 + length (sl_entries (STAT_KBS T)) * 16"

definition ci_stat_memblock_reset :: "stat_memblock \<Rightarrow> stat_memblock" where
  "ci_stat_memblock_reset b =
     \<lparr>mb_counters64 = map (\<lambda>_. 0) (mb_counters64 b), mb_counterskbs = map (\<lambda>_. kbs_zero) (mb_counterskbs b)\<rparr>"

text \<open>
  \<^verbatim>\<open>ci_stat_area_construct\<close> on a block of \<open>msize\<close> bytes: the counters follow the structure, first
  the 64-bit ones.  The result is \<open>None\<close> for a null pointer.
\<close>

definition ci_stat_area_construct ::
  "stat_tables \<Rightarrow> bool \<Rightarrow> bool \<Rightarrow> nat \<Rightarrow> stat_memblock option c_result" where
  "ci_stat_area_construct T malloc_ok sig_ok msize =
     (if msize < ci_stat_memblock_size T \<or> \<not> malloc_ok then Ret None
      else if \<not> sig_ok then Abort
      else Ret (Some \<lparr>mb_counters64 = replicate (length (sl_entries (STAT_INT64 T))) 0,
                      mb_counterskbs = replicate (length (sl_entries (STAT_KBS T))) kbs_zero\<rparr>))"

text \<open>The global \<^verbatim>\<open>STATS\<close> is \<open>None\<close> until a block is attached.\<close>

definition ci_stat_attach_mem ::
  "stat_tables \<Rightarrow> bool \<Rightarrow> bool \<Rightarrow> nat \<Rightarrow> stat_memblock option \<Rightarrow> stat_memblock option c_result" where
  "ci_stat_attach_mem T malloc_ok sig_ok msize STATS =
     (if STATS \<noteq> None then Ret STATS else ci_stat_area_construct T malloc_ok sig_ok msize)"

definition uint64_inc :: "int \<Rightarrow> int \<Rightarrow> stat_memblock \<Rightarrow> stat_memblock" where
  "uint64_inc ID count b =
     b\<lparr>mb_counters64 := (mb_counters64 b)[nat ID := mb_counters64 b ! nat ID + word_of_int count]\<rparr>"

definition kbs_inc_at :: "int \<Rightarrow> int \<Rightarrow> stat_memblock \<Rightarrow> stat_memblock" where
  "kbs_inc_at ID count b =
     b\<lparr>mb_counterskbs := (mb_counterskbs b)[nat ID := kbs_inc count (mb_counterskbs b ! nat ID)]\<rparr>"

definition ci_stat_area_uint64_inc :: "stat_memblock \<Rightarrow> int \<Rightarrow> int \<Rightarrow> stat_memblock" where
  "ci_stat_area_uint64_inc b ID count =
     (if ID < 0 \<or> int (length (mb_counters64 b)) \<le> ID then b else uint64_inc ID count b)"

definition ci_stat_area_kbs_inc :: "stat_memblock \<Rightarrow> int \<Rightarrow> int \<Rightarrow> stat_memblock" where
  "ci_stat_area_kbs_inc b ID count =
     (if ID < 0 \<or> int (length (mb_counterskbs b)) \<le> ID then b else kbs_inc_at ID count b)"

definition ci_stat_uint64_inc :: "stat_memblock option \<Rightarrow> int \<Rightarrow> int \<Rightarrow> stat_memblock option" where
  "ci_stat_uint64_inc STATS ID count = map_option (\<lambda>b. ci_stat_area_uint64_inc b ID count) STATS"

text \<open>\<^verbatim>\<open>ci_stat_kbs_inc\<close> does not test \<^verbatim>\<open>STATS\<close> before it uses it.\<close>

definition ci_stat_kbs_inc :: "stat_memblock option \<Rightarrow> int \<Rightarrow> int \<Rightarrow> stat_memblock option c_result" where
  "ci_stat_kbs_inc STATS ID count =
     (case STATS of None \<Rightarrow> Undef | Some b \<Rightarrow> Ret (Some (ci_stat_area_kbs_inc b ID count)))"

definition STATS_INT64_INC :: "int \<Rightarrow> int \<Rightarrow> stat_memblock \<Rightarrow> stat_memblock c_result" where
  "STATS_INT64_INC ID count b =
     (if ID < 0 \<or> int (length (mb_counters64 b)) \<le> ID then Undef else Ret (uint64_inc ID count b))"

text \<open>The macro adds a 64-bit count to the 32-bit field.\<close>

definition STATS_KBS_INC :: "int \<Rightarrow> 64 word \<Rightarrow> stat_memblock \<Rightarrow> stat_memblock c_result" where
  "STATS_KBS_INC ID count b =
     (if ID < 0 \<or> int (length (mb_counterskbs b)) \<le> ID then Undef else Ret (kbs_inc_at ID (uint count) b))"

text \<open>Merging goes up to the shorter array.\<close>

fun merge_with :: "('a \<Rightarrow> 'a \<Rightarrow> 'a) \<Rightarrow> 'a list \<Rightarrow> 'a list \<Rightarrow> 'a list" where
  "merge_with f (d # ds) (s # ss) = f d s # merge_with f ds ss"
| "merge_with f ds ss = ds"

definition ci_stat_memblock_merge :: "stat_memblock \<Rightarrow> stat_memblock \<Rightarrow> stat_memblock" where
  "ci_stat_memblock_merge d s =
     \<lparr>mb_counters64 = merge_with (+) (mb_counters64 d) (mb_counters64 s),
      mb_counterskbs = merge_with kbs_merge (mb_counterskbs d) (mb_counterskbs s)\<rparr>"

definition ci_stat_area_reset :: "stat_memblock \<Rightarrow> stat_memblock" where
  "ci_stat_area_reset b = ci_stat_memblock_reset b"

definition ci_stat_area_merge :: "stat_memblock option \<Rightarrow> stat_memblock option \<Rightarrow> stat_memblock option" where
  "ci_stat_area_merge dest src =
     (case (dest, src) of (Some d, Some s) \<Rightarrow> Some (ci_stat_memblock_merge d s) | _ \<Rightarrow> dest)"

definition ci_stat_release :: "stat_memblock option \<Rightarrow> stat_memblock option" where
  "ci_stat_release STATS = None"

section \<open>Labels and indexes\<close>

definition stat_list_ok :: "stat_entry_list \<Rightarrow> bool" where
  "stat_list_ok lst \<longleftrightarrow> distinct (map se_label (sl_entries lst)) \<and> length (sl_entries lst) \<le> sl_size lst
     \<and> sl_size lst mod STEP = 0"

lemma find_label_spec:
  "(find_label l i xs = -1 \<or> i \<le> find_label l i xs)
   \<and> (0 \<le> i \<longrightarrow> (if l \<in> set xs then i \<le> find_label l i xs \<and> find_label l i xs < i + int (length xs)
        \<and> xs ! nat (find_label l i xs - i) = l else find_label l i xs = -1))"
proof (induction xs arbitrary: i)
  case (Cons x xs)
  show ?case
  proof (cases "l = x")
    case False
    then show ?thesis using Cons.IH [of "i + 1"] by (auto simp: nth_Cons' nat_diff_distrib' nat_add_distrib split: if_splits)
  qed simp
qed simp

lemma stat_entry_by_name_spec:
  assumes "length (sl_entries lst) \<le> sl_size lst"
  shows "label \<in> se_label ` set (sl_entries lst) \<Longrightarrow>
      \<exists>i < length (sl_entries lst). stat_entry_by_name lst label = int i \<and> se_label (sl_entries lst ! i) = label"
    and "label \<notin> se_label ` set (sl_entries lst) \<Longrightarrow> stat_entry_by_name lst label = -1"
proof -
  let ?xs = "map se_label (sl_entries lst)" and ?k = "find_label label 0 (map se_label (sl_entries lst))"
  have f: "if label \<in> set ?xs then 0 \<le> ?k \<and> ?k < int (length ?xs) \<and> ?xs ! nat ?k = label else ?k = -1"
    using find_label_spec [of label 0 ?xs] by (simp split: if_splits)
  show "\<exists>i < length (sl_entries lst). stat_entry_by_name lst label = int i \<and> se_label (sl_entries lst ! i) = label"
    if "label \<in> se_label ` set (sl_entries lst)"
  proof -
    from that f have k: "0 \<le> ?k" "?k < int (length (sl_entries lst))" "?xs ! nat ?k = label" by simp_all
    moreover have "0 < sl_size lst" using assms k by linarith
    moreover have "nat ?k < length (sl_entries lst)" using k by linarith
    ultimately show ?thesis
      by (intro exI [of _ "nat ?k"]) (simp add: stat_entry_by_name_def)
  qed
  show "stat_entry_by_name lst label = -1" if "label \<notin> se_label ` set (sl_entries lst)"
    using that f by (simp add: stat_entry_by_name_def)
qed

section \<open>Values of counters\<close>

text \<open>The number of bytes a kilobyte counter stands for, modulo \<open>2 ^ 74\<close>.\<close>

definition kbs_ok :: "kbs \<Rightarrow> bool" where
  "kbs_ok k \<longleftrightarrow> uint (k_bytes k) < 1024"

definition kval :: "kbs \<Rightarrow> int" where
  "kval k = uint (k_kb k) * 1024 + uint (k_bytes k)"

lemma low_bits: "uint (b AND 0x3FF) = uint b mod 1024" for b :: "32 word"
proof -
  have "b AND 0x3FF = take_bit 10 b" by (simp add: take_bit_eq_mask mask_eq_exp_minus_1)
  then show ?thesis by (simp add: take_bit_eq_mod uint_mod)
qed

lemma carry_bits: "uint (x + ucast (drop_bit 10 b)) = (uint x + uint b div 1024) mod 2 ^ 64"
  for x :: "64 word" and b :: "32 word"
proof -
  have "uint b < 4294967296" "0 \<le> uint b" using uint_lt2p [of b] by simp_all
  then have "uint b div 1024 < 2 ^ 64" "0 \<le> uint b div 1024" by (simp_all add: pos_imp_zdiv_nonneg_iff)
  then have "uint (ucast (drop_bit 10 b) :: 64 word) = uint b div 1024"
    by (simp add: unsigned_ucast_eq drop_bit_eq_div uint_div take_bit_int_eq_self)
  then show ?thesis by (simp add: uint_word_ariths)
qed

lemma kbs_carry_value:
  "kbs_ok (kbs_carry k)" "kval (kbs_carry k) = (uint (k_kb k) * 1024 + uint (k_bytes k)) mod 2 ^ 74"
proof -
  let ?a = "uint (k_kb k)" and ?b = "uint (k_bytes k)"
  show "kbs_ok (kbs_carry k)" by (simp add: kbs_ok_def kbs_carry_def low_bits)
  have "(?a * 1024 + ?b) mod (1024 * 2 ^ 64) = 1024 * ((?a * 1024 + ?b) div 1024 mod 2 ^ 64) + (?a * 1024 + ?b) mod 1024"
    by (rule zmod_zmult2_eq) simp
  then show "kval (kbs_carry k) = (?a * 1024 + ?b) mod 2 ^ 74"
    unfolding kval_def kbs_carry_def kbs.simps low_bits carry_bits by (simp add: mult.commute)
qed

lemma kbs_inc_value:
  assumes "kbs_ok k" "0 \<le> c" "c < 2 ^ 31"
  shows "kbs_ok (kbs_inc c k)" "kval (kbs_inc c k) = (kval k + c) mod 2 ^ 74"
proof -
  have "uint (k_bytes k + word_of_int c) = uint (k_bytes k) + c"
    using assms by (simp add: kbs_ok_def uint_word_ariths uint_word_of_int)
  then show "kbs_ok (kbs_inc c k)" "kval (kbs_inc c k) = (kval k + c) mod 2 ^ 74"
    unfolding kbs_inc_def kbs_carry_value by (simp_all add: kbs_carry_value kval_def add.assoc)
qed

lemma kbs_merge_value:
  assumes "kbs_ok d" "kbs_ok s"
  shows "kbs_ok (kbs_merge d s)" "kval (kbs_merge d s) = (kval d + kval s) mod 2 ^ 74"
proof -
  have b: "uint (k_bytes d + k_bytes s) = uint (k_bytes d) + uint (k_bytes s)"
    using assms by (simp add: kbs_ok_def uint_word_ariths)
  show "kbs_ok (kbs_merge d s)" by (simp add: kbs_merge_def kbs_carry_value)
  have "kval (kbs_merge d s) = ((uint (k_kb d) + uint (k_kb s)) mod 2 ^ 64 * 1024 + (uint (k_bytes d) + uint (k_bytes s))) mod 2 ^ 74"
    unfolding kbs_merge_def kbs_carry_value(2) kbs.simps b by (simp add: uint_word_ariths)
  also have "\<dots> = ((uint (k_kb d) + uint (k_kb s)) * 1024 + (uint (k_bytes d) + uint (k_bytes s))) mod 2 ^ 74"
  proof -
    have "(x mod 2 ^ 64 * 1024) mod 2 ^ 74 = (x * 1024) mod 2 ^ 74" for x :: int
      using mod_mult_mult2 [of x 1024 "2 ^ 64 :: int"] by simp
    then show ?thesis by (metis (no_types, lifting) mod_add_left_eq)
  qed
  finally show "kval (kbs_merge d s) = (kval d + kval s) mod 2 ^ 74"
    by (simp add: kval_def algebra_simps)
qed

section \<open>Blocks of several processes\<close>

datatype stat_op = Inc64 int int | IncKbs int int

fun run_op :: "stat_op \<Rightarrow> stat_memblock \<Rightarrow> stat_memblock" where
  "run_op (Inc64 ID c) b = ci_stat_area_uint64_inc b ID c"
| "run_op (IncKbs ID c) b = ci_stat_area_kbs_inc b ID c"

fun op_ok :: "stat_op \<Rightarrow> bool" where
  "op_ok (Inc64 ID c) = True"
| "op_ok (IncKbs ID c) = (0 \<le> c \<and> c < 2 ^ 31)"

fun count64 :: "nat \<Rightarrow> stat_op \<Rightarrow> 64 word" where
  "count64 i (Inc64 ID c) = (if ID = int i then word_of_int c else 0)"
| "count64 i (IncKbs ID c) = 0"

fun count_kbs :: "nat \<Rightarrow> stat_op \<Rightarrow> int" where
  "count_kbs i (IncKbs ID c) = (if ID = int i then c else 0)"
| "count_kbs i (Inc64 ID c) = 0"

definition block_of :: "nat \<Rightarrow> nat \<Rightarrow> stat_memblock \<Rightarrow> bool" where
  "block_of n m b \<longleftrightarrow> length (mb_counters64 b) = n \<and> length (mb_counterskbs b) = m
     \<and> (\<forall>k \<in> set (mb_counterskbs b). kbs_ok k)"

lemma run_op_block:
  assumes "block_of n m b" "op_ok p"
  shows "block_of n m (run_op p b)"
    and "i < n \<Longrightarrow> mb_counters64 (run_op p b) ! i = mb_counters64 b ! i + count64 i p"
    and "i < m \<Longrightarrow> kval (mb_counterskbs (run_op p b) ! i) mod 2 ^ 74 = (kval (mb_counterskbs b ! i) + count_kbs i p) mod 2 ^ 74"
proof -
  have nat_eq: "ID = int i \<longleftrightarrow> nat ID = i" if "0 \<le> ID" for ID using that by auto
  have k: "kbs_ok (mb_counterskbs b ! j)" if "j < m" for j using assms(1) that by (simp add: block_of_def)
  show "block_of n m (run_op p b)"
    using assms kbs_inc_value(1)
    by (cases p) (auto simp: block_of_def ci_stat_area_uint64_inc_def ci_stat_area_kbs_inc_def uint64_inc_def kbs_inc_at_def
        dest!: set_update_subset_insert [THEN subsetD])
  show "mb_counters64 (run_op p b) ! i = mb_counters64 b ! i + count64 i p" if "i < n"
    using assms(1) that
    by (cases p) (auto simp: block_of_def ci_stat_area_uint64_inc_def ci_stat_area_kbs_inc_def uint64_inc_def kbs_inc_at_def
        nth_list_update nat_eq)
  show "kval (mb_counterskbs (run_op p b) ! i) mod 2 ^ 74 = (kval (mb_counterskbs b ! i) + count_kbs i p) mod 2 ^ 74" if "i < m"
    using assms that k [of i] kbs_inc_value(2) [of "mb_counterskbs b ! i"]
    by (cases p) (auto simp: block_of_def ci_stat_area_uint64_inc_def ci_stat_area_kbs_inc_def uint64_inc_def kbs_inc_at_def
        nth_list_update nat_eq)
qed

lemma run_ops_block:
  assumes "block_of n m b" "\<forall>p \<in> set ps. op_ok p"
  shows "block_of n m (fold run_op ps b)"
    and "i < n \<Longrightarrow> mb_counters64 (fold run_op ps b) ! i = mb_counters64 b ! i + (\<Sum>p \<leftarrow> ps. count64 i p)"
    and "i < m \<Longrightarrow> kval (mb_counterskbs (fold run_op ps b) ! i) mod 2 ^ 74
        = (kval (mb_counterskbs b ! i) + (\<Sum>p \<leftarrow> ps. count_kbs i p)) mod 2 ^ 74"
proof -
  have "block_of n m (fold run_op ps b)
    \<and> (i < n \<longrightarrow> mb_counters64 (fold run_op ps b) ! i = mb_counters64 b ! i + (\<Sum>p \<leftarrow> ps. count64 i p))
    \<and> (i < m \<longrightarrow> kval (mb_counterskbs (fold run_op ps b) ! i) mod 2 ^ 74
        = (kval (mb_counterskbs b ! i) + (\<Sum>p \<leftarrow> ps. count_kbs i p)) mod 2 ^ 74)"
    using assms
  proof (induction ps arbitrary: b)
    case (Cons p ps)
    have b: "block_of n m (run_op p b)" using run_op_block(1) Cons.prems by simp
    have "(kval (mb_counterskbs (run_op p b) ! i) + x) mod 2 ^ 74 = (kval (mb_counterskbs b ! i) + (count_kbs i p + x)) mod 2 ^ 74"
      if "i < m" for x
      using run_op_block(3) [OF Cons.prems(1) _ that, of p] Cons.prems(2)
      by (metis (no_types, lifting) add.assoc list.set_intros(1) mod_add_left_eq)
    with Cons.IH [OF b] run_op_block(2) [OF Cons.prems(1), of p i] Cons.prems(2) show ?case
      by (simp add: add.assoc)
  qed simp
  then show "block_of n m (fold run_op ps b)"
    "i < n \<Longrightarrow> mb_counters64 (fold run_op ps b) ! i = mb_counters64 b ! i + (\<Sum>p \<leftarrow> ps. count64 i p)"
    "i < m \<Longrightarrow> kval (mb_counterskbs (fold run_op ps b) ! i) mod 2 ^ 74
        = (kval (mb_counterskbs b ! i) + (\<Sum>p \<leftarrow> ps. count_kbs i p)) mod 2 ^ 74"
    by blast+
qed

lemma merge_with_nth:
  assumes "length ds = length ss"
  shows "length (merge_with f ds ss) = length ds" "i < length ds \<Longrightarrow> merge_with f ds ss ! i = f (ds ! i) (ss ! i)"
  using assms by (induction f ds ss arbitrary: i rule: merge_with.induct) (auto simp: nth_Cons')

lemma merge_block:
  assumes "block_of n m d" "block_of n m s"
  shows "block_of n m (ci_stat_memblock_merge d s)"
    and "i < n \<Longrightarrow> mb_counters64 (ci_stat_memblock_merge d s) ! i = mb_counters64 d ! i + mb_counters64 s ! i"
    and "i < m \<Longrightarrow> kval (mb_counterskbs (ci_stat_memblock_merge d s) ! i)
        = (kval (mb_counterskbs d ! i) + kval (mb_counterskbs s ! i)) mod 2 ^ 74"
  using assms by (auto simp: block_of_def ci_stat_memblock_merge_def merge_with_nth kbs_merge_value all_set_conv_all_nth)

lemma reset_block:
  assumes "length (mb_counters64 b) = n" "length (mb_counterskbs b) = m"
  shows "block_of n m (ci_stat_memblock_reset b)"
    and "i < n \<Longrightarrow> mb_counters64 (ci_stat_memblock_reset b) ! i = 0"
    and "i < m \<Longrightarrow> kval (mb_counterskbs (ci_stat_memblock_reset b) ! i) = 0"
  using assms by (auto simp: block_of_def ci_stat_memblock_reset_def kbs_ok_def kbs_zero_def kval_def)

text \<open>
  C31.  Every child process starts with a reset block of the same sizes and increments counters in
  it (an index that is not registered is ignored); the report merges the blocks of all children
  into a reset block, in any order of the children.  Then every 64-bit counter holds the sum of
  all increments of that counter, and every byte counter stands for the sum of all bytes
  counted, modulo the width of the counters, for counts below \<open>2 ^ 31\<close>.
\<close>

theorem stat_merge_sums:
  assumes "length (mb_counters64 b) = n" "length (mb_counterskbs b) = m"
    and "\<forall>ps \<in> set pss. \<forall>p \<in> set ps. op_ok p"
  shows "block_of n m (fold (\<lambda>ps d. ci_stat_memblock_merge d (fold run_op ps (ci_stat_memblock_reset b))) pss
        (ci_stat_memblock_reset b))
    \<and> (\<forall>i < n. mb_counters64 (fold (\<lambda>ps d. ci_stat_memblock_merge d (fold run_op ps (ci_stat_memblock_reset b))) pss
        (ci_stat_memblock_reset b)) ! i = (\<Sum>p \<leftarrow> concat pss. count64 i p))
    \<and> (\<forall>i < m. kval (mb_counterskbs (fold (\<lambda>ps d. ci_stat_memblock_merge d (fold run_op ps (ci_stat_memblock_reset b))) pss
        (ci_stat_memblock_reset b)) ! i) mod 2 ^ 74 = (\<Sum>p \<leftarrow> concat pss. count_kbs i p) mod 2 ^ 74)"
proof -
  let ?z = "ci_stat_memblock_reset b"
  let ?run = "fold (\<lambda>ps d. ci_stat_memblock_merge d (fold run_op ps ?z))"
  note z = reset_block [OF assms(1,2)]
  have "block_of n m (?run pss d)
    \<and> (\<forall>i < n. mb_counters64 (?run pss d) ! i = mb_counters64 d ! i + (\<Sum>p \<leftarrow> concat pss. count64 i p))
    \<and> (\<forall>i < m. kval (mb_counterskbs (?run pss d) ! i) mod 2 ^ 74
        = (kval (mb_counterskbs d ! i) + (\<Sum>p \<leftarrow> concat pss. count_kbs i p)) mod 2 ^ 74)"
    if "block_of n m d" for d
    using that assms(3)
  proof (induction pss arbitrary: d)
    case (Cons ps pss)
    let ?d = "ci_stat_memblock_merge d (fold run_op ps ?z)"
    have ok: "\<forall>p \<in> set ps. op_ok p" using Cons.prems(2) by simp
    note r = run_ops_block [OF z(1) ok]
    note m = merge_block [OF Cons.prems(1) r(1)]
    have "(kval (mb_counterskbs ?d ! i) + x) mod 2 ^ 74
        = (kval (mb_counterskbs d ! i) + ((\<Sum>p \<leftarrow> ps. count_kbs i p) + x)) mod 2 ^ 74" if "i < m" for i x
      using m(3) [OF that] r(3) [OF that] z(3) [OF that]
      by (metis (no_types, lifting) add.assoc add_0 mod_add_left_eq mod_add_right_eq)
    moreover have "mb_counters64 ?d ! i = mb_counters64 d ! i + (\<Sum>p \<leftarrow> ps. count64 i p)" if "i < n" for i
      using m(2) [OF that] r(2) [OF that] z(2) [OF that] by simp
    ultimately show ?case using Cons.IH [OF m(1)] Cons.prems(2) by (simp add: add.assoc)
  qed simp
  from this [OF z(1)] z(2,3) show ?thesis by simp
qed

theorem stat_merge_sums_witness:
  "kval (mb_counterskbs (fold (\<lambda>ps d. ci_stat_memblock_merge d
        (fold run_op ps (ci_stat_memblock_reset \<lparr>mb_counters64 = [7], mb_counterskbs = [kbs_zero]\<rparr>)))
      [[Inc64 0 1, IncKbs 0 1000], [IncKbs 0 2000, IncKbs 5 1]]
      (ci_stat_memblock_reset \<lparr>mb_counters64 = [7], mb_counterskbs = [kbs_zero]\<rparr>)) ! 0) mod 2 ^ 74 = 3000"
  using stat_merge_sums [of "\<lparr>mb_counters64 = [7], mb_counterskbs = [kbs_zero]\<rparr>" 1 1
      "[[Inc64 0 1, IncKbs 0 1000], [IncKbs 0 2000, IncKbs 5 1]]"] by simp

text \<open>
  C32.  Registering a counter in a well-formed list: if it fails, for want of memory only, the list is as
  before; otherwise the index returned is the one at which \<^verbatim>\<open>stat_entry_by_name\<close> finds the label,
  no entry that was there has moved, the list is well-formed again and holds at most one entry
  more, so that a label that is registered keeps its index for ever.
\<close>

theorem stat_entry_add_index:
  assumes "stat_list_ok lst" "stat_entry_add alloc_ok lst label typ gid = (lst', i)"
  shows "i = -1 \<and> lst' = lst \<and> \<not> alloc_ok \<and> stat_entry_by_name lst label = -1
    \<or> stat_entry_by_name lst' label = i \<and> 0 \<le> i \<and> i < int (length (sl_entries lst'))
      \<and> se_label (sl_entries lst' ! nat i) = label \<and> stat_list_ok lst'
      \<and> (\<exists>new. sl_entries lst' = sl_entries lst @ new \<and> length new \<le> 1
          \<and> (new = [] \<longleftrightarrow> label \<in> se_label ` set (sl_entries lst)))"
proof -
  have len: "length (sl_entries lst) \<le> sl_size lst" using assms(1) by (simp add: stat_list_ok_def)
  show ?thesis
  proof (cases "label \<in> se_label ` set (sl_entries lst)")
    case True
    from stat_entry_by_name_spec(1) [OF len True] obtain j where j: "j < length (sl_entries lst)"
        "stat_entry_by_name lst label = int j" "se_label (sl_entries lst ! j) = label" by blast
    then have "lst' = lst" "i = int j" using assms(2) by (simp_all add: stat_entry_add_def)
    with j True assms(1) show ?thesis by simp
  next
    case False
    note none = stat_entry_by_name_spec(2) [OF len False]
    show ?thesis
    proof (cases "sl_size lst = length (sl_entries lst) \<and> \<not> alloc_ok")
      case True
      then show ?thesis using assms(2) none by (auto simp: stat_entry_add_def)
    next
      case add: False
      let ?e = "\<lparr>se_label = label, se_type = typ, se_gid = gid\<rparr>"
      have r: "sl_entries lst' = sl_entries lst @ [?e]" "i = int (length (sl_entries lst))"
          "sl_size lst' = (if sl_size lst = length (sl_entries lst) then sl_size lst + STEP else sl_size lst)"
        using assms(2) none add by (auto simp: stat_entry_add_def Let_def)
      have ok: "stat_list_ok lst'" using assms(1) False r len by (auto simp: stat_list_ok_def STEP_def)
      then obtain j where j: "j < length (sl_entries lst')" "stat_entry_by_name lst' label = int j"
          "se_label (sl_entries lst' ! j) = label"
        using stat_entry_by_name_spec(1) [of lst' label] r(1) by (auto simp: stat_list_ok_def)
      have "j = length (sl_entries lst)"
        using j(1,3) False r(1) nth_mem [of j "sl_entries lst"] by (auto simp: nth_append split: if_splits)
      with j r ok False show ?thesis by auto
    qed
  qed
qed

theorem stat_entry_add_index_witness:
  "stat_entry_by_name (fst (stat_entry_add True \<lparr>sl_entries = [], sl_size = 0\<rparr> ''REQUESTS'' STAT_INT64_T 0)) ''REQUESTS'' = 0"
  using stat_entry_add_index [of "\<lparr>sl_entries = [], sl_size = 0\<rparr>" True "''REQUESTS''" STAT_INT64_T 0
      "fst (stat_entry_add True \<lparr>sl_entries = [], sl_size = 0\<rparr> ''REQUESTS'' STAT_INT64_T 0)" 0]
  by (simp add: stat_list_ok_def stat_entry_add_def stat_entry_by_name_def)

end
