(* ===== verification/Process.thy ===== *)
theory Process
  imports Body_Io Stats
begin

text \<open>
  The life of one request: \<^verbatim>\<open>do_request\<close> and \<^verbatim>\<open>process_request\<close> of \<^verbatim>\<open>request.c\<close> with the steps that call
  the handlers of the service (\<^verbatim>\<open>do_request_preview\<close>, \<^verbatim>\<open>do_fake_preview\<close>, \<^verbatim>\<open>do_end_of_data\<close>), the
  access check of \<^verbatim>\<open>access.c\<close>, and the statistics that a request leaves.

  The state is the request with the data of the service, the bytes sent so far and what the
  connection is going to do: the input of the blocking reads, the results of the blocking
  writes, the events of \<^verbatim>\<open>get_send_body\<close> and the takes of \<^verbatim>\<open>send_remaining_response\<close>, a list for each.

  Proved: after a failed request the connection is closed, but for one path, and that path is a
  defect.
\<close>

section \<open>Access\<close>

definition CI_ACCESS_ALLOW :: int where "CI_ACCESS_ALLOW = 1"
definition CI_ACCESS_UNKNOWN :: int where "CI_ACCESS_UNKNOWN = 0"
definition CI_ACCESS_DENY :: int where "CI_ACCESS_DENY = -1"

declare CI_ACCESS_ALLOW_def [ci_consts] CI_ACCESS_UNKNOWN_def [ci_consts] CI_ACCESS_DENY_def [ci_consts]

text \<open>The controllers are asked in order until one decides; a controller may have no function.\<close>

type_synonym controller = "(ci_request \<Rightarrow> ci_request \<times> int) option"

fun ask_controllers :: "controller list \<Rightarrow> ci_request \<Rightarrow> ci_request \<times> int" where
  "ask_controllers [] req = (req, CI_ACCESS_ALLOW)"
| "ask_controllers (None # cs) req = ask_controllers cs req"
| "ask_controllers (Some c # cs) req =
     (case c req of (req1, res) \<Rightarrow>
        if res \<noteq> CI_ACCESS_UNKNOWN then (req1, res) else ask_controllers cs req1)"

definition access_check_client :: "controller list option \<Rightarrow> ci_request \<Rightarrow> ci_request \<times> int" where
  "access_check_client used req =
     (case used of None \<Rightarrow> (req, CI_ACCESS_ALLOW) | Some cs \<Rightarrow> ask_controllers cs req)"

definition access_check_request :: "controller list option \<Rightarrow> ci_request \<Rightarrow> ci_request \<times> int" where
  "access_check_request used req =
     (case used of None \<Rightarrow> (req, CI_ACCESS_ALLOW) | Some cs \<Rightarrow> ask_controllers cs req)"

section \<open>The state of a connection\<close>

record 's conn =
  cn_req :: ci_request
  cn_srv :: 's
  cn_out :: bytes
  cn_in :: "net_in list"
  cn_writes :: "net_write list"
  cn_io :: "io_ev list"
  cn_takes :: "net_out list"

record 's process_env =
  pe_fresh :: "nat \<Rightarrow> char"
  pe_realloc :: "nat \<Rightarrow> bool"
  pe_realloc_int :: "int \<Rightarrow> bool"
  pe_ring :: "nat \<Rightarrow> bool"
  pe_server :: server_env
  pe_ops :: "ci_service_module \<Rightarrow> 's service_ops"
  pe_access :: "controller list option"
  pe_date :: bytes

text \<open>Calls that may not return (\<open>None\<close>), abort, or be undefined.\<close>

fun co_bind :: "'a c_result option \<Rightarrow> ('a \<Rightarrow> 'b c_result option) \<Rightarrow> 'b c_result option" where
  "co_bind None f = None"
| "co_bind (Some Abort) f = Some Abort"
| "co_bind (Some Undef) f = Some Undef"
| "co_bind (Some (Ret x)) f = f x"

definition set_req :: "(ci_request \<Rightarrow> ci_request) \<Rightarrow> 's conn \<Rightarrow> 's conn" where
  "set_req f c = c\<lparr>cn_req := f (cn_req c)\<rparr>"

definition no_keepalive :: "'s conn \<Rightarrow> 's conn" where
  "no_keepalive = set_req (\<lambda>r. r\<lparr>rq_keepalive := False\<rparr>)"

definition set_code :: "int \<Rightarrow> 's conn \<Rightarrow> 's conn" where
  "set_code ec = set_req (\<lambda>r. r\<lparr>rq_return_code := ec\<rparr>)"

text \<open>Sending a response without a body; no more results of writes means that writing fails.\<close>

definition next_write :: "'s conn \<Rightarrow> net_write" where
  "next_write c = (case cn_writes c of [] \<Rightarrow> W_fail 0 | w # _ \<Rightarrow> w)"

definition respond :: "'s process_env \<Rightarrow> int \<Rightarrow> 's conn \<Rightarrow> ('s conn \<times> int) c_result option" where
  "respond P ec c =
     co_bind (Some (ec_responce (pe_fresh P) (pe_realloc P) (pe_server P) (next_write c) (cn_req c) ec))
       (\<lambda>(req, out, n). Some (Ret (c\<lparr>cn_req := req, cn_out := cn_out c @ out, cn_writes := tl (cn_writes c)\<rparr>, n)))"

definition respond_simple :: "int \<Rightarrow> 's conn \<Rightarrow> 's conn" where
  "respond_simple ec c =
     (case ec_responce_simple (next_write c) (cn_req c) ec of
        (req, out) \<Rightarrow> c\<lparr>cn_req := req, cn_out := cn_out c @ out, cn_writes := tl (cn_writes c)\<rparr>)"

text \<open>An error response, after which the connection is closed and \<^verbatim>\<open>CI_ERROR\<close> is returned.\<close>

definition fail_with :: "'s process_env \<Rightarrow> int \<Rightarrow> 's conn \<Rightarrow> ('s conn \<times> int) c_result option" where
  "fail_with P ec c = co_bind (respond P ec (no_keepalive c)) (\<lambda>(c1, _). Some (Ret (c1, CI_ERROR)))"

section \<open>Preview\<close>

definition CI_MOD_DONE :: int where "CI_MOD_DONE = 1"
definition CI_MOD_CONTINUE :: int where "CI_MOD_CONTINUE = 100"
definition CI_MOD_ALLOW204 :: int where "CI_MOD_ALLOW204 = 204"
definition CI_MOD_ALLOW206 :: int where "CI_MOD_ALLOW206 = 206"

declare CI_MOD_DONE_def [ci_consts] CI_MOD_CONTINUE_def [ci_consts] CI_MOD_ALLOW204_def [ci_consts]
  CI_MOD_ALLOW206_def [ci_consts]

definition preview_read :: "'s conn \<Rightarrow> ('s conn \<times> int) c_result option" where
  "preview_read c =
     (if \<not> rq_hasbody (cn_req c) then Some (Ret (c, CI_EOF))
      else co_bind (read_preview_data (cn_in c) (cn_req c))
             (\<lambda>((q, st), es). Some (Ret (c\<lparr>cn_req := q, cn_in := es\<rparr>, st))))"

definition call_preview :: "'s service_ops \<Rightarrow> bytes option \<Rightarrow> 's conn \<Rightarrow> ('s conn \<times> int) c_result option" where
  "call_preview so data c =
     (case so_preview so of
        None \<Rightarrow> Some (Ret (c, CI_MOD_CONTINUE))
      | Some h \<Rightarrow>
          co_bind (h data (cn_req c, cn_srv c)) (\<lambda>((req, s), res). Some (Ret (c\<lparr>cn_req := req, cn_srv := s\<rparr>, res))))"

text \<open>Sending \<^verbatim>\<open>204\<close>; when it cannot be written the connection is closed.\<close>

definition respond_204 :: "'s process_env \<Rightarrow> ('s conn \<Rightarrow> ('s conn \<times> int) c_result option) \<Rightarrow> 's conn \<Rightarrow> ('s conn \<times> int) c_result option" where
  "respond_204 P k c =
     co_bind (respond P EC_204 c) (\<lambda>(c1, n).
       if n < 0 then Some (Ret (no_keepalive c1, CI_ERROR)) else k c1)"

definition do_request_preview :: "'s process_env \<Rightarrow> 's service_ops \<Rightarrow> 's conn \<Rightarrow> ('s conn \<times> int) c_result option" where
  "do_request_preview P so c =
     co_bind (preview_read c) (\<lambda>(c1, status).
       if status = CI_ERROR then fail_with P EC_408 c1
       else co_bind (call_preview so (Some (cb_contents (rq_preview_data (cn_req c1)))) c1) (\<lambda>(c2, res).
         if res = CI_MOD_ALLOW204 then respond_204 P (\<lambda>c3. Some (Ret (c3, CI_OK))) c2
         else if res = CI_MOD_ALLOW206 \<and> rq_allow206 (cn_req c2) then Some (Ret (set_code EC_206 c2, CI_OK))
         else if res \<noteq> CI_MOD_CONTINUE then fail_with P EC_500 c2
         else Some (Ret (if status \<noteq> CI_EOF then respond_simple EC_100 c2 else c2, status))))"

text \<open>Reading the body, with the input events of the connection.\<close>

definition transfer_body :: "'s process_env \<Rightarrow> 's service_ops \<Rightarrow> bool \<Rightarrow> 's conn \<Rightarrow> ('s conn \<times> int) c_result option" where
  "transfer_body P so parse_only c =
     co_bind (get_send_body (pe_fresh P) (pe_realloc P) (pe_server P) so parse_only (cn_io c) (cn_req c, cn_srv c))
       (\<lambda>((req, s), out, ret, es).
          Some (Ret (c\<lparr>cn_req := req, cn_srv := s, cn_out := cn_out c @ out, cn_io := es\<rparr>, ret)))"

definition continue_code :: "'s conn \<Rightarrow> 's conn" where
  "continue_code c = set_code (if rq_hasbody (cn_req c) then EC_100 else EC_200) c"

definition do_fake_preview :: "'s process_env \<Rightarrow> 's service_ops \<Rightarrow> 's conn \<Rightarrow> ('s conn \<times> int) c_result option" where
  "do_fake_preview P so c =
     (if so_preview so = None then Some (Ret (continue_code c, CI_OK))
      else co_bind (call_preview so None c) (\<lambda>(c1, res).
        let req = cn_req c1 in
        if res = CI_MOD_ALLOW204 \<and> rq_allow204 req then
          respond_204 P (\<lambda>c2.
            if rq_hasbody (cn_req c2) then
              co_bind (transfer_body P so True c2) (\<lambda>(c3, ret).
                if ret = CI_ERROR then Some (Ret (c3, ret)) else Some (Ret (set_code EC_204 c3, CI_OK)))
            else Some (Ret (set_code EC_204 c2, CI_OK))) c1
        else if res = CI_MOD_ALLOW204 \<and> rq_hasbody req \<and> sv_fake_allow204 (pe_server P) then
          Some (Ret (set_code EC_100 (set_req (\<lambda>r. r\<lparr>rq_echo_body := ci_ring_buf_new (pe_ring P) (pe_fresh P) 32768\<rparr>) c1), CI_OK))
        else if res = CI_MOD_ALLOW204 \<and> \<not> rq_hasbody req then Some (Ret (set_code EC_200 c1, CI_OK))
        else if res = CI_MOD_ALLOW206 \<and> rq_allow204 req \<and> rq_allow206 req then Some (Ret (set_code EC_206 c1, CI_OK))
        else if res = CI_MOD_CONTINUE then Some (Ret (continue_code c1, CI_OK))
        else fail_with P EC_500 c1))"

section \<open>End of data\<close>

definition ci_req_sent_data :: "ci_request \<Rightarrow> int" where
  "ci_req_sent_data req = rq_status req"

definition do_end_of_data :: "'s process_env \<Rightarrow> 's service_ops \<Rightarrow> 's conn \<Rightarrow> ('s conn \<times> int) c_result option" where
  "do_end_of_data P so c =
     (case so_end_of_data so of
        None \<Rightarrow> Some (Ret (c, CI_OK))
      | Some h \<Rightarrow>
          co_bind (h (cn_req c, cn_srv c)) (\<lambda>((req, s), res).
               let c1 = c\<lparr>cn_req := req, cn_srv := s\<rparr>; sent = (ci_req_sent_data req \<noteq> 0) in
               if res = CI_MOD_ALLOW204 \<and> rq_allow204 req \<and> \<not> sent then
                 co_bind (respond P EC_204 c1) (\<lambda>(c2, n). Some (Ret (c2, if n < 0 then CI_ERROR else CI_OK)))
               else if res = CI_MOD_ALLOW206 \<and> rq_allow204 req \<and> rq_allow206 req \<and> \<not> sent then
                 Some (Ret (set_code EC_206 c1, CI_OK))
               else if res \<noteq> CI_MOD_DONE then
                 (if \<not> sent then fail_with P EC_500 c1 else Some (Ret (c1, CI_ERROR)))
               else Some (Ret (c1, CI_OK))))"

section \<open>A request\<close>

definition unlock_data :: "'s conn \<Rightarrow> 's conn" where
  "unlock_data = set_req (\<lambda>r. r\<lparr>rq_data_locked := False\<rparr>)"

definition send_rest :: "'s process_env \<Rightarrow> 's service_ops \<Rightarrow> 's conn \<Rightarrow> ('s conn \<times> int) c_result option" where
  "send_rest P so c =
     co_bind (send_remaining_response (pe_fresh P) (pe_realloc P) (pe_server P) so (cn_takes c) (cn_req c, cn_srv c))
       (\<lambda>((req, s), out, ret, ks).
          let c1 = c\<lparr>cn_req := req, cn_srv := s, cn_out := cn_out c @ out, cn_takes := ks\<rparr> in
          Some (Ret (if ret = CI_ERROR then no_keepalive c1 else c1, ret)))"

text \<open>What follows the preview, in the order of the code.\<close>

definition finish_modification :: "'s process_env \<Rightarrow> 's service_ops \<Rightarrow> 's conn \<Rightarrow> ('s conn \<times> int) c_result option" where
  "finish_modification P so c =
     co_bind (do_end_of_data P so c) (\<lambda>(c1, ret).
       if ret = CI_ERROR then Some (Ret (no_keepalive c1, ret))
       else if rq_return_code (cn_req c1) = EC_204 then Some (Ret (c1, ret))
       else send_rest P so (unlock_data c1))"

definition do_modification :: "'s process_env \<Rightarrow> 's service_ops \<Rightarrow> 's conn \<Rightarrow> ('s conn \<times> int) c_result option" where
  "do_modification P so c =
     co_bind (if 0 \<le> rq_preview (cn_req c) then do_request_preview P so c else do_fake_preview P so c) (\<lambda>(c1, ps).
       if ps = CI_ERROR then Some (Ret (c1, CI_ERROR))
       else let c2 = (if ps = CI_EOF then set_code EC_200 c1 else c1); rc = rq_return_code (cn_req c2) in
         if rc = EC_204 then Some (Ret (c2, CI_OK))
         else if rc \<noteq> EC_100 \<and> rc \<noteq> EC_200 \<and> rc \<noteq> EC_206 then
           co_bind (respond P EC_500 c2) (\<lambda>(c3, _). Some (Ret (c3, CI_ERROR)))
         else if rc = EC_100 \<and> rq_hasbody (cn_req c2) \<and> ps \<noteq> CI_EOF then
           co_bind (transfer_body P so False (set_code EC_200 c2)) (\<lambda>(c3, ret).
             if ret = CI_ERROR then Some (Ret (no_keepalive c3, ret)) else finish_modification P so c3)
         else finish_modification P so c2)"

definition do_method :: "'s process_env \<Rightarrow> 's service_ops \<Rightarrow> 's conn \<Rightarrow> ('s conn \<times> int) c_result option" where
  "do_method P so c =
     (let t = rq_type (cn_req c) in
      if t = ICAP_OPTIONS then
        co_bind (Some (options_responce (pe_fresh P) (pe_realloc P) (pe_server P) (pe_date P) so (cn_takes c) (cn_req c)))
          (\<lambda>(req, out, ks). Some (Ret (c\<lparr>cn_req := req, cn_out := cn_out c @ out, cn_takes := ks\<rparr>, CI_OK)))
      else if t = ICAP_REQMOD \<or> t = ICAP_RESPMOD then do_modification P so c
      else Some (Ret (no_keepalive c, CI_ERROR)))"

text \<open>The data of the service around the method: \<^verbatim>\<open>mod_init_request_data\<close> and its release.\<close>

definition init_service :: "'s service_ops \<Rightarrow> 's conn \<Rightarrow> 's conn" where
  "init_service so c =
     (case so_init so of
        None \<Rightarrow> set_req (\<lambda>r. r\<lparr>rq_service_data := None\<rparr>) c
      | Some f \<Rightarrow>
          (case f (cn_req c, cn_srv c) of
             ((req, s), present) \<Rightarrow>
               c\<lparr>cn_req := req\<lparr>rq_service_data := (if present then Some 0 else None)\<rparr>, cn_srv := s\<rparr>))"

definition release_service :: "'s service_ops \<Rightarrow> 's conn \<Rightarrow> 's conn c_result" where
  "release_service so c =
     (case so_release so of
        None \<Rightarrow> Ret c
      | Some f \<Rightarrow> if rq_service_data (cn_req c) \<noteq> None then c_bind (f (cn_srv c)) (\<lambda>s. Ret (c\<lparr>cn_srv := s\<rparr>)) else Ret c)"

definition run_service :: "'s process_env \<Rightarrow> 's service_ops \<Rightarrow> 's conn \<Rightarrow> ('s conn \<times> int) c_result option" where
  "run_service P so c =
     co_bind (do_method P so (init_service so c)) (\<lambda>(c1, ret).
       co_bind (Some (release_service so c1)) (\<lambda>c2. Some (Ret (c2, ret))))"

text \<open>The checks before a service is called.\<close>

definition CI_SERVICE_OK :: int where "CI_SERVICE_OK = 0"

definition parse_conn :: "'s process_env \<Rightarrow> 's conn \<Rightarrow> ('s conn \<times> int) c_result option" where
  "parse_conn P c =
     co_bind (Some (parse_header (pe_fresh P) (pe_realloc P) (pe_realloc_int P) (sv_pipelining (pe_server P))
                      (sv_services (pe_server P)) (cn_in c) (cn_req c)))
       (\<lambda>(req, st, es). Some (Ret (c\<lparr>cn_req := req, cn_in := es\<rparr>, st)))"

definition parse_encaps_conn :: "'s process_env \<Rightarrow> 's conn \<Rightarrow> ('s conn \<times> int) c_result option" where
  "parse_encaps_conn P c =
     co_bind (Some (parse_encaps_headers (pe_fresh P) (pe_realloc P) (sv_buggy_client (pe_server P)) (cn_in c) (cn_req c)))
       (\<lambda>(req, st, es). Some (Ret (c\<lparr>cn_req := req, cn_in := es\<rparr>, st)))"

definition parse_failed :: "'s process_env \<Rightarrow> int \<Rightarrow> 's conn \<Rightarrow> ('s conn \<times> int) c_result option" where
  "parse_failed P res c =
     (let c1 = no_keepalive (set_code res c) in
      if EC_100 < res \<and> 0 < hl_bufused (rq_request_header (cn_req c1)) then
        co_bind (respond P res c1) (\<lambda>(c2, _). Some (Ret (c2, CI_ERROR)))
      else Some (Ret (c1, CI_ERROR)))"

definition service_ready :: "ci_service_module \<Rightarrow> bool" where
  "service_ready m = (case mod_xdata m of None \<Rightarrow> False | Some x \<Rightarrow> sx_status x = CI_SERVICE_OK)"

definition do_request :: "'s process_env \<Rightarrow> 's conn \<Rightarrow> ('s conn \<times> int) c_result option" where
  "do_request P c =
     co_bind (parse_conn P c) (\<lambda>(c1, res).
       if res \<noteq> EC_100 then parse_failed P res c1
       else case rq_service_mod (cn_req c1) of
              None \<Rightarrow> Some Abort
            | Some m \<Rightarrow>
                if \<not> service_ready m then fail_with P EC_500 c1
                else (case access_check_request (pe_access P) (cn_req c1) of
                        (req, auth) \<Rightarrow>
                          let c2 = c1\<lparr>cn_req := req\<rparr> in
                          if auth = CI_ACCESS_DENY then fail_with P (if rq_auth_required req then EC_407 else EC_403) c2
                          else co_bind (parse_encaps_conn P c2) (\<lambda>(c3, res2).
                            if res2 \<noteq> EC_100 then fail_with P EC_400 c3
                            else run_service P (pe_ops P m) c3)))"

section \<open>Statistics of a request\<close>

record request_stats =
  rs_requests :: int
  rs_reqmods :: int
  rs_respmods :: int
  rs_options :: int
  rs_failed :: int
  rs_allow204 :: int
  rs_bytes_in :: int
  rs_bytes_out :: int
  rs_http_bytes_in :: int
  rs_http_bytes_out :: int
  rs_body_bytes_in :: int
  rs_body_bytes_out :: int

text \<open>Registration at the start of the server, in the order of the code; \<open>al n\<close> is the outcome of the allocations of the \<open>n\<close>-th.\<close>

definition request_stats_init :: "(nat \<Rightarrow> bool \<times> bool) \<Rightarrow> stat_tables \<Rightarrow> stat_tables \<times> request_stats" where
  "request_stats_init al T =
     (let reg = (\<lambda>n T l t. ci_stat_entry_register (fst (al n)) (snd (al n)) T l t ''General'');
          (T1, requests) = reg 1 T ''REQUESTS'' STAT_INT64_T;
          (T2, reqmods) = reg 2 T1 ''REQMODS'' STAT_INT64_T;
          (T3, respmods) = reg 3 T2 ''RESPMODS'' STAT_INT64_T;
          (T4, options) = reg 4 T3 ''OPTIONS'' STAT_INT64_T;
          (T5, failed) = reg 5 T4 ''FAILED REQUESTS'' STAT_INT64_T;
          (T6, allow204) = reg 6 T5 ''ALLOW 204'' STAT_INT64_T;
          (T7, bin) = reg 7 T6 ''BYTES IN'' STAT_KBS_T;
          (T8, bout) = reg 8 T7 ''BYTES OUT'' STAT_KBS_T;
          (T9, hin) = reg 9 T8 ''HTTP BYTES IN'' STAT_KBS_T;
          (T10, hout) = reg 10 T9 ''HTTP BYTES OUT'' STAT_KBS_T;
          (T11, yin) = reg 11 T10 ''BODY BYTES IN'' STAT_KBS_T;
          (T12, yout) = reg 12 T11 ''BODY BYTES OUT'' STAT_KBS_T
      in (T12, \<lparr>rs_requests = requests, rs_reqmods = reqmods, rs_respmods = respmods, rs_options = options,
                rs_failed = failed, rs_allow204 = allow204, rs_bytes_in = bin, rs_bytes_out = bout,
                rs_http_bytes_in = hin, rs_http_bytes_out = hout, rs_body_bytes_in = yin, rs_body_bytes_out = yout\<rparr>))"

fun run_incs :: "(stat_memblock \<Rightarrow> stat_memblock c_result) list \<Rightarrow> stat_memblock \<Rightarrow> stat_memblock c_result" where
  "run_incs [] b = Ret b"
| "run_incs (f # fs) b = c_bind (f b) (run_incs fs)"

definition inc_if :: "int \<Rightarrow> (stat_memblock \<Rightarrow> stat_memblock c_result) \<Rightarrow> (stat_memblock \<Rightarrow> stat_memblock c_result) list" where
  "inc_if ID f = (if 0 \<le> ID then [f] else [])"

definition kbs_incs :: "request_stats \<Rightarrow> ci_request \<Rightarrow> (stat_memblock \<Rightarrow> stat_memblock c_result) list" where
  "kbs_incs ids req =
     inc_if (rs_bytes_in ids) (STATS_KBS_INC (rs_bytes_in ids) (rq_bytes_in req))
     @ inc_if (rs_bytes_out ids) (STATS_KBS_INC (rs_bytes_out ids) (rq_bytes_out req))
     @ inc_if (rs_http_bytes_in ids) (STATS_KBS_INC (rs_http_bytes_in ids) (rq_http_bytes_in req))
     @ inc_if (rs_http_bytes_out ids) (STATS_KBS_INC (rs_http_bytes_out ids) (rq_http_bytes_out req))
     @ inc_if (rs_body_bytes_in ids) (STATS_KBS_INC (rs_body_bytes_in ids) (rq_body_bytes_in req))
     @ inc_if (rs_body_bytes_out ids) (STATS_KBS_INC (rs_body_bytes_out ids) (rq_body_bytes_out req))"

text \<open>
  The counters of one request: \<open>gid\<close> are those of the server, \<open>sid\<close> those of the service (none for
  an unknown service).  The counters per method and of the allowed 204 are incremented without
  a look at the index.
\<close>

definition of_service :: "request_stats option \<Rightarrow> (request_stats \<Rightarrow> int) \<Rightarrow> (stat_memblock \<Rightarrow> stat_memblock c_result) list" where
  "of_service sid f = (case sid of None \<Rightarrow> [] | Some s \<Rightarrow> [STATS_INT64_INC (f s) 1])"

definition method_incs :: "request_stats \<Rightarrow> request_stats option \<Rightarrow> int \<Rightarrow> (stat_memblock \<Rightarrow> stat_memblock c_result) list" where
  "method_incs gid sid t =
     (if t = ICAP_REQMOD then STATS_INT64_INC (rs_reqmods gid) 1 # of_service sid rs_reqmods
      else if t = ICAP_RESPMOD then STATS_INT64_INC (rs_respmods gid) 1 # of_service sid rs_respmods
      else if t = ICAP_OPTIONS then STATS_INT64_INC (rs_options gid) 1 # of_service sid rs_options
      else [])"

definition request_incs :: "request_stats \<Rightarrow> request_stats option \<Rightarrow> int \<Rightarrow> ci_request \<Rightarrow> (stat_memblock \<Rightarrow> stat_memblock c_result) list" where
  "request_incs gid sid res req =
     inc_if (rs_requests gid) (STATS_INT64_INC (rs_requests gid) 1)
     @ method_incs gid sid (rq_type req)
     @ (if res < 0 \<and> 0 \<le> rs_failed gid then [STATS_INT64_INC (rs_failed gid) 1]
        else if rq_return_code req = EC_204 then STATS_INT64_INC (rs_allow204 gid) 1 # of_service sid rs_allow204
        else [])
     @ kbs_incs gid req
     @ (case sid of None \<Rightarrow> [] | Some s \<Rightarrow> kbs_incs s req)"

definition process_request ::
  "'s process_env \<Rightarrow> request_stats \<Rightarrow> (ci_service_module \<Rightarrow> request_stats) \<Rightarrow> stat_memblock option \<Rightarrow> 's conn
   \<Rightarrow> ('s conn \<times> stat_memblock option \<times> int) c_result option" where
  "process_request P gid sids STATS c =
     co_bind (do_request P c) (\<lambda>(c1, res).
       let req = cn_req c1 in
       if res < 0 \<and> hl_bufused (rq_request_header req) = 0 then Some (Ret (c1, STATS, CI_NO_STATUS))
       else case STATS of
              None \<Rightarrow> Some (Ret (c1, None, res))
            | Some b \<Rightarrow>
                let sid = (if rq_return_code req = EC_404 then None
                           else case rq_service_mod req of
                                  None \<Rightarrow> None
                                | Some m \<Rightarrow> if mod_xdata m = None then None else Some (sids m))
                in co_bind (Some (run_incs (request_incs gid sid res req) b))
                     (\<lambda>b1. Some (Ret (c1, Some b1, res))))"

section \<open>New connections\<close>

definition FORBITTEN_STR :: bytes where "FORBITTEN_STR = ''ICAP/1.0 403 Forbidden'' @ CRLF @ CRLF"

text \<open>The client check of a fresh or reset request: the request, or what is written to a client that is denied.\<close>

definition admit :: "controller list option \<Rightarrow> ci_request \<Rightarrow> ci_request + bytes" where
  "admit used req =
     (case access_check_client used req of (req1, access) \<Rightarrow>
        if access = CI_ACCESS_DENY then Inr FORBITTEN_STR else Inl (req1\<lparr>rq_access_type := access\<rparr>))"

definition newrequest ::
  "(nat \<Rightarrow> char) \<Rightarrow> (nat \<Rightarrow> bool) \<Rightarrow> bool \<Rightarrow> bool \<Rightarrow> controller list option \<Rightarrow> (ci_request + bytes) c_result" where
  "newrequest g ra conn_ok malloc_ok used =
     (if \<not> conn_ok then Abort
      else c_bind (ci_request_alloc g ra malloc_ok) (\<lambda>r.
        case r of None \<Rightarrow> Undef | Some req \<Rightarrow> Ret (admit used req)))"

definition recycle_request :: "controller list option \<Rightarrow> ci_request \<Rightarrow> (ci_request + bytes) c_result" where
  "recycle_request used req = c_bind (ci_request_reset req) (\<lambda>r. Ret (admit used r))"

section \<open>Responses keep the connection flag\<close>

lemma co_bind_eq_Ret:
  "co_bind m f = Some (Ret y) \<longleftrightarrow> (\<exists>x. m = Some (Ret x) \<and> f x = Some (Ret y))"
  by (cases "(m, f)" rule: co_bind.cases) auto

lemma ec_responce_frame:
  assumes "ec_responce g ra sv w req ec = Ret (q, out, n)"
  shows "rq_keepalive q = rq_keepalive req \<and> rq_hasbody q = rq_hasbody req \<and> rq_pstr_len q = rq_pstr_len req
    \<and> rq_echo_body q = rq_echo_body req \<and> rq_eof_received q = rq_eof_received req
    \<and> rq_return_code q = (if ec = EC_204 \<and> sv_allow204_as_200 sv then EC_200 else ec)"
  using assms by (cases w) (auto simp: ec_responce_def Let_def c_bind_eq_Ret)

lemma respond_frame:
  assumes "respond P ec c = Some (Ret (c', n))"
  shows "rq_keepalive (cn_req c') = rq_keepalive (cn_req c) \<and> rq_hasbody (cn_req c') = rq_hasbody (cn_req c)
    \<and> rq_pstr_len (cn_req c') = rq_pstr_len (cn_req c) \<and> rq_eof_received (cn_req c') = rq_eof_received (cn_req c)
    \<and> rq_return_code (cn_req c') = (if ec = EC_204 \<and> sv_allow204_as_200 (pe_server P) then EC_200 else ec)
    \<and> cn_io c' = cn_io c"
  using assms by (auto simp: respond_def co_bind_eq_Ret dest!: ec_responce_frame)

lemma no_keepalive_simps [simp]:
  "rq_keepalive (cn_req (no_keepalive c)) = False" "rq_return_code (cn_req (set_code ec c)) = ec"
  "rq_keepalive (cn_req (set_code ec c)) = rq_keepalive (cn_req c)"
  by (simp_all add: no_keepalive_def set_req_def set_code_def)

lemma fail_with_closes: "fail_with P ec c = Some (Ret (c', st)) \<Longrightarrow> st = CI_ERROR \<and> \<not> rq_keepalive (cn_req c')"
  by (auto simp: fail_with_def co_bind_eq_Ret dest!: respond_frame)

text \<open>A written response without extra headers: the status line, the lines of the server and the tag of the service.\<close>

lemma ec_responce_wire:
  assumes h: "length (hl_buf (rq_response_header req)) = hl_bufsize (rq_response_header req)"
      "2 \<le> hl_bufsize (rq_response_header req)"
    and x: "hl_used (rq_xheaders req) = 0" "ec \<noteq> EC_204 \<or> \<not> sv_allow204_as_200 sv"
    and ls: "ls = common_lines sv (take 255 (status_line ec)) (rq_keepalive req)
        @ (case req_xdata req of None \<Rightarrow> [] | Some x \<Rightarrow> [sx_ISTag x])" "\<forall>l \<in> set ls. NUL \<notin> set l"
  shows "\<exists>q n. ec_responce g (\<lambda>_. True) sv W_ok req ec = Ret (q, hwire ls @ CRLF, n) \<and> 0 \<le> n"
proof -
  have "ls \<noteq> []" by (simp add: ls(1) common_lines_def)
  with hdr.build_and_pack [OF ci_headers_reset_rep [OF h] ls(2), of g] obtain h' h''
    where p: "add_lines (add_line g (\<lambda>_. True)) (ci_headers_reset (rq_response_header req)) ls = Ret h'"
      "ci_headers_pack h' = Ret h''" "wire_bytes h'' = hwire ls @ CRLF"
    by auto
  have no: "(ec = EC_204 \<and> sv_allow204_as_200 sv) = False" using x(2) by auto
  show ?thesis
    unfolding ec_responce_def no Let_def if_False ls(1) [symmetric] using p x(1) by (simp add: add_xheaders_def)
qed

section \<open>Status codes after the preview\<close>

definition go_on_codes :: "int set" where
  "go_on_codes = {EC_100, EC_200, EC_204, EC_206}"

lemma preview_loop_status:
  assumes "preview_loop es req = Some res"
  shows "case res of Ret ((q, st), es') \<Rightarrow> st = CI_ERROR \<or> st = CI_EOF \<or> st = CI_OK | _ \<Rightarrow> True"
proof (rule preview_loop.raw_induct [OF _ assms])
  fix loop :: "net_in list \<Rightarrow> 'a ci_req_in_scheme \<Rightarrow> (('a ci_req_in_scheme \<times> int) \<times> net_in list) c_result option"
    and es r y
  assume IH: "\<And>es r y. loop es r = Some y \<Longrightarrow>
      (case y of Ret ((q, st), es') \<Rightarrow> st = CI_ERROR \<or> st = CI_EOF \<or> st = CI_OK | _ \<Rightarrow> True)"
    and y: "(case parse_chunk_data r of None \<Rightarrow> None | Some (Ret (q, ret, wd)) \<Rightarrow>
          if ret = CI_ERROR then Some (Ret ((q, CI_ERROR), es))
          else if length (handed q wd) \<noteq> unat (rq_pending q) then Some Undef
          else (case ci_buf_write (rq_preview_data q) (handed q wd) of
                Ret (b, n) \<Rightarrow>
                    if n < 0 then Some (Ret ((q, CI_ERROR), es))
                    else if ret = CI_EOF then
                      Some (Ret ((q\<lparr>rq_preview_data := b, rq_pending := 0, rq_pstr := P_null, rq_pstr_len := 0\<rparr>,
                                  if rq_eof_received q then CI_EOF else CI_OK), es))
                    else if ret \<noteq> CI_NEEDS_MORE then
                      loop es (q\<lparr>rq_preview_data := b, rq_pending := 0\<rparr>)
                    else (case recv es (q\<lparr>rq_preview_data := b, rq_pending := 0\<rparr>) of
                            ((q2, st), es2) \<Rightarrow>
                              if st = CI_ERROR then Some (Ret ((q2, CI_ERROR), es2))
                              else loop es2 q2)
                | Abort \<Rightarrow> Some Abort | Undef \<Rightarrow> Some Undef)
        | Some Abort \<Rightarrow> Some Abort | Some Undef \<Rightarrow> Some Undef) = Some y"
  show "case y of Ret ((q, st), es') \<Rightarrow> st = CI_ERROR \<or> st = CI_EOF \<or> st = CI_OK | _ \<Rightarrow> True"
    using y by (auto split: option.splits c_result.splits prod.splits if_splits dest!: IH)
qed

lemma preview_read_status:
  assumes "preview_read c = Some (Ret (c', st))"
  shows "st = CI_ERROR \<or> st = CI_EOF \<or> st = CI_OK"
proof -
  have "st = CI_ERROR \<or> st = CI_EOF \<or> st = CI_OK"
    if "read_preview_data es req = Some (Ret ((q, st), es'))" for es es' and req q :: ci_request
    using that preview_loop_status
    by (auto simp: read_preview_data_def Let_def split: if_splits prod.splits dest!: preview_loop_status)
  then show ?thesis using assms by (auto simp: preview_read_def co_bind_eq_Ret split: if_splits)
qed

lemma preview_codes:
  assumes "do_request_preview P so c = Some (Ret (c', st))"
  shows "st = CI_ERROR \<and> \<not> rq_keepalive (cn_req c') \<or> st = CI_EOF \<or> st = CI_OK \<and> rq_return_code (cn_req c') \<in> go_on_codes"
proof -
  obtain c1 status where p: "preview_read c = Some (Ret (c1, status))"
      "(if status = CI_ERROR then fail_with P EC_408 c1
       else co_bind (call_preview so (Some (cb_contents (rq_preview_data (cn_req c1)))) c1) (\<lambda>(c2, res).
         if res = CI_MOD_ALLOW204 then respond_204 P (\<lambda>c3. Some (Ret (c3, CI_OK))) c2
         else if res = CI_MOD_ALLOW206 \<and> rq_allow206 (cn_req c2) then Some (Ret (set_code EC_206 c2, CI_OK))
         else if res \<noteq> CI_MOD_CONTINUE then fail_with P EC_500 c2
         else Some (Ret (if status \<noteq> CI_EOF then respond_simple EC_100 c2 else c2, status)))) = Some (Ret (c', st))"
    using assms unfolding do_request_preview_def co_bind_eq_Ret by auto
  have s: "rq_return_code (cn_req (respond_simple EC_100 c)) = EC_100" for c :: "'a conn"
    by (simp add: respond_simple_def ec_responce_simple_def Let_def)
  show ?thesis
  proof (cases "status = CI_ERROR")
    case True
    then show ?thesis using p(2) fail_with_closes [of P EC_408 c1 c' st] by simp
  next
    case False
    then obtain c2 res where r: "(if res = CI_MOD_ALLOW204 then respond_204 P (\<lambda>c3. Some (Ret (c3, CI_OK))) c2
         else if res = CI_MOD_ALLOW206 \<and> rq_allow206 (cn_req c2) then Some (Ret (set_code EC_206 c2, CI_OK))
         else if res \<noteq> CI_MOD_CONTINUE then fail_with P EC_500 c2
         else Some (Ret (if status \<noteq> CI_EOF then respond_simple EC_100 c2 else c2, status))) = Some (Ret (c', st))"
      using p(2) by (auto simp: co_bind_eq_Ret)
    show ?thesis
    proof (cases "res = CI_MOD_ALLOW204")
      case True
      then obtain c3 n where n: "respond P EC_204 c2 = Some (Ret (c3, n))"
          "(if n < 0 then Some (Ret (no_keepalive c3, CI_ERROR)) else Some (Ret (c3, CI_OK))) = Some (Ret (c', st))"
        using r by (auto simp: respond_204_def co_bind_eq_Ret)
      then show ?thesis using respond_frame [OF n(1)] by (auto simp: go_on_codes_def split: if_splits)
    next
      case no204: False
      show ?thesis
      proof (cases "res = CI_MOD_ALLOW206 \<and> rq_allow206 (cn_req c2) \<or> res = CI_MOD_CONTINUE")
        case True
        then show ?thesis
          using r no204 False preview_read_status [OF p(1)] s [of c2] by (auto simp: go_on_codes_def split: if_splits)
      next
        case False
        then show ?thesis using r no204 fail_with_closes [of P EC_500 c2 c' st] by auto
      qed
    qed
  qed
qed

text \<open>
  Outside a preview there is one path to an error that leaves the connection flag alone: \<^verbatim>\<open>204\<close> was
  answered and reading the rest of the body failed.
\<close>

definition discard_failed :: "'s process_env \<Rightarrow> 's service_ops \<Rightarrow> 's conn \<Rightarrow> 's conn \<Rightarrow> bool" where
  "discard_failed P so c c' \<longleftrightarrow> rq_preview (cn_req c) < 0
     \<and> (\<exists>c1 c2 n. call_preview so None c = Some (Ret (c1, CI_MOD_ALLOW204)) \<and> rq_allow204 (cn_req c1)
          \<and> respond P EC_204 c1 = Some (Ret (c2, n)) \<and> 0 \<le> n \<and> rq_hasbody (cn_req c2)
          \<and> transfer_body P so True c2 = Some (Ret (c', CI_ERROR)))"

lemma continue_codes [simp]: "rq_return_code (cn_req (continue_code c)) \<in> go_on_codes"
  by (simp add: continue_code_def go_on_codes_def)

lemma set_code_codes [simp]: "ec \<in> go_on_codes \<Longrightarrow> rq_return_code (cn_req (set_code ec c)) \<in> go_on_codes"
  by simp

lemma fake_preview_codes:
  assumes "do_fake_preview P so c = Some (Ret (c', st))" "rq_preview (cn_req c) < 0"
  shows "st = CI_ERROR \<and> (\<not> rq_keepalive (cn_req c') \<or> discard_failed P so c c')
    \<or> st = CI_OK \<and> rq_return_code (cn_req c') \<in> go_on_codes"
proof (cases "so_preview so = None")
  case True
  then show ?thesis using assms(1) by (auto simp: do_fake_preview_def)
next
  case False
  have codes: "EC_100 \<in> go_on_codes" "EC_200 \<in> go_on_codes" "EC_204 \<in> go_on_codes" "EC_206 \<in> go_on_codes"
    by (simp_all add: go_on_codes_def)
  obtain c1 res where p: "call_preview so None c = Some (Ret (c1, res))"
    and r: "(let req = cn_req c1 in
        if res = CI_MOD_ALLOW204 \<and> rq_allow204 req then
          respond_204 P (\<lambda>c2.
            if rq_hasbody (cn_req c2) then
              co_bind (transfer_body P so True c2) (\<lambda>(c3, ret).
                if ret = CI_ERROR then Some (Ret (c3, ret)) else Some (Ret (set_code EC_204 c3, CI_OK)))
            else Some (Ret (set_code EC_204 c2, CI_OK))) c1
        else if res = CI_MOD_ALLOW204 \<and> rq_hasbody req \<and> sv_fake_allow204 (pe_server P) then
          Some (Ret (set_code EC_100 (set_req (\<lambda>r. r\<lparr>rq_echo_body := ci_ring_buf_new (pe_ring P) (pe_fresh P) 32768\<rparr>) c1), CI_OK))
        else if res = CI_MOD_ALLOW204 \<and> \<not> rq_hasbody req then Some (Ret (set_code EC_200 c1, CI_OK))
        else if res = CI_MOD_ALLOW206 \<and> rq_allow204 req \<and> rq_allow206 req then Some (Ret (set_code EC_206 c1, CI_OK))
        else if res = CI_MOD_CONTINUE then Some (Ret (continue_code c1, CI_OK))
        else fail_with P EC_500 c1) = Some (Ret (c', st))"
    using assms(1) False unfolding do_fake_preview_def by (auto simp: co_bind_eq_Ret)
  show ?thesis
  proof (cases "res = CI_MOD_ALLOW204 \<and> rq_allow204 (cn_req c1)")
    case True
    then obtain c2 n where n: "respond P EC_204 c1 = Some (Ret (c2, n))"
        "(if n < 0 then Some (Ret (no_keepalive c2, CI_ERROR))
          else if rq_hasbody (cn_req c2) then
              co_bind (transfer_body P so True c2) (\<lambda>(c3, ret).
                if ret = CI_ERROR then Some (Ret (c3, ret)) else Some (Ret (set_code EC_204 c3, CI_OK)))
            else Some (Ret (set_code EC_204 c2, CI_OK))) = Some (Ret (c', st))"
      using r by (auto simp: respond_204_def co_bind_eq_Ret Let_def)
    have "discard_failed P so c c'" if "transfer_body P so True c2 = Some (Ret (c', CI_ERROR))" "0 \<le> n" "rq_hasbody (cn_req c2)"
      unfolding discard_failed_def using that p True n(1) assms(2) by blast
    then show ?thesis using n(2) codes by (auto simp: co_bind_eq_Ret split: if_splits)
  next
    case False
    then show ?thesis
      using r codes fail_with_closes [of P EC_500 c1 c' st] by (auto simp: Let_def split: if_splits)
  qed
qed

section \<open>After an error\<close>

lemma finish_closes:
  assumes "finish_modification P so c = Some (Ret (c', CI_ERROR))"
  shows "\<not> rq_keepalive (cn_req c')"
  using assms
  by (auto simp: finish_modification_def send_rest_def Let_def co_bind_eq_Ret split: if_splits
      dest: arg_cong [of _ _ "\<lambda>c. rq_keepalive (cn_req c)"])

lemma modification_closes:
  assumes "do_modification P so c = Some (Ret (c', CI_ERROR))"
  shows "\<not> rq_keepalive (cn_req c') \<or> discard_failed P so c c'"
proof -
  obtain c1 ps where p: "(if 0 \<le> rq_preview (cn_req c) then do_request_preview P so c else do_fake_preview P so c)
      = Some (Ret (c1, ps))"
    and r: "(if ps = CI_ERROR then Some (Ret (c1, CI_ERROR))
       else let c2 = (if ps = CI_EOF then set_code EC_200 c1 else c1); rc = rq_return_code (cn_req c2) in
         if rc = EC_204 then Some (Ret (c2, CI_OK))
         else if rc \<noteq> EC_100 \<and> rc \<noteq> EC_200 \<and> rc \<noteq> EC_206 then
           co_bind (respond P EC_500 c2) (\<lambda>(c3, _). Some (Ret (c3, CI_ERROR)))
         else if rc = EC_100 \<and> rq_hasbody (cn_req c2) \<and> ps \<noteq> CI_EOF then
           co_bind (transfer_body P so False (set_code EC_200 c2)) (\<lambda>(c3, ret).
             if ret = CI_ERROR then Some (Ret (no_keepalive c3, ret)) else finish_modification P so c3)
         else finish_modification P so c2) = Some (Ret (c', CI_ERROR))"
    using assms unfolding do_modification_def co_bind_eq_Ret by auto
  have codes: "ps = CI_ERROR \<and> (\<not> rq_keepalive (cn_req c1) \<or> discard_failed P so c c1)
      \<or> ps = CI_EOF \<or> ps = CI_OK \<and> rq_return_code (cn_req c1) \<in> go_on_codes"
    using p preview_codes [of P so c c1 ps] fake_preview_codes [of P so c c1 ps] by (auto split: if_splits)
  show ?thesis
  proof (cases "ps = CI_ERROR")
    case True
    then show ?thesis using codes r by (auto simp: ci_consts)
  next
    case False
    define c2 where "c2 = (if ps = CI_EOF then set_code EC_200 c1 else c1)"
    have "rq_return_code (cn_req c2) \<in> go_on_codes"
      using codes False by (auto simp: c2_def go_on_codes_def)
    then have "(if rq_return_code (cn_req c2) = EC_204 then Some (Ret (c2, CI_OK))
         else if rq_return_code (cn_req c2) = EC_100 \<and> rq_hasbody (cn_req c2) \<and> ps \<noteq> CI_EOF then
           co_bind (transfer_body P so False (set_code EC_200 c2)) (\<lambda>(c3, ret).
             if ret = CI_ERROR then Some (Ret (no_keepalive c3, ret)) else finish_modification P so c3)
         else finish_modification P so c2) = Some (Ret (c', CI_ERROR))"
      using r False unfolding c2_def [symmetric] Let_def go_on_codes_def by (auto split: if_splits)
    then show ?thesis
      using finish_closes [of P so] by (auto simp: co_bind_eq_Ret CI_OK_def CI_ERROR_def split: if_splits)
  qed
qed

text \<open>
  C33.  When \<^verbatim>\<open>do_request\<close> fails, whatever the reason (a bad or incomplete header, an unknown service,
  denied access, an error of a handler, a client that goes away) the flag that keeps the connection
  alive is cleared, so that the rest of the request cannot be taken for the next one; the only
  exception is a request answered with \<^verbatim>\<open>204\<close> outside a preview whose body cannot be read.  For
  any service and any behaviour of the connection.
\<close>

theorem do_request_error_closes:
  assumes "do_request P c = Some (Ret (c', CI_ERROR))"
  shows "\<not> rq_keepalive (cn_req c')
    \<or> (\<exists>m c1 c2. discard_failed P (pe_ops P m) (init_service (pe_ops P m) c1) c2 \<and> cn_req c' = cn_req c2)"
proof -
  obtain c1 res where p: "parse_conn P c = Some (Ret (c1, res))"
    and r: "(if res \<noteq> EC_100 then parse_failed P res c1
       else case rq_service_mod (cn_req c1) of
              None \<Rightarrow> Some Abort
            | Some m \<Rightarrow>
                if \<not> service_ready m then fail_with P EC_500 c1
                else (case access_check_request (pe_access P) (cn_req c1) of
                        (req, auth) \<Rightarrow>
                          let c2 = c1\<lparr>cn_req := req\<rparr> in
                          if auth = CI_ACCESS_DENY then fail_with P (if rq_auth_required req then EC_407 else EC_403) c2
                          else co_bind (parse_encaps_conn P c2) (\<lambda>(c3, res2).
                            if res2 \<noteq> EC_100 then fail_with P EC_400 c3
                            else run_service P (pe_ops P m) c3))) = Some (Ret (c', CI_ERROR))"
    using assms unfolding do_request_def co_bind_eq_Ret by auto
  have failed: "\<not> rq_keepalive (cn_req c')" if "parse_failed P res c1 = Some (Ret (c', CI_ERROR))"
    using that by (auto simp: parse_failed_def Let_def co_bind_eq_Ret split: if_splits dest!: respond_frame)
  have run: ?thesis if ok: "run_service P (pe_ops P m) c3 = Some (Ret (c', CI_ERROR))" for m c3
  proof -
    let ?so = "pe_ops P m"
    obtain c4 where d: "do_method P ?so (init_service ?so c3) = Some (Ret (c4, CI_ERROR))" "release_service ?so c4 = Ret c'"
      using ok by (auto simp: run_service_def co_bind_eq_Ret)
    have "cn_req c' = cn_req c4" using d(2) by (auto simp: release_service_def c_bind_eq_Ret split: option.splits if_splits)
    moreover have "\<not> rq_keepalive (cn_req c4) \<or> discard_failed P ?so (init_service ?so c3) c4"
      using d(1) modification_closes [of P ?so "init_service ?so c3" c4]
      by (auto simp: do_method_def Let_def co_bind_eq_Ret CI_OK_def CI_ERROR_def split: if_splits)
    ultimately show ?thesis by metis
  qed
  show ?thesis
  proof (cases "res = EC_100")
    case True
    then obtain m where m: "rq_service_mod (cn_req c1) = Some m" using r by (auto split: option.splits)
    obtain req auth where a: "access_check_request (pe_access P) (cn_req c1) = (req, auth)" by fastforce
    show ?thesis
      using r True m a run fail_with_closes
      by (auto simp: Let_def co_bind_eq_Ret split: if_splits) blast+
  qed (use r failed in auto)
qed


text \<open>A connection on which nothing arrives any more.\<close>

definition demo_env :: "unit process_env" where
  "demo_env = \<lparr>pe_fresh = (\<lambda>_. NUL), pe_realloc = (\<lambda>_. True), pe_realloc_int = (\<lambda>_. True), pe_ring = (\<lambda>_. True),
     pe_server = demo_server, pe_ops = (\<lambda>_. no_service), pe_access = None, pe_date = []\<rparr>"

definition silent :: "ci_request \<Rightarrow> unit conn" where
  "silent req = \<lparr>cn_req = req, cn_srv = (), cn_out = [], cn_in = [], cn_writes = [W_ok], cn_io = [], cn_takes = []\<rparr>"

lemma new_request_idle: "rq_pstr new_request = P_null" "rq_pstr_len new_request = 0" "rq_keepalive new_request"
  by (simp_all add: new_request_def ci_request_alloc_def ci_headers_create_def)

lemma silent_parse:
  "\<exists>q. parse_conn demo_env (silent new_request) = Some (Ret ((silent new_request)\<lparr>cn_req := q\<rparr>, EC_408))
     \<and> hl_bufused (rq_request_header q) = 0"
proof -
  have l: "header_read_loop g ra [] st = Ret (False, st, EC_408, [])" for g ra st
    by (subst header_read_loop.simps) simp
  show ?thesis
    using new_request_idle new_request_facts(2)
    by (simp add: hdr_rep_def parse_conn_def parse_header_def ci_read_icap_header_def l finish_icap_header_def demo_env_def silent_def
        ci_consts Let_def)
qed

theorem do_request_error_closes_witness:
  "\<exists>c'. do_request demo_env (silent new_request) = Some (Ret (c', CI_ERROR))
    \<and> (\<not> rq_keepalive (cn_req c')
       \<or> (\<exists>m c1 c2. discard_failed demo_env (pe_ops demo_env m) (init_service (pe_ops demo_env m) c1) c2 \<and> cn_req c' = cn_req c2))"
proof -
  obtain q where "parse_conn demo_env (silent new_request) = Some (Ret ((silent new_request)\<lparr>cn_req := q\<rparr>, EC_408))"
      "hl_bufused (rq_request_header q) = 0"
    using silent_parse by blast
  then have "\<exists>c'. do_request demo_env (silent new_request) = Some (Ret (c', CI_ERROR))"
    by (simp add: do_request_def parse_failed_def Let_def no_keepalive_def set_code_def set_req_def EC_408_def EC_100_def)
  then show ?thesis using do_request_error_closes by blast
qed

text \<open>
  The exception of C33 is real: a client sends a request with a body, allows \<^verbatim>\<open>204\<close> and
  asks for no preview; the service has nothing to change; the \<^verbatim>\<open>204\<close> is written; then the body does not
  arrive in time.  \<^verbatim>\<open>do_fake_preview\<close> returns \<^verbatim>\<open>CI_ERROR\<close> with the flag that keeps the connection alive
  as the client set it, so body bytes that arrive later are read as the next request (a defect of the code;
  the other error returns of the function clear the flag).
\<close>

theorem do_fake_preview_discard_keeps_alive:
  assumes call: "so_preview so \<noteq> None" "call_preview so None c = Some (Ret (c1, CI_MOD_ALLOW204))"
      "rq_allow204 (cn_req c1)" "rq_hasbody (cn_req c1)"
    and written: "respond P EC_204 c1 = Some (Ret (c2, n))" "0 \<le> n"
    and late: "rq_pstr_len (cn_req c1) = 0" "\<not> rq_eof_received (cn_req c1)" "cn_io c1 = []"
  shows "\<exists>c'. do_fake_preview P so c = Some (Ret (c', CI_ERROR))
    \<and> rq_keepalive (cn_req c') = rq_keepalive (cn_req c1) \<and> cn_out c' = cn_out c2"
proof -
  note f = respond_frame [OF written(1)]
  let ?c' = "c2\<lparr>cn_req := (cn_req c2)\<lparr>rq_status := SEND_NOTHING\<rparr>\<rparr>"
  have "gsb_loop (pe_fresh P) (pe_realloc P) (pe_server P) mod_null_io True False [] (gsb_init (cn_req c2, cn_srv c2))
      = Some (Ret (((cn_req c2)\<lparr>rq_status := SEND_NOTHING\<rparr>, cn_srv c2), [], CI_ERROR, []))"
    using f late by (subst gsb_loop.simps) (simp add: gsb_finish_def gsb_init_def)
  then have "transfer_body P so True c2 = Some (Ret (?c', CI_ERROR))"
    using f late by (simp add: transfer_body_def get_send_body_def pick_body_io_def)
  then have "do_fake_preview P so c = Some (Ret (?c', CI_ERROR))"
    using call written f by (auto simp: do_fake_preview_def respond_204_def)
  then show ?thesis using f by simp
qed

text \<open>A service that never changes anything and a request that allows \<^verbatim>\<open>204\<close>.\<close>

definition never_changes :: "unit service_ops" where
  "never_changes = no_service\<lparr>so_preview := Some (\<lambda>_ rs. Some (Ret (rs, CI_MOD_ALLOW204)))\<rparr>"

definition allowing_request :: ci_request where
  "allowing_request = new_request\<lparr>rq_allow204 := True, rq_hasbody := True\<rparr>"

theorem do_fake_preview_discard_keeps_alive_witness:
  "\<exists>c' c2 n. respond demo_env EC_204 (silent allowing_request) = Some (Ret (c2, n)) \<and> 0 \<le> n
    \<and> do_fake_preview demo_env never_changes (silent allowing_request) = Some (Ret (c', CI_ERROR))
    \<and> rq_keepalive (cn_req c') \<and> cn_out c' = cn_out c2"
proof -
  have "\<exists>c2 n. respond demo_env EC_204 (silent allowing_request) = Some (Ret (c2, n)) \<and> 0 \<le> n"
  proof -
    let ?ls = "common_lines demo_server (take 255 (status_line EC_204)) True"
    have "hl_used (rq_xheaders new_request) = 0" "req_xdata new_request = None"
        "length (hl_buf (rq_response_header new_request)) = hl_bufsize (rq_response_header new_request)"
        "2 \<le> hl_bufsize (rq_response_header new_request)"
      by (simp_all add: new_request_def ci_request_alloc_def ci_headers_create_def fresh_mem_def req_xdata_def HEADSBUFSIZE_def)
    moreover have "\<forall>l \<in> set ?ls. NUL \<notin> set l" by code_simp
    ultimately have "\<exists>q n. ec_responce (\<lambda>_. NUL) (\<lambda>_. True) demo_server W_ok allowing_request EC_204 = Ret (q, hwire ?ls @ CRLF, n) \<and> 0 \<le> n"
      by (intro ec_responce_wire) (simp_all add: allowing_request_def new_request_idle req_xdata_def demo_server_def)
    then show ?thesis by (auto simp: respond_def demo_env_def silent_def next_write_def)
  qed
  then obtain c2 n where r: "respond demo_env EC_204 (silent allowing_request) = Some (Ret (c2, n))" "0 \<le> n" by blast
  have k: "rq_keepalive (cn_req (silent allowing_request))" using new_request_idle by (simp add: silent_def allowing_request_def)
  have "\<exists>c'. do_fake_preview demo_env never_changes (silent allowing_request) = Some (Ret (c', CI_ERROR))
    \<and> rq_keepalive (cn_req c') = rq_keepalive (cn_req (silent allowing_request)) \<and> cn_out c' = cn_out c2"
    by (rule do_fake_preview_discard_keeps_alive [OF _ _ _ _ r])
      (simp_all add: never_changes_def call_preview_def silent_def allowing_request_def no_service_def new_request_idle
         new_request_def ci_request_alloc_def ci_headers_create_def)
  then show ?thesis using r k by blast
qed

end
