(* ===== verification/Gw_Rebuild.thy ===== *)
theory Gw_Rebuild
  imports Process Simple_File Simple_Api
begin

text \<open>
  The content rebuild service: \<^verbatim>\<open>gw_body.c\<close> and \<^verbatim>\<open>gw_rebuild.c\<close> of \<^verbatim>\<open>c-icap-modules/services/gw_rebuild\<close>.
  It collects the body of a message in a file, runs an external program on the file, and answers with
  what the program wrote, with the message as it was, or with an error page.

  The files of the service are objects that are created, shared and destroyed, so the state has a map
  from the addresses of the live \<^verbatim>\<open>ci_simple_file_t\<close> objects to their values; using or destroying an
  address that is not live is undefined.  The operating system, the external program and the template of
  the error page are an environment of functions; every call that depends on them also gets the number
  of calls made before it, so that they may answer differently each time.
\<close>

section \<open>State and environment\<close>

text \<open>\<^verbatim>\<open>gw_body_data_t\<close>: the files are addresses, \<open>None\<close> for a null pointer.\<close>

record gw_body_data =
  gb_store :: "nat option"
  gb_rebuild :: "nat option"
  gb_buf_exceed :: int
  gb_decoded :: "nat option"

record gw_args =
  ga_enable204 :: bool
  ga_sizelimit :: bool
  ga_mode :: int

record gw_rebuild_req_data =
  gd_body :: gw_body_data
  gd_allow204 :: bool
  gd_gw_status :: int
  gd_gw_processing :: int
  gd_error_page :: "ci_membuf option"
  gd_url_log :: bytes
  gd_expected_size :: int
  gd_args :: gw_args
  gd_max_object_size :: int

record gw_world =
  gw_calls :: nat
  gw_files :: "nat \<rightharpoonup> ci_simple_file"
  gw_stats :: "stat_memblock option"
  gw_data :: "gw_rebuild_req_data option"

text \<open>
  What \<^verbatim>\<open>waitpid\<close> reports of the program: still running, its exit code, the end by a signal, or an error
  of the call itself.
\<close>

datatype wait_ev = Wait_running | Wait_exited int | Wait_signaled | Wait_error

record gw_stat_ids =
  GW_SCAN_REQS :: int
  GW_SCAN_BYTES :: int
  GW_REBUILD_FAILURES :: int
  GW_REBUILD_ERRORS :: int
  GW_REBUILD_SUCCESSES :: int
  GW_NOT_PROCESSED :: int
  GW_UNPROCESSABLE :: int

record gw_env =
  ge_fresh :: "nat \<Rightarrow> char"
  ge_realloc :: "nat \<Rightarrow> bool"
  ge_pool :: "nat \<Rightarrow> bool"
  ge_tmp :: "nat \<Rightarrow> (int \<times> string) option"
  ge_write :: "nat \<Rightarrow> nat option"
  ge_read :: "nat \<Rightarrow> nat option"
  ge_stat :: "nat \<Rightarrow> bool"
  ge_proxy :: "nat \<Rightarrow> bytes \<Rightarrow> bytes \<Rightarrow> bytes \<times> wait_ev list"
  ge_page :: "ci_request \<Rightarrow> gw_rebuild_req_data \<Rightarrow> ci_membuf option"
  ALLOW204 :: bool
  MAX_OBJECT_SIZE :: int
  DATA_CLEANUP :: bool
  ge_ids :: gw_stat_ids

definition GW_UNPROCESSED :: int where "GW_UNPROCESSED = 0"
definition GW_REBUILT :: int where "GW_REBUILT = 1"
definition GW_FAILED :: int where "GW_FAILED = 2"
definition GW_ERROR :: int where "GW_ERROR = 9"
definition GW_STATUS_UNDEFINED :: int where "GW_STATUS_UNDEFINED = 99"
definition GW_PROCESSING_UNDEFINED :: int where "GW_PROCESSING_UNDEFINED = -1"
definition GW_PROCESSING_NONE :: int where "GW_PROCESSING_NONE = 0"
definition LOG_URL_SIZE :: int where "LOG_URL_SIZE = 256"

declare GW_UNPROCESSED_def [ci_consts] GW_REBUILT_def [ci_consts] GW_FAILED_def [ci_consts] GW_ERROR_def [ci_consts]

section \<open>Files\<close>

definition tick :: "gw_world \<Rightarrow> gw_world" where
  "tick w = w\<lparr>gw_calls := Suc (gw_calls w)\<rparr>"

definition put_file :: "nat \<Rightarrow> ci_simple_file \<Rightarrow> gw_world \<Rightarrow> gw_world" where
  "put_file h f w = w\<lparr>gw_files := (gw_files w)(h \<mapsto> f)\<rparr>"

definition file_at :: "gw_world \<Rightarrow> nat option \<Rightarrow> (nat \<times> ci_simple_file) c_result" where
  "file_at w p =
     (case p of
        None \<Rightarrow> Undef
      | Some h \<Rightarrow> (case gw_files w h of None \<Rightarrow> Undef | Some f \<Rightarrow> Ret (h, f)))"

text \<open>A new object gets the number of the call as its address.\<close>

definition new_file :: "gw_env \<Rightarrow> gw_world \<Rightarrow> int \<Rightarrow> gw_world \<times> nat option" where
  "new_file E w maxsize =
     (case ci_simple_file_new (ge_pool E (gw_calls w)) (ge_tmp E (gw_calls w)) maxsize of
        None \<Rightarrow> (tick w, None)
      | Some f \<Rightarrow> (tick (put_file (gw_calls w) f w), Some (gw_calls w)))"

text \<open>\<^verbatim>\<open>ci_simple_file_destroy\<close> and \<^verbatim>\<open>ci_simple_file_release\<close>: the object is gone; a null pointer is allowed.\<close>

definition free_file :: "gw_world \<Rightarrow> nat option \<Rightarrow> gw_world c_result" where
  "free_file w p =
     (case p of
        None \<Rightarrow> Ret w
      | Some h \<Rightarrow>
          (case gw_files w h of
             None \<Rightarrow> Undef
           | Some f \<Rightarrow> Ret (w\<lparr>gw_files := (gw_files w)(h := None)\<rparr>)))"

text \<open>The size is an \<^verbatim>\<open>int\<close> parameter.\<close>

definition gw_body_data_new :: "gw_env \<Rightarrow> gw_world \<Rightarrow> gw_body_data \<Rightarrow> int \<Rightarrow> gw_world \<times> gw_body_data" where
  "gw_body_data_new E w bd sz =
     (let (w1, s) = new_file E w (int32 sz); (w2, r) = new_file E w1 0
      in (w2, bd\<lparr>gb_store := s, gb_rebuild := r, gb_buf_exceed := 0, gb_decoded := None\<rparr>))"

definition gw_body_data_named ::
  "gw_env \<Rightarrow> (string \<Rightarrow> int) \<Rightarrow> gw_world \<Rightarrow> gw_body_data \<Rightarrow> string \<Rightarrow> string option \<Rightarrow> gw_world \<times> gw_body_data" where
  "gw_body_data_named E opn w bd dir name =
     (case ci_simple_file_named_new (ge_pool E (gw_calls w)) opn (ge_tmp E (gw_calls w)) dir name 0 of
        None \<Rightarrow> (tick w, bd\<lparr>gb_store := None, gb_buf_exceed := 0\<rparr>)
      | Some f \<Rightarrow> (tick (put_file (gw_calls w) f w), bd\<lparr>gb_store := Some (gw_calls w), gb_buf_exceed := 0\<rparr>))"

definition gw_body_data_destroy :: "gw_world \<Rightarrow> gw_body_data \<Rightarrow> (gw_world \<times> gw_body_data) c_result" where
  "gw_body_data_destroy w bd =
     c_bind (free_file w (gb_store bd)) (\<lambda>w1.
     c_bind (free_file w1 (gb_decoded bd)) (\<lambda>w2.
     c_bind (free_file w2 (gb_rebuild bd)) (\<lambda>w3.
       Ret (w3, bd\<lparr>gb_store := None, gb_decoded := None, gb_rebuild := None\<rparr>))))"

definition gw_body_data_release :: "gw_world \<Rightarrow> gw_body_data \<Rightarrow> (gw_world \<times> gw_body_data) c_result" where
  "gw_body_data_release w bd =
     c_bind (free_file w (gb_store bd)) (\<lambda>w1.
     c_bind (free_file w1 (gb_rebuild bd)) (\<lambda>w2.
     c_bind (free_file w2 (gb_decoded bd)) (\<lambda>w3.
       Ret (w3, bd\<lparr>gb_store := None, gb_decoded := None\<rparr>))))"

definition gw_body_data_write ::
  "gw_env \<Rightarrow> gw_world \<Rightarrow> gw_body_data \<Rightarrow> bytes \<Rightarrow> bool \<Rightarrow> (gw_world \<times> int) c_result" where
  "gw_body_data_write E w bd data iseof =
     c_bind (file_at w (gb_store bd)) (\<lambda>(h, f).
       case ci_simple_file_write (ge_write E (gw_calls w)) f data iseof of
         (f1, n) \<Rightarrow> Ret (tick (put_file h f1 w), n))"

definition gw_body_data_read ::
  "gw_env \<Rightarrow> gw_world \<Rightarrow> gw_body_data \<Rightarrow> int \<Rightarrow> (gw_world \<times> int \<times> bytes) c_result" where
  "gw_body_data_read E w bd len =
     c_bind (file_at w (gb_store bd)) (\<lambda>(h, f).
     c_bind (ci_simple_file_read (ge_read E (gw_calls w)) f len) (\<lambda>(f1, n, out).
       Ret (tick (put_file h f1 w), n, out)))"

definition gw_body_data_replace_body ::
  "gw_env \<Rightarrow> gw_world \<Rightarrow> gw_body_data \<Rightarrow> bytes \<Rightarrow> (gw_world \<times> gw_body_data) c_result" where
  "gw_body_data_replace_body E w bd data =
     c_bind (gw_body_data_destroy w bd) (\<lambda>(w1, bd1).
       let (w2, bd2) = gw_body_data_new E w1 bd1 (int (length data))
       in c_bind (gw_body_data_write E w2 bd2 data True) (\<lambda>(w3, _). Ret (w3, bd2)))"

definition on_store :: "(ci_simple_file \<Rightarrow> ci_simple_file) \<Rightarrow> gw_world \<Rightarrow> gw_body_data \<Rightarrow> gw_world c_result" where
  "on_store g w bd = c_bind (file_at w (gb_store bd)) (\<lambda>(h, f). Ret (put_file h (g f) w))"

definition gw_body_data_lock_all :: "gw_world \<Rightarrow> gw_body_data \<Rightarrow> gw_world c_result" where
  "gw_body_data_lock_all = on_store ci_simple_file_lock_all"

definition gw_body_data_unlock :: "int \<Rightarrow> gw_world \<Rightarrow> gw_body_data \<Rightarrow> gw_world c_result" where
  "gw_body_data_unlock len = on_store (\<lambda>f. ci_simple_file_unlock f len)"

definition gw_body_data_unlock_all :: "gw_world \<Rightarrow> gw_body_data \<Rightarrow> gw_world c_result" where
  "gw_body_data_unlock_all = on_store ci_simple_file_unlock_all"

definition gw_body_data_size :: "gw_world \<Rightarrow> gw_body_data \<Rightarrow> int c_result" where
  "gw_body_data_size w bd = c_bind (file_at w (gb_store bd)) (\<lambda>(h, f). Ret (sf_endpos f))"

definition gw_body_rebuild_size :: "gw_world \<Rightarrow> gw_body_data \<Rightarrow> int c_result" where
  "gw_body_rebuild_size w bd = c_bind (file_at w (gb_rebuild bd)) (\<lambda>(h, f). Ret (sf_endpos f))"

section \<open>Starting a request\<close>

definition gw_rebuild_parse_args :: "gw_args \<Rightarrow> bytes \<Rightarrow> gw_args" where
  "gw_rebuild_parse_args a args =
     (let a1 = (case find_sub ''allow204='' args of
                  None \<Rightarrow> a
                | Some p \<Rightarrow>
                    if starts_with ''on'' (drop (p + 9) args) then a\<lparr>ga_enable204 := True\<rparr>
                    else if starts_with ''off'' (drop (p + 9) args) then a\<lparr>ga_enable204 := False\<rparr>
                    else a)
      in case find_sub ''sizelimit='' args of
           None \<Rightarrow> a1
         | Some p \<Rightarrow> if starts_with ''off'' (drop (p + 10) args) then a1\<lparr>ga_sizelimit := False\<rparr> else a1)"

text \<open>
  \<^verbatim>\<open>gw_rebuild_init_request_data\<close>.  The fields of the object that are not set here hold what was in
  the memory before; they are set by the preview handler before they are used.
\<close>

definition empty_body :: gw_body_data where
  "empty_body = \<lparr>gb_store = None, gb_rebuild = None, gb_buf_exceed = 0, gb_decoded = None\<rparr>"

definition gw_rebuild_init_request_data ::
  "gw_env \<Rightarrow> ci_request \<times> gw_world \<Rightarrow> (ci_request \<times> gw_world) \<times> bool" where
  "gw_rebuild_init_request_data E rs =
     (case rs of (req, w) \<Rightarrow>
        if rq_hasbody req \<and> ge_pool E (gw_calls w) then
          let a0 = \<lparr>ga_enable204 = ALLOW204 E, ga_sizelimit = True, ga_mode = 0\<rparr>;
              a1 = (if rq_args req \<noteq> [] then gw_rebuild_parse_args a0 (rq_args req) else a0);
              d = \<lparr>gd_body = empty_body, gd_allow204 = (ga_enable204 a1 \<and> rq_allow204 req),
                   gd_gw_status = GW_STATUS_UNDEFINED, gd_gw_processing = GW_PROCESSING_UNDEFINED,
                   gd_error_page = None, gd_url_log = [], gd_expected_size = 0, gd_args = a1, gd_max_object_size = 0\<rparr>
          in ((req, (tick w)\<lparr>gw_data := Some d\<rparr>), True)
        else ((req, w\<lparr>gw_data := None\<rparr>), False))"

definition gw_rebuild_release_request_data :: "gw_env \<Rightarrow> gw_world \<Rightarrow> gw_world c_result" where
  "gw_rebuild_release_request_data E w =
     (case gw_data w of
        None \<Rightarrow> Ret w
      | Some d \<Rightarrow>
          if DATA_CLEANUP E then
            c_bind (gw_body_data_destroy w (gd_body d)) (\<lambda>(w1, _). Ret (w1\<lparr>gw_data := None\<rparr>))
          else Ret (w\<lparr>gw_data := None\<rparr>))"

section \<open>Preview\<close>

definition inc64 :: "gw_env \<Rightarrow> (gw_stat_ids \<Rightarrow> int) \<Rightarrow> gw_world \<Rightarrow> gw_world" where
  "inc64 E sel w = w\<lparr>gw_stats := ci_stat_uint64_inc (gw_stats w) (sel (ge_ids E)) 1\<rparr>"

definition set_body :: "gw_rebuild_req_data \<Rightarrow> gw_body_data \<Rightarrow> gw_world \<Rightarrow> gw_world" where
  "set_body d bd w = w\<lparr>gw_data := Some (d\<lparr>gd_body := bd\<rparr>)\<rparr>"

definition init_body_data :: "gw_env \<Rightarrow> gw_rebuild_req_data \<Rightarrow> gw_world \<Rightarrow> (gw_world \<times> gw_rebuild_req_data) c_result" where
  "init_body_data E d w =
     (let (w1, bd) = gw_body_data_new E w (gd_body d) (if ga_sizelimit (gd_args d) then gd_max_object_size d else 0)
      in c_bind (gw_body_data_lock_all w1 bd) (\<lambda>w2. Ret (set_body d bd w2, d\<lparr>gd_body := bd\<rparr>)))"

definition gw_rebuild_check_preview_handler ::
  "gw_env \<Rightarrow> bytes option \<Rightarrow> ci_request \<times> gw_world \<Rightarrow> ((ci_request \<times> gw_world) \<times> int) c_result" where
  "gw_rebuild_check_preview_handler E data rs =
     (case rs of (req, w) \<Rightarrow>
        case gw_data w of
          None \<Rightarrow> Ret ((req, inc64 E GW_UNPROCESSABLE w), CI_MOD_ALLOW204)
        | Some d \<Rightarrow>
            if \<not> rq_hasbody req then Ret ((req, inc64 E GW_UNPROCESSABLE w), CI_MOD_ALLOW204)
            else
              c_bind (ci_http_content_length req) (\<lambda>len.
              c_bind (ci_http_request_url req LOG_URL_SIZE) (\<lambda>url.
                let d1 = d\<lparr>gd_max_object_size := MAX_OBJECT_SIZE E, gd_expected_size := len,
                           gd_url_log := (case url of None \<Rightarrow> gd_url_log d | Some u \<Rightarrow> u)\<rparr>
                in c_bind (init_body_data E d1 w) (\<lambda>(w1, d2).
                  case data of
                    None \<Rightarrow> Ret ((req, w1), CI_MOD_CONTINUE)
                  | Some p \<Rightarrow>
                      if p = [] then Ret ((req, w1), CI_MOD_CONTINUE)
                      else c_bind (gw_body_data_write E w1 (gd_body d2) p (rq_eof_received req)) (\<lambda>(w2, n).
                        if n = CI_ERROR then Ret ((req, inc64 E GW_REBUILD_ERRORS w2), CI_ERROR)
                        else Ret ((req, w2), CI_MOD_CONTINUE))))))"

section \<open>Body data\<close>

definition gw_rebuild_write_to_net :: "gw_env \<Rightarrow> gw_world \<Rightarrow> int \<Rightarrow> (gw_world \<times> int \<times> bytes) c_result" where
  "gw_rebuild_write_to_net E w len =
     (case gw_data w of
        None \<Rightarrow> Ret (w, CI_ERROR, [])
      | Some d \<Rightarrow> gw_body_data_read E w (gd_body d) len)"

definition gw_rebuild_read_from_net :: "gw_env \<Rightarrow> gw_world \<Rightarrow> bytes \<Rightarrow> bool \<Rightarrow> (gw_world \<times> int) c_result" where
  "gw_rebuild_read_from_net E w data iseof =
     (case gw_data w of
        None \<Rightarrow> Ret (w, CI_ERROR)
      | Some d \<Rightarrow>
          c_bind (if ga_sizelimit (gd_args d) then c_bind (gw_body_data_size w (gd_body d)) (\<lambda>n. Ret (gd_max_object_size d \<le> n))
                  else Ret False) (\<lambda>too_big.
            if too_big then Ret (w, CI_ERROR) else gw_body_data_write E w (gd_body d) data iseof))"

text \<open>
  \<^verbatim>\<open>gw_rebuild_io\<close>: \<open>room\<close> is the buffer for outgoing data, \<open>data\<close> what came in.  The two lengths keep
  their value where the code does not store into them.
\<close>

definition gw_rebuild_io ::
  "gw_env \<Rightarrow> nat option \<Rightarrow> bytes option \<Rightarrow> bool \<Rightarrow> ci_request \<times> gw_world
   \<Rightarrow> ((ci_request \<times> gw_world) \<times> bytes \<times> int \<times> int \<times> int) c_result" where
  "gw_rebuild_io E room data iseof rs =
     (case rs of (req, w) \<Rightarrow>
        c_bind (case data of
                  Some d \<Rightarrow> c_bind (gw_rebuild_read_from_net E w d iseof) (\<lambda>(w1, n). Ret (w1, n, n \<noteq> CI_ERROR))
                | None \<Rightarrow>
                    if iseof then c_bind (gw_rebuild_read_from_net E w [] True) (\<lambda>(w1, n). Ret (w1, 0, n \<noteq> CI_ERROR))
                    else Ret (w, 0, True)) (\<lambda>(w1, rlen, ok).
          if \<not> ok then Ret ((req, w1), [], len_of room, rlen, CI_ERROR)
          else case room of
                 None \<Rightarrow> Ret ((req, w1), [], 0, rlen, CI_OK)
               | Some n \<Rightarrow>
                   c_bind (gw_rebuild_write_to_net E w1 (int n)) (\<lambda>(w2, wlen, out).
                     Ret ((req, w2), out, wlen, rlen, CI_OK))))"

section \<open>The external program\<close>

text \<open>
  The loop of \<^verbatim>\<open>exec_prog\<close>: one look per second.  A program about which nothing more is reported is
  still running.  After an error of \<^verbatim>\<open>waitpid\<close> the code reads a status that was not set.
\<close>

fun exec_wait :: "nat \<Rightarrow> wait_ev list \<Rightarrow> int c_result" where
  "exec_wait timeout [] = Ret GW_ERROR"
| "exec_wait timeout (Wait_running # es) = (case timeout of 0 \<Rightarrow> Ret GW_ERROR | Suc t \<Rightarrow> exec_wait t es)"
| "exec_wait timeout (Wait_exited code # es) = Ret (code mod 256)"
| "exec_wait timeout (Wait_signaled # es) = Ret GW_ERROR"
| "exec_wait timeout (Wait_error # es) = Undef"

definition exec_prog :: "wait_ev list \<Rightarrow> int c_result" where
  "exec_prog es = exec_wait 1000 es"

text \<open>The program gets the names of the two files; it reads the first and writes the second.\<close>

definition call_proxy_application ::
  "gw_env \<Rightarrow> gw_world \<Rightarrow> nat option \<Rightarrow> nat option \<Rightarrow> (gw_world \<times> int) c_result" where
  "call_proxy_application E w input output =
     c_bind (file_at w input) (\<lambda>(h, f).
     c_bind (file_at w output) (\<lambda>(k, f').
       case ge_proxy E (gw_calls w) (sf_file f) (sf_file f') of
         (content, es) \<Rightarrow>
           c_bind (exec_prog es) (\<lambda>st. Ret (tick (put_file k (f'\<lparr>sf_file := content\<rparr>) w), st))))"

definition refresh_externally_updated_file :: "gw_env \<Rightarrow> gw_world \<Rightarrow> nat option \<Rightarrow> (gw_world \<times> int) c_result" where
  "refresh_externally_updated_file E w p =
     c_bind (file_at w p) (\<lambda>(h, f).
       case ci_simple_file_write (ge_write E (gw_calls w)) f [] True of
         (f1, _) \<Rightarrow>
           if \<not> ge_stat E (gw_calls w) then Ret (tick (put_file h f1 w), CI_ERROR)
           else let new_size = int32 (int (length (sf_file f1))) in
             if new_size < 0 then Ret (tick (put_file h f1 w), CI_ERROR)
             else Ret (tick (put_file h (f1\<lparr>sf_endpos := new_size, sf_readpos := 0\<rparr>) w), CI_OK))"

section \<open>The response\<close>

definition rebuild_content_length :: "gw_env \<Rightarrow> gw_world \<Rightarrow> gw_body_data \<Rightarrow> ci_request \<Rightarrow> ci_request c_result" where
  "rebuild_content_length E w bd req =
     c_bind (file_at w (gb_store bd)) (\<lambda>(h, f).
       if sf_readpos f \<noteq> 0 then Abort
       else let line = ''Content-Length: '' @ print_int (sf_endpos f) in
         if rq_type req = ICAP_REQMOD then
           c_bind (ci_http_request_remove_header req ''Content-Length'') (\<lambda>(r1, _).
           c_bind (ci_http_request_add_header (ge_fresh E) (ge_realloc E) r1 line) (\<lambda>(r2, _). Ret r2))
         else if rq_type req = ICAP_RESPMOD then
           c_bind (ci_http_response_remove_header req ''Content-Length'') (\<lambda>(r1, _).
           c_bind (ci_http_response_add_header (ge_fresh E) (ge_realloc E) r1 line) (\<lambda>(r2, _). Ret r2))
         else Ret req)"

text \<open>\<^verbatim>\<open>replace_request_body\<close>: the store is the file of the program from now on, which \<^verbatim>\<open>rebuild\<close> still names.\<close>

definition replace_request_body :: "gw_world \<Rightarrow> gw_rebuild_req_data \<Rightarrow> nat option \<Rightarrow> (gw_world \<times> gw_rebuild_req_data) c_result" where
  "replace_request_body w d rebuild =
     c_bind (free_file w (gb_store (gd_body d))) (\<lambda>w1.
       let bd = (gd_body d)\<lparr>gb_store := rebuild\<rparr> in Ret (set_body d bd w1, d\<lparr>gd_body := bd\<rparr>))"

definition rebuilt_body ::
  "gw_env \<Rightarrow> ci_request \<Rightarrow> gw_rebuild_req_data \<Rightarrow> nat option \<Rightarrow> gw_world
   \<Rightarrow> (ci_request \<times> gw_rebuild_req_data \<times> gw_world \<times> int) c_result" where
  "rebuilt_body E req d output w =
     c_bind (refresh_externally_updated_file E w output) (\<lambda>(w1, st).
       if st = CI_ERROR then Ret (req, d, inc64 E GW_REBUILD_ERRORS w1, CI_ERROR)
       else c_bind (file_at w1 output) (\<lambda>(h, f).
         if sf_endpos f = 0 then Ret (req, d, inc64 E GW_REBUILD_ERRORS w1, CI_ERROR)
         else c_bind (replace_request_body w1 d output) (\<lambda>(w2, d2).
              c_bind (rebuild_content_length E w2 (gd_body d2) req) (\<lambda>req1.
                Ret (req1, d2, inc64 E GW_REBUILD_SUCCESSES w2, CI_OK)))))"

definition rebuild_request_body ::
  "gw_env \<Rightarrow> ci_request \<Rightarrow> gw_rebuild_req_data \<Rightarrow> nat option \<Rightarrow> nat option \<Rightarrow> gw_world
   \<Rightarrow> (ci_request \<times> gw_rebuild_req_data \<times> gw_world \<times> int) c_result" where
  "rebuild_request_body E req d input output w =
     (let w1 = inc64 E GW_SCAN_REQS w in
      c_bind (gw_body_data_size w1 (gd_body d)) (\<lambda>n.
      c_bind (ci_stat_kbs_inc (gw_stats w1) (GW_SCAN_BYTES (ge_ids E)) (int32 n)) (\<lambda>st.
      c_bind (call_proxy_application E (w1\<lparr>gw_stats := st\<rparr>) input output) (\<lambda>(w2, ret).
        let d1 = d\<lparr>gd_gw_status := ret\<rparr>; w3 = w2\<lparr>gw_data := Some d1\<rparr> in
        if ret = GW_FAILED then Ret (req, d1, inc64 E GW_REBUILD_FAILURES w3, CI_ERROR)
        else if ret = GW_ERROR then Ret (req, d1, inc64 E GW_REBUILD_ERRORS w3, CI_ERROR)
        else if ret = GW_UNPROCESSED then Ret (req, d1, inc64 E GW_NOT_PROCESSED w3, CI_MOD_ALLOW204)
        else if ret = GW_REBUILT then rebuilt_body E req d1 output w3
        else Ret (req, d1, inc64 E GW_REBUILD_ERRORS w3, CI_ERROR)))))"

definition add_response_headers :: "gw_env \<Rightarrow> bytes list \<Rightarrow> ci_request \<Rightarrow> ci_request c_result" where
  "add_response_headers E ls req =
     add_lines (\<lambda>r l. c_bind (ci_http_response_add_header (ge_fresh E) (ge_realloc E) r l) (\<lambda>(r1, _). Ret r1)) req ls"

text \<open>\<^verbatim>\<open>generate_error_page\<close>; without a page the code goes on with a null pointer.\<close>

definition generate_error_page ::
  "gw_env \<Rightarrow> gw_rebuild_req_data \<Rightarrow> ci_request \<Rightarrow> (ci_request \<times> ci_membuf) c_result" where
  "generate_error_page E d req =
     c_bind (if ci_http_response_headers req \<noteq> None
             then c_bind (ci_http_response_reset_headers req) (\<lambda>(r, _). Ret r)
             else Ret (ci_http_response_create (ge_fresh E) (ge_realloc E) req True True)) (\<lambda>r1.
     c_bind (add_response_headers E [''HTTP/1.0 403 Forbidden'', ''Server: C-ICAP'', ''Connection: close'',
               ''Content-Type: text/html''] r1) (\<lambda>r2.
       case ge_page E r2 d of
         None \<Rightarrow> Undef
       | Some page \<Rightarrow>
           let l = (case ci_membuf_attr_get page ''lang'' of
                      None \<Rightarrow> ''Content-Language: en''
                    | Some lang \<Rightarrow> take 1023 (''content-language: '' @ cstr lang))
           in c_bind (add_response_headers E [l] r2) (\<lambda>r3. Ret (r3, page))))"

text \<open>The body becomes the error page.\<close>

definition error_body ::
  "gw_env \<Rightarrow> ci_request \<Rightarrow> gw_rebuild_req_data \<Rightarrow> gw_world \<Rightarrow> (ci_request \<times> gw_rebuild_req_data \<times> gw_world) c_result" where
  "error_body E req d w =
     c_bind (generate_error_page E d req) (\<lambda>(r1, page).
       let d1 = d\<lparr>gd_error_page := Some page\<rparr> in
       c_bind (gw_body_data_destroy w (gd_body d1)) (\<lambda>(w1, bd1).
         let (w2, bd2) = gw_body_data_new E w1 bd1 (mb_endpos page) in
         c_bind (gw_body_data_write E w2 bd2 (take (nat (mb_endpos page)) (mb_buf page)) True) (\<lambda>(w3, _).
           let d2 = d1\<lparr>gd_body := bd2\<rparr>; w4 = w3\<lparr>gw_data := Some d2\<rparr> in
           c_bind (rebuild_content_length E w4 bd2 r1) (\<lambda>r2. Ret (r2, d2, w4)))))"

text \<open>Without data of the service the code writes through a null pointer.\<close>

definition gw_rebuild_end_of_data_handler ::
  "gw_env \<Rightarrow> ci_request \<times> gw_world \<Rightarrow> ((ci_request \<times> gw_world) \<times> int) c_result" where
  "gw_rebuild_end_of_data_handler E rs =
     (case rs of (req, w) \<Rightarrow>
        case gw_data w of
          None \<Rightarrow> Undef
        | Some d \<Rightarrow>
            c_bind (rebuild_request_body E req d (gb_store (gd_body d)) (gb_rebuild (gd_body d)) w) (\<lambda>(r1, d1, w1, st).
            c_bind (if st = CI_ERROR then error_body E r1 d1 w1 else Ret (r1, d1, w1)) (\<lambda>(r2, d2, w2).
              if gd_allow204 d2 \<and> st = CI_MOD_ALLOW204 then Ret ((r2, w2), CI_MOD_ALLOW204)
              else c_bind (gw_body_data_unlock_all w2 (gd_body d2)) (\<lambda>w3.
                     Ret ((r2\<lparr>rq_data_locked := False\<rparr>, w3), CI_MOD_DONE)))))"

section \<open>The service\<close>

text \<open>A call of the read and write function that aborts or is undefined does not come back.\<close>

definition returned :: "'a c_result \<Rightarrow> 'a option" where
  "returned r = (case r of Ret x \<Rightarrow> Some x | _ \<Rightarrow> None)"

definition gw_service :: "gw_env \<Rightarrow> gw_world service_ops" where
  "gw_service E = \<lparr>so_init = Some (gw_rebuild_init_request_data E), so_release = Some (gw_rebuild_release_request_data E),
     so_preview = Some (\<lambda>data rs. Some (gw_rebuild_check_preview_handler E data rs)),
     so_end_of_data = Some (\<lambda>rs. Some (gw_rebuild_end_of_data_handler E rs)),
     so_io = Some (\<lambda>room data iseof rs. returned (gw_rebuild_io E room data iseof rs)), so_options = []\<rparr>"


section \<open>Collecting a body\<close>

text \<open>A file that holds exactly the bytes \<open>B\<close>, none of them read.\<close>

definition collected :: "ci_simple_file \<Rightarrow> bytes \<Rightarrow> bool" where
  "collected f B \<longleftrightarrow> sf_file f = B \<and> sf_endpos f = int (length B) \<and> sf_readpos f = 0
     \<and> 0 \<le> sf_max_store_size f \<and> (sf_max_store_size f \<noteq> 0 \<longrightarrow> int (length B) \<le> sf_max_store_size f)"

lemma collected_write:
  assumes c: "collected f B" and room: "sf_max_store_size f \<noteq> 0 \<longrightarrow> int (length B + length d) \<le> sf_max_store_size f"
    and k: "length d \<le> k" and e: "d \<noteq> [] \<longrightarrow> \<not> sf_haseof f"
  obtains f' where "ci_simple_file_write (Some k) f d iseof = (f', int (length d))" "collected f' (B @ d)"
    "sf_haseof f' \<longleftrightarrow> iseof \<or> sf_haseof f" "sf_max_store_size f' = sf_max_store_size f"
proof (cases "d = []")
  case True
  then show ?thesis
    using c by (intro that [of "fst (ci_simple_file_write (Some k) f d iseof)"])
      (auto simp: ci_simple_file_write_def collected_def)
next
  case False
  have pos: "sf_write_pos f (int (length d)) = Some (f, int (length d))"
    using c room False by (cases d) (auto simp: sf_write_pos_def collected_def)
  have w: "file_write (length B) d B = B @ d" by (simp add: file_write_def mem_write_def)
  show ?thesis
    using c False e k pos w room
    by (intro that [of "fst (ci_simple_file_write (Some k) f d iseof)"])
      (auto simp: ci_simple_file_write_def sf_store_def collected_def Let_def)
qed

definition store_of :: "gw_world \<Rightarrow> nat option" where
  "store_of w = (case gw_data w of None \<Rightarrow> None | Some d \<Rightarrow> gb_store (gd_body d))"

text \<open>
  A state in which the service can take the bytes \<open>P\<close>: every write of the operating system stores all it
  is given, and the object stays below the limit.
\<close>

definition gw_room :: "gw_world \<Rightarrow> ci_simple_file \<Rightarrow> nat \<Rightarrow> bool" where
  "gw_room w f n \<longleftrightarrow>
     (\<forall>d. gw_data w = Some d \<longrightarrow> ga_sizelimit (gd_args d) \<longrightarrow> int n < gd_max_object_size d)
     \<and> (sf_max_store_size f \<noteq> 0 \<longrightarrow> int n \<le> sf_max_store_size f)"

definition gw_good :: "gw_env \<Rightarrow> gw_world \<Rightarrow> bytes \<Rightarrow> bool" where
  "gw_good E w P \<longleftrightarrow> (\<forall>t. \<exists>k. ge_write E t = Some k \<and> length P \<le> k)
     \<and> (\<exists>h f B. store_of w = Some h \<and> gw_files w h = Some f \<and> collected f B
          \<and> gw_room w f (length B + length P) \<and> (P \<noteq> [] \<longrightarrow> \<not> sf_haseof f))"

definition gw_after :: "gw_world \<Rightarrow> bytes \<Rightarrow> bool \<Rightarrow> gw_world \<Rightarrow> bool" where
  "gw_after w d e w' \<longleftrightarrow> gw_data w' = gw_data w \<and> gw_stats w' = gw_stats w
     \<and> (\<exists>h f f' B. store_of w = Some h \<and> gw_files w h = Some f \<and> gw_files w' = (gw_files w)(h \<mapsto> f')
          \<and> collected f B \<and> collected f' (B @ d) \<and> (sf_haseof f' \<longleftrightarrow> e \<or> sf_haseof f))"

lemma gw_io_takes:
  assumes g: "gw_good E w (d @ rest)" and ld: "offered data = d" "iseof \<longrightarrow> rest = []"
  shows "\<exists>w'. gw_rebuild_io E None data iseof (req, w) = Ret ((req, w'), [], 0, int (length d), CI_OK)
    \<and> gw_after w d iseof w' \<and> gw_good E w' rest"
proof -
  obtain h f B k where h: "store_of w = Some h" "gw_files w h = Some f" "collected f B"
      "gw_room w f (length B + length (d @ rest))" "d @ rest \<noteq> [] \<longrightarrow> \<not> sf_haseof f"
    and k: "ge_write E (gw_calls w) = Some k" "length (d @ rest) \<le> k"
    using g unfolding gw_good_def by blast
  obtain dat where dat: "gw_data w = Some dat" "gb_store (gd_body dat) = Some h"
    using h(1) by (auto simp: store_of_def split: option.splits)
  have room: "sf_max_store_size f \<noteq> 0 \<longrightarrow> int (length B + length d) \<le> sf_max_store_size f"
    using h(4) by (auto simp: gw_room_def)
  obtain f' where w: "ci_simple_file_write (Some k) f d iseof = (f', int (length d))" "collected f' (B @ d)"
    "sf_haseof f' \<longleftrightarrow> iseof \<or> sf_haseof f" "sf_max_store_size f' = sf_max_store_size f"
    by (rule collected_write [OF h(3) room, of k iseof]) (use k(2) h(5) in auto)
  let ?w = "tick (put_file h f' w)"
  have small: "ga_sizelimit (gd_args dat) \<longrightarrow> \<not> gd_max_object_size dat \<le> sf_endpos f"
    using h(3,4) dat(1) by (auto simp: gw_room_def collected_def)
  have rd: "gw_rebuild_read_from_net E w d iseof = Ret (?w, int (length d))"
    using dat h(2) k(1) w(1) small
    by (simp add: gw_rebuild_read_from_net_def gw_body_data_size_def file_at_def gw_body_data_write_def)
  have after: "gw_after w d iseof ?w"
    unfolding gw_after_def using h(1-3) w(2,3) by (auto simp: tick_def put_file_def)
  have good: "gw_good E ?w rest"
    unfolding gw_good_def
  proof (intro conjI exI)
    show "\<forall>t. \<exists>k. ge_write E t = Some k \<and> length rest \<le> k"
      using g unfolding gw_good_def by (metis add_leD2 length_append)
    show "store_of ?w = Some h" "gw_files ?w h = Some f'" using h(1) by (simp_all add: store_of_def tick_def put_file_def)
    show "collected f' (B @ d)" by (rule w(2))
    show "gw_room ?w f' (length (B @ d) + length rest)"
      using h(4) w(4) by (simp add: gw_room_def tick_def put_file_def add.assoc)
    show "rest \<noteq> [] \<longrightarrow> \<not> sf_haseof f'" using h(5) w(3) ld(2) by auto
  qed
  show ?thesis
  proof (cases "data = None \<and> \<not> iseof")
    case True
    then have "d = []" using ld(1) by simp
    have "gw_rebuild_io E None data iseof (req, w) = Ret ((req, w), [], 0, int (length d), CI_OK)"
      using True \<open>d = []\<close> by (simp add: gw_rebuild_io_def)
    moreover have "gw_files w = (gw_files w)(h \<mapsto> f)" using h(2) by (simp add: map_upd_triv)
    then have "gw_after w d iseof w" unfolding gw_after_def using h(1-3) True \<open>d = []\<close> by auto
    moreover have "gw_good E w rest" using g \<open>d = []\<close> by simp
    ultimately show ?thesis by blast
  next
    case False
    have "gw_rebuild_io E None data iseof (req, w) = Ret ((req, ?w), [], 0, int (length d), CI_OK)"
      using False ld(1) rd by (cases data) (simp_all add: gw_rebuild_io_def CI_ERROR_def)
    with after good show ?thesis by blast
  qed
qed

lemma gw_after_append:
  assumes "gw_after s a False s'" "gw_after s' b e s''"
  shows "gw_after s (a @ b) e s''"
proof -
  obtain h f f' B where a: "gw_data s' = gw_data s" "gw_stats s' = gw_stats s" "store_of s = Some h" "gw_files s h = Some f"
      "gw_files s' = (gw_files s)(h \<mapsto> f')" "collected f B" "collected f' (B @ a)" "sf_haseof f' \<longleftrightarrow> sf_haseof f"
    using assms(1) unfolding gw_after_def by blast
  obtain k g g' C where b: "gw_data s'' = gw_data s'" "gw_stats s'' = gw_stats s'" "store_of s' = Some k" "gw_files s' k = Some g"
      "gw_files s'' = (gw_files s')(k \<mapsto> g')" "collected g C" "collected g' (C @ b)" "sf_haseof g' \<longleftrightarrow> e \<or> sf_haseof g"
    using assms(2) unfolding gw_after_def by blast
  have eq: "k = h" "g = f'" using a(1,3,5) b(3,4) by (simp_all add: store_of_def)
  then have "C = B @ a" using a(7) b(6) by (simp add: collected_def)
  then show ?thesis
    unfolding gw_after_def using a b eq by (intro conjI exI [of _ h] exI [of _ f] exI [of _ g'] exI [of _ B]) simp_all
qed

definition gw_io :: "gw_env \<Rightarrow> gw_world service_io" where
  "gw_io E room data iseof rs = returned (gw_rebuild_io E room data iseof rs)"

lemma gw_service_io [simp]: "so_io (gw_service E) = Some (gw_io E)"
  by (simp add: gw_service_def gw_io_def [abs_def])

interpretation gw: body_sink "gw_io E" "gw_good E" gw_after for E
proof
  show "\<exists>s' r. gw_io E None data eof (req, s) = Some ((req, s'), [], r, int (length (offered data)), CI_OK)
      \<and> (r = 0 \<or> r = CI_EOF) \<and> gw_after s (offered data) eof s' \<and> gw_good E s' rest"
    if "gw_good E s (offered data @ rest)" "eof \<longrightarrow> rest = []" for s data rest eof req
    using gw_io_takes [OF that(1) refl that(2), of req] by (auto simp: gw_io_def returned_def)
qed (rule gw_after_append)


section \<open>From the preview to the end of the body\<close>

text \<open>
  The state of the service when a body \<open>B\<close> was received: the store holds \<open>B\<close> and knows its end, and the
  file for the result is another one, still empty.
\<close>

definition fresh_file :: "ci_simple_file \<Rightarrow> bool" where
  "fresh_file r \<longleftrightarrow> collected r [] \<and> sf_max_store_size r = 0 \<and> sf_flags r = 0"

definition gw_loaded :: "gw_world \<Rightarrow> gw_rebuild_req_data \<Rightarrow> bytes \<Rightarrow> bool \<Rightarrow> bool" where
  "gw_loaded w d B e \<longleftrightarrow> gw_data w = Some d \<and> gb_decoded (gd_body d) = None
     \<and> (\<exists>h k f r. gb_store (gd_body d) = Some h \<and> gb_rebuild (gd_body d) = Some k \<and> h \<noteq> k
          \<and> gw_files w h = Some f \<and> collected f B \<and> sf_haseof f = e \<and> gw_files w k = Some r \<and> fresh_file r)"

lemma new_file_spec:
  assumes "ge_pool E (gw_calls w)" "ge_tmp E (gw_calls w) \<noteq> None"
  obtains f where "new_file E w maxsize = (tick (put_file (gw_calls w) f w), Some (gw_calls w))"
    "collected f []" "sf_flags f = 0" "sf_max_store_size f = (if 0 < maxsize then maxsize else 0)"
proof -
  obtain fd name where "ge_tmp E (gw_calls w) = Some (fd, name)" using assms(2) by auto
  with assms(1) show ?thesis
    by (intro that [of "the (ci_simple_file_new True (ge_tmp E (gw_calls w)) maxsize)"])
      (simp_all add: new_file_def ci_simple_file_new_def collected_def)
qed

definition files_work :: "gw_env \<Rightarrow> nat \<Rightarrow> bool" where
  "files_work E n \<longleftrightarrow> (\<forall>t. ge_pool E t \<and> ge_tmp E t \<noteq> None \<and> ge_stat E t \<and> (\<exists>k. ge_write E t = Some k \<and> n \<le> k))"

lemma files_workD: "files_work E n \<Longrightarrow> \<exists>k. ge_write E t = Some k \<and> n \<le> k"
  by (simp add: files_work_def)

lemma files_work_mono: "\<lbrakk>files_work E n; m \<le> n\<rbrakk> \<Longrightarrow> files_work E m"
  unfolding files_work_def by (meson le_trans)

lemma gw_body_data_new_spec:
  assumes "files_work E n"
  obtains f r where "gw_body_data_new E w bd sz
      = (w\<lparr>gw_calls := gw_calls w + 2, gw_files := (gw_files w)(gw_calls w \<mapsto> f, Suc (gw_calls w) \<mapsto> r)\<rparr>,
         bd\<lparr>gb_store := Some (gw_calls w), gb_rebuild := Some (Suc (gw_calls w)), gb_buf_exceed := 0, gb_decoded := None\<rparr>)"
    "collected f []" "sf_flags f = 0" "sf_max_store_size f = (if 0 < int32 sz then int32 sz else 0)" "fresh_file r"
proof -
  obtain f where f: "new_file E w (int32 sz) = (tick (put_file (gw_calls w) f w), Some (gw_calls w))"
    "collected f []" "sf_flags f = 0" "sf_max_store_size f = (if 0 < int32 sz then int32 sz else 0)"
    by (rule new_file_spec [of E w "int32 sz"]) (use assms in \<open>simp_all add: files_work_def\<close>)
  let ?w = "tick (put_file (gw_calls w) f w)"
  obtain r where r: "new_file E ?w 0 = (tick (put_file (gw_calls ?w) r ?w), Some (gw_calls ?w))"
    "collected r []" "sf_flags r = 0" "sf_max_store_size r = (if 0 < (0::int) then 0 else 0)"
    by (rule new_file_spec [of E ?w 0]) (use assms in \<open>simp_all add: files_work_def\<close>)
  show ?thesis
    using f r by (intro that [of f r]) (simp_all add: gw_body_data_new_def fresh_file_def tick_def put_file_def)
qed

text \<open>The preview handler opens the files and stores the preview.\<close>

lemma preview_opens:
  assumes d: "gw_data w = Some d" "rq_hasbody req" and fw: "files_work E (length p)" and p: "offered data = p"
    and sz: "ga_sizelimit (gd_args d) \<Longrightarrow> int (length p) < MAX_OBJECT_SIZE E \<and> MAX_OBJECT_SIZE E < 2 ^ 31"
    and hdr: "ci_http_content_length req = Ret len" "ci_http_request_url req LOG_URL_SIZE = Ret url"
  obtains w' d' where "gw_rebuild_check_preview_handler E data (req, w) = Ret ((req, w'), CI_MOD_CONTINUE)"
    "gw_loaded w' d' p (rq_eof_received req \<and> p \<noteq> [])" "gd_args d' = gd_args d" "gd_allow204 d' = gd_allow204 d"
    "gd_max_object_size d' = MAX_OBJECT_SIZE E" "gw_stats w' = gw_stats w"
    "\<forall>h f. store_of w' = Some h \<longrightarrow> gw_files w' h = Some f
       \<longrightarrow> sf_max_store_size f = (if ga_sizelimit (gd_args d) then MAX_OBJECT_SIZE E else 0)"
proof -
  let ?max = "if ga_sizelimit (gd_args d) then MAX_OBJECT_SIZE E else 0" and ?t = "gw_calls w"
  define d1 where "d1 = d\<lparr>gd_max_object_size := MAX_OBJECT_SIZE E, gd_expected_size := len,
      gd_url_log := (case url of None \<Rightarrow> gd_url_log d | Some u \<Rightarrow> u)\<rparr>"
  obtain f r where n: "gw_body_data_new E w (gd_body d1) ?max
      = (w\<lparr>gw_calls := ?t + 2, gw_files := (gw_files w)(?t \<mapsto> f, Suc ?t \<mapsto> r)\<rparr>,
         (gd_body d1)\<lparr>gb_store := Some ?t, gb_rebuild := Some (Suc ?t), gb_buf_exceed := 0, gb_decoded := None\<rparr>)"
    "collected f []" "sf_flags f = 0" "sf_max_store_size f = (if 0 < int32 ?max then int32 ?max else 0)" "fresh_file r"
    by (rule gw_body_data_new_spec [OF fw, of w "gd_body d1" ?max])
  have max: "sf_max_store_size f = ?max" using n(4) sz by auto
  define bd where "bd = (gd_body d1)\<lparr>gb_store := Some ?t, gb_rebuild := Some (Suc ?t), gb_buf_exceed := 0, gb_decoded := None\<rparr>"
  define f1 where "f1 = ci_simple_file_lock_all f"
  define d2 where "d2 = d1\<lparr>gd_body := bd\<rparr>"
  define w1 where "w1 = w\<lparr>gw_calls := ?t + 2, gw_files := (gw_files w)(?t \<mapsto> f1, Suc ?t \<mapsto> r), gw_data := Some d2\<rparr>"
  have f1: "collected f1 []" "\<not> sf_haseof f1" "sf_max_store_size f1 = ?max"
    using n(2,3) max by (simp_all add: f1_def ci_simple_file_lock_all_def collected_def)
  have init: "init_body_data E d1 w = Ret (w1, d2)"
  proof -
    have a: "gd_args d1 = gd_args d" "gd_max_object_size d1 = MAX_OBJECT_SIZE E" by (simp_all add: d1_def)
    have b: "gb_store bd = Some ?t" by (simp add: bd_def)
    show ?thesis
      unfolding init_body_data_def a n(1) [folded bd_def] using b
      by (simp add: gw_body_data_lock_all_def on_store_def file_at_def put_file_def set_body_def w1_def f1_def d2_def fun_upd_twist)
  qed
  obtain k where k: "ge_write E (gw_calls w1) = Some k" "length p \<le> k" using files_workD [OF fw] by blast
  have room: "sf_max_store_size f1 \<noteq> 0 \<longrightarrow> int (length ([] :: bytes) + length p) \<le> sf_max_store_size f1"
    using f1(3) sz by auto
  obtain f2 where f2: "ci_simple_file_write (Some k) f1 p (rq_eof_received req) = (f2, int (length p))" "collected f2 ([] @ p)"
    "sf_haseof f2 \<longleftrightarrow> rq_eof_received req \<or> sf_haseof f1" "sf_max_store_size f2 = sf_max_store_size f1"
    by (rule collected_write [OF f1(1) room k(2), of "rq_eof_received req"]) (use f1(2) in auto)
  define w2 where "w2 = (if p = [] then w1 else tick (put_file ?t f2 w1))"
  have handler: "gw_rebuild_check_preview_handler E data (req, w) = Ret ((req, w2), CI_MOD_CONTINUE)"
  proof (cases "p = []")
    case True
    then show ?thesis using d hdr init p
      by (cases data) (simp_all add: gw_rebuild_check_preview_handler_def d1_def [symmetric] Let_def w2_def)
  next
    case False
    then have "data = Some p" using p by (cases data) auto
    moreover have "gw_body_data_write E w1 (gd_body d2) p (rq_eof_received req) = Ret (w2, int (length p))"
      using k(1) f2(1) False by (simp add: gw_body_data_write_def file_at_def d2_def bd_def w1_def w2_def)
    ultimately show ?thesis using d hdr init False
      by (simp add: gw_rebuild_check_preview_handler_def d1_def [symmetric] Let_def CI_ERROR_def)
  qed
  show ?thesis
  proof (rule that [OF handler, of d2])
    show "gw_loaded w2 d2 p (rq_eof_received req \<and> p \<noteq> [])"
      using f1 f2(2,3) n(5) by (auto simp: gw_loaded_def w2_def w1_def d2_def bd_def tick_def put_file_def)
    show "\<forall>h f. store_of w2 = Some h \<longrightarrow> gw_files w2 h = Some f \<longrightarrow> sf_max_store_size f = ?max"
      using f1(3) f2(4) by (auto simp: store_of_def w2_def w1_def d2_def bd_def tick_def put_file_def)
  qed (simp_all add: d2_def d1_def w2_def w1_def tick_def put_file_def)
qed

lemma loaded_good:
  assumes l: "gw_loaded w d B False" and fw: "files_work E (length P)"
    and sz: "ga_sizelimit (gd_args d) \<Longrightarrow> int (length B + length P) < gd_max_object_size d"
    and max: "\<forall>h f. store_of w = Some h \<longrightarrow> gw_files w h = Some f
       \<longrightarrow> sf_max_store_size f = (if ga_sizelimit (gd_args d) then gd_max_object_size d else 0)"
  shows "gw_good E w P"
proof -
  obtain h f where h: "gw_data w = Some d" "gb_store (gd_body d) = Some h" "gw_files w h = Some f" "collected f B" "\<not> sf_haseof f"
    using l by (auto simp: gw_loaded_def)
  have s: "store_of w = Some h" using h(1,2) by (simp add: store_of_def)
  have "gw_room w f (length B + length P)" using h(1) sz max s h(3) by (auto simp: gw_room_def split: if_splits)
  then show ?thesis unfolding gw_good_def using files_workD [OF fw] s h(3-5) by blast
qed

lemma after_loaded:
  assumes l: "gw_loaded w d B False" and a: "gw_after w P True w'"
  shows "gw_loaded w' d (B @ P) True"
proof -
  obtain h k f r where h: "gw_data w = Some d" "gb_decoded (gd_body d) = None" "gb_store (gd_body d) = Some h"
      "gb_rebuild (gd_body d) = Some k" "h \<noteq> k" "gw_files w h = Some f" "collected f B" "gw_files w k = Some r" "fresh_file r"
    using l by (auto simp: gw_loaded_def)
  obtain h' f' g C where a': "gw_data w' = gw_data w" "store_of w = Some h'" "gw_files w h' = Some g"
      "gw_files w' = (gw_files w)(h' \<mapsto> f')" "collected g C" "collected f' (C @ P)" "sf_haseof f'"
    using a unfolding gw_after_def by blast
  have "h' = h" using a'(2) h(1,3) by (simp add: store_of_def)
  moreover from this have "C = B" using a'(3,5) h(6,7) by (simp add: collected_def)
  ultimately show ?thesis using a' h by (auto simp: gw_loaded_def)
qed

text \<open>A body in the store of the service, with what the calls leave unchanged.\<close>

lemma collects_body:
  assumes d: "gw_data w = Some d" "rq_hasbody req" "\<not> rq_eof_received req"
    and fw: "files_work E (length (p @ concat cs))"
    and sz: "ga_sizelimit (gd_args d) \<longrightarrow> int (length (p @ concat cs)) < MAX_OBJECT_SIZE E \<and> MAX_OBJECT_SIZE E < 2 ^ 31"
    and hdr: "ci_http_content_length req = Ret len" "ci_http_request_url req LOG_URL_SIZE = Ret url"
    and p: "offered data = p"
    and q: "rq_data_locked q" "rq_remain q = 0" "rq_echo_body q = None" "win q" "length (rq_rbuf q) = 4096" "rq_pending q = 0"
      "\<not> rq_eof_received q" "rq_chunk_len q = rq_chunk_read q" "length (rq_text q) < 4096"
    and body: "good_chunks cs" "good_ext x" "rq_text q @ concat (map fst evs) = chunked cs x @ Y"
  obtains w1 q' w2 d2 evs' where "gw_rebuild_check_preview_handler E data (req, w) = Ret ((req, w1), CI_MOD_CONTINUE)"
    "get_send_body g ra sv (gw_service E) False (body_events evs) (q, w1) = Some (Ret ((q', w2), [], CI_OK, body_events evs'))"
    "gw_loaded w2 d2 (p @ concat cs) True" "gd_allow204 d2 = gd_allow204 d" "gd_args d2 = gd_args d"
    "gd_max_object_size d2 = MAX_OBJECT_SIZE E" "gw_stats w2 = gw_stats w" "rq_text q' @ concat (map fst evs') = Y"
    "ci_req_in.more q' = ci_req_in.more (q\<lparr>rq_status := SEND_NOTHING\<rparr>)"
proof -
  have fp: "files_work E (length p)" "files_work E (length (concat cs))" by (rule files_work_mono [OF fw], simp)+
  have szp: "ga_sizelimit (gd_args d) \<Longrightarrow> int (length p) < MAX_OBJECT_SIZE E \<and> MAX_OBJECT_SIZE E < 2 ^ 31" using sz by auto
  obtain w1 d1 where w1: "gw_rebuild_check_preview_handler E data (req, w) = Ret ((req, w1), CI_MOD_CONTINUE)"
    "gw_loaded w1 d1 p (rq_eof_received req \<and> p \<noteq> [])" "gd_args d1 = gd_args d" "gd_allow204 d1 = gd_allow204 d"
    "gd_max_object_size d1 = MAX_OBJECT_SIZE E" "gw_stats w1 = gw_stats w"
    "\<forall>h f. store_of w1 = Some h \<longrightarrow> gw_files w1 h = Some f
       \<longrightarrow> sf_max_store_size f = (if ga_sizelimit (gd_args d) then MAX_OBJECT_SIZE E else 0)"
    by (rule preview_opens [OF d(1,2) fp(1) p szp hdr])
  have l: "gw_loaded w1 d1 p False" using w1(2) d(3) by simp
  have good: "gw_good E w1 (concat cs)"
    by (rule loaded_good [OF l fp(2)]) (use w1(3,5,7) sz in auto)
  have io: "pick_body_io False (gw_service E) q = Some (gw_io E)" using q(3) by (simp add: pick_body_io_def pick_io_def)
  from gw.get_body [OF io good q(1,2,4-9) body, of g ra sv] obtain q' w2 evs' where r:
      "get_send_body g ra sv (gw_service E) False (body_events evs) (q, w1) = Some (Ret ((q', w2), [], CI_OK, body_events evs'))"
      "gw_after w1 (concat cs) True w2" "rq_text q' @ concat (map fst evs') = Y"
      "ci_req_in.more q' = ci_req_in.more (q\<lparr>rq_status := SEND_NOTHING\<rparr>)"
    by blast
  have "gw_stats w2 = gw_stats w" using r(2) w1(6) by (simp add: gw_after_def)
  with after_loaded [OF l r(2)] r(1,3,4) w1(1,3-5) show ?thesis by (intro that)
qed

text \<open>
  C35.  A message body reaches the rebuild service whole: for every preview (also none) and every chunked
  rest of the body in any segmentation, whose total size is below the limit of the service, the preview
  handler answers with "continue", \<^verbatim>\<open>get_send_body\<close> with \<^verbatim>\<open>gw_rebuild_io\<close> returns \<^verbatim>\<open>CI_OK\<close> without sending
  anything, and the file that the external program is going to read holds exactly the preview followed
  by the chunks, as long as the operating system creates and writes files.
\<close>

theorem gw_rebuild_collects_body:
  assumes d: "gw_data w = Some d" "rq_hasbody req" "\<not> rq_eof_received req"
    and fw: "files_work E (length (p @ concat cs))"
    and sz: "ga_sizelimit (gd_args d) \<longrightarrow> int (length (p @ concat cs)) < MAX_OBJECT_SIZE E \<and> MAX_OBJECT_SIZE E < 2 ^ 31"
    and hdr: "ci_http_content_length req = Ret len" "ci_http_request_url req LOG_URL_SIZE = Ret url"
    and p: "offered data = p"
    and q: "rq_data_locked q" "rq_remain q = 0" "rq_echo_body q = None" "win q" "length (rq_rbuf q) = 4096" "rq_pending q = 0"
      "\<not> rq_eof_received q" "rq_chunk_len q = rq_chunk_read q" "length (rq_text q) < 4096"
    and body: "good_chunks cs" "good_ext x" "rq_text q @ concat (map fst evs) = chunked cs x @ Y"
  shows "\<exists>w1 q' w2 d2 evs'.
      gw_rebuild_check_preview_handler E data (req, w) = Ret ((req, w1), CI_MOD_CONTINUE)
    \<and> get_send_body g ra sv (gw_service E) False (body_events evs) (q, w1) = Some (Ret ((q', w2), [], CI_OK, body_events evs'))
    \<and> gw_loaded w2 d2 (p @ concat cs) True \<and> gd_allow204 d2 = gd_allow204 d
    \<and> rq_text q' @ concat (map fst evs') = Y"
  by (rule collects_body [OF assms, of g ra sv]) blast

text \<open>A small environment: files can be created and written, the program answers with \<^verbatim>\<open>R\<close>, the page is \<^verbatim>\<open>no\<close>.\<close>

definition demo_page :: ci_membuf where
  "demo_page = \<lparr>mb_endpos = 2, mb_readpos = 0, mb_bufsize = 2, mb_unlocked = 0, mb_flags = 0, mb_buf = ''no'', mb_attributes = None\<rparr>"

definition demo_gw :: gw_env where
  "demo_gw = \<lparr>ge_fresh = (\<lambda>_. NUL), ge_realloc = (\<lambda>_. True), ge_pool = (\<lambda>_. True), ge_tmp = (\<lambda>t. Some (int t, ''tmp'')),
     ge_write = (\<lambda>_. Some 100), ge_read = (\<lambda>_. Some 10000), ge_stat = (\<lambda>_. True),
     ge_proxy = (\<lambda>_ B _. (''R'', [Wait_running, Wait_exited 1])), ge_page = (\<lambda>_ _. Some demo_page),
     ALLOW204 = True, MAX_OBJECT_SIZE = 10, DATA_CLEANUP = True,
     ge_ids = \<lparr>GW_SCAN_REQS = -1, GW_SCAN_BYTES = -1, GW_REBUILD_FAILURES = -1, GW_REBUILD_ERRORS = -1,
       GW_REBUILD_SUCCESSES = -1, GW_NOT_PROCESSED = -1, GW_UNPROCESSABLE = -1\<rparr>\<rparr>"

definition demo_data :: gw_rebuild_req_data where
  "demo_data = \<lparr>gd_body = empty_body, gd_allow204 = False, gd_gw_status = 99, gd_gw_processing = -1, gd_error_page = None,
     gd_url_log = [], gd_expected_size = 0, gd_args = \<lparr>ga_enable204 = True, ga_sizelimit = True, ga_mode = 0\<rparr>,
     gd_max_object_size = 0\<rparr>"

definition demo_world :: gw_world where
  "demo_world = \<lparr>gw_calls = 0, gw_files = Map.empty, gw_stats = Some \<lparr>mb_counters64 = [], mb_counterskbs = []\<rparr>,
     gw_data = Some demo_data\<rparr>"

lemma demo_files_work [simp]: "files_work demo_gw n \<longleftrightarrow> n \<le> 100"
  by (auto simp: files_work_def demo_gw_def)

theorem gw_rebuild_collects_body_witness:
  "\<exists>w1 q' w2 d2 evs'.
      gw_rebuild_check_preview_handler demo_gw (Some ''xy'') (new_request\<lparr>rq_hasbody := True\<rparr>, demo_world)
        = Ret ((new_request\<lparr>rq_hasbody := True\<rparr>, w1), CI_MOD_CONTINUE)
    \<and> get_send_body (\<lambda>_. NUL) (\<lambda>_. True) demo_server (gw_service demo_gw) False
        (body_events [(''3'' @ [CR], None), (LF # ''abc'' @ CRLF @ ''0'' @ CRLF, Some Out_fail), (CRLF @ ''X'', None)]) (new_request, w1)
        = Some (Ret ((q', w2), [], CI_OK, body_events evs'))
    \<and> gw_loaded w2 d2 (''xy'' @ concat [''abc'']) True \<and> gd_allow204 d2 = gd_allow204 demo_data
    \<and> rq_text q' @ concat (map fst evs') = ''X''"
proof (rule gw_rebuild_collects_body [where x = X_none and len = 0 and url = None])
  have n: "rq_data_locked new_request" "rq_remain new_request = 0" "rq_pstr new_request = P_null" "rq_echo_body new_request = None"
      "rq_pstr_len new_request = 0" "length (rq_rbuf new_request) = 4096" "rq_pending new_request = 0"
      "\<not> rq_eof_received new_request" "rq_chunk_len new_request = rq_chunk_read new_request"
    by (simp_all add: new_request_def ci_request_alloc_def ci_headers_create_def fresh_mem_def)
  then show "rq_data_locked new_request" "rq_remain new_request = 0" "win new_request" "rq_echo_body new_request = None"
      "length (rq_rbuf new_request) = 4096" "rq_pending new_request = 0" "\<not> rq_eof_received new_request"
      "rq_chunk_len new_request = rq_chunk_read new_request" "length (rq_text new_request) < 4096"
      "\<not> rq_eof_received (new_request\<lparr>rq_hasbody := True\<rparr>)"
    by (simp_all add: win_def rq_text_def)
  have t: "rq_text new_request = []" using n by (simp add: rq_text_def)
  have "chunked [''abc''] X_none = ''3'' @ CRLF @ ''abc'' @ CRLF @ ''0'' @ CRLF @ CRLF" by code_simp
  with t show "rq_text new_request @ concat (map fst [(''3'' @ [CR], None), (LF # ''abc'' @ CRLF @ ''0'' @ CRLF, Some Out_fail), (CRLF @ ''X'', None)])
      = chunked [''abc''] X_none @ ''X''" by simp
  let ?r = "new_request\<lparr>rq_hasbody := True\<rparr>"
  have e: "ci_http_response_headers ?r = None" "ci_http_request_headers ?r = None"
    using new_request_facts(4,5) by (simp_all add: ci_http_response_headers_def ci_http_request_headers_def ICAP_REQ_HDR_def replicate_Suc numeral_eq_Suc)
  then show "ci_http_content_length ?r = Ret 0" "ci_http_request_url ?r LOG_URL_SIZE = Ret None"
    by (simp_all add: ci_http_content_length_def any_headers_def ci_http_request_url_def)
  show "ga_sizelimit (gd_args demo_data) \<longrightarrow> int (length (''xy'' @ concat [''abc''])) < MAX_OBJECT_SIZE demo_gw
      \<and> MAX_OBJECT_SIZE demo_gw < 2 ^ 31" by (simp add: demo_gw_def)
qed (simp_all add: good_chunks_def good_ext_def demo_world_def)

end
