(* ===== verification/Gw_Verdict.thy ===== *)
theory Gw_Verdict
  imports Gw_Rebuild
begin

text \<open>
  What the content rebuild service answers: the end-of-data handler of \<^verbatim>\<open>gw_rebuild.c\<close> against a table of
  the verdicts of the external program, sending the result through \<^verbatim>\<open>gw_rebuild_io\<close>, and two defects (a file
  destroyed twice, and a response without end).
\<close>

section \<open>The table of verdicts\<close>

definition page_bytes :: "ci_membuf \<Rightarrow> bytes" where
  "page_bytes page = take (nat (mb_endpos page)) (mb_buf page)"

definition content_length_line :: "bytes \<Rightarrow> bytes" where
  "content_length_line B = ''Content-Length: '' @ print_int (int (length B))"

definition language_line :: "ci_membuf \<Rightarrow> bytes" where
  "language_line page =
     (case ci_membuf_attr_get page ''lang'' of
        None \<Rightarrow> ''Content-Language: en'' | Some lang \<Rightarrow> take 1023 (''content-language: '' @ cstr lang))"

definition error_lines :: "ci_membuf \<Rightarrow> bytes list" where
  "error_lines page = [''HTTP/1.0 403 Forbidden'', ''Server: C-ICAP'', ''Connection: close'',
     ''Content-Type: text/html'', language_line page]"

text \<open>
  The body and the header lines of the answer for the verdict \<open>ret\<close>: the message as it was, the
  result \<open>R\<close> of the program, or the error page; an empty result is an error.
\<close>

definition gw_answer :: "int \<Rightarrow> bytes \<Rightarrow> bytes \<Rightarrow> ci_membuf \<Rightarrow> bytes list \<Rightarrow> bytes \<times> bytes list" where
  "gw_answer ret B R page ls =
     (if ret = GW_UNPROCESSED then (B, ls)
      else if ret = GW_REBUILT \<and> R \<noteq> [] then (R, drop_header ''Content-Length'' ls @ [content_length_line R])
      else (page_bytes page, error_lines page @ [content_length_line (page_bytes page)]))"

section \<open>Header lines\<close>

lemma NUL_notin_content_length: "NUL \<notin> set (''Content-Length: '' @ print_int n)"
  using NUL_notin_print_int by simp

lemma NUL_notin_language: "NUL \<notin> set (language_line page)"
  by (auto simp: language_line_def cstr_def split: option.splits dest!: in_set_takeD set_takeWhileD)

lemma no_length_in_error_lines: "drop_header ''Content-Length'' (error_lines page) = error_lines page"
proof -
  have "\<not> is_header ''Content-Length'' (language_line page)"
    by (auto simp: language_line_def is_header_def starts_with_ci_def tolower_c_def split: option.splits)
  then show ?thesis
    by (simp add: drop_header_def error_lines_def is_header_def starts_with_ci_def tolower_c_def)
qed

lemma rebuild_content_length_at:
  assumes r: "at_response req l h" "hdr_rep h ls" "\<not> rq_packed req" "rq_type req = ICAP_RESPMOD"
    and f: "gb_store bd = Some a" "gw_files w a = Some f" "collected f B" and E: "ge_realloc E = (\<lambda>_. True)"
  obtains req' h' where "rebuild_content_length E w bd req = Ret req'" "at_response req' l h'"
    "hdr_rep h' (drop_header ''Content-Length'' ls @ [content_length_line B])" "hdr_changed l req req'"
proof -
  obtain h1 b where h1: "ci_http_response_remove_header req ''Content-Length'' = Ret (hdr_put req l h1, b)"
      "hdr_rep h1 (drop_header ''Content-Length'' ls)"
    by (rule response_remove_at [OF r(1-3), of "''Content-Length''"]) simp_all
  let ?r = "hdr_put req l h1"
  have at1: "at_response ?r l h1" by (rule at_response_put [OF r(1)])
  obtain h2 where h2: "ci_http_response_add_header (ge_fresh E) (\<lambda>_. True) ?r (content_length_line B) = Ret (hdr_put ?r l h2, True)"
      "hdr_rep h2 (drop_header ''Content-Length'' ls @ [content_length_line B])"
    by (rule response_add_at [OF at1 h1(2), of "content_length_line B" "ge_fresh E"]) (use r(3) NUL_notin_print_int in \<open>simp_all add: content_length_line_def\<close>)
  have "rebuild_content_length E w bd req = Ret (hdr_put ?r l h2)"
    using f r(4) E h1(1) h2(1)
    by (simp add: rebuild_content_length_def file_at_def collected_def content_length_line_def ICAP_REQMOD_def ICAP_RESPMOD_def)
  then show ?thesis using that at_response_put [OF at1] h2(2) hdr_changed_trans [OF hdr_changed_put hdr_changed_put] by blast
qed

lemma add_response_headers_eq: "add_response_headers E ls req = add_lines (add_response_line (ge_fresh E) (ge_realloc E)) req ls"
proof -
  have "(\<lambda>r l. c_bind (ci_http_response_add_header (ge_fresh E) (ge_realloc E) r l) (\<lambda>(r1, _). Ret r1))
      = add_response_line (ge_fresh E) (ge_realloc E)"
    by (intro ext) (simp add: add_response_line_def case_prod_unfold)
  then show ?thesis by (simp add: add_response_headers_def)
qed

lemma generate_error_page_at:
  assumes r: "at_response req l h" "hdr_rep h ls" "\<not> rq_packed req" and E: "ge_realloc E = (\<lambda>_. True)"
    and page: "\<And>r. ge_page E r d = Some page"
  obtains req' h' where "generate_error_page E d req = Ret (req', page)" "at_response req' l h'" "hdr_rep h' (error_lines page)"
    "\<not> rq_packed req'" "rq_type req' = rq_type req" "hdr_changed l req req'"
proof -
  let ?four = "[''HTTP/1.0 403 Forbidden'', ''Server: C-ICAP'', ''Connection: close'', ''Content-Type: text/html'']"
  have h0: "hdr_rep (ci_headers_reset h) []"
    using r(2) by (intro ci_headers_reset_rep) (simp_all add: hdr_rep_def)
  let ?r0 = "hdr_put req l (ci_headers_reset h)"
  have reset: "ci_http_response_reset_headers req = Ret (?r0, True)"
    using r(1) by (simp add: ci_http_response_reset_headers_def reset_headers_def at_response_def)
  have at0: "at_response ?r0 l (ci_headers_reset h)" by (rule at_response_put [OF r(1)])
  obtain h1 r1 where r1: "add_lines (add_response_line (ge_fresh E) (\<lambda>_. True)) ?r0 ?four = Ret r1" "at_response r1 l h1"
      "hdr_rep h1 ?four" "\<not> rq_packed r1" "rq_type r1 = rq_type req" "hdr_changed l ?r0 r1"
    using response_add_lines_at [OF at0 h0, of ?four "ge_fresh E"] r(3) by auto
  obtain h2 r2 where r2: "add_lines (add_response_line (ge_fresh E) (\<lambda>_. True)) r1 [language_line page] = Ret r2" "at_response r2 l h2"
      "hdr_rep h2 (error_lines page)" "\<not> rq_packed r2" "rq_type r2 = rq_type req" "hdr_changed l r1 r2"
    using response_add_lines_at [OF r1(2,3), of "[language_line page]" "ge_fresh E"] r1(4,5) NUL_notin_language
    by (auto simp: error_lines_def)
  have "ci_http_response_headers req \<noteq> None" using r(1) by (simp add: at_response_def)
  then have "generate_error_page E d req = Ret (r2, page)"
    using reset r1(1) r2(1) E page
    by (simp add: generate_error_page_def add_response_headers_eq language_line_def [symmetric] Let_def del: add_lines.simps)
  moreover have "hdr_changed l req r2" by (rule hdr_changed_trans [OF hdr_changed_trans [OF hdr_changed_put r1(6)] r2(6)])
  ultimately show ?thesis using that r2(2-5) by blast
qed

section \<open>Verdicts\<close>

lemma inc64_frame [simp]:
  "gw_files (inc64 E s w) = gw_files w" "gw_data (inc64 E s w) = gw_data w" "gw_calls (inc64 E s w) = gw_calls w"
  "gw_stats (inc64 E s w) = None \<longleftrightarrow> gw_stats w = None"
  by (simp_all add: inc64_def ci_stat_uint64_inc_def)

text \<open>The answer stands ready: an unlocked store with the whole body, to be read from its start.\<close>

definition gw_serves :: "gw_world \<Rightarrow> bytes \<Rightarrow> bool" where
  "gw_serves w B \<longleftrightarrow> (\<exists>h f. store_of w = Some h \<and> gw_files w h = Some f \<and> collected f B \<and> sf_haseof f \<and> \<not> sf_uselock f)"

definition program_ran :: "gw_env \<Rightarrow> gw_world \<Rightarrow> bytes \<Rightarrow> int \<Rightarrow> bytes \<Rightarrow> bool" where
  "program_ran E w B ret R \<longleftrightarrow> (\<exists>es. ge_proxy E (gw_calls w) B [] = (R, es) \<and> exec_prog es = Ret ret)"

text \<open>The program was run on the body; its verdict is in the data of the request, its result in the second file.\<close>

definition gw_judged :: "gw_world \<Rightarrow> gw_rebuild_req_data \<Rightarrow> nat \<Rightarrow> nat \<Rightarrow> bytes \<Rightarrow> bytes \<Rightarrow> bool" where
  "gw_judged w d h k B R \<longleftrightarrow> gw_data w = Some d \<and> gb_decoded (gd_body d) = None
     \<and> gb_store (gd_body d) = Some h \<and> gb_rebuild (gd_body d) = Some k \<and> h \<noteq> k
     \<and> (\<exists>f r. gw_files w h = Some f \<and> collected f B \<and> sf_haseof f \<and> gw_files w k = Some r \<and> fresh_file (r\<lparr>sf_file := []\<rparr>)
          \<and> sf_file r = R)"

lemma run_program:
  assumes l: "gw_loaded w d B True" and s: "gw_stats w \<noteq> None" and p: "program_ran E w B ret R"
  obtains w' h k where "gb_store (gd_body d) = Some h" "gb_rebuild (gd_body d) = Some k"
    "gw_judged w' (d\<lparr>gd_gw_status := ret\<rparr>) h k B R"
    "rebuild_request_body E req d (gb_store (gd_body d)) (gb_rebuild (gd_body d)) w =
      (if ret = GW_FAILED then Ret (req, d\<lparr>gd_gw_status := ret\<rparr>, inc64 E GW_REBUILD_FAILURES w', CI_ERROR)
       else if ret = GW_ERROR then Ret (req, d\<lparr>gd_gw_status := ret\<rparr>, inc64 E GW_REBUILD_ERRORS w', CI_ERROR)
       else if ret = GW_UNPROCESSED then Ret (req, d\<lparr>gd_gw_status := ret\<rparr>, inc64 E GW_NOT_PROCESSED w', CI_MOD_ALLOW204)
       else if ret = GW_REBUILT then rebuilt_body E req (d\<lparr>gd_gw_status := ret\<rparr>) (Some k) w'
       else Ret (req, d\<lparr>gd_gw_status := ret\<rparr>, inc64 E GW_REBUILD_ERRORS w', CI_ERROR))"
proof -
  obtain h k f r where h: "gw_data w = Some d" "gb_decoded (gd_body d) = None" "gb_store (gd_body d) = Some h"
      "gb_rebuild (gd_body d) = Some k" "h \<noteq> k" "gw_files w h = Some f" "collected f B" "sf_haseof f"
      "gw_files w k = Some r" "fresh_file r"
    using l by (auto simp: gw_loaded_def)
  obtain es where es: "ge_proxy E (gw_calls w) B [] = (R, es)" "exec_prog es = Ret ret"
    using p by (auto simp: program_ran_def)
  let ?w1 = "inc64 E GW_SCAN_REQS w"
  obtain b where b: "gw_stats ?w1 = Some b" using s by (cases "gw_stats ?w1") auto
  define st where "st = Some (ci_stat_area_kbs_inc b (GW_SCAN_BYTES (ge_ids E)) (int32 (sf_endpos f)))"
  define w2 where "w2 = tick (put_file k (r\<lparr>sf_file := R\<rparr>) (?w1\<lparr>gw_stats := st\<rparr>))"
  define w3 where "w3 = w2\<lparr>gw_data := Some (d\<lparr>gd_gw_status := ret\<rparr>)\<rparr>"
  have fr: "sf_file f = B" "sf_file r = []" using h(7,10) by (simp_all add: collected_def fresh_file_def)
  have call: "call_proxy_application E (?w1\<lparr>gw_stats := st\<rparr>) (Some h) (Some k) = Ret (w2, ret)"
    using h(6,9) es fr by (simp add: call_proxy_application_def file_at_def w2_def)
  have size: "gw_body_data_size ?w1 (gd_body d) = Ret (sf_endpos f)"
    using h(3,6) by (simp add: gw_body_data_size_def file_at_def)
  have kbs: "ci_stat_kbs_inc (gw_stats ?w1) (GW_SCAN_BYTES (ge_ids E)) (int32 (sf_endpos f)) = Ret st"
    by (simp add: ci_stat_kbs_inc_def b st_def)
  have "gw_judged w3 (d\<lparr>gd_gw_status := ret\<rparr>) h k B R"
    using h fr by (auto simp: gw_judged_def w3_def w2_def tick_def put_file_def collected_def fresh_file_def)
  then show ?thesis
    using call size kbs h(3,4) by (intro that [of h k w3]) (simp_all add: rebuild_request_body_def Let_def w3_def)
qed

text \<open>The result of the program takes the place of the body.\<close>

lemma judged_rebuilt:
  assumes j: "gw_judged w d h k B R" and R: "R \<noteq> []" "length R < 2 ^ 31" and E: "\<And>t. ge_stat E t" "ge_realloc E = (\<lambda>_. True)"
    and r: "at_response req l hl" "hdr_rep hl ls" "\<not> rq_packed req" "rq_type req = ICAP_RESPMOD"
  obtains req' hl' w' f where
    "rebuilt_body E req d (Some k) w = Ret (req', d\<lparr>gd_body := (gd_body d)\<lparr>gb_store := Some k\<rparr>\<rparr>, w', CI_OK)"
    "gw_data w' = Some (d\<lparr>gd_body := (gd_body d)\<lparr>gb_store := Some k\<rparr>\<rparr>)" "gw_files w' k = Some f" "collected f R" "sf_haseof f"
    "at_response req' l hl'" "hdr_rep hl' (drop_header ''Content-Length'' ls @ [content_length_line R])" "hdr_changed l req req'"
proof -
  obtain f0 r0 where j': "gw_data w = Some d" "gb_store (gd_body d) = Some h" "h \<noteq> k" "gw_files w h = Some f0"
      "gw_files w k = Some r0" "fresh_file (r0\<lparr>sf_file := []\<rparr>)" "sf_file r0 = R"
    using j by (auto simp: gw_judged_def)
  have r0: "sf_flags r0 = 0" "sf_max_store_size r0 = 0"
    using j'(6) by (simp_all add: fresh_file_def collected_def)
  define f where "f = r0\<lparr>sf_flags := CI_FILE_HAS_EOF, sf_endpos := int (length R), sf_readpos := 0\<rparr>"
  have f: "collected f R" "sf_haseof f" using r0 j'(7) by (simp_all add: f_def collected_def)
  define w1 where "w1 = tick (put_file k f w)"
  have eof: "r0\<lparr>sf_flags := CI_FILE_HAS_EOF\<rparr> = fst (ci_simple_file_write (ge_write E (gw_calls w)) r0 [] True)"
    using r0 by (simp add: ci_simple_file_write_def)
  have refresh: "refresh_externally_updated_file E w (Some k) = Ret (w1, CI_OK)"
    using j'(5,7) E(1) R(2) r0 by (simp add: refresh_externally_updated_file_def file_at_def ci_simple_file_write_def f_def w1_def Let_def)
  define d2 where "d2 = d\<lparr>gd_body := (gd_body d)\<lparr>gb_store := Some k\<rparr>\<rparr>"
  define w2 where "w2 = w1\<lparr>gw_files := (gw_files w1)(h := None), gw_data := Some d2\<rparr>"
  have k: "gw_files w1 k = Some f" "gw_files w1 h = Some f0" "gw_files w2 k = Some f"
    using j'(3,4) by (simp_all add: w1_def w2_def tick_def put_file_def)
  have repl: "replace_request_body w1 d (Some k) = Ret (w2, d2)"
    using j'(2) k(2) by (simp add: replace_request_body_def free_file_def set_body_def w2_def d2_def Let_def)
  obtain req' hl' where c: "rebuild_content_length E w2 (gd_body d2) req = Ret req'" "at_response req' l hl'"
    "hdr_rep hl' (drop_header ''Content-Length'' ls @ [content_length_line R])" "hdr_changed l req req'"
    by (rule rebuild_content_length_at [OF r _ k(3) f(1) E(2), of "gd_body d2"]) (simp_all add: d2_def)
  have "rebuilt_body E req d (Some k) w = Ret (req', d2, inc64 E GW_REBUILD_SUCCESSES w2, CI_OK)"
    using refresh repl c(1) k(1) f(1) R(1)
    by (simp add: rebuilt_body_def file_at_def collected_def CI_OK_def CI_ERROR_def)
  then show ?thesis using f k(3) c(2-4) by (intro that [of req' "inc64 E GW_REBUILD_SUCCESSES w2" f hl']) (simp_all add: d2_def w2_def)
qed

text \<open>Two live files, as the error path needs them.\<close>

definition gw_two_files :: "gw_world \<Rightarrow> gw_rebuild_req_data \<Rightarrow> bool" where
  "gw_two_files w d \<longleftrightarrow> gw_data w = Some d \<and> gb_decoded (gd_body d) = None
     \<and> (\<exists>h k. gb_store (gd_body d) = Some h \<and> gb_rebuild (gd_body d) = Some k \<and> h \<noteq> k
          \<and> gw_files w h \<noteq> None \<and> gw_files w k \<noteq> None)"

lemma judged_two_files: "gw_judged w d h k B R \<Longrightarrow> gw_two_files (inc64 E s w) d"
  by (auto simp: gw_judged_def gw_two_files_def)

lemma judged_empty:
  assumes j: "gw_judged w d h k B []" and E: "\<And>t. ge_stat E t"
  obtains w' where "rebuilt_body E req d (Some k) w = Ret (req, d, w', CI_ERROR)" "gw_two_files w' d"
proof -
  obtain f0 r0 where j': "gw_data w = Some d" "gb_decoded (gd_body d) = None" "gb_store (gd_body d) = Some h"
      "gb_rebuild (gd_body d) = Some k" "h \<noteq> k" "gw_files w h = Some f0"
      "gw_files w k = Some r0" "fresh_file (r0\<lparr>sf_file := []\<rparr>)" "sf_file r0 = []"
    using j by (auto simp: gw_judged_def)
  have r0: "sf_flags r0 = 0" using j'(8) by (simp add: fresh_file_def)
  define f where "f = r0\<lparr>sf_flags := CI_FILE_HAS_EOF, sf_endpos := 0, sf_readpos := 0\<rparr>"
  define w1 where "w1 = tick (put_file k f w)"
  have "refresh_externally_updated_file E w (Some k) = Ret (w1, CI_OK)"
    using j'(7,9) E r0 by (simp add: refresh_externally_updated_file_def file_at_def ci_simple_file_write_def f_def w1_def Let_def)
  moreover have "gw_files w1 k = Some f" by (simp add: w1_def tick_def put_file_def)
  ultimately have "rebuilt_body E req d (Some k) w = Ret (req, d, inc64 E GW_REBUILD_ERRORS w1, CI_ERROR)"
    by (simp add: rebuilt_body_def file_at_def f_def CI_OK_def CI_ERROR_def)
  moreover have "gw_two_files (inc64 E GW_REBUILD_ERRORS w1) d"
    using j' by (auto simp: gw_two_files_def w1_def tick_def put_file_def)
  ultimately show ?thesis by (rule that)
qed

definition page_ok :: "ci_membuf \<Rightarrow> bool" where
  "page_ok page \<longleftrightarrow> 0 \<le> mb_endpos page \<and> mb_endpos page < 2 ^ 31 \<and> nat (mb_endpos page) \<le> length (mb_buf page)"

lemma error_answer:
  assumes t: "gw_two_files w d" and fw: "files_work E (length (page_bytes page))" and E: "ge_realloc E = (\<lambda>_. True)"
    and page: "\<And>r. ge_page E r d = Some page" "page_ok page"
    and r: "at_response req l hl" "hdr_rep hl ls" "\<not> rq_packed req" "rq_type req = ICAP_RESPMOD"
  obtains req' hl' d' w' a f where "error_body E req d w = Ret (req', d', w')" "gd_allow204 d' = gd_allow204 d"
    "gw_data w' = Some d'" "gb_store (gd_body d') = Some a" "gw_files w' a = Some f" "collected f (page_bytes page)" "sf_haseof f"
    "at_response req' l hl'" "hdr_rep hl' (error_lines page @ [content_length_line (page_bytes page)])" "hdr_changed l req req'"
    "gd_args d' = gd_args d" "gd_max_object_size d' = gd_max_object_size d"
proof -
  obtain h k where h: "gb_decoded (gd_body d) = None" "gb_store (gd_body d) = Some h" "gb_rebuild (gd_body d) = Some k" "h \<noteq> k"
      "gw_files w h \<noteq> None" "gw_files w k \<noteq> None"
    using t by (auto simp: gw_two_files_def)
  obtain r1 h1 where g: "generate_error_page E d req = Ret (r1, page)" "at_response r1 l h1" "hdr_rep h1 (error_lines page)"
    "\<not> rq_packed r1" "rq_type r1 = rq_type req" "hdr_changed l req r1"
    by (rule generate_error_page_at [OF r(1-3) E page(1)])
  define bd1 where "bd1 = (gd_body d)\<lparr>gb_store := None, gb_decoded := None, gb_rebuild := None\<rparr>"
  define w1 where "w1 = w\<lparr>gw_files := (gw_files w)(h := None, k := None)\<rparr>"
  have destroy: "gw_body_data_destroy w (gd_body d) = Ret (w1, bd1)"
    using h by (auto simp: gw_body_data_destroy_def free_file_def w1_def bd1_def)
  let ?t = "gw_calls w1" and ?n = "mb_endpos page" and ?p = "page_bytes page"
  have n: "int32 ?n = ?n" "length ?p = nat ?n" using page(2) by (simp_all add: page_ok_def page_bytes_def)
  obtain f r where nw: "gw_body_data_new E w1 bd1 ?n
      = (w1\<lparr>gw_calls := ?t + 2, gw_files := (gw_files w1)(?t \<mapsto> f, Suc ?t \<mapsto> r)\<rparr>,
         bd1\<lparr>gb_store := Some ?t, gb_rebuild := Some (Suc ?t), gb_buf_exceed := 0, gb_decoded := None\<rparr>)"
    "collected f []" "sf_flags f = 0" "sf_max_store_size f = (if 0 < int32 ?n then int32 ?n else 0)" "fresh_file r"
    by (rule gw_body_data_new_spec [OF fw, of w1 bd1 ?n])
  define w2 where "w2 = w1\<lparr>gw_calls := ?t + 2, gw_files := (gw_files w1)(?t \<mapsto> f, Suc ?t \<mapsto> r)\<rparr>"
  define bd2 where "bd2 = bd1\<lparr>gb_store := Some ?t, gb_rebuild := Some (Suc ?t), gb_buf_exceed := 0, gb_decoded := None\<rparr>"
  obtain m where m: "ge_write E (gw_calls w2) = Some m" "length ?p \<le> m" using files_workD [OF fw] by blast
  have room: "sf_max_store_size f \<noteq> 0 \<longrightarrow> int (length ([] :: bytes) + length ?p) \<le> sf_max_store_size f"
    using nw(4) n by auto
  obtain f1 where f1: "ci_simple_file_write (Some m) f ?p True = (f1, int (length ?p))" "collected f1 ([] @ ?p)"
    "sf_haseof f1 \<longleftrightarrow> True \<or> sf_haseof f" "sf_max_store_size f1 = sf_max_store_size f"
    by (rule collected_write [OF nw(2) room m(2), of True]) (use nw(3) in auto)
  define w3 where "w3 = tick (put_file ?t f1 w2)"
  have wrote: "gw_body_data_write E w2 bd2 ?p True = Ret (w3, int (length ?p))"
    using m(1) f1(1) by (simp add: gw_body_data_write_def file_at_def bd2_def w2_def w3_def)
  define d2 where "d2 = d\<lparr>gd_error_page := Some page, gd_body := bd2\<rparr>"
  define w4 where "w4 = w3\<lparr>gw_data := Some d2\<rparr>"
  have st: "gb_store bd2 = Some ?t" "gw_files w4 ?t = Some f1" "collected f1 ?p"
    using f1(2) by (simp_all add: bd2_def w4_def w3_def tick_def put_file_def)
  have ty: "rq_type r1 = ICAP_RESPMOD" using g(5) r(4) by simp
  obtain r2 h2 where c: "rebuild_content_length E w4 bd2 r1 = Ret r2" "at_response r2 l h2"
    "hdr_rep h2 (drop_header ''Content-Length'' (error_lines page) @ [content_length_line ?p])" "hdr_changed l r1 r2"
    by (rule rebuild_content_length_at [OF g(2-4) ty st E])
  have "error_body E req d w = Ret (r2, d2, w4)"
    using g(1) destroy wrote c(1) nw(1) [folded w2_def bd2_def]
    by (simp add: error_body_def Let_def page_bytes_def [symmetric] d2_def w4_def)
  then show ?thesis
    using st f1(3) c(2,3) hdr_changed_trans [OF g(6) c(4)]
    by (intro that [of r2 d2 w4 ?t f1 h2]) (simp_all add: d2_def w4_def no_length_in_error_lines)
qed

lemma at_response_unlocked [simp]: "at_response (req\<lparr>rq_data_locked := b\<rparr>) l h = at_response req l h"
proof -
  have "hdr_slot (req\<lparr>rq_data_locked := b\<rparr>) m = hdr_slot req m" for m by (cases m) simp_all
  then show ?thesis by (simp add: at_response_def ci_http_response_headers_def usable_def hdr_at_def cong: option.case_cong)
qed

lemma collected_unlock: "collected (ci_simple_file_unlock_all f) B = collected f B"
  "sf_haseof (ci_simple_file_unlock_all f) = sf_haseof f" "\<not> sf_uselock (ci_simple_file_unlock_all f)"
  by (simp_all add: ci_simple_file_unlock_all_def collected_def)

text \<open>The end of the handler, when the answer is going to be sent.\<close>

lemma unlock_serves:
  assumes "gw_data w = Some d" "gb_store (gd_body d) = Some a" "gw_files w a = Some f" "collected f X" "sf_haseof f"
  obtains w' where "gw_body_data_unlock_all w (gd_body d) = Ret w'" "gw_serves w' X" "gw_data w' = Some d"
  using assms collected_unlock [of f]
  by (intro that [of "put_file a (ci_simple_file_unlock_all f) w"])
    (auto simp: gw_body_data_unlock_all_def on_store_def file_at_def gw_serves_def store_of_def put_file_def)

text \<open>The handler with what it leaves unchanged; C36 and the response that is sent both rest on it.\<close>

lemma end_of_data_answer:
  assumes l: "gw_loaded w d B True" "gw_stats w \<noteq> None" and p: "program_ran E w B ret R" "length R < 2 ^ 31"
    and r: "at_response req l hl" "hdr_rep hl ls" "\<not> rq_packed req" "rq_type req = ICAP_RESPMOD"
    and E: "ge_realloc E = (\<lambda>_. True)" "files_work E (length (page_bytes page))"
    and page: "\<forall>r d. ge_page E r d = Some page" "page_ok page"
  shows "\<exists>req' w' res. gw_rebuild_end_of_data_handler E (req, w) = Ret ((req', w'), res)
    \<and> (if ret = GW_UNPROCESSED \<and> gd_allow204 d then res = CI_MOD_ALLOW204 \<and> req' = req
       else res = CI_MOD_DONE \<and> \<not> rq_data_locked req' \<and> gw_serves w' (fst (gw_answer ret B R page ls))
         \<and> (\<exists>hl'. at_response req' l hl' \<and> hdr_rep hl' (snd (gw_answer ret B R page ls)))
         \<and> (\<exists>q d'. req' = q\<lparr>rq_data_locked := False\<rparr> \<and> hdr_changed l req q \<and> gw_data w' = Some d'
              \<and> gd_args d' = gd_args d \<and> gd_max_object_size d' = gd_max_object_size d))"
proof -
  let ?d = "d\<lparr>gd_gw_status := ret\<rparr>"
  note run = run_program [OF l p(1), of req]
  obtain w1 h k where j: "gb_store (gd_body d) = Some h" "gb_rebuild (gd_body d) = Some k" "gw_judged w1 ?d h k B R"
    and rb: "rebuild_request_body E req d (gb_store (gd_body d)) (gb_rebuild (gd_body d)) w =
      (if ret = GW_FAILED then Ret (req, ?d, inc64 E GW_REBUILD_FAILURES w1, CI_ERROR)
       else if ret = GW_ERROR then Ret (req, ?d, inc64 E GW_REBUILD_ERRORS w1, CI_ERROR)
       else if ret = GW_UNPROCESSED then Ret (req, ?d, inc64 E GW_NOT_PROCESSED w1, CI_MOD_ALLOW204)
       else if ret = GW_REBUILT then rebuilt_body E req ?d (Some k) w1
       else Ret (req, ?d, inc64 E GW_REBUILD_ERRORS w1, CI_ERROR))"
    by (rule run)
  have dat: "gw_data w = Some d" using l(1) by (simp add: gw_loaded_def)
  have stat: "\<And>t. ge_stat E t" using E(2) by (simp add: files_work_def)
  have err: "\<exists>w2. rebuild_request_body E req d (gb_store (gd_body d)) (gb_rebuild (gd_body d)) w = Ret (req, ?d, w2, CI_ERROR)
      \<and> gw_two_files w2 ?d" if "ret \<noteq> GW_UNPROCESSED" "\<not> (ret = GW_REBUILT \<and> R \<noteq> [])"
  proof (cases "ret = GW_REBUILT")
    case True
    then have "gw_judged w1 ?d h k B []" using j(3) that(2) by simp
    then obtain w2 where "rebuilt_body E req ?d (Some k) w1 = Ret (req, ?d, w2, CI_ERROR)" "gw_two_files w2 ?d"
      by (rule judged_empty [OF _ stat])
    then show ?thesis using rb True by (simp add: ci_consts)
  next
    case False
    then show ?thesis using rb that(1) judged_two_files [OF j(3), of E] by (auto split: if_splits)
  qed
  consider (unprocessed) "ret = GW_UNPROCESSED" | (rebuilt) "ret = GW_REBUILT" "R \<noteq> []"
    | (error) w2 where "ret \<noteq> GW_UNPROCESSED" "\<not> (ret = GW_REBUILT \<and> R \<noteq> [])"
        "rebuild_request_body E req d (gb_store (gd_body d)) (gb_rebuild (gd_body d)) w = Ret (req, ?d, w2, CI_ERROR)"
        "gw_two_files w2 ?d"
    using err by blast
  then show ?thesis
  proof cases
    case unprocessed
    let ?w = "inc64 E GW_NOT_PROCESSED w1"
    have rb': "rebuild_request_body E req d (gb_store (gd_body d)) (gb_rebuild (gd_body d)) w = Ret (req, ?d, ?w, CI_MOD_ALLOW204)"
      using rb unprocessed by (simp add: ci_consts)
    obtain f where f: "gw_data ?w = Some ?d" "gb_store (gd_body ?d) = Some h" "gw_files ?w h = Some f" "collected f B" "sf_haseof f"
      using j(3) by (auto simp: gw_judged_def)
    obtain w' where w': "gw_body_data_unlock_all ?w (gd_body ?d) = Ret w'" "gw_serves w' B" "gw_data w' = Some ?d"
      by (rule unlock_serves [OF f])
    show ?thesis
      using dat rb' w' unprocessed r(1,2) hdr_changed_refl [OF r(1)]
      by (auto simp: gw_rebuild_end_of_data_handler_def gw_answer_def CI_MOD_ALLOW204_def CI_ERROR_def)
  next
    case rebuilt
    obtain req' hl' w2 f where x: "rebuilt_body E req ?d (Some k) w1 = Ret (req', ?d\<lparr>gd_body := (gd_body ?d)\<lparr>gb_store := Some k\<rparr>\<rparr>, w2, CI_OK)"
      "gw_data w2 = Some (?d\<lparr>gd_body := (gd_body ?d)\<lparr>gb_store := Some k\<rparr>\<rparr>)" "gw_files w2 k = Some f" "collected f R" "sf_haseof f"
      "at_response req' l hl'" "hdr_rep hl' (drop_header ''Content-Length'' ls @ [content_length_line R])"
      "hdr_changed l req req'"
      by (rule judged_rebuilt [OF j(3) rebuilt(2) p(2) stat E(1) r])
    let ?d2 = "?d\<lparr>gd_body := (gd_body ?d)\<lparr>gb_store := Some k\<rparr>\<rparr>"
    obtain w' where w': "gw_body_data_unlock_all w2 (gd_body ?d2) = Ret w'" "gw_serves w' R" "gw_data w' = Some ?d2"
      by (rule unlock_serves [OF x(2) _ x(3-5)]) simp_all
    show ?thesis
      using dat rb x(1,6-8) w' rebuilt
      by (auto simp: gw_rebuild_end_of_data_handler_def gw_answer_def ci_consts)
  next
    case error
    obtain req' hl' d' w3 a f where x: "error_body E req ?d w2 = Ret (req', d', w3)" "gd_allow204 d' = gd_allow204 ?d"
      "gw_data w3 = Some d'" "gb_store (gd_body d') = Some a" "gw_files w3 a = Some f" "collected f (page_bytes page)" "sf_haseof f"
      "at_response req' l hl'" "hdr_rep hl' (error_lines page @ [content_length_line (page_bytes page)])"
      "hdr_changed l req req'" "gd_args d' = gd_args ?d" "gd_max_object_size d' = gd_max_object_size ?d"
      by (rule error_answer [OF error(4) E(2,1) _ page(2) r]) (use page(1) in auto)
    obtain w' where w': "gw_body_data_unlock_all w3 (gd_body d') = Ret w'" "gw_serves w' (page_bytes page)" "gw_data w' = Some d'"
      by (rule unlock_serves [OF x(3-7)])
    show ?thesis
      using dat error(1-3) x(1,8-12) w'
      by (auto simp: gw_rebuild_end_of_data_handler_def gw_answer_def CI_MOD_ALLOW204_def CI_ERROR_def)
  qed
qed

text \<open>
  C36.  In a \<^verbatim>\<open>RESPMOD\<close> request that has a response header, with working files and memory, the verdict of the external
  program decides what the client gets, for every body, result, error page and response header: the message as it was is passed on only if the program said
  that it did not process it (with \<^verbatim>\<open>204\<close> if the client allows it), the result of the program only if it said
  "rebuilt" and wrote something, and in every other case (a failure, an error, any other exit code, a program
  that was killed or did not end in time, an empty result) the error page with status 403; \<^verbatim>\<open>Content-Length\<close> is
  that of the body which is sent, and the data is unlocked so that it is sent.
\<close>

theorem gw_rebuild_verdicts:
  assumes l: "gw_loaded w d B True" "gw_stats w \<noteq> None" and p: "program_ran E w B ret R" "length R < 2 ^ 31"
    and r: "at_response req l hl" "hdr_rep hl ls" "\<not> rq_packed req" "rq_type req = ICAP_RESPMOD"
    and E: "ge_realloc E = (\<lambda>_. True)" "files_work E (length (page_bytes page))"
    and page: "\<forall>r d. ge_page E r d = Some page" "page_ok page"
  shows "\<exists>req' w' res. gw_rebuild_end_of_data_handler E (req, w) = Ret ((req', w'), res)
    \<and> (if ret = GW_UNPROCESSED \<and> gd_allow204 d then res = CI_MOD_ALLOW204 \<and> req' = req
       else res = CI_MOD_DONE \<and> \<not> rq_data_locked req' \<and> gw_serves w' (fst (gw_answer ret B R page ls))
         \<and> (\<exists>hl'. at_response req' l hl' \<and> hdr_rep hl' (snd (gw_answer ret B R page ls))))"
  using end_of_data_answer [OF assms] by (cases "ret = GW_UNPROCESSED \<and> gd_allow204 d") auto

text \<open>
  Not so in a \<^verbatim>\<open>REQMOD\<close> request: behind the error page, which \<^verbatim>\<open>generate_error_page\<close> puts into a new response header,
  \<^verbatim>\<open>rebuild_content_length\<close> edits the request header, which is found among the released entities, and the
  response gets no \<^verbatim>\<open>Content-Length\<close>: its entities stay as they are.
\<close>

lemma request_edit_entities:
  assumes "rq_entities req ! 0 = Some e" "ee_type e \<noteq> ICAP_REQ_HDR"
  shows "remove_header ci_http_request_headers req n = Ret (req', b) \<Longrightarrow> rq_entities req' = rq_entities req"
    "add_header g ra ci_http_request_headers req line = Ret (req', b) \<Longrightarrow> rq_entities req' = rq_entities req"
proof -
  have l: "ci_http_request_headers req = Some l \<Longrightarrow> l = L_trash (nat ICAP_REQ_HDR)" for l
    using assms by (auto simp: ci_http_request_headers_def split: option.splits if_splits)
  have put: "rq_entities (hdr_put req (L_trash t) h) = rq_entities req" for t h by simp
  show "rq_entities req' = rq_entities req" if "remove_header ci_http_request_headers req n = Ret (req', b)"
    using that put by (auto simp: remove_header_def c_bind_eq_Ret dest!: l split: if_splits option.splits prod.splits)
  show "rq_entities req' = rq_entities req" if "add_header g ra ci_http_request_headers req line = Ret (req', b)"
    using that put by (auto simp: add_header_def c_bind_eq_Ret dest!: l split: if_splits option.splits prod.splits)
qed

theorem reqmod_page_without_length:
  assumes "rq_type req = ICAP_REQMOD" "rq_entities req ! 0 = Some e" "ee_type e \<noteq> ICAP_REQ_HDR"
    and "rebuild_content_length E w bd req = Ret req'"
  shows "rq_entities req' = rq_entities req"
proof -
  obtain r1 b1 r2 b2 line where r: "remove_header ci_http_request_headers req ''Content-Length'' = Ret (r1, b1)"
    "add_header (ge_fresh E) (ge_realloc E) ci_http_request_headers r1 line = Ret (req', b2)"
    using assms(1,4) by (auto simp: rebuild_content_length_def ci_http_request_remove_header_def ci_http_request_add_header_def
        c_bind_eq_Ret Let_def split: if_splits)
  have "rq_entities r1 = rq_entities req" by (rule request_edit_entities(1) [OF assms(2,3) r(1)])
  then show ?thesis using request_edit_entities(2) [OF _ assms(3) r(2)] assms(2) by simp
qed

text \<open>A response with two header lines and the body \<^verbatim>\<open>abc\<close>, collected in the first of two files.\<close>

definition demo_file :: "bytes \<Rightarrow> 32 word \<Rightarrow> ci_simple_file" where
  "demo_file B fl = \<lparr>sf_endpos = int (length B), sf_readpos = 0, sf_max_store_size = 0, sf_bytes_in = 0, sf_bytes_out = 0,
     sf_flags = fl, sf_unlocked = 0, sf_fd = 5, sf_filename = ''t'', sf_mmap = None, sf_file = B\<rparr>"

definition demo_body :: gw_rebuild_req_data where
  "demo_body = demo_data\<lparr>gd_body := empty_body\<lparr>gb_store := Some 0, gb_rebuild := Some 1\<rparr>, gd_max_object_size := 10\<rparr>"

definition demo_loaded :: gw_world where
  "demo_loaded = demo_world\<lparr>gw_calls := 2, gw_files := [0 \<mapsto> demo_file ''abc'' (CI_FILE_USELOCK OR CI_FILE_HAS_EOF), 1 \<mapsto> demo_file [] 0],
     gw_data := Some demo_body\<rparr>"

definition demo_response :: ci_request where
  "demo_response = new_request\<lparr>rq_type := ICAP_RESPMOD, rq_entities := [Some res_hdr_entity, Some res_body_entity, None, None, None]\<rparr>"

lemma demo_loaded_facts:
  "gw_loaded demo_loaded demo_body ''abc'' True" "gw_stats demo_loaded \<noteq> None" "program_ran demo_gw demo_loaded ''abc'' GW_REBUILT ''R''"
  "at_response demo_response (L_entity 0) two_headers" "\<not> rq_packed demo_response" "rq_type demo_response = ICAP_RESPMOD"
  "page_bytes demo_page = ''no''" "page_ok demo_page"
proof -
  show "gw_loaded demo_loaded demo_body ''abc'' True" "gw_stats demo_loaded \<noteq> None" "page_bytes demo_page = ''no''" "page_ok demo_page"
    by (simp_all add: gw_loaded_def demo_loaded_def demo_world_def demo_body_def demo_data_def empty_body_def demo_file_def collected_def
        fresh_file_def page_bytes_def demo_page_def page_ok_def)
  show "program_ran demo_gw demo_loaded ''abc'' GW_REBUILT ''R''"
    by (simp add: program_ran_def demo_gw_def exec_prog_def GW_REBUILT_def eval_nat_numeral)
  show "at_response demo_response (L_entity 0) two_headers" "\<not> rq_packed demo_response" "rq_type demo_response = ICAP_RESPMOD"
    by (simp_all add: at_response_def demo_response_def ci_http_response_headers_def usable_def hdr_at_def res_hdr_entity_def
        ICAP_RES_HDR_def new_request_def ci_request_alloc_def ci_headers_create_def)
qed

theorem gw_rebuild_verdicts_witness:
  "\<exists>req' w'. gw_rebuild_end_of_data_handler demo_gw (demo_response, demo_loaded) = Ret ((req', w'), CI_MOD_DONE)
    \<and> \<not> rq_data_locked req' \<and> gw_serves w' ''R''
    \<and> (\<exists>hl'. at_response req' (L_entity 0) hl' \<and> hdr_rep hl' [''Via: x'', ''Host: example.'', ''Content-Length: 1''])"
proof -
  have a: "gw_answer GW_REBUILT ''abc'' ''R'' demo_page [''Via: x'', ''Host: example.'']
      = (''R'', [''Via: x'', ''Host: example.'', ''Content-Length: 1''])" by code_simp
  have E: "ge_realloc demo_gw = (\<lambda>_. True)" "files_work demo_gw (length (page_bytes demo_page))"
      "\<forall>r d. ge_page demo_gw r d = Some demo_page"
    by (simp_all add: demo_loaded_facts) (simp_all add: demo_gw_def)
  have n: "GW_REBUILT \<noteq> GW_UNPROCESSED" by (simp add: ci_consts)
  from gw_rebuild_verdicts [OF demo_loaded_facts(1-3) _ demo_loaded_facts(4) two_headers_rep demo_loaded_facts(5,6) E demo_loaded_facts(8)]
  show ?thesis unfolding a using n by auto
qed

section \<open>A file destroyed twice\<close>

lemma rebuilt_handler:
  assumes l: "gw_loaded w d B True" "gw_stats w \<noteq> None" and p: "program_ran E w B GW_REBUILT R" "length R < 2 ^ 31" "R \<noteq> []"
    and r: "at_response req l hl" "hdr_rep hl ls" "\<not> rq_packed req" "rq_type req = ICAP_RESPMOD"
    and E: "ge_realloc E = (\<lambda>_. True)" "\<forall>t. ge_stat E t"
  obtains req' w' k where "gw_rebuild_end_of_data_handler E (req, w) = Ret ((req', w'), CI_MOD_DONE)" "gw_serves w' R"
    "gb_rebuild (gd_body d) = Some k"
    "gw_data w' = Some (d\<lparr>gd_gw_status := GW_REBUILT, gd_body := (gd_body d)\<lparr>gb_store := Some k\<rparr>\<rparr>)"
proof -
  let ?d = "d\<lparr>gd_gw_status := GW_REBUILT\<rparr>"
  have ne: "GW_REBUILT \<noteq> GW_FAILED" "GW_REBUILT \<noteq> GW_ERROR" "GW_REBUILT \<noteq> GW_UNPROCESSED" by (simp_all add: ci_consts)
  obtain w1 h k where j: "gb_rebuild (gd_body d) = Some k" "gw_judged w1 ?d h k B R"
    and rb: "rebuild_request_body E req d (gb_store (gd_body d)) (gb_rebuild (gd_body d)) w = rebuilt_body E req ?d (Some k) w1"
    by (rule run_program [OF l p(1), of req]) (use ne in auto)
  let ?d2 = "?d\<lparr>gd_body := (gd_body ?d)\<lparr>gb_store := Some k\<rparr>\<rparr>"
  obtain req' hl' w2 f where x: "rebuilt_body E req ?d (Some k) w1 = Ret (req', ?d2, w2, CI_OK)"
    "gw_data w2 = Some ?d2" "gw_files w2 k = Some f" "collected f R" "sf_haseof f"
    by (rule judged_rebuilt [OF j(2) p(3,2) _ E(1) r]) (use E(2) in auto)
  obtain w' where w': "gw_body_data_unlock_all w2 (gd_body ?d2) = Ret w'" "gw_serves w' R" "gw_data w' = Some ?d2"
    by (rule unlock_serves [OF x(2) _ x(3-5)]) simp_all
  have "gw_data w = Some d" using l(1) by (simp add: gw_loaded_def)
  then have "gw_rebuild_end_of_data_handler E (req, w) = Ret ((req'\<lparr>rq_data_locked := False\<rparr>, w'), CI_MOD_DONE)"
    using rb x(1) w'(1) by (simp add: gw_rebuild_end_of_data_handler_def ci_consts)
  then show ?thesis using that w'(2,3) j(1) by simp
qed

text \<open>
  C37.  After a successful rebuild the store and \<^verbatim>\<open>rebuild\<close> of the body are the same file, and when the
  data of the request is released with \<^verbatim>\<open>DataCleanup\<close> on, \<^verbatim>\<open>gw_body_data_destroy\<close> destroys it as the one and then
  as the other: every successfully rebuilt message ends in undefined behaviour (a defect of the code).
\<close>

theorem gw_rebuild_destroys_twice:
  assumes l: "gw_loaded w d B True" "gw_stats w \<noteq> None" and p: "program_ran E w B GW_REBUILT R" "length R < 2 ^ 31" "R \<noteq> []"
    and r: "at_response req l hl" "hdr_rep hl ls" "\<not> rq_packed req" "rq_type req = ICAP_RESPMOD"
    and E: "ge_realloc E = (\<lambda>_. True)" "\<forall>t. ge_stat E t" "DATA_CLEANUP E"
  shows "\<exists>req' w'. gw_rebuild_end_of_data_handler E (req, w) = Ret ((req', w'), CI_MOD_DONE)
    \<and> gw_rebuild_release_request_data E w' = Undef"
proof -
  obtain req' w' k where h: "gw_rebuild_end_of_data_handler E (req, w) = Ret ((req', w'), CI_MOD_DONE)" "gw_serves w' R"
    "gb_rebuild (gd_body d) = Some k"
    "gw_data w' = Some (d\<lparr>gd_gw_status := GW_REBUILT, gd_body := (gd_body d)\<lparr>gb_store := Some k\<rparr>\<rparr>)"
    by (rule rebuilt_handler [OF l p r E(1,2)])
  have dec: "gb_decoded (gd_body d) = None" using l(1) by (simp add: gw_loaded_def)
  have "gw_files w' k \<noteq> None" using h(2,4) by (auto simp: gw_serves_def store_of_def)
  then have "gw_rebuild_release_request_data E w' = Undef"
    using h(3,4) E(3) dec by (auto simp: gw_rebuild_release_request_data_def gw_body_data_destroy_def free_file_def)
  then show ?thesis using h(1) by blast
qed

theorem gw_rebuild_destroys_twice_witness:
  "\<exists>req' w'. gw_rebuild_end_of_data_handler demo_gw (demo_response, demo_loaded) = Ret ((req', w'), CI_MOD_DONE)
    \<and> gw_rebuild_release_request_data demo_gw w' = Undef"
  by (rule gw_rebuild_destroys_twice [OF demo_loaded_facts(1-3) _ _ demo_loaded_facts(4) two_headers_rep demo_loaded_facts(5,6)])
    (simp_all add: demo_gw_def)

section \<open>Sending the answer\<close>

text \<open>
  A store from which \<open>C\<close> is still to be sent: unlocked, complete, not used as a ring, read in whole
  blocks, and, which the sending loop needs, below the limit that \<^verbatim>\<open>gw_rebuild_read_from_net\<close> tests at
  every call.
\<close>

definition serving :: "ci_simple_file \<Rightarrow> bytes \<Rightarrow> bool" where
  "serving f C \<longleftrightarrow> sf_invar f \<and> sf_readpos f \<le> sf_endpos f \<and> sf_contents f = C \<and> sf_haseof f \<and> \<not> sf_uselock f
     \<and> int (length (sf_file f)) < 2 ^ 31"

definition full_reads :: "gw_env \<Rightarrow> bool" where
  "full_reads E \<longleftrightarrow> (\<forall>t. \<exists>k. ge_read E t = Some k \<and> MAX_CHUNK_SIZE \<le> k)"

definition gw_rest :: "gw_world \<Rightarrow> bytes" where
  "gw_rest w = (case store_of w of None \<Rightarrow> [] | Some h \<Rightarrow> (case gw_files w h of None \<Rightarrow> [] | Some f \<Rightarrow> sf_contents f))"

definition gw_sending :: "gw_env \<Rightarrow> gw_world \<Rightarrow> bool" where
  "gw_sending E w \<longleftrightarrow> full_reads E \<and> (\<exists>d h f. gw_data w = Some d \<and> gb_store (gd_body d) = Some h \<and> gw_files w h = Some f
     \<and> serving f (sf_contents f) \<and> (ga_sizelimit (gd_args d) \<longrightarrow> sf_endpos f < gd_max_object_size d))"

lemma serving_read:
  assumes s: "serving f C" and k: "n \<le> k" "0 < n"
  obtains f' where "ci_simple_file_read (Some k) f (int n) = Ret (f', if C = [] then CI_EOF else int (length (take n C)), take n C)"
    "serving f' (drop n C)" "sf_endpos f' = sf_endpos f"
proof (cases "sf_readpos f = sf_endpos f")
  case True
  then have "C = []" using s by (auto simp: serving_def sf_contents_def)
  with True s k show ?thesis by (intro that [of f]) (simp_all add: ci_simple_file_read_def serving_def)
next
  case False
  then have lt: "sf_readpos f < sf_endpos f" using s by (simp add: serving_def)
  have f: "sf_invar f" "int (length (sf_file f)) < 2 ^ 31" "\<not> sf_uselock f" "sf_contents f = C" using s by (simp_all add: serving_def)
  have len: "length C = sf_run f" "C \<noteq> []"
  proof -
    have "nat (sf_readpos f) + sf_run f \<le> length (sf_file f)"
      by (rule sf_advance(3) [OF f(1), of 0]) (use lt in simp_all)
    moreover have "nat (sf_readpos f) \<le> nat (sf_endpos f)" "0 \<le> sf_readpos f" using lt f(1) by (auto simp: sf_invar_def)
    then have "C = seg (nat (sf_readpos f)) (sf_run f) (sf_file f)"
      using f(4) lt by (simp add: sf_contents_def sf_run_def Let_def nat_diff_distrib)
    ultimately show "length C = sf_run f" by simp
    then show "C \<noteq> []" using lt by (auto simp: sf_run_def)
  qed
  let ?out = "take n C"
  have out: "?out = take k (take (nat (int n)) (sf_contents f))" using k(1) f(4) by (simp add: min_absorb2)
  have n: "length ?out \<le> sf_run f" using len(1) by simp
  let ?f = "f\<lparr>sf_readpos := sf_readpos f + int (length ?out), sf_bytes_out := sf_bytes_out f + int (length ?out)\<rparr>"
  have adv: "sf_invar ?f" "sf_contents f = seg (nat (sf_readpos f)) (length ?out) (sf_file f) @ sf_contents ?f"
    using sf_advance(1,2) [OF f(1) _ n] lt by simp_all
  have "length (seg (nat (sf_readpos f)) (length ?out) (sf_file f)) = length ?out"
    using sf_advance(3) [OF f(1) _ n] lt n by simp
  then have "sf_contents ?f = drop (length ?out) C" using adv(2) f(4) by (metis append_eq_conv_conj)
  moreover have "drop (length ?out) C = drop n C" by (simp add: min_def)
  moreover have "sf_readpos ?f \<le> sf_endpos ?f" using n lt by (simp add: sf_run_def)
  ultimately have "serving ?f (drop n C)" using s adv(1) by (simp add: serving_def)
  then show ?thesis
    using sf_read_linear [OF f(1-3) lt _ out] k(2) len(2) by (intro that [of ?f]) simp_all
qed

text \<open>A call of the sending loop: the end is signalled again, without effect, and a block is read.\<close>

lemma gw_io_sends:
  assumes "gw_sending E w"
  obtains w' where "gw_io E (Some MAX_CHUNK_SIZE) None True (req, w)
      = Some ((req, w'), take MAX_CHUNK_SIZE (gw_rest w),
          if gw_rest w = [] then CI_EOF else int (length (take MAX_CHUNK_SIZE (gw_rest w))), 0, CI_OK)"
    "gw_sending E w'" "gw_rest w' = drop MAX_CHUNK_SIZE (gw_rest w)"
proof -
  obtain d h f where a: "gw_data w = Some d" "gb_store (gd_body d) = Some h" "gw_files w h = Some f"
      "serving f (sf_contents f)" "ga_sizelimit (gd_args d) \<longrightarrow> sf_endpos f < gd_max_object_size d"
    and fr: "full_reads E"
    using assms by (auto simp: gw_sending_def)
  have rest: "gw_rest w = sf_contents f" using a(1-3) by (simp add: gw_rest_def store_of_def)
  define w1 where "w1 = tick (put_file h f w)"
  have rd: "gw_rebuild_read_from_net E w [] True = Ret (w1, 0)"
    using a by (auto simp: gw_rebuild_read_from_net_def gw_body_data_size_def file_at_def gw_body_data_write_def
        ci_simple_file_write_def serving_def w1_def)
  obtain k where k: "ge_read E (gw_calls w1) = Some k" "MAX_CHUNK_SIZE \<le> k" using fr by (auto simp: full_reads_def)
  obtain f' where f': "ci_simple_file_read (Some k) f (int MAX_CHUNK_SIZE)
      = Ret (f', if sf_contents f = [] then CI_EOF else int (length (take MAX_CHUNK_SIZE (sf_contents f))), take MAX_CHUNK_SIZE (sf_contents f))"
    "serving f' (drop MAX_CHUNK_SIZE (sf_contents f))" "sf_endpos f' = sf_endpos f"
    by (rule serving_read [OF a(4) k(2)]) (simp add: MAX_CHUNK_SIZE_def)
  let ?w = "tick (put_file h f' w1)"
  have io: "gw_io E (Some MAX_CHUNK_SIZE) None True (req, w)
      = Some ((req, ?w), take MAX_CHUNK_SIZE (gw_rest w),
          if gw_rest w = [] then CI_EOF else int (length (take MAX_CHUNK_SIZE (gw_rest w))), 0, CI_OK)"
    using rd k(1) f'(1) a(1-3) rest
    by (simp add: gw_io_def returned_def gw_rebuild_io_def gw_rebuild_write_to_net_def gw_body_data_read_def file_at_def
        w1_def CI_ERROR_def tick_def put_file_def)
  have "gw_sending E ?w" using a f'(2,3) fr
    by (auto simp: gw_sending_def w1_def tick_def put_file_def serving_def)
  moreover have "gw_rest ?w = drop MAX_CHUNK_SIZE (gw_rest w)"
    using a(1,2) f'(2) rest by (simp add: gw_rest_def store_of_def w1_def tick_def put_file_def serving_def)
  ultimately show ?thesis using io by (intro that)
qed

interpretation gwsrc: body_source "gw_io E" "\<lambda>rs. gw_sending E (snd rs)" "\<lambda>rs. blocks_of MAX_CHUNK_SIZE (gw_rest (snd rs))" for E
proof
  show "\<exists>q s' n st. gw_io E (Some MAX_CHUNK_SIZE) None True (req, s) = Some ((q, s'), d, int (length d), n, st)
      \<and> io_frame req q \<and> gw_sending E (snd (q, s')) \<and> blocks_of MAX_CHUNK_SIZE (gw_rest (snd (q, s'))) = ds"
    if o: "gw_sending E (snd (req, s))" and e: "blocks_of MAX_CHUNK_SIZE (gw_rest (snd (req, s))) = d # ds" for req s d ds
  proof -
    have d: "gw_rest s \<noteq> []" "d = take MAX_CHUNK_SIZE (gw_rest s)" "ds = blocks_of MAX_CHUNK_SIZE (drop MAX_CHUNK_SIZE (gw_rest s))"
      using e by (subst (asm) blocks_of.simps; simp split: if_splits)+
    obtain w' where "gw_io E (Some MAX_CHUNK_SIZE) None True (req, s)
      = Some ((req, w'), take MAX_CHUNK_SIZE (gw_rest s),
          if gw_rest s = [] then CI_EOF else int (length (take MAX_CHUNK_SIZE (gw_rest s))), 0, CI_OK)"
      "gw_sending E w'" "gw_rest w' = drop MAX_CHUNK_SIZE (gw_rest s)"
      by (rule gw_io_sends [of E s req]) (use o in simp)
    with d show ?thesis by (simp add: io_frame_def)
  qed
  show "\<exists>q s' n st. gw_io E (Some MAX_CHUNK_SIZE) None True (req, s) = Some ((q, s'), [], CI_EOF, n, st)
      \<and> io_frame req q \<and> gw_sending E (snd (q, s')) \<and> blocks_of MAX_CHUNK_SIZE (gw_rest (snd (q, s'))) = []"
    if o: "gw_sending E (snd (req, s))" and e: "blocks_of MAX_CHUNK_SIZE (gw_rest (snd (req, s))) = []" for req s
  proof -
    have z: "gw_rest s = []"
      using e by (subst (asm) blocks_of.simps) (simp add: MAX_CHUNK_SIZE_def split: if_splits)
    obtain w' where "gw_io E (Some MAX_CHUNK_SIZE) None True (req, s)
      = Some ((req, w'), take MAX_CHUNK_SIZE (gw_rest s),
          if gw_rest s = [] then CI_EOF else int (length (take MAX_CHUNK_SIZE (gw_rest s))), 0, CI_OK)"
      "gw_sending E w'" "gw_rest w' = drop MAX_CHUNK_SIZE (gw_rest s)"
      by (rule gw_io_sends [of E s req]) (use o in simp)
    with z show ?thesis by (simp add: io_frame_def blocks_of.simps)
  qed
  show "d \<noteq> [] \<and> length d \<le> MAX_CHUNK_SIZE"
    if "gw_sending E (snd (req, s))" "d \<in> set (blocks_of MAX_CHUNK_SIZE (gw_rest (snd (req, s))))" for req s d
    using that blocks_of_size [of d MAX_CHUNK_SIZE] by simp
qed simp

section \<open>A response without end\<close>

text \<open>
  A store that has reached the limit: \<^verbatim>\<open>gw_rebuild_io\<close> returns \<^verbatim>\<open>CI_ERROR\<close> and leaves the length alone, which
  \<^verbatim>\<open>send_remaining_response\<close> does not look at.
\<close>

definition over_limit :: "gw_world \<Rightarrow> bool" where
  "over_limit w \<longleftrightarrow> (\<exists>d h f. gw_data w = Some d \<and> gb_store (gd_body d) = Some h \<and> gw_files w h = Some f
     \<and> ga_sizelimit (gd_args d) \<and> gd_max_object_size d \<le> sf_endpos f)"

lemma over_limit_io:
  assumes "over_limit w"
  shows "gw_io E (Some n) None True (req, w) = Some ((req, w), [], int n, 0, CI_ERROR)"
  using assms
  by (auto simp: over_limit_def gw_io_def returned_def gw_rebuild_io_def gw_rebuild_read_from_net_def gw_body_data_size_def
      file_at_def len_of_def)

definition in_body :: "ci_request \<Rightarrow> bytes \<Rightarrow> bool" where
  "in_body req blk \<longleftrightarrow> rq_status req = SEND_BODY \<and> rq_responce_hasbody req
     \<and> length (rq_wbuf req) = EXTRA_CHUNK_SIZE + MAX_CHUNK_SIZE + 2 \<and> current_block req blk"

lemma stale_block:
  assumes "over_limit w" "in_body req []"
  obtains q d where "body_step (gw_io E) (req, w) = Some (Ret ((q, w), None))" "in_body q (chunk_wire d)" "length d = MAX_CHUNK_SIZE"
proof -
  let ?W = "rq_wbuf req" and ?d = "seg EXTRA_CHUNK_SIZE MAX_CHUNK_SIZE (rq_wbuf req)"
  have b: "rq_status req = SEND_BODY" "rq_responce_hasbody req" "length ?W = EXTRA_CHUNK_SIZE + MAX_CHUNK_SIZE + 2" "rq_remain req = 0"
    using assms(2) by (simp_all add: in_body_def current_block_def)
  have d: "length ?d = MAX_CHUNK_SIZE" "?d \<noteq> []" using b(3) by (simp_all add: seg_def MAX_CHUNK_SIZE_def EXTRA_CHUNK_SIZE_def)
  have same: "mem_write EXTRA_CHUNK_SIZE ?d ?W = ?W"
    using d(1) by (simp add: mem_write_def seg_def) (metis append_assoc append_take_drop_id drop_drop add.commute)
  let ?q = "req\<lparr>rq_block := R_wbuf EXTRA_CHUNK_SIZE, rq_remain := int MAX_CHUNK_SIZE\<rparr>"
  obtain v x y z where f: "apply_format ?q = Ret (?q\<lparr>rq_wbuf := v, rq_block := R_wbuf x,
        rq_remain := int (length (chunk_wire ?d)), rq_http_bytes_out := y, rq_body_bytes_out := z\<rparr>, CI_OK)"
      "length v = length ?W" "x + length (chunk_wire ?d) \<le> length v" "seg x (length (chunk_wire ?d)) v = chunk_wire ?d"
    using apply_format_data [of ?q ?d ?W] d b(2,3) same by auto
  let ?z = "?q\<lparr>rq_wbuf := v, rq_block := R_wbuf x, rq_remain := int (length (chunk_wire ?d)),
      rq_http_bytes_out := y, rq_body_bytes_out := z\<rparr>"
  have "body_step (gw_io E) (req, w) = Some (Ret ((?z, w), None))"
    using b(1,4) over_limit_io [OF assms(1), of E MAX_CHUNK_SIZE ?q] f(1)
    by (simp add: body_step_def Let_def mem_write_Nil CI_ERROR_def CI_OK_def CI_EOF_def MAX_CHUNK_SIZE_def)
  moreover have "in_body ?z (chunk_wire ?d)"
    using b f(2-4) by (simp add: in_body_def current_block_wbuf [of _ x])
  ultimately show ?thesis using d(1) by (intro that)
qed

lemma prepend_out_twice: "prepend_out a (prepend_out b r) = prepend_out (a @ b) r"
  by (cases "(b, r)" rule: prepend_out.cases) simp_all

lemma send_loop_take:
  assumes "in_body req blk" "blk \<noteq> []" "1 \<le> k"
  obtains m q where "1 \<le> m" "m \<le> length blk" "in_body q (drop m blk)"
    "\<And>es r. send_loop g ra sv sio es (q, s) = Some r \<Longrightarrow>
      send_loop g ra sv sio (Out_take k # es) (req, s) = Some (prepend_out (take m blk) r)"
proof -
  have cur: "current_block req blk" using assms(1) by (simp add: in_body_def)
  obtain m z where m: "1 \<le> m" "m \<le> length blk" and step: "send_current_block_data (Out_take k) req =
      Ret (req\<lparr>rq_block := resp_add (rq_block req) m, rq_remain := rq_remain req - int m,
             rq_bytes_out := rq_bytes_out req + of_nat m, rq_http_bytes_out := z\<rparr>, take m blk, int (length blk - m))"
    and cur': "current_block (req\<lparr>rq_block := resp_add (rq_block req) m, rq_remain := rq_remain req - int m,
      rq_bytes_out := rq_bytes_out req + of_nat m, rq_http_bytes_out := z\<rparr>) (drop m blk)"
    by (rule send_current_step [OF cur assms(2,3)])
  let ?q = "req\<lparr>rq_block := resp_add (rq_block req) m, rq_remain := rq_remain req - int m,
      rq_bytes_out := rq_bytes_out req + of_nat m, rq_http_bytes_out := z\<rparr>"
  have b: "0 < rq_remain req" using cur assms(2) by (simp add: current_block_def)
  have blk: "send_block_loop (Out_take k # es) req
      = c_bind (send_block_loop es ?q) (\<lambda>(req2, out2, ok, es2). Ret (req2, take m blk @ out2, ok, es2))" for es
    using b step by (simp add: CI_ERROR_def)
  have "send_loop g ra sv sio (Out_take k # es) (req, s) = Some (prepend_out (take m blk) r)"
    if r: "send_loop g ra sv sio es (?q, s) = Some r" for es r
  proof -
    define S where "S = send_block_loop es ?q"
    from r show ?thesis
      unfolding send_loop.simps [of _ _ _ _ "Out_take k # es"] send_loop.simps [of _ _ _ _ es] fst_conv snd_conv blk S_def [symmetric]
      by (cases S) (auto simp: prepend_out_twice split: prod.splits option.splits c_result.splits if_splits Option.bind_splits)
  qed
  with m cur' assms(1) show ?thesis by (intro that [of m ?q]) (simp_all add: in_body_def)
qed

lemma stale_body_never_ends:
  assumes "over_limit w" "in_body req blk" "\<forall>k \<in> set ks. 1 \<le> k"
  shows "\<exists>q out ds. send_loop g ra sv (gw_io E) (map Out_take ks) (req, w) = Some (Ret ((q, w), out, CI_ERROR, []))
    \<and> length ks \<le> length out \<and> (\<forall>d \<in> set ds. length d = MAX_CHUNK_SIZE)
    \<and> (\<exists>rest. out @ rest = blk @ concat (map chunk_wire ds))"
proof -
  let ?send = "send_loop g ra sv (gw_io E)"
  let ?goal = "\<lambda>ks req blk. \<exists>q out ds. ?send (map Out_take ks) (req, w) = Some (Ret ((q, w), out, CI_ERROR, []))
    \<and> length ks \<le> length out \<and> (\<forall>d \<in> set ds. length d = MAX_CHUNK_SIZE) \<and> (\<exists>rest. out @ rest = blk @ concat (map chunk_wire ds))"
  have nxt: "?goal ks req []" if goal: "\<And>q d. in_body q (chunk_wire d) \<Longrightarrow> length d = MAX_CHUNK_SIZE \<Longrightarrow> ?goal ks q (chunk_wire d)"
    and b: "in_body req []" for ks req
  proof -
    obtain q d where s: "body_step (gw_io E) (req, w) = Some (Ret ((q, w), None))" "in_body q (chunk_wire d)" "length d = MAX_CHUNK_SIZE"
      by (rule stale_block [OF assms(1) b])
    obtain q2 out ds rest where g: "?send (map Out_take ks) (q, w) = Some (Ret ((q2, w), out, CI_ERROR, []))"
        "length ks \<le> length out" "\<forall>d \<in> set ds. length d = MAX_CHUNK_SIZE" "out @ rest = chunk_wire d @ concat (map chunk_wire ds)"
      using goal [OF s(2,3)] by blast
    have "send_block_loop (map Out_take ks) req = Ret (req, [], True, map Out_take ks)"
      using b by (cases ks) (simp_all add: in_body_def current_block_def)
    moreover have "update_send_status g ra sv q = Ret (q, CI_OK)"
      using s(2) by (simp add: update_send_status_def in_body_def ci_consts)
    ultimately have "?send (map Out_take ks) (req, w) = Some (Ret ((q2, w), out, CI_ERROR, []))"
      using s(1) g(1) by (subst send_loop.simps) (simp add: CI_OK_def)
    with g s(3) show ?thesis by (intro exI [of _ q2] exI [of _ out] exI [of _ "d # ds"]) auto
  qed
  from assms(2,3) show ?thesis
  proof (induction ks arbitrary: req blk)
    case Nil
    have base: "?goal [] req blk" if "in_body req blk" "blk \<noteq> []" for req blk
    proof -
      have "0 < rq_remain req" using that by (simp add: in_body_def current_block_def)
      then have "?send (map Out_take []) (req, w) = Some (Ret ((req, w), [], CI_ERROR, []))"
        by (subst send_loop.simps) simp
      then show ?thesis by (intro exI [of _ req] exI [of _ "[]"]) auto
    qed
    show ?case
    proof (cases "blk = []")
      case True
      then show ?thesis using nxt [of "[]" req] base chunk_wire_nonempty Nil.prems(1) by blast
    qed (rule base [OF Nil.prems(1)])
  next
    case (Cons k ks)
    have step: "?goal (k # ks) req blk" if b: "in_body req blk" "blk \<noteq> []" for req blk
    proof -
      obtain m q where m: "1 \<le> m" "m \<le> length blk" "in_body q (drop m blk)"
        "\<And>es r. ?send es (q, w) = Some r \<Longrightarrow> ?send (Out_take k # es) (req, w) = Some (prepend_out (take m blk) r)"
        by (rule send_loop_take [OF b, of k g ra sv "gw_io E" w]) (use Cons.prems(2) in auto)
      obtain q2 out ds rest where g: "?send (map Out_take ks) (q, w) = Some (Ret ((q2, w), out, CI_ERROR, []))"
          "length ks \<le> length out" "\<forall>d \<in> set ds. length d = MAX_CHUNK_SIZE" "out @ rest = drop m blk @ concat (map chunk_wire ds)"
        using Cons.IH [OF m(3)] Cons.prems(2) by auto
      have "?send (map Out_take (k # ks)) (req, w) = Some (Ret ((q2, w), take m blk @ out, CI_ERROR, []))"
        using m(4) [OF g(1)] by simp
      moreover have "(take m blk @ out) @ rest = blk @ concat (map chunk_wire ds)" using g(4) by simp
      moreover have "length (k # ks) \<le> length (take m blk @ out)" using m(1,2) g(2) by simp
      ultimately show ?thesis using g(3) by blast
    qed
    show ?case
    proof (cases "blk = []")
      case True
      then show ?thesis using nxt [of "k # ks" req] step chunk_wire_nonempty Cons.prems(1) by blast
    qed (rule step [OF Cons.prems(1)])
  qed
qed

text \<open>
  C38.  When the size limit is on and the program returns a result that is not below the limit, the response
  does not end: \<^verbatim>\<open>gw_rebuild_io\<close> refuses each call with an error that \<^verbatim>\<open>send_remaining_response\<close> ignores, and the
  server sends chunk after chunk of whatever is in its buffer, for as long as the client takes them (at
  least as many bytes as there were writes), without ever sending a byte of the result or the last
  chunk (a defect of the code).
\<close>

theorem gw_rebuild_endless_response:
  assumes l: "gw_loaded w d B True" "gw_stats w \<noteq> None" and p: "program_ran E w B GW_REBUILT R" "length R < 2 ^ 31" "R \<noteq> []"
    and big: "ga_sizelimit (gd_args d)" "gd_max_object_size d \<le> int (length R)"
    and r: "at_response req l hl" "hdr_rep hl ls" "\<not> rq_packed req" "rq_type req = ICAP_RESPMOD"
    and E: "ge_realloc E = (\<lambda>_. True)" "\<forall>t. ge_stat E t"
    and q: "in_body q []" "rq_echo_body q = None" "\<forall>k \<in> set ks. 1 \<le> k"
  shows "\<exists>req' w' q' out ds rest. gw_rebuild_end_of_data_handler E (req, w) = Ret ((req', w'), CI_MOD_DONE)
    \<and> send_remaining_response g ra sv (gw_service E) (map Out_take ks) (q, w') = Some (Ret ((q', w'), out, CI_ERROR, []))
    \<and> length ks \<le> length out \<and> (\<forall>d \<in> set ds. length d = MAX_CHUNK_SIZE) \<and> out @ rest = concat (map chunk_wire ds)"
proof -
  obtain req' w' k where h: "gw_rebuild_end_of_data_handler E (req, w) = Ret ((req', w'), CI_MOD_DONE)" "gw_serves w' R"
    "gw_data w' = Some (d\<lparr>gd_gw_status := GW_REBUILT, gd_body := (gd_body d)\<lparr>gb_store := Some k\<rparr>\<rparr>)"
    by (rule rebuilt_handler [OF l p r E])
  have over: "over_limit w'"
    using h(2,3) big by (auto simp: over_limit_def gw_serves_def store_of_def collected_def)
  have "send_remaining_response g ra sv (gw_service E) (map Out_take ks) (q, w') = send_loop g ra sv (gw_io E) (map Out_take ks) (q, w')"
    using q(1,2) by (simp add: send_remaining_response_def pick_io_def in_body_def ci_consts)
  with stale_body_never_ends [OF over q(1,3), of g ra sv E] h(1) show ?thesis by fastforce
qed

text \<open>The limit of the example is lowered to the size of the result.\<close>

definition sending_body :: ci_request where
  "sending_body = new_request\<lparr>rq_status := SEND_BODY, rq_responce_hasbody := True, rq_remain := 0\<rparr>"

theorem gw_rebuild_endless_response_witness:
  "\<exists>req' w' q' out ds rest. gw_rebuild_end_of_data_handler demo_gw (demo_response,
        demo_loaded\<lparr>gw_data := Some (demo_body\<lparr>gd_max_object_size := 1\<rparr>)\<rparr>) = Ret ((req', w'), CI_MOD_DONE)
    \<and> send_remaining_response (\<lambda>_. NUL) (\<lambda>_. True) demo_server (gw_service demo_gw) (map Out_take [1, 1000]) (sending_body, w')
        = Some (Ret ((q', w'), out, CI_ERROR, []))
    \<and> length [1 :: nat, 1000] \<le> length out \<and> (\<forall>d \<in> set ds. length d = MAX_CHUNK_SIZE) \<and> out @ rest = concat (map chunk_wire ds)"
proof (rule gw_rebuild_endless_response)
  let ?w = "demo_loaded\<lparr>gw_data := Some (demo_body\<lparr>gd_max_object_size := 1\<rparr>)\<rparr>"
  show "gw_loaded ?w (demo_body\<lparr>gd_max_object_size := 1\<rparr>) ''abc'' True" "gw_stats ?w \<noteq> None"
      "program_ran demo_gw ?w ''abc'' GW_REBUILT ''R''"
    using demo_loaded_facts(1-3) by (simp_all add: gw_loaded_def program_ran_def demo_body_def)
  show "at_response demo_response (L_entity 0) two_headers" "hdr_rep two_headers [''Via: x'', ''Host: example.'']"
      "\<not> rq_packed demo_response" "rq_type demo_response = ICAP_RESPMOD"
    using demo_loaded_facts(4-6) two_headers_rep by simp_all
  show "in_body sending_body []"
    using new_request_wbuf by (simp add: in_body_def sending_body_def current_block_def)
  show "rq_echo_body sending_body = None"
    by (simp add: sending_body_def new_request_def ci_request_alloc_def ci_headers_create_def)
qed (simp_all add: demo_gw_def demo_body_def demo_data_def)

end
