(* ===== verification/Full_Response.thy ===== *)
theory Full_Response
  imports Process Simple_Api
begin

text \<open>
  A response from the end of the body to the last chunk: \<^verbatim>\<open>mk_responce_header\<close>, \<^verbatim>\<open>ci_response_pack\<close> and
  \<^verbatim>\<open>send_remaining_response\<close> together, for a message with a header and a body and any service that supplies
  the body as the locale \<^verbatim>\<open>body_source\<close> says.  These are lemmas that the properties of the services rest on.
\<close>

lemma pack_header_entity:
  assumes "is_header_type (ee_type e)" "ee_entity e = Some h" "hdr_rep h ls" "hdr_closed h"
  obtains h' where "packed_as e (e\<lparr>ee_entity := Some h'\<rparr>)" "wire_bytes h' = hwire ls @ CRLF" "hl_bufused h' \<le> length (hl_buf h')"
proof -
  obtain h' where h': "ci_headers_pack h = Ret h'" "hl_packed h'"
    "take (hl_bufused h') (hl_buf h') = hwire ls @ (if hdr_closed h then CRLF else [LF])"
    "hl_bufused h' = length (hstore ls) + (if hdr_closed h then 2 else 1)"
    "hl_headers h' = hl_headers h" "length (hl_buf h') = length (hl_buf h)"
    by (rule pack_rep [OF assms(3)])
  have h: "hl_bufused h = length (hstore ls)" "hl_bufused h + 2 \<le> length (hl_buf h)" using assms(3) by (simp_all add: hdr_rep_def)
  have "packed_as e (e\<lparr>ee_entity := Some h'\<rparr>)"
    using assms h h' by (simp add: packed_as_def pack_entity_def sizeofencaps_def sizeofheader_def ent_wire_def wire_bytes_def)
  then show ?thesis using h h' assms(4) by (intro that [of h']) (simp_all add: wire_bytes_def)
qed

lemma pack_message:
  assumes es: "rq_entities req = [Some e, Some b, None, None, None]"
    and e: "is_header_type (ee_type e)" "ee_entity e = Some h" "hdr_rep h ls" "hdr_closed h"
    and b: "\<not> is_header_type (ee_type b)" and r: "hdr_rep (rq_response_header req) ms"
  obtains hr e' b' h' where "ci_response_pack g (\<lambda>_. True) req
      = Ret (req\<lparr>rq_packed := True, rq_response_header := hr, rq_entities := [Some e', Some b', None, None, None]\<rparr>)"
    "wire_bytes hr = hwire (ms @ [encapsulated_line [Some e', Some b', None, None, None]]) @ CRLF" "hl_bufused hr \<le> length (hl_buf hr)"
    "ee_type e' = ee_type e" "ee_type b' = ee_type b" "ee_entity e' = Some h'" "wire_bytes h' = hwire ls @ CRLF"
    "hl_bufused h' \<le> length (hl_buf h')" "ee_start e' = 0" "ee_start b' = int (length (hwire ls @ CRLF))"
proof -
  obtain h' where h': "packed_as e (e\<lparr>ee_entity := Some h'\<rparr>)" "wire_bytes h' = hwire ls @ CRLF" "hl_bufused h' \<le> length (hl_buf h')"
    by (rule pack_header_entity [OF e])
  let ?e = "e\<lparr>ee_entity := Some h'\<rparr>" and ?r = "[None, None, None] :: ci_encaps_entity option list"
  have p: "list_all2 packed_as [e, b] [?e, b]"
    using h'(1) b by (simp add: packed_as_def pack_entity_def sizeofencaps_def ent_wire_def)
  let ?a = "starts_from 0 [e, b] [?e, b]" and ?b = "starts_from 0 [?e, b] [?e, b]"
  have ab: "list_all2 packed_as ?a ?b" by (rule starts_from_packed(1) [OF p])
  have starts: "pack_starts (rq_entities req) = Ret (map Some ?a @ ?r)"
    using pack_starts_three [OF _ p] es by (simp add: numeral_eq_Suc)
  have pe: "pack_entities (map Some ?a @ ?r) = Ret (map Some ?b @ ?r)"
    by (rule pack_entities_all [OF ab])
  let ?line = "encapsulated_line (map Some ?a @ ?r)"
  obtain k where k: "add_line g (\<lambda>_. True) (rq_response_header req) ?line = Ret k" "hdr_rep k (ms @ [?line])" "hdr_closed k"
    using hdr.add_law [OF r NUL_notin_encapsulated_line, of g "map Some ?a @ ?r"] by blast
  obtain hr where hr: "ci_headers_pack k = Ret hr" "hl_packed hr"
    "take (hl_bufused hr) (hl_buf hr) = hwire (ms @ [?line]) @ (if hdr_closed k then CRLF else [LF])"
    "hl_bufused hr = length (hstore (ms @ [?line])) + (if hdr_closed k then 2 else 1)"
    "hl_headers hr = hl_headers k" "length (hl_buf hr) = length (hl_buf k)"
    by (rule pack_rep [OF k(2)])
  have len: "hl_bufused hr \<le> length (hl_buf hr)" using hr(4,6) k(2,3) by (simp add: hdr_rep_def)
  have line: "?line = encapsulated_line (map Some ?b @ ?r)" using encapsulated_line_packed [OF ab, of ?r] by simp
  have "ci_response_pack g (\<lambda>_. True) req
      = Ret (req\<lparr>rq_packed := True, rq_response_header := hr, rq_entities := map Some ?b @ ?r\<rparr>)"
    using starts pe k(1) hr(1) by (simp add: ci_response_pack_def ci_request_t_pack_def Let_def)
  moreover have "map Some ?b @ ?r = [Some (?e\<lparr>ee_start := 0\<rparr>), Some (b\<lparr>ee_start := int (length (ent_wire ?e))\<rparr>), None, None, None]"
    by simp
  moreover have "wire_bytes hr = hwire (ms @ [encapsulated_line (map Some ?b @ ?r)]) @ CRLF"
    using hr(3) k(3) line by (simp add: wire_bytes_def)
  moreover have "ent_wire ?e = hwire ls @ CRLF" using h'(2) e(1) by (simp add: ent_wire_def)
  ultimately show ?thesis
    using h'(2,3) len by (intro that [where hr = hr and h' = h' and e' = "?e\<lparr>ee_start := 0\<rparr>" and b' = "b\<lparr>ee_start := int (length (ent_wire ?e))\<rparr>"]) simp_all
qed

text \<open>The ICAP header of an adapted response, in front of the \<^verbatim>\<open>Encapsulated\<close> line.\<close>

definition icap_lines :: "server_env \<Rightarrow> int \<Rightarrow> bool \<Rightarrow> ci_service_xdata \<Rightarrow> bytes list" where
  "icap_lines sv rc keepalive x = common_lines sv (take 511 (status_line rc)) keepalive @ [sx_ISTag x]"

text \<open>
  The entities of a \<^verbatim>\<open>RESPMOD\<close> message: the request header \<open>rh\<close> if the client sent one, the response header and the body.
\<close>

definition message_entities :: "ci_encaps_entity option \<Rightarrow> ci_encaps_entity \<Rightarrow> ci_encaps_entity \<Rightarrow> ci_encaps_entity option list" where
  "message_entities rh e b =
     (case rh of None \<Rightarrow> [Some e, Some b, None, None, None] | Some r \<Rightarrow> [Some r, Some e, Some b, None, None])"

definition response_place :: "ci_encaps_entity option \<Rightarrow> hdr_loc" where
  "response_place rh = L_entity (if rh = None then 0 else 1)"

text \<open>A \<^verbatim>\<open>RESPMOD\<close> response that can be sent: its lines \<open>ls\<close> in edit mode, and a service that is known.\<close>

definition sendable :: "server_env \<Rightarrow> ci_request \<Rightarrow> ci_encaps_entity option \<Rightarrow> ci_encaps_entity \<Rightarrow> ci_encaps_entity \<Rightarrow> bytes list \<Rightarrow> ci_service_module
   \<Rightarrow> ci_service_xdata \<Rightarrow> bool" where
  "sendable sv req rh e b ls m x \<longleftrightarrow>
     rq_entities req = message_entities rh e b \<and> (\<forall>r. rh = Some r \<longrightarrow> ee_type r = ICAP_REQ_HDR) \<and> ee_type e = ICAP_RES_HDR \<and> ee_type b = ICAP_RES_BODY
     \<and> (\<exists>h. ee_entity e = Some h \<and> hdr_rep h ls) \<and> rq_type req = ICAP_RESPMOD \<and> \<not> rq_packed req
     \<and> rq_service_mod req = Some m \<and> mod_xdata m = Some x
     \<and> hl_used (rq_xheaders req) = 0 \<and> length (hl_buf (rq_response_header req)) = hl_bufsize (rq_response_header req)
     \<and> 2 \<le> hl_bufsize (rq_response_header req)
     \<and> NUL \<notin> set (via_line sv m) \<and> (\<forall>l \<in> set (icap_lines sv EC_200 (rq_keepalive req) x). NUL \<notin> set l)"

text \<open>The \<^verbatim>\<open>Encapsulated\<close> line of a response whose header block has \<open>n\<close> bytes.\<close>

definition encapsulated_res :: "nat \<Rightarrow> bytes" where
  "encapsulated_res n = ''Encapsulated: res-hdr=0, res-body='' @ print_int (int n)"

lemma encapsulated_res:
  assumes "ee_type e = ICAP_RES_HDR" "ee_type b = ICAP_RES_BODY" "ee_start e = 0" "ee_start b = int n"
  shows "encapsulated_line [Some e, Some b, None, None, None] = encapsulated_res n"
proof -
  have "print_int 0 = ''0''" by code_simp
  then show ?thesis
    using assms by (simp add: encapsulated_line_def encapsulated_res_def encaps_item_def ci_encaps_entity_string_def
        ci_encaps_entities_def ICAP_RES_HDR_def ICAP_RES_BODY_def ICAP_REQ_HDR_def ICAP_OPT_BODY_def nth_Cons')
qed

text \<open>The two header blocks of the response as they are sent.\<close>

definition http_block :: "server_env \<Rightarrow> ci_service_module \<Rightarrow> bytes list \<Rightarrow> bytes" where
  "http_block sv m ls = hwire (ls @ [via_line sv m]) @ CRLF"

definition icap_block :: "server_env \<Rightarrow> bool \<Rightarrow> ci_service_xdata \<Rightarrow> nat \<Rightarrow> bytes" where
  "icap_block sv keepalive x n = hwire (icap_lines sv EC_200 keepalive x @ [encapsulated_res n]) @ CRLF"

lemma responce_header_message:
  assumes s: "sendable sv req rh e b ls m x" "rq_return_code req = EC_200"
  obtains hr tr e' b' h' where "mk_responce_header g (\<lambda>_. True) sv req
      = Ret (req\<lparr>rq_packed := True, rq_response_header := hr, rq_trash := tr, rq_entities := [Some e', Some b', None, None, None]\<rparr>)"
    "wire_bytes hr = icap_block sv (rq_keepalive req) x (length (http_block sv m ls))"
    "hl_bufused hr \<le> length (hl_buf hr)" "ee_type e' = ICAP_RES_HDR" "ee_type b' = ICAP_RES_BODY" "ee_entity e' = Some h'"
    "wire_bytes h' = http_block sv m ls" "hl_bufused h' \<le> length (hl_buf h')"
proof -
  obtain h where h: "ee_entity e = Some h" "hdr_rep h ls" using s by (auto simp: sendable_def)
  let ?ms = "icap_lines sv EC_200 (rq_keepalive req) x"
  have r0: "hdr_rep (ci_headers_reset (rq_response_header req)) []"
    using s by (intro ci_headers_reset_rep) (simp_all add: sendable_def)
  obtain h1 where h1: "add_lines (add_line g (\<lambda>_. True)) (ci_headers_reset (rq_response_header req)) ?ms = Ret h1" "hdr_rep h1 ?ms"
    using hdr.add_lines_rep [OF r0, of ?ms g] s by (auto simp: sendable_def)
  let ?r1 = "req\<lparr>rq_response_header := h1\<rparr>"
  obtain tr where dr: "drop_request_header ?r1 = Ret (?r1\<lparr>rq_trash := tr, rq_entities := [Some e, Some b, None, None, None]\<rparr>)"
  proof (cases rh)
    case None
    then have "drop_request_header ?r1 = Ret ?r1" "rq_entities ?r1 = [Some e, Some b, None, None, None]"
      using s by (simp_all add: drop_request_header_def sendable_def message_entities_def ICAP_REQ_HDR_def ICAP_RES_HDR_def)
    then show ?thesis by (intro that [of "rq_trash ?r1"]) (cases req; simp)
  next
    case (Some r)
    then show ?thesis using s
      by (intro that [of "(rq_trash req)[nat (ee_type r) := Some r]"])
        (simp add: drop_request_header_def sendable_def message_entities_def ci_request_release_entity_def ICAP_REQ_HDR_def ICAP_OPT_BODY_def Let_def)
  qed
  let ?r1' = "?r1\<lparr>rq_trash := tr, rq_entities := [Some e, Some b, None, None, None]\<rparr>"
  obtain h2 where h2: "ci_headers_add g (\<lambda>_. True) h (via_line sv m) = Ret (h2, Some (length (hstore ls)))"
      "hdr_rep h2 (ls @ [via_line sv m])" "hdr_closed h2"
    by (rule add_rep [OF h(2), of "via_line sv m" "\<lambda>_. True" g]) (use s in \<open>auto simp: sendable_def\<close>)
  let ?e = "e\<lparr>ee_entity := Some h2\<rparr>" and ?r2 = "?r1'\<lparr>rq_entities := [Some (e\<lparr>ee_entity := Some h2\<rparr>), Some b, None, None, None]\<rparr>"
  have via: "ci_http_response_add_header g (\<lambda>_. True) ?r1' (via_line sv m) = Ret (?r2, True)"
    using s h(1) h2(1) by (simp add: ci_http_response_add_header_def add_header_def ci_http_response_headers_def usable_def hdr_at_def sendable_def)
  have ty: "is_header_type (ee_type ?e)" "\<not> is_header_type (ee_type b)"
    using s by (simp_all add: sendable_def is_header_type_def ICAP_RES_HDR_def ICAP_RES_BODY_def ICAP_REQ_HDR_def)
  obtain hr e' b' h' where p: "ci_response_pack g (\<lambda>_. True) ?r2
      = Ret (?r2\<lparr>rq_packed := True, rq_response_header := hr, rq_entities := [Some e', Some b', None, None, None]\<rparr>)"
    "wire_bytes hr = hwire (?ms @ [encapsulated_line [Some e', Some b', None, None, None]]) @ CRLF" "hl_bufused hr \<le> length (hl_buf hr)"
    "ee_type e' = ee_type ?e" "ee_type b' = ee_type b" "ee_entity e' = Some h'" "wire_bytes h' = hwire (ls @ [via_line sv m]) @ CRLF"
    "hl_bufused h' \<le> length (hl_buf h')" "ee_start e' = 0" "ee_start b' = int (length (http_block sv m ls))"
    by (rule pack_message [of ?r2 ?e b h2 "ls @ [via_line sv m]" ?ms g]) (use ty h2 h1(2) in \<open>simp_all add: http_block_def\<close>)
  have "mk_responce_header g (\<lambda>_. True) sv req
      = Ret (req\<lparr>rq_packed := True, rq_response_header := hr, rq_trash := tr, rq_entities := [Some e', Some b', None, None, None]\<rparr>)"
    using s h1(1) dr via p(1)
    by (simp add: mk_responce_header_def sendable_def icap_lines_def add_xheaders_def EC_100_def EC_200_def EC_MAX_def)
  moreover have "ee_type e' = ICAP_RES_HDR" "ee_type b' = ICAP_RES_BODY" using p(4,5) s by (simp_all add: sendable_def)
  moreover from this have "wire_bytes hr = icap_block sv (rq_keepalive req) x (length (http_block sv m ls))"
    using p(2) encapsulated_res [OF _ _ p(9,10)] by (simp add: icap_block_def)
  ultimately show ?thesis using p(3,6,7,8) by (intro that [where hr = hr and tr = tr and h' = h' and e' = e' and b' = b']) (simp_all add: http_block_def)
qed

text \<open>All the bytes of the response, for the blocks \<open>ds\<close> of the service.\<close>

definition response_wire :: "server_env \<Rightarrow> bool \<Rightarrow> ci_service_xdata \<Rightarrow> ci_service_module \<Rightarrow> bytes list \<Rightarrow> bytes list \<Rightarrow> bytes" where
  "response_wire sv keepalive x m ls ds =
     icap_block sv keepalive x (length (http_block sv m ls)) @ http_block sv m ls @ concat (map chunk_wire ds) @ eof_chunk None"

lemma prepend_nothing: "prepend_out [] r = r"
  by (cases "([] :: bytes, r)" rule: prepend_out.cases) simp_all

lemma send_message:
  assumes src: "body_source sio ok src" "pick_io so req = Some sio" "ok (req, s)"
    and s: "sendable sv req rh e b ls m x" "rq_return_code req = EC_200" "rq_status req = SEND_NOTHING" "rq_remain req = 0"
      "length (rq_wbuf req) = EXTRA_CHUNK_SIZE + MAX_CHUNK_SIZE + 2"
    and ks: "progress ks (length (response_wire sv (rq_keepalive req) x m ls (src (req, s))))"
  shows "\<exists>rs' ks'. send_remaining_response g (\<lambda>_. True) sv so (map Out_take ks) (req, s)
      = Some (Ret (rs', response_wire sv (rq_keepalive req) x m ls (src (req, s)), CI_OK, map Out_take ks'))
      \<and> rq_status (fst rs') = SEND_EOF"
proof -
  obtain hr tr e' b' h' where mk: "mk_responce_header g (\<lambda>_. True) sv req
      = Ret (req\<lparr>rq_packed := True, rq_response_header := hr, rq_trash := tr, rq_entities := [Some e', Some b', None, None, None]\<rparr>)"
    and hr: "wire_bytes hr = icap_block sv (rq_keepalive req) x (length (http_block sv m ls))"
      "hl_bufused hr \<le> length (hl_buf hr)"
    and ty: "ee_type e' = ICAP_RES_HDR" "ee_type b' = ICAP_RES_BODY" and e': "ee_entity e' = Some h'"
      "wire_bytes h' = http_block sv m ls" "hl_bufused h' \<le> length (hl_buf h')"
    by (rule responce_header_message [OF s(1,2)])
  define q where "q = req\<lparr>rq_packed := True, rq_response_header := hr, rq_trash := tr, rq_entities := [Some e', Some b', None, None, None],
     rq_responce_hasbody := True, rq_block := R_block (hl_buf hr) 0, rq_remain := int (hl_bufused hr), rq_status := SEND_RESPHEAD\<rparr>"
  have up: "update_send_status g (\<lambda>_. True) sv req = Ret (q, CI_OK)"
    using s(3) mk ty by (simp add: update_send_status_def resp_check_body_def q_def ci_consts Let_def)
  have "send_block_loop es req = Ret (req, [], True, es)" for es using s(4) by (cases es) simp_all
  then have loop: "send_loop g (\<lambda>_. True) sv sio es (req, s) = send_loop g (\<lambda>_. True) sv sio es (q, s)" for es
    by (subst send_loop.simps) (use s(3) up in \<open>simp add: body_step_def ci_consts prepend_nothing\<close>)
  have ents: "resp_entities [e'] b' q"
    using ty e' by (simp add: resp_entities_def q_def is_header_type_def ICAP_RES_HDR_def ICAP_RES_BODY_def ICAP_REQ_HDR_def numeral_eq_Suc)
  have v: "ok (q, s)" "src (q, s) = src (req, s)"
    using body_source.view [OF src(1), of q req s] src(3) by (simp_all add: source_view_def q_def)
  then have sg: "sending ok [e'] b' (q, s)" using ents s(5) by (simp add: sending_def q_def ci_consts)
  have cur: "current_block q (wire_bytes hr)"
    using hr(2) by (simp add: current_block_def q_def block_bytes.simps wire_bytes_def seg_def)
  have "ent_wire e' = wire_bytes h'" using ty e'(1) by (simp add: ent_wire_def is_header_type_def)
  moreover have "use206 q = None" using s(2) by (simp add: use206_def q_def sendable_def EC_200_def EC_206_def)
  ultimately have wire: "wire_bytes hr @ unsent src [e'] (q, s) = response_wire sv (rq_keepalive req) x m ls (src (req, s))"
    using hr(1) e'(2) v(2) by (simp add: unsent_def response_wire_def body_wire_def q_def ci_consts Let_def)
  then have "progress ks (length (wire_bytes hr) + length (unsent src [e'] (q, s)))" using ks by (simp flip: length_append)
  from body_source.send_loop_all [OF src(1) sg cur this, of g "\<lambda>_. True" sv] show ?thesis
    using src(2) s(3) loop by (auto simp: send_remaining_response_def ci_consts wire)
qed

end
