(* ===== verification/Gw_Response.thy ===== *)
theory Gw_Response
  imports Gw_Verdict Full_Response
begin

text \<open>
  The rebuild service behind \<^verbatim>\<open>do_request\<close>: a \<^verbatim>\<open>RESPMOD\<close> message without preview from its first body
  byte to the last byte of the answer.  The lemmas join the collection of the body, the verdict of the
  program and the sending loop; the property is in the root theory.
\<close>

lemma sendable_at:
  assumes "sendable sv req rh e b ls m x"
  obtains h where "ee_entity e = Some h" "hdr_rep h ls" "at_response req (response_place rh) h" "\<not> rq_packed req" "rq_type req = ICAP_RESPMOD"
  using assms by (cases rh) (auto simp: sendable_def message_entities_def response_place_def at_response_def ci_http_response_headers_def
      usable_def hdr_at_def ICAP_REQ_HDR_def ICAP_RES_HDR_def)

lemma sendable_changed:
  assumes s: "sendable sv req rh e b ls m x" and c: "hdr_changed (response_place rh) req q"
    and q: "at_response q (response_place rh) h" "hdr_rep h ls'"
  shows "sendable sv (q\<lparr>rq_data_locked := False\<rparr>) rh (e\<lparr>ee_entity := Some h\<rparr>) b ls' m x"
    "q = req\<lparr>rq_entities := message_entities rh (e\<lparr>ee_entity := Some h\<rparr>) b\<rparr>"
proof -
  obtain g where g: "q = hdr_put req (response_place rh) g" using c by (auto simp: hdr_changed_def)
  have "rq_entities req = message_entities rh e b" using s by (simp add: sendable_def)
  with q(1) g have "g = h" by (cases rh) (auto simp: message_entities_def response_place_def at_response_def hdr_at_def)
  with g s show q': "q = req\<lparr>rq_entities := message_entities rh (e\<lparr>ee_entity := Some h\<rparr>) b\<rparr>"
    by (cases rh) (simp_all add: sendable_def message_entities_def response_place_def)
  show "sendable sv (q\<lparr>rq_data_locked := False\<rparr>) rh (e\<lparr>ee_entity := Some h\<rparr>) b ls' m x"
    using s q(2) unfolding q' by (auto simp: sendable_def)
qed

lemma sendable_more:
  assumes "ci_req_in.more q = ci_req_in.more (r :: ci_request)"
  shows "sendable sv q rh e b ls m x = sendable sv r rh e b ls m x" "rq_keepalive q = rq_keepalive r" "rq_return_code q = rq_return_code r"
  using assms by (cases q; cases r; simp add: sendable_def)+

lemma sendable_code: "sendable sv (r\<lparr>rq_return_code := k, rq_status := n\<rparr>) rh e b ls m x = sendable sv r rh e b ls m x"
  by (simp add: sendable_def)

text \<open>What stands ready to be served is a source of the sending loop, when it is below the limit.\<close>

lemma serves_sending:
  assumes s: "gw_serves w X" "gw_data w = Some d" and f: "full_reads E" and n: "length X < 2 ^ 31"
    and lim: "ga_sizelimit (gd_args d) \<longrightarrow> int (length X) < gd_max_object_size d"
  shows "gw_sending E w" "gw_rest w = X"
proof -
  obtain h g where h: "gb_store (gd_body d) = Some h" "gw_files w h = Some g" "collected g X" "sf_haseof g" "\<not> sf_uselock g"
    using s by (auto simp: gw_serves_def store_of_def)
  have c: "sf_contents g = X" using h(3) by (auto simp: collected_def sf_contents_def seg_def Let_def)
  have "serving g (sf_contents g)"
    using h(3-5) n c by (auto simp: serving_def collected_def sf_invar_def)
  then show "gw_sending E w" unfolding gw_sending_def using s(2) h f lim by (auto simp: collected_def)
  show "gw_rest w = X" using s(2) h(1,2) c by (simp add: gw_rest_def store_of_def)
qed

text \<open>From the end of the body to the end of the response.\<close>

definition page_env :: "gw_env \<Rightarrow> ci_membuf \<Rightarrow> bool" where
  "page_env E page \<longleftrightarrow> ge_realloc E = (\<lambda>_. True) \<and> files_work E (length (page_bytes page)) \<and> full_reads E
     \<and> (\<forall>r d. ge_page E r d = Some page) \<and> page_ok page"

definition ready_to_answer :: "ci_request \<Rightarrow> bool" where
  "ready_to_answer req \<longleftrightarrow> rq_return_code req = EC_200 \<and> rq_status req = SEND_NOTHING \<and> rq_remain req = 0
     \<and> rq_echo_body req = None \<and> length (rq_wbuf req) = EXTRA_CHUNK_SIZE + MAX_CHUNK_SIZE + 2"

lemma finish_sends:
  assumes l: "gw_loaded (cn_srv c) d B True" "gw_stats (cn_srv c) \<noteq> None"
    and p: "program_ran E (cn_srv c) B ret R" "length R < 2 ^ 31" and E: "page_env E page"
    and s: "sendable sv (cn_req c) rh e b ls m x" "ready_to_answer (cn_req c)"
    and P: "pe_server P = sv" "pe_realloc P = (\<lambda>_. True)"
    and a: "gw_answer ret B R page ls = (X, ms)" "\<not> (ret = GW_UNPROCESSED \<and> gd_allow204 d)" "length X < 2 ^ 31"
      "ga_sizelimit (gd_args d) \<longrightarrow> int (length X) < gd_max_object_size d"
    and ks: "cn_takes c = map Out_take ks" "progress ks (length (response_wire sv (rq_keepalive (cn_req c)) x m ms (blocks_of MAX_CHUNK_SIZE X)))"
  shows "\<exists>c'. finish_modification P (gw_service E) c = Some (Ret (c', CI_OK))
    \<and> cn_out c' = cn_out c @ response_wire sv (rq_keepalive (cn_req c)) x m ms (blocks_of MAX_CHUNK_SIZE X)"
proof -
  let ?req = "cn_req c"
  obtain h where h: "ee_entity e = Some h" "hdr_rep h ls" "at_response ?req (response_place rh) h" "\<not> rq_packed ?req" "rq_type ?req = ICAP_RESPMOD"
    by (rule sendable_at [OF s(1)])
  have E': "ge_realloc E = (\<lambda>_. True)" "files_work E (length (page_bytes page))" "\<forall>r d. ge_page E r d = Some page" "page_ok page"
    using E by (simp_all add: page_env_def)
  obtain w' q h' d' where eod: "gw_rebuild_end_of_data_handler E (?req, cn_srv c) = Ret ((q\<lparr>rq_data_locked := False\<rparr>, w'), CI_MOD_DONE)"
    and w': "gw_serves w' X" "gw_data w' = Some d'" "gd_args d' = gd_args d" "gd_max_object_size d' = gd_max_object_size d"
    and q: "at_response q (response_place rh) h'" "hdr_rep h' ms" "hdr_changed (response_place rh) ?req q"
    using end_of_data_answer [OF l p h(3,2,4,5) E'] a(1,2) by auto
  let ?q = "q\<lparr>rq_data_locked := False\<rparr>"
  note ch = sendable_changed [OF s(1) q(3,1,2)]
  have r: "rq_return_code ?q = EC_200" "rq_status ?q = SEND_NOTHING" "rq_remain ?q = 0" "rq_echo_body ?q = None"
      "length (rq_wbuf ?q) = EXTRA_CHUNK_SIZE + MAX_CHUNK_SIZE + 2" "rq_keepalive ?q = rq_keepalive ?req"
    using s(2) by (subst ch(2); simp add: ready_to_answer_def)+
  have src: "gw_sending E w'" "gw_rest w' = X"
    using serves_sending [OF w'(1,2) _ a(3), of E] E a(4) w'(3,4) by (simp_all add: page_env_def)
  have io: "pick_io (gw_service E) ?q = Some (gw_io E)" using r(4) by (simp add: pick_io_def)
  have ks': "progress ks (length (response_wire sv (rq_keepalive ?q) x m ms (blocks_of MAX_CHUNK_SIZE (gw_rest (snd (?q, w'))))))"
    using ks(2) src(2) r(6) by simp
  obtain rs' ks' where snd: "send_remaining_response (pe_fresh P) (\<lambda>_. True) sv (gw_service E) (map Out_take ks) (?q, w')
      = Some (Ret (rs', response_wire sv (rq_keepalive ?req) x m ms (blocks_of MAX_CHUNK_SIZE X), CI_OK, map Out_take ks'))"
    using send_message [OF gwsrc.body_source_axioms io _ ch(1) r(1-3,5) ks', of "pe_fresh P"] src r(6) by auto
  have sent: "ci_req_sent_data ?q = 0" using r(2) by (simp add: ci_req_sent_data_def ci_consts)
  have "do_end_of_data P (gw_service E) c = Some (Ret (c\<lparr>cn_req := ?q, cn_srv := w'\<rparr>, CI_OK))"
    using eod by (simp add: do_end_of_data_def gw_service_def ci_consts Let_def)
  moreover have "?q\<lparr>rq_data_locked := False\<rparr> = ?q" by simp
  ultimately show ?thesis
    using r(1) snd P ks(1)
    by (cases rs') (simp add: finish_modification_def unlock_data_def set_req_def send_rest_def EC_200_def EC_204_def CI_OK_def CI_ERROR_def)
qed

text \<open>
  A \<^verbatim>\<open>RESPMOD\<close> request of which the headers are parsed and no body byte was read by the service: the chunks \<open>cs\<close>
  of the body are in the read buffer and in the events to come.
\<close>

definition body_awaited :: "ci_request \<Rightarrow> bytes list \<Rightarrow> zero_ext \<Rightarrow> (bytes \<times> net_out option) list \<Rightarrow> bytes \<Rightarrow> bool" where
  "body_awaited q cs x evs Y \<longleftrightarrow>
     rq_hasbody q \<and> rq_preview q < 0 \<and> rq_data_locked q \<and> win q \<and> length (rq_rbuf q) = 4096 \<and> rq_pending q = 0
     \<and> \<not> rq_eof_received q \<and> rq_chunk_len q = rq_chunk_read q \<and> length (rq_text q) < 4096
     \<and> good_chunks cs \<and> good_ext x \<and> rq_text q @ concat (map fst evs) = chunked cs x @ Y"

lemma body_awaited_code: "body_awaited (q\<lparr>rq_return_code := k\<rparr>) cs x evs Y = body_awaited q cs x evs Y"
  using win_cong [of "q\<lparr>rq_return_code := k\<rparr>" q] by (simp add: body_awaited_def)

lemma fake_preview_transfers:
  assumes c: "cn_io c = body_events evs" "gw_data (cn_srv c) = Some d" "body_awaited (cn_req c) cs x evs Y"
      "rq_remain (cn_req c) = 0" "rq_echo_body (cn_req c) = None"
    and fw: "files_work E (length (concat cs))"
    and sz: "ga_sizelimit (gd_args d) \<longrightarrow> int (length (concat cs)) < MAX_OBJECT_SIZE E \<and> MAX_OBJECT_SIZE E < 2 ^ 31"
    and hdr: "ci_http_content_length (cn_req c) = Ret len" "ci_http_request_url (cn_req c) LOG_URL_SIZE = Ret url"
  obtains q w d' evs' where "do_modification P (gw_service E) c
      = finish_modification P (gw_service E) (c\<lparr>cn_req := q, cn_srv := w, cn_io := body_events evs'\<rparr>)"
    "gw_loaded w d' (concat cs) True" "gd_allow204 d' = gd_allow204 d" "gd_args d' = gd_args d"
    "gd_max_object_size d' = MAX_OBJECT_SIZE E" "gw_stats w = gw_stats (cn_srv c)"
    "ci_req_in.more q = ci_req_in.more ((cn_req c)\<lparr>rq_return_code := EC_200, rq_status := SEND_NOTHING\<rparr>)"
proof -
  let ?q = "(cn_req c)\<lparr>rq_return_code := EC_200\<rparr>"
  have b: "body_awaited ?q cs x evs Y" using c(3) by (simp add: body_awaited_code)
  have d: "rq_hasbody (cn_req c)" "\<not> rq_eof_received (cn_req c)" "rq_preview (cn_req c) < 0" using c(3) by (simp_all add: body_awaited_def)
  have q: "rq_data_locked ?q" "rq_remain ?q = 0" "rq_echo_body ?q = None" "win ?q" "length (rq_rbuf ?q) = 4096" "rq_pending ?q = 0"
      "\<not> rq_eof_received ?q" "rq_chunk_len ?q = rq_chunk_read ?q" "length (rq_text ?q) < 4096"
      "good_chunks cs" "good_ext x" "rq_text ?q @ concat (map fst evs) = chunked cs x @ Y"
    using b c(4,5) unfolding body_awaited_def by simp_all
  obtain w1 q' w2 d2 evs' where w: "gw_rebuild_check_preview_handler E None (cn_req c, cn_srv c) = Ret ((cn_req c, w1), CI_MOD_CONTINUE)"
    "get_send_body (pe_fresh P) (pe_realloc P) (pe_server P) (gw_service E) False (body_events evs) (?q, w1) = Some (Ret ((q', w2), [], CI_OK, body_events evs'))"
    "gw_loaded w2 d2 ([] @ concat cs) True" "gd_allow204 d2 = gd_allow204 d" "gd_args d2 = gd_args d"
    "gd_max_object_size d2 = MAX_OBJECT_SIZE E" "gw_stats w2 = gw_stats (cn_srv c)" "rq_text q' @ concat (map fst evs') = Y"
    "ci_req_in.more q' = ci_req_in.more (?q\<lparr>rq_status := SEND_NOTHING\<rparr>)"
    by (rule collects_body [OF c(2) d(1,2) _ _ hdr _ q, of E "[]" None "pe_fresh P" "pe_realloc P" "pe_server P"]) (use fw sz in simp_all)
  have pv: "so_preview (gw_service E) \<noteq> None"
    "call_preview (gw_service E) None c = Some (Ret (c\<lparr>cn_srv := w1\<rparr>, CI_MOD_CONTINUE))"
    using w(1) by (simp_all add: call_preview_def gw_service_def)
  let ?c = "c\<lparr>cn_req := (cn_req c)\<lparr>rq_return_code := EC_100\<rparr>, cn_srv := w1\<rparr>"
  have fake: "do_fake_preview P (gw_service E) c = Some (Ret (?c, CI_OK))"
    using pv d(1) by (auto simp: do_fake_preview_def continue_code_def set_code_def set_req_def ci_consts Let_def)
  have "transfer_body P (gw_service E) False (set_code EC_200 ?c)
      = Some (Ret (c\<lparr>cn_req := q', cn_srv := w2, cn_io := body_events evs'\<rparr>, CI_OK))"
    using w(2) c(1) by (simp add: transfer_body_def set_code_def set_req_def)
  then have "do_modification P (gw_service E) c
      = finish_modification P (gw_service E) (c\<lparr>cn_req := q', cn_srv := w2, cn_io := body_events evs'\<rparr>)"
    using fake d(1,3) by (simp add: do_modification_def EC_100_def EC_204_def EC_200_def EC_206_def CI_OK_def CI_ERROR_def CI_EOF_def Let_def)
  then show ?thesis using w(3-7,9) by (intro that [where q = q' and w = w2 and evs' = evs' and d' = d2]) simp_all
qed

text \<open>The connection and the environment of the end-to-end property, without its numbers.\<close>

definition message_arrives ::
  "gw_env \<Rightarrow> server_env \<Rightarrow> ci_encaps_entity option \<Rightarrow> ci_encaps_entity \<Rightarrow> ci_encaps_entity \<Rightarrow> bytes list \<Rightarrow> ci_service_module \<Rightarrow> ci_service_xdata
   \<Rightarrow> bytes list \<Rightarrow> bytes \<Rightarrow> gw_rebuild_req_data \<Rightarrow> gw_world conn \<Rightarrow> bool" where
  "message_arrives E sv rh e b ls m xd cs Y d c \<longleftrightarrow>
     (let req = cn_req c in
      sendable sv req rh e b ls m xd \<and> ready_to_answer (req\<lparr>rq_return_code := EC_200\<rparr>)
      \<and> (\<exists>len. ci_http_content_length req = Ret len) \<and> (\<exists>url. ci_http_request_url req LOG_URL_SIZE = Ret url)
      \<and> (\<exists>evs x. cn_io c = body_events evs \<and> body_awaited req cs x evs Y)
      \<and> gw_data (cn_srv c) = Some d \<and> gw_stats (cn_srv c) \<noteq> None)"

lemma modification_sends:
  assumes c: "message_arrives E sv rh e b ls m xd cs Y d c" and E: "page_env E page" "files_work E (length (concat cs))"
    and p: "\<And>w. program_ran E w (concat cs) ret R" "length R < 2 ^ 31"
    and sz: "ga_sizelimit (gd_args d) \<longrightarrow> int (length (concat cs)) < MAX_OBJECT_SIZE E \<and> int (length X) < MAX_OBJECT_SIZE E
      \<and> MAX_OBJECT_SIZE E < 2 ^ 31"
    and a: "gw_answer ret (concat cs) R page ls = (X, ms)" "\<not> (ret = GW_UNPROCESSED \<and> gd_allow204 d)" "length X < 2 ^ 31"
    and P: "pe_server P = sv" "pe_realloc P = (\<lambda>_. True)"
    and ks: "cn_takes c = map Out_take ks" "progress ks (length (response_wire sv (rq_keepalive (cn_req c)) xd m ms (blocks_of MAX_CHUNK_SIZE X)))"
  shows "\<exists>c'. do_modification P (gw_service E) c = Some (Ret (c', CI_OK))
    \<and> cn_out c' = cn_out c @ response_wire sv (rq_keepalive (cn_req c)) xd m ms (blocks_of MAX_CHUNK_SIZE X)"
proof -
  obtain len url evs x where c': "sendable sv (cn_req c) rh e b ls m xd" "ready_to_answer ((cn_req c)\<lparr>rq_return_code := EC_200\<rparr>)"
    "ci_http_content_length (cn_req c) = Ret len" "ci_http_request_url (cn_req c) LOG_URL_SIZE = Ret url"
    "cn_io c = body_events evs" "body_awaited (cn_req c) cs x evs Y" "gw_data (cn_srv c) = Some d" "gw_stats (cn_srv c) \<noteq> None"
    using c unfolding message_arrives_def Let_def by blast
  have r: "rq_remain (cn_req c) = 0" "rq_echo_body (cn_req c) = None" using c'(2) by (simp_all add: ready_to_answer_def)
  have sz': "ga_sizelimit (gd_args d) \<longrightarrow> int (length (concat cs)) < MAX_OBJECT_SIZE E \<and> MAX_OBJECT_SIZE E < 2 ^ 31" using sz by blast
  obtain q w d' evs' where t: "do_modification P (gw_service E) c
      = finish_modification P (gw_service E) (c\<lparr>cn_req := q, cn_srv := w, cn_io := body_events evs'\<rparr>)"
    "gw_loaded w d' (concat cs) True" "gd_allow204 d' = gd_allow204 d" "gd_args d' = gd_args d"
    "gd_max_object_size d' = MAX_OBJECT_SIZE E" "gw_stats w = gw_stats (cn_srv c)"
    "ci_req_in.more q = ci_req_in.more ((cn_req c)\<lparr>rq_return_code := EC_200, rq_status := SEND_NOTHING\<rparr>)"
    by (rule fake_preview_transfers [OF c'(5,7,6) r E(2) sz' c'(3,4)])
  let ?c = "c\<lparr>cn_req := q, cn_srv := w, cn_io := body_events evs'\<rparr>"
  note more = sendable_more [OF t(7)] same_more [OF t(7)]
  have s: "sendable sv (cn_req ?c) rh e b ls m xd" "rq_keepalive (cn_req ?c) = rq_keepalive (cn_req c)"
    using more(1,2) c'(1) by (simp_all add: sendable_code)
  have ready: "ready_to_answer (cn_req ?c)" using more(3-) c'(2) by (simp add: ready_to_answer_def)
  have st: "gw_stats w \<noteq> None" using t(6) c'(8) by simp
  have "\<exists>c'. finish_modification P (gw_service E) ?c = Some (Ret (c', CI_OK))
    \<and> cn_out c' = cn_out ?c @ response_wire sv (rq_keepalive (cn_req ?c)) xd m ms (blocks_of MAX_CHUNK_SIZE X)"
    by (rule finish_sends [OF _ _ _ p(2) E(1) s(1) ready P a(1) _ a(3), where d = d' and ks = ks])
      (use t(2-5) st p(1) a(2) sz ks s(2) in simp_all)
  then show ?thesis using t(1) s(2) by simp
qed

text \<open>The response of the earlier examples as it arrives: the chunk \<^verbatim>\<open>abc\<close> in three reads.\<close>

definition demo_xdata :: ci_service_xdata where
  "demo_xdata = \<lparr>sx_status = 2, sx_xopts = 0, sx_ISTag = ''ISTag: CI0001-2.1.1'', sx_TransferPreview = ''*'', sx_TransferIgnore = [],
     sx_TransferComplete = [], sx_preview_size = 1024, sx_max_connections = 0, sx_options_ttl = 3600, sx_allow_204 = True,
     sx_allow_206 = False\<rparr>"

definition demo_module :: ci_service_module where
  "demo_module = \<lparr>mod_name = ''gw_rebuild'', mod_short_descr = None, mod_type = 6, mod_xdata = Some demo_xdata\<rparr>"

definition req_hdr_entity :: ci_encaps_entity where
  "req_hdr_entity = \<lparr>ee_start = 0, ee_type = 0, ee_entity = Some two_headers\<rparr>"

definition demo_message :: ci_request where
  "demo_message = demo_response\<lparr>rq_entities := [Some req_hdr_entity, Some res_hdr_entity, Some res_body_entity, None, None], rq_hasbody := True, rq_preview := -1, rq_service_mod := Some demo_module\<rparr>"

definition demo_conn :: "nat \<Rightarrow> gw_world conn" where
  "demo_conn n = \<lparr>cn_req = demo_message, cn_srv = demo_world, cn_out = [], cn_in = [], cn_writes = [],
     cn_io = body_events [(''3'' @ [CR], None), (LF # ''abc'' @ CRLF @ ''0'' @ CRLF, Some Out_fail), (CRLF, None)],
     cn_takes = map Out_take (replicate n 1)\<rparr>"

definition demo_penv :: "gw_world process_env" where
  "demo_penv = \<lparr>pe_fresh = (\<lambda>_. NUL), pe_realloc = (\<lambda>_. True), pe_realloc_int = (\<lambda>_. True), pe_ring = (\<lambda>_. True), pe_server = demo_server,
     pe_ops = (\<lambda>_. gw_service demo_gw), pe_access = None, pe_date = []\<rparr>"

lemma demo_message_fields:
  "rq_data_locked demo_message" "rq_remain demo_message = 0" "rq_pstr demo_message = P_null" "rq_echo_body demo_message = None"
  "rq_pstr_len demo_message = 0" "length (rq_rbuf demo_message) = 4096" "rq_pending demo_message = 0" "\<not> rq_eof_received demo_message"
  "rq_chunk_len demo_message = rq_chunk_read demo_message" "rq_status demo_message = SEND_NOTHING"
  "length (rq_wbuf demo_message) = EXTRA_CHUNK_SIZE + MAX_CHUNK_SIZE + 2" "\<not> rq_packed demo_message" "hl_used (rq_xheaders demo_message) = 0"
  "length (hl_buf (rq_response_header demo_message)) = hl_bufsize (rq_response_header demo_message)"
  "2 \<le> hl_bufsize (rq_response_header demo_message)" "rq_keepalive demo_message" "rq_trash demo_message = replicate 7 None"
  "rq_entities demo_message = [Some req_hdr_entity, Some res_hdr_entity, Some res_body_entity, None, None]" "rq_type demo_message = ICAP_RESPMOD"
  "rq_service_mod demo_message = Some demo_module" "rq_hasbody demo_message" "rq_preview demo_message = -1"
  using new_request_wbuf new_request_facts(5)
  by (simp_all add: demo_message_def demo_response_def new_request_def ci_request_alloc_def ci_headers_create_def fresh_mem_def HEADSBUFSIZE_def ci_consts)

lemma demo_sendable: "sendable demo_server demo_message (Some req_hdr_entity) res_hdr_entity res_body_entity [''Via: x'', ''Host: example.''] demo_module demo_xdata"
proof -
  have "NUL \<notin> set (via_line demo_server demo_module)" "\<forall>l \<in> set (icap_lines demo_server EC_200 True demo_xdata). NUL \<notin> set l"
    by code_simp+
  then show ?thesis
    using demo_message_fields two_headers_rep
    by (simp add: sendable_def message_entities_def req_hdr_entity_def res_hdr_entity_def res_body_entity_def ICAP_REQ_HDR_def ICAP_RES_HDR_def ICAP_RES_BODY_def demo_module_def)
qed

lemma demo_message_arrives:
  "message_arrives demo_gw demo_server (Some req_hdr_entity) res_hdr_entity res_body_entity [''Via: x'', ''Host: example.''] demo_module demo_xdata
     [''abc''] [] demo_data (demo_conn n)"
proof -
  note f = demo_message_fields
  have res: "ci_http_response_headers demo_message = Some (L_entity 1)" "hdr_at demo_message (L_entity 1) = Ret two_headers"
    "ci_http_request_headers demo_message = Some (L_entity 0)" "hdr_at demo_message (L_entity 0) = Ret two_headers"
    using f by (simp_all add: ci_http_response_headers_def ci_http_request_headers_def usable_def hdr_at_def req_hdr_entity_def res_hdr_entity_def
        ICAP_RES_HDR_def ICAP_REQ_HDR_def)
  have "ci_headers_value two_headers ''Content-Length'' = Ret None" by code_simp
  then have len: "ci_http_content_length demo_message = Ret (-1)"
    using res by (simp add: ci_http_content_length_def any_headers_def get_header_def)
  have "url_of two_headers LOG_URL_SIZE = Ret (Some ''x'')" by code_simp
  then have url: "ci_http_request_url demo_message LOG_URL_SIZE = Ret (Some ''x'')" using res(3,4) by (simp add: ci_http_request_url_def)
  have txts: "rq_text demo_message = []" "win demo_message" using f by (simp_all add: rq_text_def win_def)
  have "chunked [''abc''] X_none = ''3'' @ CRLF @ ''abc'' @ CRLF @ ''0'' @ CRLF @ CRLF" by code_simp
  then have "body_awaited demo_message [''abc''] X_none
      [(''3'' @ [CR], None), (LF # ''abc'' @ CRLF @ ''0'' @ CRLF, Some Out_fail), (CRLF, None)] []"
    using f txts by (simp add: body_awaited_def good_chunks_def good_ext_def)
  moreover have "ready_to_answer (demo_message\<lparr>rq_return_code := EC_200\<rparr>)" using f by (simp add: ready_to_answer_def)
  moreover have "gw_data demo_world = Some demo_data" "gw_stats demo_world \<noteq> None" by (simp_all add: demo_world_def)
  ultimately show ?thesis using demo_sendable len url by (auto simp: message_arrives_def demo_conn_def)
qed

lemma demo_program: "program_ran demo_gw w B GW_REBUILT ''R''" "page_env demo_gw demo_page"
  using demo_loaded_facts(7,8)
  by (simp_all add: program_ran_def demo_gw_def exec_prog_def GW_REBUILT_def eval_nat_numeral page_env_def full_reads_def MAX_CHUNK_SIZE_def files_work_def)

end
