(* ===== verification/Types_Ops.thy ===== *)
theory Types_Ops
  imports Simple_Api
begin

text \<open>
  The typed keys of \<^verbatim>\<open>types_ops.c\<close>: strings, numbers, addresses with a netmask, regular expressions and
  data types, each with operations to make a key from text, to compare it and to test a value against it.
  The C code passes keys as \<^verbatim>\<open>void *\<close>; here a key is tagged with what it is, and an operation that reads a
  key as something it is not is undefined.  Memory for a key is taken to be available.

  What an operation table promises is the locale \<^verbatim>\<open>key_ops\<close>: keys made from text are of the kind the
  table stores, and a stored key can be tested against every value of the kind that requests supply.  It
  is interpreted for each table of the code.
\<close>

section \<open>Addresses\<close>

text \<open>
  \<^verbatim>\<open>ci_in_addr_t\<close> is a union of an IPv4 and an IPv6 address: four words, of which an IPv4 address is the
  first.  Words are in network order, so \<^verbatim>\<open>htonl\<close> of a constant is that constant.
\<close>

datatype ci_in_addr = In_addr "32 word" "32 word" "32 word" "32 word"

fun addr_word :: "nat \<Rightarrow> ci_in_addr \<Rightarrow> 32 word" where
  "addr_word i (In_addr a b c d) = (if i = 0 then a else if i = 1 then b else if i = 2 then c else d)"

abbreviation ipv4_addr :: "ci_in_addr \<Rightarrow> 32 word" where "ipv4_addr \<equiv> addr_word 0"

definition ci_inaddr_zero :: ci_in_addr where "ci_inaddr_zero = In_addr 0 0 0 0"

fun ci_ipv4_inaddr_hostnetmask :: "ci_in_addr \<Rightarrow> ci_in_addr" where
  "ci_ipv4_inaddr_hostnetmask (In_addr a b c d) = In_addr 0xFFFFFFFF b c d"

definition ci_ipv6_inaddr_hostnetmask :: ci_in_addr where
  "ci_ipv6_inaddr_hostnetmask = In_addr 0xFFFFFFFF 0xFFFFFFFF 0xFFFFFFFF 0xFFFFFFFF"

datatype af = AF_INET | AF_INET6

record ci_ip =
  ip_address :: ci_in_addr
  ip_netmask :: ci_in_addr
  ip_family :: af

record ci_sockaddr =
  sa_family :: af
  sa_port :: int
  sa_addr :: ci_in_addr

definition word_in_net :: "32 word \<Rightarrow> 32 word \<Rightarrow> 32 word \<Rightarrow> bool" where
  "word_in_net a b m \<longleftrightarrow> a AND m = b AND m"

definition ci_ipv4_inaddr_check_net :: "ci_in_addr \<Rightarrow> ci_in_addr \<Rightarrow> ci_in_addr \<Rightarrow> bool" where
  "ci_ipv4_inaddr_check_net a b m = word_in_net (ipv4_addr a) (ipv4_addr b) (ipv4_addr m)"

definition ci_ipv6_inaddr_check_net :: "ci_in_addr \<Rightarrow> ci_in_addr \<Rightarrow> ci_in_addr \<Rightarrow> bool" where
  "ci_ipv6_inaddr_check_net a b m \<longleftrightarrow>
     word_in_net (addr_word 0 a) (addr_word 0 b) (addr_word 0 m) \<and> word_in_net (addr_word 1 a) (addr_word 1 b) (addr_word 1 m)
     \<and> word_in_net (addr_word 2 a) (addr_word 2 b) (addr_word 2 m) \<and> word_in_net (addr_word 3 a) (addr_word 3 b) (addr_word 3 m)"

definition is_v4mapped :: "ci_in_addr \<Rightarrow> bool" where
  "is_v4mapped a \<longleftrightarrow> addr_word 0 a = 0 \<and> addr_word 1 a = 0 \<and> addr_word 2 a = 0xFFFF"

definition ci_ipv4_in_ipv6_check_net :: "ci_in_addr \<Rightarrow> ci_in_addr \<Rightarrow> ci_in_addr \<Rightarrow> bool" where
  "ci_ipv4_in_ipv6_check_net a b m \<longleftrightarrow> is_v4mapped b \<and> word_in_net (ipv4_addr a) (addr_word 3 b) (ipv4_addr m)"

text \<open>The netmask is read as an IPv4 mask here although it belongs to the IPv6 address \<open>a\<close>.\<close>

definition ci_ipv6_in_ipv4_check_net :: "ci_in_addr \<Rightarrow> ci_in_addr \<Rightarrow> ci_in_addr \<Rightarrow> bool" where
  "ci_ipv6_in_ipv4_check_net a b m \<longleftrightarrow> is_v4mapped a \<and> word_in_net (addr_word 3 a) (ipv4_addr b) (ipv4_addr m)"

definition addr_in_net :: "ci_ip \<Rightarrow> af \<Rightarrow> ci_in_addr \<Rightarrow> bool" where
  "addr_in_net ref fam a =
     (if fam = AF_INET then
        if ip_family ref = AF_INET then ci_ipv4_inaddr_check_net (ip_address ref) a (ip_netmask ref)
        else ci_ipv6_in_ipv4_check_net (ip_address ref) a (ip_netmask ref)
      else if ip_family ref = AF_INET6 then ci_ipv6_inaddr_check_net (ip_address ref) a (ip_netmask ref)
      else ci_ipv4_in_ipv6_check_net (ip_address ref) a (ip_netmask ref))"

section \<open>Keys\<close>

record acl_time_data =
  tm_days :: "32 word"
  tm_start :: nat
  tm_end :: nat

record regex_flags =
  rf_icase :: bool
  rf_newline :: bool

datatype key =
    K_str bytes
  | K_int32 int
  | K_uint64 "64 word"
  | K_ip ci_ip
  | K_sockaddr ci_sockaddr
  | K_datatype "32 word"
  | K_regex bytes regex_flags
  | K_cmp "64 word" int
  | K_time acl_time_data

datatype kind = Kd_str | Kd_int32 | Kd_uint64 | Kd_ip | Kd_sockaddr | Kd_datatype | Kd_regex | Kd_cmp | Kd_time

fun kind_of :: "key \<Rightarrow> kind" where
  "kind_of (K_str _) = Kd_str"
| "kind_of (K_int32 _) = Kd_int32"
| "kind_of (K_uint64 _) = Kd_uint64"
| "kind_of (K_ip _) = Kd_ip"
| "kind_of (K_sockaddr _) = Kd_sockaddr"
| "kind_of (K_datatype _) = Kd_datatype"
| "kind_of (K_regex _ _) = Kd_regex"
| "kind_of (K_cmp _ _) = Kd_cmp"
| "kind_of (K_time _) = Kd_time"

text \<open>
  \<^verbatim>\<open>ci_type_ops_t\<close>.  The second key of \<^verbatim>\<open>compare\<close> and \<^verbatim>\<open>equal\<close> may be a null pointer.  \<open>None\<close> for an operation is a
  null pointer in the table.  The first argument of \<^verbatim>\<open>dup\<close> says whether its allocator finds memory for the key.
\<close>

record type_ops =
  ty_dup :: "bool \<Rightarrow> bytes \<Rightarrow> key option c_result"
  ty_compare :: "(key \<Rightarrow> key option \<Rightarrow> int c_result) option"
  ty_size :: "(key \<Rightarrow> nat c_result) option"
  ty_equal :: "key \<Rightarrow> key option \<Rightarrow> bool c_result"

section \<open>Strings\<close>

fun strcmp_c :: "bytes \<Rightarrow> bytes \<Rightarrow> int" where
  "strcmp_c [] [] = 0"
| "strcmp_c [] (b # bs) = -1"
| "strcmp_c (a # as) [] = 1"
| "strcmp_c (a # as) (b # bs) =
     (if a = b then strcmp_c as bs else if (of_char a :: nat) < of_char b then -1 else 1)"

definition stringdup :: "bool \<Rightarrow> bytes \<Rightarrow> key option c_result" where
  "stringdup mem s = Ret (if mem then Some (K_str s) else None)"

fun stringcmp :: "key \<Rightarrow> key option \<Rightarrow> int c_result" where
  "stringcmp k1 None = Ret (-1)"
| "stringcmp (K_str a) (Some (K_str b)) = Ret (strcmp_c a b)"
| "stringcmp k1 (Some k2) = Undef"

fun stringequal :: "key \<Rightarrow> key option \<Rightarrow> bool c_result" where
  "stringequal k1 None = Ret False"
| "stringequal (K_str a) (Some (K_str b)) = Ret (strcmp_c a b = 0)"
| "stringequal k1 (Some k2) = Undef"

fun stringlen :: "key \<Rightarrow> nat c_result" where
  "stringlen (K_str a) = Ret (length a + 1)"
| "stringlen k = Undef"

definition ci_str_ops :: type_ops where
  "ci_str_ops = \<lparr>ty_dup = stringdup, ty_compare = Some stringcmp, ty_size = Some stringlen, ty_equal = stringequal\<rparr>"

fun string_ext_cmp :: "key \<Rightarrow> key option \<Rightarrow> int c_result" where
  "string_ext_cmp k1 None = Ret (-1)"
| "string_ext_cmp (K_str a) (Some (K_str b)) = Ret (if strcmp_c a ''*'' = 0 then 0 else strcmp_c a b)"
| "string_ext_cmp k1 (Some k2) = Undef"

fun string_ext_equal :: "key \<Rightarrow> key option \<Rightarrow> bool c_result" where
  "string_ext_equal k1 None = Ret False"
| "string_ext_equal (K_str a) (Some (K_str b)) = Ret (strcmp_c a ''*'' = 0 \<or> strcmp_c a b = 0)"
| "string_ext_equal k1 (Some k2) = Undef"

definition ci_str_ext_ops :: type_ops where
  "ci_str_ext_ops = \<lparr>ty_dup = stringdup, ty_compare = Some string_ext_cmp, ty_size = Some stringlen, ty_equal = string_ext_equal\<rparr>"

lemma strcmp_c_0 [simp]: "strcmp_c a b = 0 \<longleftrightarrow> a = b"
  by (induction a b rule: strcmp_c.induct) auto

section \<open>Numbers\<close>

text \<open>The factor that a letter behind the number stands for.\<close>

definition unit_factor :: "bytes \<Rightarrow> int" where
  "unit_factor e =
     (case e of
        [] \<Rightarrow> 1
      | c # _ \<Rightarrow>
          if c = CHR ''K'' \<or> c = CHR ''k'' then 1000
          else if c = CHR ''M'' \<or> c = CHR ''m'' then 1000000
          else if c = CHR ''G'' \<or> c = CHR ''g'' then 1000000000
          else 1)"

text \<open>\<^verbatim>\<open>int32_dup\<close>: the \<^verbatim>\<open>long\<close> is truncated; a product that does not fit an \<^verbatim>\<open>int\<close> is undefined.\<close>

definition int32_dup :: "bool \<Rightarrow> bytes \<Rightarrow> key option c_result" where
  "int32_dup mem s =
     (if \<not> mem then Ret None
      else let (v, n) = strtol 10 s; i = int32 v * unit_factor (drop n s) in
        if int32 i = i then Ret (Some (K_int32 i)) else Undef)"

definition cmp_val :: "'a::linorder \<Rightarrow> 'a \<Rightarrow> int" where
  "cmp_val a b = (if a < b then -1 else if b < a then 1 else 0)"

fun int32_cmp :: "key \<Rightarrow> key option \<Rightarrow> int c_result" where
  "int32_cmp (K_int32 a) (Some (K_int32 b)) = Ret (cmp_val a b)"
| "int32_cmp k1 k2 = Undef"

fun int32_equal :: "key \<Rightarrow> key option \<Rightarrow> bool c_result" where
  "int32_equal (K_int32 a) (Some (K_int32 b)) = Ret (a = b)"
| "int32_equal k1 k2 = Undef"

definition int32_len :: "key \<Rightarrow> nat c_result" where "int32_len k = Ret 4"

definition ci_int32_ops :: type_ops where
  "ci_int32_ops = \<lparr>ty_dup = int32_dup, ty_compare = Some int32_cmp, ty_size = Some int32_len, ty_equal = int32_equal\<rparr>"

definition uint64_dup :: "bool \<Rightarrow> bytes \<Rightarrow> key option c_result" where
  "uint64_dup mem s =
     (if \<not> mem then Ret None
      else let (v, n) = strtol 10 s in Ret (Some (K_uint64 (word_of_int v * word_of_int (unit_factor (drop n s))))))"

fun uint64_cmp :: "key \<Rightarrow> key option \<Rightarrow> int c_result" where
  "uint64_cmp (K_uint64 a) (Some (K_uint64 b)) = Ret (cmp_val a b)"
| "uint64_cmp k1 k2 = Undef"

fun uint64_equal :: "key \<Rightarrow> key option \<Rightarrow> bool c_result" where
  "uint64_equal (K_uint64 a) (Some (K_uint64 b)) = Ret (a = b)"
| "uint64_equal k1 k2 = Undef"

definition uint64_len :: "key \<Rightarrow> nat c_result" where "uint64_len k = Ret 8"

definition ci_uint64_ops :: type_ops where
  "ci_uint64_ops = \<lparr>ty_dup = uint64_dup, ty_compare = Some uint64_cmp, ty_size = Some uint64_len, ty_equal = uint64_equal\<rparr>"

section \<open>Regular expressions\<close>

text \<open>
  \<^verbatim>\<open>ci_regex_parse\<close> of \<^verbatim>\<open>regex.c\<close>, in the build with the regular expressions of the C library: the text between
  the first character, which is a slash, and the last slash, and the flags behind it (\<^verbatim>\<open>g\<close> sets the third
  result).  The library itself is the argument \<open>rx\<close>: it compiles a pattern with flags, or fails.
\<close>

definition ci_regex_parse :: "bytes \<Rightarrow> (bytes \<times> regex_flags \<times> bool) option" where
  "ci_regex_parse str =
     (case str of
        [] \<Rightarrow> None
      | c # s \<Rightarrow>
          if c \<noteq> CHR ''/'' \<or> CHR ''/'' \<notin> set s then None
          else let fl = rev (takeWhile (\<lambda>c. c \<noteq> CHR ''/'') (rev s)) in
            Some (take (length s - length fl - 1) s,
                  \<lparr>rf_icase = (CHR ''i'' \<in> set fl), rf_newline = (CHR ''m'' \<in> set fl)\<rparr>, CHR ''g'' \<in> set fl))"

type_synonym regex_lib = "bytes \<Rightarrow> regex_flags \<Rightarrow> (bytes \<Rightarrow> bool) option"

definition regex_dup :: "regex_lib \<Rightarrow> bool \<Rightarrow> bytes \<Rightarrow> key option c_result" where
  "regex_dup rx mem str =
     Ret (case ci_regex_parse str of
            None \<Rightarrow> None
          | Some (pat, fl, _) \<Rightarrow>
              if \<not> mem then None else (case rx pat fl of None \<Rightarrow> None | Some _ \<Rightarrow> Some (K_regex pat fl)))"

text \<open>\<^verbatim>\<open>ci_regex_apply\<close> as it is called here, to look for one match; a key that never compiled cannot be applied.\<close>

definition ci_regex_apply :: "regex_lib \<Rightarrow> bytes \<Rightarrow> regex_flags \<Rightarrow> bytes \<Rightarrow> nat c_result" where
  "ci_regex_apply rx pat fl str =
     (case rx pat fl of None \<Rightarrow> Undef | Some m \<Rightarrow> Ret (if m str then 1 else 0))"

fun regex_cmp :: "regex_lib \<Rightarrow> key \<Rightarrow> key option \<Rightarrow> int c_result" where
  "regex_cmp rx k1 None = Ret (-1)"
| "regex_cmp rx (K_regex pat fl) (Some (K_str s)) = c_bind (ci_regex_apply rx pat fl s) (\<lambda>n. Ret (if n = 0 then 1 else 0))"
| "regex_cmp rx k1 (Some k2) = Undef"

fun regex_equal :: "regex_lib \<Rightarrow> key \<Rightarrow> key option \<Rightarrow> bool c_result" where
  "regex_equal rx k1 None = Ret False"
| "regex_equal rx (K_regex pat fl) (Some (K_str s)) = c_bind (ci_regex_apply rx pat fl s) (\<lambda>n. Ret (n \<noteq> 0))"
| "regex_equal rx k1 (Some k2) = Undef"

fun regex_len :: "key \<Rightarrow> nat c_result" where
  "regex_len (K_regex pat fl) = Ret (length pat)"
| "regex_len k = Undef"

definition ci_regex_ops :: "regex_lib \<Rightarrow> type_ops" where
  "ci_regex_ops rx = \<lparr>ty_dup = regex_dup rx, ty_compare = Some (regex_cmp rx), ty_size = Some regex_len, ty_equal = regex_equal rx\<rparr>"

section \<open>Data types\<close>

text \<open>The magic number tables of \<^verbatim>\<open>filetype.c\<close> are an argument: names of types and groups, and membership.\<close>

record magic_db =
  ci_magic_type_id :: "bytes \<Rightarrow> int"
  ci_magic_group_id :: "bytes \<Rightarrow> int"
  ci_magic_group_check :: "32 word \<Rightarrow> int \<Rightarrow> bool"

text \<open>The result of the allocator is not tested: a known type or group is stored through the null pointer.\<close>

definition datatype_dup :: "magic_db \<Rightarrow> bool \<Rightarrow> bytes \<Rightarrow> key option c_result" where
  "datatype_dup mg mem str =
     (if 0 \<le> ci_magic_type_id mg str then
        (if mem then Ret (Some (K_datatype (word_of_int (ci_magic_type_id mg str)))) else Undef)
      else if 0 \<le> ci_magic_group_id mg str then
        (if mem then Ret (Some (K_datatype (push_bit 16 (word_of_int (ci_magic_group_id mg str))))) else Undef)
      else Ret None)"

fun datatype_cmp :: "magic_db \<Rightarrow> key \<Rightarrow> key option \<Rightarrow> int c_result" where
  "datatype_cmp mg (K_datatype t) None = Ret (-1)"
| "datatype_cmp mg (K_datatype t) (Some (K_datatype u)) =
     Ret (if 0xFFFF0000 AND t = 0 then sint (t - u)
          else if ci_magic_group_check mg u (uint (drop_bit 16 t)) then 0 else 1)"
| "datatype_cmp mg k1 k2 = Undef"

fun datatype_equal :: "magic_db \<Rightarrow> key \<Rightarrow> key option \<Rightarrow> bool c_result" where
  "datatype_equal mg (K_datatype t) None = Ret False"
| "datatype_equal mg (K_datatype t) (Some (K_datatype u)) =
     Ret (if 0xFFFF0000 AND t = 0 then t = u else ci_magic_group_check mg u (uint (drop_bit 16 t)))"
| "datatype_equal mg k1 k2 = Undef"

definition datatype_len :: "key \<Rightarrow> nat c_result" where "datatype_len k = Ret 4"

definition ci_datatype_ops :: "magic_db \<Rightarrow> type_ops" where
  "ci_datatype_ops mg = \<lparr>ty_dup = datatype_dup mg, ty_compare = Some (datatype_cmp mg), ty_size = Some datatype_len,
     ty_equal = datatype_equal mg\<rparr>"

section \<open>Networks\<close>

text \<open>\<^verbatim>\<open>inet_pton\<close> is the argument \<open>pt\<close>; it stores into the words of the address family only.\<close>

record pton =
  pton4 :: "bytes \<Rightarrow> (32 word) option"
  pton6 :: "bytes \<Rightarrow> ci_in_addr option"

fun ci_inet_aton :: "pton \<Rightarrow> af \<Rightarrow> bytes \<Rightarrow> ci_in_addr \<Rightarrow> ci_in_addr option" where
  "ci_inet_aton pt AF_INET cp (In_addr a b c d) = map_option (\<lambda>w. In_addr w b c d) (pton4 pt cp)"
| "ci_inet_aton pt AF_INET6 cp _ = pton6 pt cp"

definition CI_IPLEN :: nat where "CI_IPLEN = 46"

definition parse_network :: "pton \<Rightarrow> bytes \<Rightarrow> ci_ip option" where
  "parse_network pt value =
     (let fam = (if CHR '':'' \<in> set value then AF_INET6 else AF_INET);
          mk = (\<lambda>a m. \<lparr>ip_address = a, ip_netmask = m, ip_family = fam\<rparr>)
      in if CHR ''/'' \<in> set value then
           let str_addr = takeWhile (\<lambda>c. c \<noteq> CHR ''/'') value; str_netmask = take CI_IPLEN (drop (length str_addr + 1) value) in
           if CI_IPLEN \<le> length str_addr then None
           else (case ci_inet_aton pt fam str_addr ci_inaddr_zero of
                   None \<Rightarrow> None
                 | Some a \<Rightarrow> map_option (mk a) (ci_inet_aton pt fam str_netmask ci_inaddr_zero))
         else map_option (\<lambda>a. mk a (if fam = AF_INET then ci_ipv4_inaddr_hostnetmask ci_inaddr_zero else ci_ipv6_inaddr_hostnetmask))
                (ci_inet_aton pt fam value ci_inaddr_zero))"

text \<open>\<^verbatim>\<open>ip_dup\<close>: the text is read first, then the key is stored without a test of the allocation.\<close>

definition ip_dup :: "pton \<Rightarrow> bool \<Rightarrow> bytes \<Rightarrow> key option c_result" where
  "ip_dup pt mem value =
     (case parse_network pt value of
        None \<Rightarrow> Ret None
      | Some ip \<Rightarrow> if mem then Ret (Some (K_ip ip)) else Undef)"

definition ip_len :: "key \<Rightarrow> nat c_result" where "ip_len k = Ret 36"

definition ip_cmp :: "key \<Rightarrow> key option \<Rightarrow> int c_result" where "ip_cmp k1 k2 = Ret 0"

fun ip_equal :: "key \<Rightarrow> key option \<Rightarrow> bool c_result" where
  "ip_equal (K_ip ref) None = Ret False"
| "ip_equal (K_ip ref) (Some (K_ip c)) = Ret (addr_in_net ref (ip_family c) (ip_address c))"
| "ip_equal k1 k2 = Undef"

definition ip_sockaddr_cmp :: "key \<Rightarrow> key option \<Rightarrow> int c_result" where "ip_sockaddr_cmp k1 k2 = Ret 1"

fun ip_sockaddr_equal :: "key \<Rightarrow> key option \<Rightarrow> bool c_result" where
  "ip_sockaddr_equal (K_ip ref) None = Ret False"
| "ip_sockaddr_equal (K_ip ref) (Some (K_sockaddr c)) = Ret (addr_in_net ref (sa_family c) (sa_addr c))"
| "ip_sockaddr_equal k1 k2 = Undef"

definition ci_ip_ops :: "pton \<Rightarrow> type_ops" where
  "ci_ip_ops pt = \<lparr>ty_dup = ip_dup pt, ty_compare = Some ip_cmp, ty_size = Some ip_len, ty_equal = ip_equal\<rparr>"

definition ci_ip_sockaddr_ops :: "pton \<Rightarrow> type_ops" where
  "ci_ip_sockaddr_ops pt = \<lparr>ty_dup = ip_dup pt, ty_compare = Some ip_sockaddr_cmp, ty_size = Some ip_len, ty_equal = ip_sockaddr_equal\<rparr>"

text \<open>
  \<^verbatim>\<open>ci_http_client_ip\<close> of \<^verbatim>\<open>simple_api.c\<close>.  The request remembers the address: not looked for yet (family 0),
  tried in vain (family -1), or known.  The header is looked for again as long as it is missing.
\<close>

datatype xclient_ip = Ip_unset | Ip_failed | Ip_known ci_ip

definition ci_http_client_ip :: "pton \<Rightarrow> ci_request \<Rightarrow> xclient_ip \<Rightarrow> (xclient_ip \<times> ci_ip option) c_result" where
  "ci_http_client_ip pt req cached =
     (case cached of
        Ip_failed \<Rightarrow> Ret (Ip_failed, None)
      | Ip_known ip \<Rightarrow> Ret (cached, Some ip)
      | Ip_unset \<Rightarrow>
          c_bind (ci_headers_value (rq_request_header req) ''X-Client-IP'') (\<lambda>v.
            case v of
              None \<Rightarrow> Ret (Ip_unset, None)
            | Some p \<Rightarrow>
                let ip = cstr (drop p (hl_buf (rq_request_header req)));
                    fam = (if CHR '':'' \<in> set ip then AF_INET6 else AF_INET)
                in case ci_inet_aton pt fam ip ci_inaddr_zero of
                     None \<Rightarrow> Ret (Ip_failed, None)
                   | Some a \<Rightarrow>
                       let x = \<lparr>ip_address = a,
                                ip_netmask = (if fam = AF_INET then ci_ipv4_inaddr_hostnetmask ci_inaddr_zero else ci_ipv6_inaddr_hostnetmask),
                                ip_family = fam\<rparr>
                       in Ret (Ip_known x, Some x)))"

section \<open>The interface of a table of operations\<close>

text \<open>
  \<open>scan_keys\<close> is the loop that looks for a key that the value matches.  Keys made from text are \<open>stored\<close>; the values to test are of the
  kind \<open>tested\<close>.
\<close>

fun scan_keys :: "(key \<Rightarrow> key option \<Rightarrow> bool c_result) \<Rightarrow> key list \<Rightarrow> key \<Rightarrow> bool c_result" where
  "scan_keys equal [] v = Ret False"
| "scan_keys equal (k # ks) v = c_bind (equal k (Some v)) (\<lambda>b. if b then Ret True else scan_keys equal ks v)"

locale key_ops =
  fixes dup :: "bool \<Rightarrow> bytes \<Rightarrow> key option c_result"
    and equal :: "key \<Rightarrow> key option \<Rightarrow> bool c_result"
    and stored :: "key \<Rightarrow> bool"
    and tested :: kind
  assumes dup_stored: "dup mem s = Ret (Some k) \<Longrightarrow> stored k"
    and equal_returns: "\<lbrakk>stored k; kind_of v = tested\<rbrakk> \<Longrightarrow> \<exists>b. equal k (Some v) = Ret b"
begin

lemma scan_keys_returns:
  assumes "\<forall>k \<in> set ks. stored k" "kind_of v = tested"
  shows "scan_keys equal ks v = Ret (\<exists>k \<in> set ks. equal k (Some v) = Ret True)"
  using assms(1)
proof (induction ks)
  case (Cons k ks)
  then obtain b where "equal k (Some v) = Ret b" using equal_returns [of k v] assms(2) by auto
  with Cons show ?case by auto
qed simp

end

interpretation str: key_ops stringdup stringequal "\<lambda>k. kind_of k = Kd_str" Kd_str
proof
  show "\<exists>b. stringequal k (Some v) = Ret b" if "kind_of k = Kd_str" "kind_of v = Kd_str" for k v
    using that by (cases k; cases v) simp_all
qed (auto simp: stringdup_def split: if_splits)

interpretation str_ext: key_ops stringdup string_ext_equal "\<lambda>k. kind_of k = Kd_str" Kd_str
proof
  show "\<exists>b. string_ext_equal k (Some v) = Ret b" if "kind_of k = Kd_str" "kind_of v = Kd_str" for k v
    using that by (cases k; cases v) simp_all
qed (auto simp: stringdup_def split: if_splits)

interpretation int32: key_ops int32_dup int32_equal "\<lambda>k. kind_of k = Kd_int32" Kd_int32
proof
  show "\<exists>b. int32_equal k (Some v) = Ret b" if "kind_of k = Kd_int32" "kind_of v = Kd_int32" for k v
    using that by (cases k; cases v) simp_all
qed (auto simp: int32_dup_def Let_def split: prod.splits if_splits)

interpretation uint64: key_ops uint64_dup uint64_equal "\<lambda>k. kind_of k = Kd_uint64" Kd_uint64
proof
  show "\<exists>b. uint64_equal k (Some v) = Ret b" if "kind_of k = Kd_uint64" "kind_of v = Kd_uint64" for k v
    using that by (cases k; cases v) simp_all
qed (auto simp: uint64_dup_def split: prod.splits if_splits)

text \<open>A stored regular expression is one that compiled.\<close>

definition regex_stored :: "regex_lib \<Rightarrow> key \<Rightarrow> bool" where
  "regex_stored rx k = (case k of K_regex pat fl \<Rightarrow> rx pat fl \<noteq> None | _ \<Rightarrow> False)"

interpretation regex: key_ops "regex_dup rx" "regex_equal rx" "regex_stored rx" Kd_str for rx
proof
  show "\<exists>b. regex_equal rx k (Some v) = Ret b" if "regex_stored rx k" "kind_of v = Kd_str" for k v
    using that by (cases k; cases v) (auto simp: regex_stored_def ci_regex_apply_def)
qed (auto simp: regex_dup_def regex_stored_def split: option.splits prod.splits if_splits)

interpretation datatype_key: key_ops "datatype_dup mg" "datatype_equal mg" "\<lambda>k. kind_of k = Kd_datatype" Kd_datatype for mg
proof
  show "\<exists>b. datatype_equal mg k (Some v) = Ret b" if "kind_of k = Kd_datatype" "kind_of v = Kd_datatype" for k v
    using that by (cases k; cases v) simp_all
qed (auto simp: datatype_dup_def split: if_splits)

lemma ip_dup_kind: "ip_dup pt mem s = Ret (Some k) \<Longrightarrow> kind_of k = Kd_ip"
  by (auto simp: ip_dup_def split: if_splits option.splits)

interpretation ip: key_ops "ip_dup pt" ip_equal "\<lambda>k. kind_of k = Kd_ip" Kd_ip for pt
proof
  show "\<exists>b. ip_equal k (Some v) = Ret b" if "kind_of k = Kd_ip" "kind_of v = Kd_ip" for k v
    using that by (cases k; cases v) simp_all
qed (rule ip_dup_kind)

interpretation ip_sockaddr: key_ops "ip_dup pt" ip_sockaddr_equal "\<lambda>k. kind_of k = Kd_ip" Kd_sockaddr for pt
proof
  show "\<exists>b. ip_sockaddr_equal k (Some v) = Ret b" if "kind_of k = Kd_ip" "kind_of v = Kd_sockaddr" for k v
    using that by (cases k; cases v) simp_all
qed (rule ip_dup_kind)

section \<open>Matching networks\<close>

text \<open>With a mask that ends in \<open>k\<close> zeros two words match exactly when they agree in all bits but the last \<open>k\<close>.\<close>

lemma word_in_net_prefix:
  "word_in_net a b (NOT (mask k)) \<longleftrightarrow> drop_bit k a = drop_bit k b"
proof
  assume e: "word_in_net a b (NOT (mask k))"
  show "drop_bit k a = drop_bit k b"
  proof (rule bit_word_eqI)
    fix m
    have "bit (a AND NOT (mask k)) (k + m) = bit (b AND NOT (mask k)) (k + m)" using e by (simp add: word_in_net_def)
    then show "bit (drop_bit k a) m = bit (drop_bit k b) m"
      by (auto simp: bit_drop_bit_eq bit_and_iff bit_not_iff bit_mask_iff dest: bit_imp_le_length)
  qed
next
  assume e: "drop_bit k a = drop_bit k b"
  have "bit a m = bit b m" if "k \<le> m" for m
    using arg_cong [OF e, of "\<lambda>w. bit w (m - k)"] that by (simp add: bit_drop_bit_eq)
  then show "word_in_net a b (NOT (mask k))"
    unfolding word_in_net_def by (intro bit_word_eqI) (auto simp: bit_and_iff bit_not_iff bit_mask_iff)
qed

text \<open>
  An IPv6 reference that names a network of mapped IPv4 addresses: the same host matches when it connects
  over IPv6 and does not when it connects over IPv4, because the first word of the mask is applied to the
  last word of the address.
\<close>

theorem mapped_network_mask:
  "let ref = \<lparr>ip_address = In_addr 0 0 0xFFFF 0x0A000000, ip_netmask = In_addr 0xFFFFFFFF 0xFFFFFFFF 0xFFFFFFFF 0xFF000000,
              ip_family = AF_INET6\<rparr>;
       over4 = \<lparr>sa_family = AF_INET, sa_port = 1344, sa_addr = In_addr 0x0A010203 0 0 0\<rparr>;
       over6 = \<lparr>sa_family = AF_INET6, sa_port = 1344, sa_addr = In_addr 0 0 0xFFFF 0x0A010203\<rparr>
   in ip_sockaddr_equal (K_ip ref) (Some (K_sockaddr over6)) = Ret True
    \<and> ip_sockaddr_equal (K_ip ref) (Some (K_sockaddr over4)) = Ret False"
  by code_simp

end
