(* ===== verification/Acl.thy ===== *)
theory Acl
  imports Types_Ops Process
begin

text \<open>
  Access control lists: \<^verbatim>\<open>acl.c\<close>, the directive \<^verbatim>\<open>acl\<close> of \<^verbatim>\<open>cfg_param.c\<close> and the controller of \<^verbatim>\<open>default_acl.c\<close>.
  An acl has a name, a type (where its test data comes from in a request) and a list of keys; an access list
  is a list of rules, each an answer with acls that may be negated.

  Pointers into the array of types carry the block they point into, since the array can be moved when it
  grows; pointers to acls carry the number of resets before, since a reset releases them.  Following one
  that is not valid any more is undefined.  Proved: configuration keeps everything well typed, so that no
  request makes the matcher read a key as something else, and the answer is that of the first rule that
  matches, by a policy of names that the pointer structures implement.
\<close>

section \<open>Test data of a request\<close>

text \<open>
  The request with the addresses of its connection, the local time, the result of data type detection, and
  whether there is memory for the test data.
\<close>

record acl_env =
  ae_req :: ci_request
  ae_claddr :: ci_sockaddr
  ae_srvaddr :: ci_sockaddr
  ae_xclient :: xclient_ip
  ae_pton :: pton
  ae_wday :: nat
  ae_hour :: nat
  ae_min :: nat
  ae_data_type :: int
  ae_mem :: bool

type_synonym acl_getter = "acl_env \<Rightarrow> bytes option \<Rightarrow> key option c_result"

definition ci_method_string :: "int \<Rightarrow> bytes" where
  "ci_method_string m = (if m \<le> ICAP_RESPMOD \<and> ICAP_OPTIONS \<le> m then ci_methods ! nat m else ''UNKNOWN'')"

definition get_user :: acl_getter where "get_user ae param = Ret (Some (K_str (rq_user (ae_req ae))))"
definition get_service :: acl_getter where "get_service ae param = Ret (Some (K_str (rq_service (ae_req ae))))"
definition get_reqtype :: acl_getter where "get_reqtype ae param = Ret (Some (K_str (ci_method_string (rq_type (ae_req ae)))))"
definition get_port :: acl_getter where "get_port ae param = Ret (Some (K_int32 (sa_port (ae_srvaddr ae))))"
definition get_client_ip :: acl_getter where "get_client_ip ae param = Ret (Some (K_sockaddr (ae_claddr ae)))"
definition get_srv_ip :: acl_getter where "get_srv_ip ae param = Ret (Some (K_sockaddr (ae_srvaddr ae)))"

definition get_http_client_ip :: acl_getter where
  "get_http_client_ip ae param =
     c_bind (ci_http_client_ip (ae_pton ae) (ae_req ae) (ae_xclient ae)) (\<lambda>(_, ip). Ret (map_option K_ip ip))"

text \<open>
  A header value: a string in the header itself when it is not packed, a copy of the bytes when it is; without
  memory for the copy there is no value.
\<close>

definition text_of :: "ci_headers_list \<Rightarrow> (nat \<times> nat) option \<Rightarrow> key option" where
  "text_of h r = map_option (\<lambda>(p, n). K_str (if hl_packed h then cstr (seg p n (hl_buf h)) else cstr (drop p (hl_buf h)))) r"

definition acl_get_header :: "bool \<Rightarrow> ci_headers_list option \<Rightarrow> bytes option \<Rightarrow> key option c_result" where
  "acl_get_header mem headers head =
     (case (headers, head) of
        (Some h, Some name) \<Rightarrow> c_bind (ci_headers_value2 h name) (\<lambda>r. Ret (if hl_packed h \<and> \<not> mem then None else text_of h r))
      | _ \<Rightarrow> Ret None)"

definition headers_of :: "(ci_request \<Rightarrow> hdr_loc option) \<Rightarrow> ci_request \<Rightarrow> ci_headers_list option c_result" where
  "headers_of loc req = (case loc req of None \<Rightarrow> Ret None | Some l \<Rightarrow> c_bind (hdr_at req l) (\<lambda>h. Ret (Some h)))"

definition get_icap_header :: acl_getter where
  "get_icap_header ae param = acl_get_header (ae_mem ae) (Some (rq_request_header (ae_req ae))) param"

definition get_icap_response_header :: acl_getter where
  "get_icap_response_header ae param = acl_get_header (ae_mem ae) (Some (rq_response_header (ae_req ae))) param"

definition get_http_req_header :: acl_getter where
  "get_http_req_header ae param = c_bind (headers_of ci_http_request_headers (ae_req ae)) (\<lambda>h. acl_get_header (ae_mem ae) h param)"

definition get_http_resp_header :: acl_getter where
  "get_http_resp_header ae param = c_bind (headers_of ci_http_response_headers (ae_req ae)) (\<lambda>h. acl_get_header (ae_mem ae) h param)"

text \<open>
  The buffer for the url is neither tested nor initialised: without a url the test data has no value, and without
  memory the url is written through the null pointer.
\<close>

definition get_http_req_url :: acl_getter where
  "get_http_req_url ae param =
     c_bind (headers_of ci_http_request_headers (ae_req ae)) (\<lambda>h.
       if h = None then Ret None
       else c_bind (ci_http_request_url (ae_req ae) 8192) (\<lambda>u.
         case u of
           None \<Rightarrow> if ae_mem ae then Undef else Ret None
         | Some s \<Rightarrow> if ae_mem ae then Ret (Some (K_str s)) else Undef))"

text \<open>The copy of a first line is made without a test of the allocation.\<close>

definition first_line_of :: "bool \<Rightarrow> ci_headers_list option \<Rightarrow> key option c_result" where
  "first_line_of mem h =
     (case h of
        None \<Rightarrow> Ret None
      | Some hl \<Rightarrow> c_bind (ci_headers_first_line2 hl) (\<lambda>r.
          case r of
            None \<Rightarrow> Ret None
          | Some (p, n) \<Rightarrow>
              if n = 0 then Ret None
              else if hl_packed hl \<and> \<not> mem then Undef
              else Ret (text_of hl r)))"

definition get_http_req_line :: acl_getter where
  "get_http_req_line ae param = c_bind (headers_of ci_http_request_headers (ae_req ae)) (first_line_of (ae_mem ae))"

definition get_http_resp_line :: acl_getter where
  "get_http_resp_line ae param = c_bind (headers_of ci_http_response_headers (ae_req ae)) (first_line_of (ae_mem ae))"

definition get_http_req_method :: acl_getter where
  "get_http_req_method ae param =
     c_bind (headers_of ci_http_request_headers (ae_req ae)) (\<lambda>h.
       case h of
         None \<Rightarrow> Ret None
       | Some hl \<Rightarrow> c_bind (ci_headers_first_line2 hl) (\<lambda>r.
           case r of
             None \<Rightarrow> Ret None
           | Some (p, n) \<Rightarrow>
               let line = seg p n (hl_buf hl); m = takeWhile (\<lambda>c. \<not> isspace_c c) line in
               Ret (if n = 0 \<or> m = line \<or> \<not> ae_mem ae then None else Some (K_str (cstr m)))))"

definition get_data_type :: acl_getter where
  "get_data_type ae param = Ret (if ae_data_type ae < 0 \<or> \<not> ae_mem ae then None else Some (K_datatype (word_of_int (ae_data_type ae))))"

section \<open>Content length\<close>

definition acl_cmp_uint64_dup :: "bool \<Rightarrow> bytes \<Rightarrow> key option c_result" where
  "acl_cmp_uint64_dup = uint64_dup"

fun acl_cmp_uint64_equal :: "key \<Rightarrow> key option \<Rightarrow> bool c_result" where
  "acl_cmp_uint64_equal (K_uint64 k1) (Some (K_cmp v op)) =
     Ret (if op = 1 then k1 < v else if op = 2 then v < k1 else k1 = v)"
| "acl_cmp_uint64_equal k1 k2 = Undef"

definition acl_cmp_uint64_ops :: type_ops where
  "acl_cmp_uint64_ops = \<lparr>ty_dup = acl_cmp_uint64_dup, ty_compare = None, ty_size = None, ty_equal = acl_cmp_uint64_equal\<rparr>"

text \<open>
  The operator is the first character of the parameter; any other character leaves it unset.  The memory is
  not tested.
\<close>

definition get_content_length :: acl_getter where
  "get_content_length ae param =
     c_bind (ci_http_content_length (ae_req ae)) (\<lambda>clen.
       if clen < 0 then Ret None
       else if \<not> ae_mem ae then Undef
       else case param of
              Some (c # _) \<Rightarrow>
                if c = CHR ''='' then Ret (Some (K_cmp (word_of_int clen) 0))
                else if c = CHR ''>'' then Ret (Some (K_cmp (word_of_int clen) 1))
                else if c = CHR ''<'' then Ret (Some (K_cmp (word_of_int clen) 2))
                else Undef
            | _ \<Rightarrow> Undef)"

section \<open>Time\<close>

definition acl_days :: "(bytes \<times> nat) list" where
  "acl_days = [(''Sunday'', 0), (''Monday'', 1), (''Tuesday'', 2), (''Wednesday'', 3), (''Thursday'', 4), (''Friday'', 5),
     (''Saturday'', 6), (''S'', 0), (''M'', 1), (''T'', 2), (''W'', 3), (''H'', 4), (''F'', 5), (''A'', 6)]"

definition skip_comma :: "bytes \<Rightarrow> bytes" where
  "skip_comma s = (case s of c # r \<Rightarrow> if c = CHR '','' then r else s | [] \<Rightarrow> [])"

lemma length_skip_comma: "length (skip_comma s) \<le> length s"
  by (simp add: skip_comma_def split: list.split)

lemma find_day_shorter:
  assumes "find (\<lambda>(d, i). starts_with_ci d s) acl_days = Some (d, i)"
  shows "length (drop (length d) s) < length s"
proof -
  have "starts_with_ci d s" "(d, i) \<in> set acl_days"
    using assms by (auto simp: find_Some_iff) (metis nth_mem)
  then have "d \<noteq> []" "length d \<le> length s"
    by (auto simp: acl_days_def starts_with_ci_def dest!: arg_cong [where f = length])
  then show ?thesis by (cases d) auto
qed

text \<open>The loop over the days: the set of days and the text behind them.\<close>

function parse_days :: "bytes \<Rightarrow> 32 word \<Rightarrow> (32 word \<times> bytes) option" where
  "parse_days s days =
     (let s1 = skip_comma s in
      case find (\<lambda>(d, i). starts_with_ci d s1) acl_days of
        None \<Rightarrow> None
      | Some (d, i) \<Rightarrow>
          let s2 = drop (length d) s1; days1 = days OR push_bit i 1 in
          if s2 \<noteq> [] \<and> hd s2 = CHR '','' then parse_days s2 days1 else Some (days1, s2))"
  by pat_completeness auto
termination
proof (relation "measure (\<lambda>(s, _). length s)")
  fix s :: bytes and s1 p d i s2
  assume "s1 = skip_comma s" "find (\<lambda>(d, i). starts_with_ci d s1) acl_days = Some p" "(d, i) = p" "s2 = drop (length d) s1"
  then show "((s2, days1), s, days) \<in> measure (\<lambda>(s, _). length s)" for days1 days :: "32 word"
    using find_day_shorter [of s1 d i] length_skip_comma [of s] by auto
qed simp

text \<open>One number with its bounds, and the character that has to follow it in front of a digit.\<close>

definition time_num :: "int \<Rightarrow> bytes \<Rightarrow> (int \<times> bytes) option" where
  "time_num hi s = (let (v, n) = strtol 10 s; h = int32 v in if h < 0 \<or> hi < h then None else Some (h, drop n s))"

definition sep_digit :: "char \<Rightarrow> bytes \<Rightarrow> bytes option" where
  "sep_digit c s = (case s of a # b # r \<Rightarrow> if a = c \<and> is_digit 10 b then Some (b # r) else None | _ \<Rightarrow> None)"

definition parse_region :: "bytes \<Rightarrow> (nat \<times> nat) option" where
  "parse_region s =
     (if s = [] \<or> \<not> is_digit 10 (hd s) then None
      else Option.bind (time_num 24 s) (\<lambda>(h1, e1). Option.bind (sep_digit CHR '':'' e1) (\<lambda>s1.
           Option.bind (time_num 59 s1) (\<lambda>(m1, e2). Option.bind (sep_digit CHR ''-'' e2) (\<lambda>s2.
           Option.bind (time_num 24 s2) (\<lambda>(h2, e3). Option.bind (sep_digit CHR '':'' e3) (\<lambda>s3.
           Option.bind (time_num 59 s3) (\<lambda>(m2, e4).
             Some (nat (h1 * 60 + m1), nat (h2 * 60 + m2))))))))))"

text \<open>\<^verbatim>\<open>acl_time_dup\<close> stores through the result of the allocator before anything else.\<close>

definition acl_time_dup :: "bool \<Rightarrow> bytes \<Rightarrow> key option c_result" where
  "acl_time_dup mem str =
     (if \<not> mem then Undef
      else let s = take 1023 str;
          p = (if s \<noteq> [] \<and> is_digit 10 (hd s) then Some (0, s)
               else Option.bind (parse_days s 0) (\<lambda>(days, r).
                 case r of c # r1 \<Rightarrow> if c = CHR ''/'' then Some (days, r1) else None | [] \<Rightarrow> None))
      in Ret (Option.bind p (\<lambda>(days, r). Option.bind (parse_region r) (\<lambda>(a, b).
           if a \<le> b then Some (K_time \<lparr>tm_days = days, tm_start = a, tm_end = b\<rparr>) else None))))"

fun acl_time_equal :: "key \<Rightarrow> key option \<Rightarrow> bool c_result" where
  "acl_time_equal (K_time a) (Some (K_time r)) =
     Ret (tm_days a AND tm_days r \<noteq> 0 \<and> tm_start a \<le> tm_start r \<and> tm_start r \<le> tm_end a)"
| "acl_time_equal k1 k2 = Undef"

definition acl_time_ops :: type_ops where
  "acl_time_ops = \<lparr>ty_dup = acl_time_dup, ty_compare = None, ty_size = None, ty_equal = acl_time_equal\<rparr>"

definition get_time_data :: acl_getter where
  "get_time_data ae param =
     (if ae_mem ae
      then Ret (Some (K_time \<lparr>tm_days = push_bit (ae_wday ae) 1, tm_start = ae_hour ae * 60 + ae_min ae, tm_end = 0\<rparr>))
      else Undef)"

text \<open>A time without days has an empty set of days, so it never matches, whatever the hour.\<close>

theorem time_without_days_never_matches:
  assumes "is_digit 10 c" "acl_time_dup mem (c # s) = Ret (Some k)"
  shows "acl_time_equal k (Some (K_time t)) = Ret False"
  using assms by (auto simp: acl_time_dup_def Let_def bind_eq_Some_conv split: if_splits)

section \<open>Types, acls and rules\<close>

definition MAX_NAME_LEN :: nat where "MAX_NAME_LEN = 31"

text \<open>\<^verbatim>\<open>free_test_data\<close>: null, a function of the type, or whatever the memory held.\<close>

datatype free_fn = Free_null | Free_fn | Free_wild

record ci_acl_type =
  aty_name :: bytes
  aty_get :: acl_getter
  aty_free :: free_fn
  aty_ops :: type_ops

text \<open>\<^verbatim>\<open>ci_acl_type_list\<close>; the number of types is the length of the list, and the capacity that of the memory block.\<close>

record acl_type_list =
  tl_block :: nat
  tl_capacity :: nat
  tl_items :: "ci_acl_type list"
  tl_size :: nat

type_synonym type_ptr = "nat \<times> nat"
type_synonym spec_ptr = "nat \<times> nat"

record ci_acl_spec =
  as_name :: bytes
  as_type :: type_ptr
  as_parameter :: "bytes option"
  as_data :: "key list"

record ci_specs_list =
  sl_spec :: spec_ptr
  sl_negate :: bool

record ci_access_entry =
  en_type :: int
  en_specs :: "ci_specs_list list"

record acl_lib =
  al_types :: acl_type_list
  al_resets :: nat
  al_specs :: "ci_acl_spec list"
  al_connection_access :: "ci_access_entry list"
  al_access :: "ci_access_entry list"

definition type_at :: "acl_lib \<Rightarrow> type_ptr \<Rightarrow> ci_acl_type c_result" where
  "type_at L p = (if fst p = tl_block (al_types L) \<and> snd p < length (tl_items (al_types L)) then Ret (tl_items (al_types L) ! snd p) else Undef)"

definition spec_at :: "acl_lib \<Rightarrow> spec_ptr \<Rightarrow> ci_acl_spec c_result" where
  "spec_at L p = (if fst p = al_resets L \<and> snd p < length (al_specs L) then Ret (al_specs L ! snd p) else Undef)"

text \<open>The index of the first element with a property.\<close>

fun index_of :: "('a \<Rightarrow> bool) \<Rightarrow> 'a list \<Rightarrow> nat option" where
  "index_of P [] = None"
| "index_of P (x # xs) = (if P x then Some 0 else map_option Suc (index_of P xs))"

section \<open>The table of types\<close>

definition ACL_STEP :: nat where "ACL_STEP = 32"

text \<open>\<^verbatim>\<open>ci_acl_typelist_init\<close>; the result \<open>mem\<close> of \<^verbatim>\<open>malloc\<close> is not tested, so the list may claim a size without any memory.\<close>

definition ci_acl_typelist_init :: "bool \<Rightarrow> nat \<Rightarrow> acl_type_list" where
  "ci_acl_typelist_init mem block =
     \<lparr>tl_block = block, tl_capacity = (if mem then ACL_STEP else 0), tl_items = [], tl_size = ACL_STEP\<rparr>"

definition ci_acl_typelist_search :: "acl_type_list \<Rightarrow> bytes \<Rightarrow> type_ptr option" where
  "ci_acl_typelist_search T name = map_option (Pair (tl_block T)) (index_of (\<lambda>t. aty_name t = name) (tl_items T))"

text \<open>
  \<^verbatim>\<open>ci_acl_typelist_add\<close>: \<open>ok\<close> is the result of the reallocation, \<open>junk i\<close> whether the memory of slot \<open>i\<close> held anything
  but zero.  The function that releases the test data is not copied.  When the reallocation fails the size
  is raised all the same, and the next type is written behind the block.
\<close>

definition ci_acl_typelist_add :: "bool \<Rightarrow> (nat \<Rightarrow> bool) \<Rightarrow> acl_type_list \<Rightarrow> ci_acl_type \<Rightarrow> (acl_type_list \<times> bool) c_result" where
  "ci_acl_typelist_add ok junk T ty =
     (if ci_acl_typelist_search T (aty_name ty) \<noteq> None then Ret (T, False)
      else let n = length (tl_items T); full = (n = tl_size T);
               T1 = (if full then T\<lparr>tl_size := tl_size T + ACL_STEP\<rparr> else T);
               T2 = (if full then T1\<lparr>tl_block := Suc (tl_block T1), tl_capacity := tl_size T1\<rparr> else T1)
        in if full \<and> \<not> ok then Ret (T1, False)
           else if tl_capacity T2 \<le> n then Undef
           else Ret (T2\<lparr>tl_items := tl_items T2 @ [ty\<lparr>aty_name := take MAX_NAME_LEN (aty_name ty),
                       aty_free := (if junk n then Free_wild else Free_null)\<rparr>]\<rparr>, True))"

definition ci_acl_typelist_release :: "acl_type_list \<Rightarrow> acl_type_list" where
  "ci_acl_typelist_release T = T\<lparr>tl_block := Suc (tl_block T), tl_capacity := 0, tl_items := [], tl_size := 0\<rparr>"

definition ci_acl_typelist_reset :: "acl_type_list \<Rightarrow> acl_type_list" where
  "ci_acl_typelist_reset T = T\<lparr>tl_items := []\<rparr>"

text \<open>The types of the server; \<open>rx\<close>, \<open>mg\<close> and \<open>pt\<close> are the libraries they use.\<close>

definition default_types :: "regex_lib \<Rightarrow> magic_db \<Rightarrow> pton \<Rightarrow> ci_acl_type list" where
  "default_types rx mg pt =
     [\<lparr>aty_name = ''port'', aty_get = get_port, aty_free = Free_null, aty_ops = ci_int32_ops\<rparr>,
      \<lparr>aty_name = ''service'', aty_get = get_service, aty_free = Free_null, aty_ops = ci_str_ops\<rparr>,
      \<lparr>aty_name = ''type'', aty_get = get_reqtype, aty_free = Free_null, aty_ops = ci_str_ops\<rparr>,
      \<lparr>aty_name = ''user'', aty_get = get_user, aty_free = Free_null, aty_ops = ci_str_ops\<rparr>,
      \<lparr>aty_name = ''src'', aty_get = get_client_ip, aty_free = Free_null, aty_ops = ci_ip_sockaddr_ops pt\<rparr>,
      \<lparr>aty_name = ''srvip'', aty_get = get_srv_ip, aty_free = Free_null, aty_ops = ci_ip_sockaddr_ops pt\<rparr>,
      \<lparr>aty_name = ''icap_header'', aty_get = get_icap_header, aty_free = Free_fn, aty_ops = ci_regex_ops rx\<rparr>,
      \<lparr>aty_name = ''icap_resp_header'', aty_get = get_icap_response_header, aty_free = Free_fn, aty_ops = ci_regex_ops rx\<rparr>,
      \<lparr>aty_name = ''http_req_header'', aty_get = get_http_req_header, aty_free = Free_fn, aty_ops = ci_regex_ops rx\<rparr>,
      \<lparr>aty_name = ''http_resp_header'', aty_get = get_http_resp_header, aty_free = Free_fn, aty_ops = ci_regex_ops rx\<rparr>,
      \<lparr>aty_name = ''http_req_url'', aty_get = get_http_req_url, aty_free = Free_fn, aty_ops = ci_regex_ops rx\<rparr>,
      \<lparr>aty_name = ''http_req_line'', aty_get = get_http_req_line, aty_free = Free_fn, aty_ops = ci_regex_ops rx\<rparr>,
      \<lparr>aty_name = ''http_resp_line'', aty_get = get_http_resp_line, aty_free = Free_fn, aty_ops = ci_regex_ops rx\<rparr>,
      \<lparr>aty_name = ''http_req_method'', aty_get = get_http_req_method, aty_free = Free_fn, aty_ops = ci_str_ops\<rparr>,
      \<lparr>aty_name = ''data_type'', aty_get = get_data_type, aty_free = Free_fn, aty_ops = ci_datatype_ops mg\<rparr>,
      \<lparr>aty_name = ''content_length'', aty_get = get_content_length, aty_free = Free_fn, aty_ops = acl_cmp_uint64_ops\<rparr>,
      \<lparr>aty_name = ''time'', aty_get = get_time_data, aty_free = Free_fn, aty_ops = acl_time_ops\<rparr>,
      \<lparr>aty_name = ''http_client_ip'', aty_get = get_http_client_ip, aty_free = Free_null, aty_ops = ci_ip_ops pt\<rparr>]"

fun acl_load_defaults :: "(nat \<Rightarrow> bool) \<Rightarrow> ci_acl_type list \<Rightarrow> acl_type_list \<Rightarrow> acl_type_list c_result" where
  "acl_load_defaults junk [] T = Ret T"
| "acl_load_defaults junk (ty # tys) T = c_bind (ci_acl_typelist_add True junk T ty) (\<lambda>(T1, _). acl_load_defaults junk tys T1)"

definition ci_acl_init :: "bool \<Rightarrow> (nat \<Rightarrow> bool) \<Rightarrow> ci_acl_type list \<Rightarrow> acl_lib c_result" where
  "ci_acl_init mem junk tys = c_bind (acl_load_defaults junk tys (ci_acl_typelist_init mem 0)) (\<lambda>T.
     Ret \<lparr>al_types = T, al_resets = 0, al_specs = [], al_connection_access = [], al_access = []\<rparr>)"

definition ci_acl_reset :: "(nat \<Rightarrow> bool) \<Rightarrow> ci_acl_type list \<Rightarrow> acl_lib \<Rightarrow> acl_lib c_result" where
  "ci_acl_reset junk tys L = c_bind (acl_load_defaults junk tys (ci_acl_typelist_reset (al_types L))) (\<lambda>T.
     Ret (L\<lparr>al_resets := Suc (al_resets L), al_specs := [], al_types := T\<rparr>))"

definition ci_acl_type_add :: "bool \<Rightarrow> (nat \<Rightarrow> bool) \<Rightarrow> acl_lib \<Rightarrow> ci_acl_type \<Rightarrow> (acl_lib \<times> bool) c_result" where
  "ci_acl_type_add ok junk L ty = c_bind (ci_acl_typelist_add ok junk (al_types L) ty) (\<lambda>(T, r). Ret (L\<lparr>al_types := T\<rparr>, r))"

definition ci_acl_type_search :: "acl_lib \<Rightarrow> bytes \<Rightarrow> type_ptr option" where
  "ci_acl_type_search L name = ci_acl_typelist_search (al_types L) name"

section \<open>Acls\<close>

definition ci_acl_spec_search :: "ci_acl_spec list \<Rightarrow> bytes \<Rightarrow> nat option" where
  "ci_acl_spec_search specs name = index_of (\<lambda>s. as_name s = name) specs"

definition ci_acl_search :: "acl_lib \<Rightarrow> bytes \<Rightarrow> spec_ptr option" where
  "ci_acl_search L name = map_option (Pair (al_resets L)) (ci_acl_spec_search (al_specs L) name)"

text \<open>\<^verbatim>\<open>ci_acl_spec_new\<close> puts the new acl at the end of the list; \<open>ok\<close> is the result of the allocations.\<close>

definition ci_acl_spec_new :: "bool \<Rightarrow> acl_type_list \<Rightarrow> ci_acl_spec list \<Rightarrow> bytes \<Rightarrow> bytes \<Rightarrow> bytes option \<Rightarrow> (ci_acl_spec list \<times> nat) option" where
  "ci_acl_spec_new ok T specs name ty param =
     (case ci_acl_typelist_search T ty of
        None \<Rightarrow> None
      | Some p \<Rightarrow>
          if \<not> ok then None
          else Some (specs @ [\<lparr>as_name = take MAX_NAME_LEN name, as_type = p, as_parameter = param, as_data = []\<rparr>], length specs))"

text \<open>\<^verbatim>\<open>ci_acl_spec_new_data\<close>: \<open>mem\<close> is the memory for the key, \<open>ok\<close> that for the list element.\<close>

definition ci_acl_spec_new_data :: "bool \<Rightarrow> bool \<Rightarrow> ci_acl_type \<Rightarrow> ci_acl_spec \<Rightarrow> bytes \<Rightarrow> ci_acl_spec c_result" where
  "ci_acl_spec_new_data mem ok ty spec val =
     c_bind (ty_dup (aty_ops ty) mem val) (\<lambda>d. Ret (case d of None \<Rightarrow> spec | Some k \<Rightarrow> if ok then spec\<lparr>as_data := as_data spec @ [k]\<rparr> else spec))"

text \<open>A type may have a parameter in braces behind its name.\<close>

definition split_type :: "bytes \<Rightarrow> bytes \<times> bytes option" where
  "split_type ty =
     (if CHR ''{'' \<in> set ty
      then (takeWhile (\<lambda>c. c \<noteq> CHR ''{'') ty, Some (takeWhile (\<lambda>c. c \<noteq> CHR ''}'') (tl (dropWhile (\<lambda>c. c \<noteq> CHR ''{'') ty))))
      else (ty, None))"

text \<open>
  \<^verbatim>\<open>ci_acl_add_data\<close>: the four results of \<open>ok\<close> are those of the copy of the type name, of the new acl, of the new
  list element and of the key.  A key that cannot be made from the text is left out without an error.  \<open>acl_spec_for\<close> is the acl to extend, found or new.
\<close>

definition acl_spec_for :: "bool \<Rightarrow> acl_lib \<Rightarrow> bytes \<Rightarrow> bytes \<Rightarrow> bytes option \<Rightarrow> (ci_acl_spec list \<times> nat) option" where
  "acl_spec_for ok L name acl_type param =
     (case ci_acl_spec_search (al_specs L) name of
        Some i \<Rightarrow> if ci_acl_type_search L acl_type = Some (as_type (al_specs L ! i)) then Some (al_specs L, i) else None
      | None \<Rightarrow> ci_acl_spec_new ok (al_types L) (al_specs L) name acl_type param)"

definition ci_acl_add_data :: "(nat \<Rightarrow> bool) \<Rightarrow> acl_lib \<Rightarrow> bytes \<Rightarrow> bytes \<Rightarrow> bytes \<Rightarrow> (acl_lib \<times> bool) c_result" where
  "ci_acl_add_data ok L name ty data =
     (if \<not> ok 0 then Ret (L, False)
      else let (acl_type, param) = split_type ty in
        case acl_spec_for (ok 1) L name acl_type param of
          None \<Rightarrow> Ret (L, False)
        | Some (specs, i) \<Rightarrow>
            c_bind (type_at L (as_type (specs ! i))) (\<lambda>t.
            c_bind (ci_acl_spec_new_data (ok 3) (ok 2) t (specs ! i) data) (\<lambda>s.
              Ret (L\<lparr>al_specs := specs[i := s]\<rparr>, True))))"

text \<open>The directive \<^verbatim>\<open>acl name type value ...\<close>: the values are added until one fails.\<close>

fun acl_add_values :: "(nat \<Rightarrow> nat \<Rightarrow> bool) \<Rightarrow> acl_lib \<Rightarrow> bytes \<Rightarrow> bytes \<Rightarrow> bytes list \<Rightarrow> (acl_lib \<times> bool) c_result" where
  "acl_add_values ok L name ty [] = Ret (L, True)"
| "acl_add_values ok L name ty (v # vs) =
     c_bind (ci_acl_add_data (ok (length vs)) L name ty v) (\<lambda>(L1, r). if r then acl_add_values ok L1 name ty vs else Ret (L1, False))"

definition cfg_acl_add :: "(nat \<Rightarrow> nat \<Rightarrow> bool) \<Rightarrow> acl_lib \<Rightarrow> bytes list \<Rightarrow> (acl_lib \<times> bool) c_result" where
  "cfg_acl_add ok L argv =
     (case argv of name # ty # v # vs \<Rightarrow> acl_add_values ok L name ty (v # vs) | _ \<Rightarrow> Ret (L, False))"

section \<open>Access lists\<close>

definition ci_access_entry_new :: "bool \<Rightarrow> ci_access_entry list \<Rightarrow> int \<Rightarrow> ci_access_entry list option" where
  "ci_access_entry_new ok entries ty = (if ok then Some (entries @ [\<lparr>en_type = ty, en_specs = []\<rparr>]) else None)"

definition ci_access_entry_add_acl :: "bool \<Rightarrow> ci_access_entry \<Rightarrow> spec_ptr \<Rightarrow> bool \<Rightarrow> ci_access_entry option" where
  "ci_access_entry_add_acl ok e p negate =
     (if ok then Some (e\<lparr>en_specs := en_specs e @ [\<lparr>sl_spec = p, sl_negate = negate\<rparr>]\<rparr>) else None)"

definition split_negation :: "bytes \<Rightarrow> bool \<times> bytes" where
  "split_negation name = (case name of c # r \<Rightarrow> if c = CHR ''!'' then (True, r) else (False, name) | [] \<Rightarrow> (False, []))"

definition ci_access_entry_add_acl_by_name :: "bool \<Rightarrow> acl_lib \<Rightarrow> ci_access_entry \<Rightarrow> bytes \<Rightarrow> ci_access_entry \<times> bool" where
  "ci_access_entry_add_acl_by_name ok L e arg =
     (case split_negation arg of (negate, name) \<Rightarrow>
        case ci_acl_search L name of
          None \<Rightarrow> (e, False)
        | Some p \<Rightarrow> (case ci_access_entry_add_acl ok e p negate of None \<Rightarrow> (e, False) | Some e1 \<Rightarrow> (e1, True)))"

text \<open>The test of \<^verbatim>\<open>cfg_default_acl_access\<close> for \<^verbatim>\<open>client_access\<close>: only types that need nothing but the connection.\<close>

definition connection_only :: "acl_lib \<Rightarrow> bytes \<Rightarrow> bool c_result" where
  "connection_only L arg =
     (case ci_acl_search L arg of
        None \<Rightarrow> Ret True
      | Some p \<Rightarrow> c_bind (spec_at L p) (\<lambda>s. c_bind (type_at L (as_type s)) (\<lambda>t.
          Ret (aty_name t = ''port'' \<or> aty_name t = ''src'' \<or> aty_name t = ''srvip''))))"

fun access_add_specs :: "(nat \<Rightarrow> bool) \<Rightarrow> acl_lib \<Rightarrow> bool \<Rightarrow> ci_access_entry \<Rightarrow> bytes list \<Rightarrow> (ci_access_entry \<times> bool) c_result" where
  "access_add_specs ok L conn e [] = Ret (e, True)"
| "access_add_specs ok L conn e (arg # args) =
     c_bind (if conn then connection_only L arg else Ret True) (\<lambda>allowed.
       if \<not> allowed then c_bind (access_add_specs ok L conn e args) (\<lambda>(e1, _). Ret (e1, False))
       else access_add_specs ok L conn (fst (ci_access_entry_add_acl_by_name (ok (length args)) L e arg)) args)"

definition access_verb :: "bytes \<Rightarrow> int option" where
  "access_verb v = (if v = ''allow'' then Some CI_ACCESS_ALLOW else if v = ''deny'' then Some CI_ACCESS_DENY else None)"

definition cfg_default_acl_access :: "(nat \<Rightarrow> bool) \<Rightarrow> acl_lib \<Rightarrow> bytes \<Rightarrow> bytes list \<Rightarrow> (acl_lib \<times> bool) c_result" where
  "cfg_default_acl_access ok L directive argv =
     (case argv of
        verb # arg # args \<Rightarrow>
          if directive \<noteq> ''client_access'' \<and> directive \<noteq> ''icap_access'' then Ret (L, False)
          else let conn = (directive = ''client_access'') in
            (case access_verb verb of
               None \<Rightarrow> Ret (L, False)
             | Some ty \<Rightarrow>
                 if \<not> ok 0 then Ret (L, False)
                 else c_bind (access_add_specs (\<lambda>i. ok (Suc i)) L conn \<lparr>en_type = ty, en_specs = []\<rparr> (arg # args)) (\<lambda>(e, r).
                   Ret (if conn then L\<lparr>al_connection_access := al_connection_access L @ [e]\<rparr> else L\<lparr>al_access := al_access L @ [e]\<rparr>, r)))
      | _ \<Rightarrow> Ret (L, False))"

definition default_acl_release :: "acl_lib \<Rightarrow> acl_lib" where
  "default_acl_release L = L\<lparr>al_connection_access := [], al_access := []\<rparr>"

section \<open>Matching\<close>

definition spec_data_check :: "ci_acl_type \<Rightarrow> ci_acl_spec \<Rightarrow> key \<Rightarrow> bool c_result" where
  "spec_data_check ty spec v = scan_keys (ty_equal (aty_ops ty)) (as_data spec) v"

fun request_match_specslist :: "acl_lib \<Rightarrow> acl_env \<Rightarrow> ci_specs_list list \<Rightarrow> bool c_result" where
  "request_match_specslist L ae [] = Ret True"
| "request_match_specslist L ae (s # ss) =
     c_bind (spec_at L (sl_spec s)) (\<lambda>spec.
     c_bind (type_at L (as_type spec)) (\<lambda>ty.
     c_bind (aty_get ty ae (as_parameter spec)) (\<lambda>d.
       case d of
         None \<Rightarrow> Ret False
       | Some v \<Rightarrow> c_bind (spec_data_check ty spec v) (\<lambda>b.
           if aty_free ty = Free_wild then Undef
           else if b = sl_negate s then Ret False
           else request_match_specslist L ae ss))))"

fun match_entries :: "acl_lib \<Rightarrow> acl_env \<Rightarrow> ci_access_entry list \<Rightarrow> int c_result" where
  "match_entries L ae [] = Ret CI_ACCESS_UNKNOWN"
| "match_entries L ae (e # es) =
     c_bind (if en_specs e = [] then Ret False else request_match_specslist L ae (en_specs e)) (\<lambda>m.
       if m then Ret (en_type e) else match_entries L ae es)"

definition ci_access_entry_match_request :: "acl_lib \<Rightarrow> acl_env \<Rightarrow> ci_access_entry list \<Rightarrow> int c_result" where
  "ci_access_entry_match_request L ae entries = (if entries = [] then Ret CI_ACCESS_ALLOW else match_entries L ae entries)"

definition default_acl_client_match :: "acl_lib \<Rightarrow> acl_env \<Rightarrow> int c_result" where
  "default_acl_client_match L ae = ci_access_entry_match_request L ae (al_connection_access L)"

definition default_acl_request_match :: "acl_lib \<Rightarrow> acl_env \<Rightarrow> int c_result" where
  "default_acl_request_match L ae = ci_access_entry_match_request L ae (al_access L)"

end
