(* ===== verification/Acl_Policy.thy ===== *)
theory Acl_Policy
  imports Acl
begin

text \<open>
  What the access lists promise.  First, typing: whatever directives are read, every acl points to a type of
  the table and holds only keys of that type, so matching a request never reads a key as something else.
  Second, meaning: the lists implement a policy that knows only names, in which an acl is a type with keys
  and the first rule whose literals all hold decides.
\<close>

section \<open>Positions in a list\<close>

lemma index_of_Some: "index_of P xs = Some i \<Longrightarrow> i < length xs \<and> P (xs ! i)"
  by (induction P xs arbitrary: i rule: index_of.induct) (auto split: if_splits)

lemma index_of_append:
  "index_of P (xs @ ys) = (case index_of P xs of Some i \<Rightarrow> Some i | None \<Rightarrow> map_option (\<lambda>i. length xs + i) (index_of P ys))"
proof (induction xs)
  case (Cons x xs)
  then show ?case by (cases "index_of P ys") (auto split: option.splits)
qed (cases "index_of P ys", simp_all)

lemma index_of_update: "P x = P (xs ! i) \<Longrightarrow> index_of P (xs[i := x]) = index_of P xs"
proof (induction xs arbitrary: i)
  case (Cons y ys)
  then show ?case by (cases i) auto
qed simp

lemma index_of_None: "index_of P xs = None \<longleftrightarrow> (\<forall>x \<in> set xs. \<not> P x)"
  by (induction xs) auto

section \<open>Well-typed acls\<close>

definition typed_acl :: "ci_acl_type \<Rightarrow> (key \<Rightarrow> bool) \<Rightarrow> kind \<Rightarrow> bool" where
  "typed_acl t stored tested \<longleftrightarrow> key_ops (ty_dup (aty_ops t)) (ty_equal (aty_ops t)) stored tested
     \<and> (\<forall>ae p v. aty_get t ae p = Ret (Some v) \<longrightarrow> kind_of v = tested)"

definition spec_typed :: "acl_lib \<Rightarrow> ci_acl_spec \<Rightarrow> bool" where
  "spec_typed L s \<longleftrightarrow> (\<exists>t stored tested. type_at L (as_type s) = Ret t
     \<and> ci_acl_typelist_search (al_types L) (aty_name t) = Some (as_type s) \<and> typed_acl t stored tested \<and> (\<forall>k \<in> set (as_data s). stored k))"

text \<open>An access list points to acls that are found under their names.\<close>

definition entry_ok :: "acl_lib \<Rightarrow> ci_access_entry \<Rightarrow> bool" where
  "entry_ok L e \<longleftrightarrow> (\<forall>s \<in> set (en_specs e). fst (sl_spec s) = al_resets L \<and> snd (sl_spec s) < length (al_specs L)
     \<and> ci_acl_spec_search (al_specs L) (as_name (al_specs L ! snd (sl_spec s))) = Some (snd (sl_spec s)))"

definition acl_wf :: "acl_lib \<Rightarrow> bool" where
  "acl_wf L \<longleftrightarrow> (\<forall>t \<in> set (tl_items (al_types L)). \<exists>stored tested. typed_acl t stored tested)
     \<and> (\<forall>s \<in> set (al_specs L). spec_typed L s)
     \<and> (\<forall>e \<in> set (al_connection_access L) \<union> set (al_access L). entry_ok L e)"

lemma typelist_search_at:
  assumes "ci_acl_typelist_search (al_types L) name = Some p"
  obtains t where "type_at L p = Ret t" "t \<in> set (tl_items (al_types L))" "aty_name t = name"
    "snd p < length (tl_items (al_types L))" "t = tl_items (al_types L) ! snd p" "fst p = tl_block (al_types L)"
  using assms index_of_Some [of "\<lambda>t. aty_name t = name" "tl_items (al_types L)" "snd p"]
  by (auto simp: ci_acl_typelist_search_def type_at_def)

text \<open>Changing acls without changing names, types or the number of resets.\<close>

lemma type_at_specs [simp]: "type_at (L\<lparr>al_specs := ss\<rparr>) p = type_at L p"
  by (simp add: type_at_def)

lemma spec_typed_specs [simp]: "spec_typed (L\<lparr>al_specs := ss\<rparr>) s = spec_typed L s"
  by (simp add: spec_typed_def)

lemma entry_ok_append:
  assumes "entry_ok L e"
  shows "entry_ok (L\<lparr>al_specs := al_specs L @ ss\<rparr>) e"
  using assms by (fastforce simp: entry_ok_def ci_acl_spec_search_def index_of_append nth_append)

lemma entry_ok_update:
  assumes "entry_ok L e" "as_name s = as_name (al_specs L ! i)"
  shows "entry_ok (L\<lparr>al_specs := (al_specs L)[i := s]\<rparr>) e"
proof -
  have "index_of (\<lambda>s. as_name s = n) ((al_specs L)[i := s]) = index_of (\<lambda>s. as_name s = n) (al_specs L)" for n
    by (rule index_of_update) (simp add: assms(2))
  moreover have "as_name ((al_specs L)[i := s] ! j) = as_name (al_specs L ! j)" for j
    by (cases "i < length (al_specs L)"; cases "i = j") (simp_all add: assms(2) list_update_beyond)
  ultimately show ?thesis using assms(1) by (simp add: entry_ok_def ci_acl_spec_search_def)
qed

lemma wf_append:
  assumes "acl_wf L" "spec_typed L s"
  shows "acl_wf (L\<lparr>al_specs := al_specs L @ [s]\<rparr>)"
  using assms entry_ok_append by (auto simp: acl_wf_def)

lemma wf_update:
  assumes "acl_wf L" "spec_typed L s" "as_name s = as_name (al_specs L ! i)"
  shows "acl_wf (L\<lparr>al_specs := (al_specs L)[i := s]\<rparr>)"
  using assms entry_ok_update [OF _ assms(3)] by (auto simp: acl_wf_def dest!: set_update_subset_insert [THEN subsetD])

section \<open>Adding keys\<close>

text \<open>
  Values that the types of the table can read when there is memory for the key (a number that overflows an
  \<^verbatim>\<open>int\<close> cannot be read).
\<close>

definition readable :: "acl_lib \<Rightarrow> bytes \<Rightarrow> bool" where
  "readable L v \<longleftrightarrow> (\<forall>t \<in> set (tl_items (al_types L)). \<exists>k. ty_dup (aty_ops t) True v = Ret k)"

lemma spec_new_data:
  assumes s: "spec_typed L s" "type_at L (as_type s) = Ret t" and d: "ty_dup (aty_ops t) True v = Ret d"
  shows "\<exists>s'. ci_acl_spec_new_data True ok t s v = Ret s' \<and> spec_typed L s'
    \<and> s' = s\<lparr>as_data := as_data s @ (case d of None \<Rightarrow> [] | Some k \<Rightarrow> if ok then [k] else [])\<rparr>"
proof -
  obtain stored tested where t: "typed_acl t stored tested" "\<forall>k \<in> set (as_data s). stored k"
      "ci_acl_typelist_search (al_types L) (aty_name t) = Some (as_type s)"
    using s by (auto simp: spec_typed_def)
  have "stored k" if "d = Some k" for k
    using t(1) d that key_ops.dup_stored [of "ty_dup (aty_ops t)"] by (auto simp: typed_acl_def)
  then have "spec_typed L (s\<lparr>as_data := as_data s @ (case d of None \<Rightarrow> [] | Some k \<Rightarrow> if ok then [k] else [])\<rparr>)"
    using s(2) t by (auto simp: spec_typed_def split: option.splits)
  then show ?thesis using d by (auto simp: ci_acl_spec_new_data_def split: option.splits)
qed

lemma spec_for:
  assumes wf: "acl_wf L" and f: "acl_spec_for ok L name ty param = Some (specs, i)"
  shows "acl_wf (L\<lparr>al_specs := specs\<rparr>) \<and> i < length specs \<and> (\<exists>t. type_at L (as_type (specs ! i)) = Ret t \<and> t \<in> set (tl_items (al_types L)) \<and> aty_name t = ty)"
proof (cases "ci_acl_spec_search (al_specs L) name")
  case None
  then obtain p where p: "ci_acl_typelist_search (al_types L) ty = Some p"
    and s: "specs = al_specs L @ [\<lparr>as_name = take MAX_NAME_LEN name, as_type = p, as_parameter = param, as_data = []\<rparr>]" "i = length (al_specs L)"
    using f by (auto simp: acl_spec_for_def ci_acl_spec_new_def split: option.splits if_splits)
  obtain t where t: "type_at L p = Ret t" "t \<in> set (tl_items (al_types L))" "aty_name t = ty"
    using typelist_search_at [OF p] by metis
  then have "spec_typed L (last specs)" using wf p s by (auto simp: spec_typed_def acl_wf_def)
  then show ?thesis using wf_append [OF wf] s t by simp
next
  case (Some j)
  then have s: "specs = al_specs L" "i = j" "ci_acl_typelist_search (al_types L) ty = Some (as_type (al_specs L ! j))"
    using f by (auto simp: acl_spec_for_def ci_acl_type_search_def split: if_splits)
  then show ?thesis
    using wf Some typelist_search_at [OF s(3)] index_of_Some [of _ "al_specs L" j] by (force simp: ci_acl_spec_search_def)
qed

lemma add_data_returns:
  assumes wf: "acl_wf L" and v: "readable L v" and mem: "ok 3"
  shows "\<exists>L' r. ci_acl_add_data ok L name ty v = Ret (L', r) \<and> acl_wf L' \<and> al_types L' = al_types L \<and> al_resets L' = al_resets L"
proof (cases "ok 0 \<and> acl_spec_for (ok 1) L name (fst (split_type ty)) (snd (split_type ty)) \<noteq> None")
  case True
  then obtain specs i where f: "acl_spec_for (ok 1) L name (fst (split_type ty)) (snd (split_type ty)) = Some (specs, i)" by auto
  obtain t where t: "type_at L (as_type (specs ! i)) = Ret t" "t \<in> set (tl_items (al_types L))"
    and L1: "acl_wf (L\<lparr>al_specs := specs\<rparr>)" "i < length specs"
    using spec_for [OF wf f] by blast
  have st: "spec_typed L (specs ! i)" using L1 by (auto simp: acl_wf_def)
  obtain d where d: "ty_dup (aty_ops t) True v = Ret d" using v t(2) by (auto simp: readable_def)
  obtain s' where s': "ci_acl_spec_new_data True (ok 2) t (specs ! i) v = Ret s'" "spec_typed L s'" "as_name s' = as_name (specs ! i)"
    using spec_new_data [OF st t(1) d] by fastforce
  have "acl_wf (L\<lparr>al_specs := specs[i := s']\<rparr>)" using wf_update [OF L1(1), of s' i] s' by simp
  then show ?thesis using True f t s' mem by (auto simp: ci_acl_add_data_def split_beta)
next
  case False
  then have "ci_acl_add_data ok L name ty v = Ret (L, False)"
    by (auto simp del: not_None_eq simp: ci_acl_add_data_def split_beta)
  then show ?thesis using wf by blast
qed

lemma add_values_returns:
  assumes "acl_wf L" "\<forall>v \<in> set vs. readable L v" "\<forall>j. ok j 3"
  shows "\<exists>L' r. acl_add_values ok L name ty vs = Ret (L', r) \<and> acl_wf L' \<and> al_types L' = al_types L \<and> al_resets L' = al_resets L"
  using assms
proof (induction vs arbitrary: L)
  case (Cons v vs)
  obtain L1 r where L1: "ci_acl_add_data (ok (length vs)) L name ty v = Ret (L1, r)" "acl_wf L1" "al_types L1 = al_types L"
      "al_resets L1 = al_resets L"
    using add_data_returns [OF Cons.prems(1)] Cons.prems(2,3) by (metis list.set_intros(1))
  then have "\<forall>v \<in> set vs. readable L1 v" using Cons.prems(2) by (simp add: readable_def)
  with Cons.IH [OF L1(2)] L1 Cons.prems(3) show ?case by auto
qed auto

section \<open>Adding rules\<close>

lemma acl_search_at:
  assumes "acl_wf L" "ci_acl_search L name = Some p"
  obtains s t where "spec_at L p = Ret s" "s \<in> set (al_specs L)" "as_name s = name" "type_at L (as_type s) = Ret t"
    "s = al_specs L ! snd p" "fst p = al_resets L" "snd p < length (al_specs L)" "ci_acl_spec_search (al_specs L) name = Some (snd p)"
proof -
  have p: "fst p = al_resets L" "ci_acl_spec_search (al_specs L) name = Some (snd p)"
    using assms(2) by (auto simp: ci_acl_search_def)
  then have i: "snd p < length (al_specs L)" "as_name (al_specs L ! snd p) = name"
    using index_of_Some [of _ "al_specs L" "snd p"] by (auto simp: ci_acl_spec_search_def)
  moreover from i have "spec_typed L (al_specs L ! snd p)" using assms(1) by (auto simp: acl_wf_def)
  then obtain t where "type_at L (as_type (al_specs L ! snd p)) = Ret t" by (auto simp: spec_typed_def)
  ultimately show ?thesis using p that by (simp add: spec_at_def)
qed

lemma connection_only_returns:
  assumes "acl_wf L"
  shows "\<exists>b. connection_only L arg = Ret b"
proof (cases "ci_acl_search L arg")
  case (Some p)
  from acl_search_at [OF assms Some] obtain s t where "spec_at L p = Ret s" "type_at L (as_type s) = Ret t" by metis
  then show ?thesis by (simp add: connection_only_def Some)
qed (auto simp: connection_only_def)

lemma add_acl_by_name_ok:
  assumes "acl_wf L" "entry_ok L e"
  shows "entry_ok L (fst (ci_access_entry_add_acl_by_name ok L e arg))"
proof (cases "ci_acl_search L (snd (split_negation arg))")
  case (Some p)
  from acl_search_at [OF assms(1) Some] obtain s where "as_name s = snd (split_negation arg)" "s = al_specs L ! snd p"
      "fst p = al_resets L" "snd p < length (al_specs L)" "ci_acl_spec_search (al_specs L) (snd (split_negation arg)) = Some (snd p)"
    by metis
  then show ?thesis
    using assms(2) Some by (auto simp: ci_access_entry_add_acl_by_name_def ci_access_entry_add_acl_def entry_ok_def split_beta)
qed (use assms(2) in \<open>simp add: ci_access_entry_add_acl_by_name_def split_beta\<close>)

lemma add_specs_returns:
  assumes "acl_wf L" "entry_ok L e"
  shows "\<exists>e' r. access_add_specs ok L conn e args = Ret (e', r) \<and> entry_ok L e'"
  using assms(2)
proof (induction args arbitrary: e)
  case (Cons arg args)
  obtain b where "(if conn then connection_only L arg else Ret True) = Ret b"
    using connection_only_returns [OF assms(1), of arg] by (cases conn) auto
  then show ?case using Cons.IH [OF Cons.prems] Cons.IH [OF add_acl_by_name_ok [OF assms(1) Cons.prems]]
    by (cases b) auto
qed auto

lemma entry_ok_lists [simp]:
  "entry_ok (L\<lparr>al_connection_access := es\<rparr>) e = entry_ok L e" "entry_ok (L\<lparr>al_access := es\<rparr>) e = entry_ok L e"
  by (simp_all add: entry_ok_def)

lemma spec_typed_lists [simp]:
  "spec_typed (L\<lparr>al_connection_access := es\<rparr>) s = spec_typed L s" "spec_typed (L\<lparr>al_access := es\<rparr>) s = spec_typed L s"
  by (simp_all add: spec_typed_def type_at_def)

lemma access_directive_returns:
  assumes "acl_wf L"
  shows "\<exists>L' r. cfg_default_acl_access ok L directive argv = Ret (L', r) \<and> acl_wf L' \<and> al_types L' = al_types L \<and> al_resets L' = al_resets L"
proof (cases "\<exists>verb arg args ty. argv = verb # arg # args \<and> access_verb verb = Some ty \<and> ok 0 \<and> (directive = ''client_access'' \<or> directive = ''icap_access'')")
  case True
  then obtain verb arg args ty where a: "argv = verb # arg # args" "access_verb verb = Some ty" "ok 0"
      "directive = ''client_access'' \<or> directive = ''icap_access''"
    by auto
  have "entry_ok L \<lparr>en_type = ty, en_specs = []\<rparr>" by (simp add: entry_ok_def)
  then obtain e r where e: "access_add_specs (\<lambda>i. ok (Suc i)) L (directive = ''client_access'') \<lparr>en_type = ty, en_specs = []\<rparr> (arg # args) = Ret (e, r)"
      "entry_ok L e"
    using add_specs_returns [OF assms] by meson
  have c: "cfg_default_acl_access ok L directive argv =
      Ret (if directive = ''client_access'' then L\<lparr>al_connection_access := al_connection_access L @ [e]\<rparr> else L\<lparr>al_access := al_access L @ [e]\<rparr>, r)"
    using a(4) by (elim disjE) (simp_all add: a(1-3) e(1) [simplified] cfg_default_acl_access_def Let_def del: access_add_specs.simps, use e(1) in simp_all)
  have "acl_wf (L\<lparr>al_connection_access := al_connection_access L @ [e]\<rparr>)" "acl_wf (L\<lparr>al_access := al_access L @ [e]\<rparr>)"
    using assms e(2) by (auto simp: acl_wf_def)
  then show ?thesis unfolding c by auto
next
  case False
  have "cfg_default_acl_access ok L directive argv = Ret (L, False)"
  proof (cases "\<exists>verb arg args. argv = verb # arg # args")
    case True
    then obtain verb arg args where v: "argv = verb # arg # args" by auto
    then have "access_verb verb = None \<or> \<not> ok 0 \<or> directive \<noteq> ''client_access'' \<and> directive \<noteq> ''icap_access''"
      using False by (metis not_None_eq)
    then show ?thesis by (elim disjE conjE) (simp_all add: v cfg_default_acl_access_def split: option.split)
  qed (auto simp: cfg_default_acl_access_def split: list.split)
  then show ?thesis using assms by blast
qed

section \<open>Configuration\<close>

text \<open>
  The directives of the configuration file that concern access lists, in the order of the file.  A directive
  that fails is reported, and reading goes on.
\<close>

datatype directive = D_acl "bytes list" | D_access bytes "bytes list"

fun acl_configure :: "(nat \<Rightarrow> nat \<Rightarrow> nat \<Rightarrow> bool) \<Rightarrow> acl_lib \<Rightarrow> directive list \<Rightarrow> (acl_lib \<times> bool) c_result" where
  "acl_configure ok L [] = Ret (L, True)"
| "acl_configure ok L (d # ds) =
     c_bind (case d of D_acl argv \<Rightarrow> cfg_acl_add (ok (length ds)) L argv
                     | D_access directive argv \<Rightarrow> cfg_default_acl_access (ok (length ds) 0) L directive argv) (\<lambda>(L1, r1).
     c_bind (acl_configure ok L1 ds) (\<lambda>(L2, r2). Ret (L2, r1 \<and> r2)))"

fun directive_values :: "directive \<Rightarrow> bytes list" where
  "directive_values (D_acl argv) = drop 2 argv"
| "directive_values (D_access directive argv) = []"

lemma directive_returns:
  assumes "acl_wf L" "\<forall>v \<in> set (directive_values d). readable L v" "\<forall>j. ok j 3"
  shows "\<exists>L' r. (case d of D_acl argv \<Rightarrow> cfg_acl_add ok L argv | D_access directive argv \<Rightarrow> cfg_default_acl_access (ok 0) L directive argv) = Ret (L', r)
    \<and> acl_wf L' \<and> al_types L' = al_types L \<and> al_resets L' = al_resets L"
proof (cases d)
  case (D_acl argv)
  show ?thesis
  proof (cases "\<exists>name ty v vs. argv = name # ty # v # vs")
    case True
    then obtain name ty v vs where "argv = name # ty # v # vs" by auto
    then show ?thesis using add_values_returns [OF assms(1), of "v # vs" ok] assms(2,3) D_acl by (simp add: cfg_acl_add_def)
  qed (use assms(1) D_acl in \<open>auto simp: cfg_acl_add_def split: list.split\<close>)
qed (use access_directive_returns [OF assms(1)] in simp)

lemma configure_returns:
  assumes "acl_wf L" "\<forall>d \<in> set ds. \<forall>v \<in> set (directive_values d). readable L v" "\<forall>i j. ok i j 3"
  shows "\<exists>L' r. acl_configure ok L ds = Ret (L', r) \<and> acl_wf L' \<and> al_types L' = al_types L \<and> al_resets L' = al_resets L"
  using assms
proof (induction ds arbitrary: L)
  case (Cons d ds)
  obtain L1 r1 where 1: "(case d of D_acl argv \<Rightarrow> cfg_acl_add (ok (length ds)) L argv
      | D_access directive argv \<Rightarrow> cfg_default_acl_access (ok (length ds) 0) L directive argv) = Ret (L1, r1)"
      "acl_wf L1" "al_types L1 = al_types L" "al_resets L1 = al_resets L"
    using directive_returns [OF Cons.prems(1), of d "ok (length ds)"] Cons.prems(2,3) by auto
  then have "\<forall>d \<in> set ds. \<forall>v \<in> set (directive_values d). readable L1 v" using Cons.prems(2) by (simp add: readable_def)
  from Cons.IH [OF 1(2) this Cons.prems(3)] 1 show ?case by auto
qed auto

section \<open>The types of the server\<close>

lemma text_of_kind: "text_of h r = Some v \<Longrightarrow> kind_of v = Kd_str"
  by (auto simp: text_of_def)

lemma header_value_kind: "acl_get_header mem h p = Ret (Some v) \<Longrightarrow> kind_of v = Kd_str"
  by (auto simp: acl_get_header_def c_bind_eq_Ret text_of_kind split: option.splits if_splits)

lemma first_line_kind:
  assumes "first_line_of mem h = Ret (Some v)"
  shows "kind_of v = Kd_str"
proof -
  obtain hl r where "h = Some hl" "ci_headers_first_line2 hl = Ret r"
    using assms by (auto simp: first_line_of_def c_bind_eq_Ret split: option.split_asm)
  then show ?thesis using assms text_of_kind [of hl r v] by (cases r) (auto simp: first_line_of_def split: if_split_asm)
qed

lemma method_kind:
  assumes "get_http_req_method ae p = Ret (Some v)"
  shows "kind_of v = Kd_str"
proof -
  obtain hl r where "headers_of ci_http_request_headers (ae_req ae) = Ret (Some hl)" "ci_headers_first_line2 hl = Ret r"
    using assms by (auto simp: get_http_req_method_def c_bind_eq_Ret split: option.split_asm)
  then show ?thesis using assms by (cases r) (auto simp: get_http_req_method_def Let_def split: if_split_asm)
qed

lemma getter_kinds:
  "get_port ae p = Ret (Some v) \<Longrightarrow> kind_of v = Kd_int32"
  "get_service ae p = Ret (Some v) \<Longrightarrow> kind_of v = Kd_str"
  "get_reqtype ae p = Ret (Some v) \<Longrightarrow> kind_of v = Kd_str"
  "get_user ae p = Ret (Some v) \<Longrightarrow> kind_of v = Kd_str"
  "get_client_ip ae p = Ret (Some v) \<Longrightarrow> kind_of v = Kd_sockaddr"
  "get_srv_ip ae p = Ret (Some v) \<Longrightarrow> kind_of v = Kd_sockaddr"
  "get_icap_header ae p = Ret (Some v) \<Longrightarrow> kind_of v = Kd_str"
  "get_icap_response_header ae p = Ret (Some v) \<Longrightarrow> kind_of v = Kd_str"
  "get_http_req_header ae p = Ret (Some v) \<Longrightarrow> kind_of v = Kd_str"
  "get_http_resp_header ae p = Ret (Some v) \<Longrightarrow> kind_of v = Kd_str"
  "get_http_req_line ae p = Ret (Some v) \<Longrightarrow> kind_of v = Kd_str"
  "get_http_resp_line ae p = Ret (Some v) \<Longrightarrow> kind_of v = Kd_str"
  "get_data_type ae p = Ret (Some v) \<Longrightarrow> kind_of v = Kd_datatype"
  "get_time_data ae p = Ret (Some v) \<Longrightarrow> kind_of v = Kd_time"
  "get_http_client_ip ae p = Ret (Some v) \<Longrightarrow> kind_of v = Kd_ip"
  by (auto simp: get_port_def get_service_def get_reqtype_def get_user_def get_client_ip_def get_srv_ip_def get_icap_header_def
      get_icap_response_header_def get_http_req_header_def get_http_resp_header_def get_http_req_line_def
      get_http_resp_line_def get_data_type_def get_time_data_def get_http_client_ip_def
      c_bind_eq_Ret header_value_kind first_line_kind split: if_split_asm)

lemma url_length_kinds:
  "get_http_req_url ae p = Ret (Some v) \<Longrightarrow> kind_of v = Kd_str"
  "get_content_length ae p = Ret (Some v) \<Longrightarrow> kind_of v = Kd_cmp"
  subgoal by (auto simp: get_http_req_url_def c_bind_eq_Ret split: if_split_asm option.split_asm)
  subgoal by (auto simp: get_content_length_def c_bind_eq_Ret split: if_split_asm option.split_asm list.split_asm)
  done

interpretation cmp_uint64: key_ops acl_cmp_uint64_dup acl_cmp_uint64_equal "\<lambda>k. kind_of k = Kd_uint64" Kd_cmp
proof
  show "\<exists>b. acl_cmp_uint64_equal k (Some v) = Ret b" if "kind_of k = Kd_uint64" "kind_of v = Kd_cmp" for k v
    using that by (cases k; cases v) simp_all
qed (auto simp: acl_cmp_uint64_dup_def intro: uint64.dup_stored)

interpretation time_key: key_ops acl_time_dup acl_time_equal "\<lambda>k. kind_of k = Kd_time" Kd_time
proof
  show "\<exists>b. acl_time_equal k (Some v) = Ret b" if "kind_of k = Kd_time" "kind_of v = Kd_time" for k v
    using that by (cases k; cases v) simp_all
qed (auto simp: acl_time_dup_def Let_def bind_eq_Some_conv split: if_splits)

lemma server_key_ops:
  "key_ops (ty_dup ci_str_ops) (ty_equal ci_str_ops) (\<lambda>k. kind_of k = Kd_str) Kd_str"
  "key_ops (ty_dup ci_int32_ops) (ty_equal ci_int32_ops) (\<lambda>k. kind_of k = Kd_int32) Kd_int32"
  "key_ops (ty_dup (ci_regex_ops rx)) (ty_equal (ci_regex_ops rx)) (regex_stored rx) Kd_str"
  "key_ops (ty_dup (ci_datatype_ops mg)) (ty_equal (ci_datatype_ops mg)) (\<lambda>k. kind_of k = Kd_datatype) Kd_datatype"
  "key_ops (ty_dup (ci_ip_ops pt)) (ty_equal (ci_ip_ops pt)) (\<lambda>k. kind_of k = Kd_ip) Kd_ip"
  "key_ops (ty_dup (ci_ip_sockaddr_ops pt)) (ty_equal (ci_ip_sockaddr_ops pt)) (\<lambda>k. kind_of k = Kd_ip) Kd_sockaddr"
  "key_ops (ty_dup acl_cmp_uint64_ops) (ty_equal acl_cmp_uint64_ops) (\<lambda>k. kind_of k = Kd_uint64) Kd_cmp"
  "key_ops (ty_dup acl_time_ops) (ty_equal acl_time_ops) (\<lambda>k. kind_of k = Kd_time) Kd_time"
  using str.key_ops_axioms int32.key_ops_axioms regex.key_ops_axioms datatype_key.key_ops_axioms ip.key_ops_axioms
    ip_sockaddr.key_ops_axioms cmp_uint64.key_ops_axioms time_key.key_ops_axioms
  by (simp_all add: ci_str_ops_def ci_int32_ops_def ci_regex_ops_def ci_datatype_ops_def ci_ip_ops_def ci_ip_sockaddr_ops_def
      acl_cmp_uint64_ops_def acl_time_ops_def)

lemma typed_aclI:
  assumes "key_ops (ty_dup ops) (ty_equal ops) stored tested" "\<And>ae p v. get ae p = Ret (Some v) \<Longrightarrow> kind_of v = tested"
  shows "\<exists>stored tested. typed_acl \<lparr>aty_name = n, aty_get = get, aty_free = f, aty_ops = ops\<rparr> stored tested"
  using assms by (auto simp: typed_acl_def)

lemma default_types_typed:
  assumes "t \<in> set (default_types rx mg pt)"
  shows "\<exists>stored tested. typed_acl t stored tested"
  using assms unfolding default_types_def list.set insert_iff empty_iff
  by (elim disjE FalseE; hypsubst) (rule typed_aclI, rule server_key_ops, erule getter_kinds url_length_kinds method_kind)+

text \<open>
  Loading types that fit into the table: each entry is the type but for the function that releases its test
  data, which is null or, when the memory of the table was not zero, anything.
\<close>

definition loaded :: "(nat \<Rightarrow> bool) \<Rightarrow> ci_acl_type \<Rightarrow> ci_acl_type \<Rightarrow> bool" where
  "loaded junk t t' \<longleftrightarrow> (\<exists>f. t' = t\<lparr>aty_free := f\<rparr> \<and> ((\<forall>i. \<not> junk i) \<longrightarrow> f = Free_null))"

lemma load_defaults:
  assumes "distinct (map aty_name (tl_items T @ tys))" "length (tl_items T @ tys) \<le> tl_size T" "tl_size T = tl_capacity T"
    "\<forall>t \<in> set tys. length (aty_name t) \<le> MAX_NAME_LEN"
  shows "\<exists>ts. acl_load_defaults junk tys T = Ret (T\<lparr>tl_items := tl_items T @ ts\<rparr>) \<and> list_all2 (loaded junk) tys ts"
  using assms
proof (induction tys arbitrary: T)
  case (Cons ty tys)
  define ty' where "ty' = ty\<lparr>aty_free := if junk (length (tl_items T)) then Free_wild else Free_null\<rparr>"
  have n: "ci_acl_typelist_search T (aty_name ty) = None"
  proof -
    have "aty_name ty \<notin> aty_name ` set (tl_items T)" using Cons.prems(1) by simp
    then have "\<forall>t \<in> set (tl_items T). aty_name t \<noteq> aty_name ty" by (metis imageI)
    then show ?thesis by (simp add: ci_acl_typelist_search_def index_of_None)
  qed
  have a: "ci_acl_typelist_add True junk T ty = Ret (T\<lparr>tl_items := tl_items T @ [ty']\<rparr>, True)"
    using Cons.prems n by (simp add: ci_acl_typelist_add_def Let_def ty'_def)
  have l: "loaded junk ty ty'" "aty_name ty' = aty_name ty" by (auto simp: loaded_def ty'_def)
  let ?T = "T\<lparr>tl_items := tl_items T @ [ty']\<rparr>"
  have "\<exists>ts. acl_load_defaults junk tys ?T = Ret (?T\<lparr>tl_items := tl_items ?T @ ts\<rparr>) \<and> list_all2 (loaded junk) tys ts"
  proof (rule Cons.IH [of ?T])
    show "distinct (map aty_name (tl_items ?T @ tys))" using Cons.prems(1) l(2) by simp
    show "length (tl_items ?T @ tys) \<le> tl_size ?T" using Cons.prems(2) by simp
  qed (use Cons.prems(3,4) in simp_all)
  then obtain ts where "acl_load_defaults junk tys ?T = Ret (T\<lparr>tl_items := tl_items T @ ty' # ts\<rparr>)" "list_all2 (loaded junk) tys ts"
    by auto
  then show ?case using a l(1) by (intro exI [of _ "ty' # ts"]) simp
qed (auto intro!: exI [of _ "[]"])

lemma default_types_names:
  "distinct (map aty_name (default_types rx mg pt))" "length (default_types rx mg pt) = 18"
  "\<forall>t \<in> set (default_types rx mg pt). length (aty_name t) \<le> MAX_NAME_LEN"
  by (simp_all add: default_types_def MAX_NAME_LEN_def)

lemma acl_init_returns:
  "\<exists>ts. ci_acl_init True junk (default_types rx mg pt) = Ret \<lparr>al_types = (ci_acl_typelist_init True 0)\<lparr>tl_items := ts\<rparr>, al_resets = 0,
     al_specs = [], al_connection_access = [], al_access = []\<rparr> \<and> list_all2 (loaded junk) (default_types rx mg pt) ts"
proof -
  obtain ts where "acl_load_defaults junk (default_types rx mg pt) (ci_acl_typelist_init True 0) = Ret ((ci_acl_typelist_init True 0)\<lparr>tl_items := ts\<rparr>)"
      "list_all2 (loaded junk) (default_types rx mg pt) ts"
    using load_defaults [of "ci_acl_typelist_init True 0" "default_types rx mg pt" junk] default_types_names [of rx mg pt]
    by (auto simp: ci_acl_typelist_init_def ACL_STEP_def)
  then show ?thesis by (auto simp: ci_acl_init_def)
qed

lemma init_wf:
  assumes "ci_acl_init True junk (default_types rx mg pt) = Ret L"
  shows "acl_wf L" "(\<forall>i. \<not> junk i) \<Longrightarrow> \<forall>t \<in> set (tl_items (al_types L)). aty_free t = Free_null"
    "list_all2 (loaded junk) (default_types rx mg pt) (tl_items (al_types L))"
proof -
  obtain ts where ts: "list_all2 (loaded junk) (default_types rx mg pt) ts" "tl_items (al_types L) = ts" "al_specs L = []"
      "al_connection_access L = []" "al_access L = []"
    using acl_init_returns [of junk rx mg pt] assms by auto
  have from_default: "\<exists>t \<in> set (default_types rx mg pt). loaded junk t t'" if "t' \<in> set ts" for t'
    using ts(1) that by (metis in_set_conv_nth list_all2_conv_all_nth)
  then have "\<exists>stored tested. typed_acl t' stored tested" if "t' \<in> set ts" for t'
    using default_types_typed [of _ rx mg pt] that by (fastforce simp: loaded_def typed_acl_def)
  with ts show "acl_wf L" by (auto simp: acl_wf_def)
  show "\<forall>t \<in> set (tl_items (al_types L)). aty_free t = Free_null" if "\<forall>i. \<not> junk i"
    using from_default that ts(2) by (fastforce simp: loaded_def)
qed (use assms acl_init_returns [of junk rx mg pt] in auto)

text \<open>Only a number that overflows cannot be read by some type of the server.\<close>

lemma default_readable:
  assumes "ci_acl_init True junk (default_types rx mg pt) = Ret L" "int32_dup True v = Ret k"
  shows "readable L v"
proof -
  have "\<exists>k. ty_dup (aty_ops t) True v = Ret k" if "t \<in> set (default_types rx mg pt)" for t
    using that assms(2) unfolding default_types_def list.set insert_iff empty_iff
    by (elim disjE FalseE; hypsubst)
      (simp_all add: ci_str_ops_def ci_int32_ops_def ci_regex_ops_def ci_datatype_ops_def ci_ip_ops_def ci_ip_sockaddr_ops_def
        acl_cmp_uint64_ops_def acl_time_ops_def stringdup_def regex_dup_def datatype_dup_def ip_dup_def acl_cmp_uint64_dup_def
        uint64_dup_def acl_time_dup_def Let_def split_beta split: option.split)
  moreover have "\<exists>t \<in> set (default_types rx mg pt). loaded junk t t'" if "t' \<in> set (tl_items (al_types L))" for t'
    using init_wf(3) [OF assms(1)] that by (metis in_set_conv_nth list_all2_conv_all_nth)
  ultimately show ?thesis by (fastforce simp: readable_def loaded_def)
qed

lemma default_directives_readable:
  assumes "ci_acl_init True junk (default_types rx mg pt) = Ret L" "\<forall>d \<in> set ds. \<forall>v \<in> set (directive_values d). \<exists>k. int32_dup True v = Ret k"
  shows "\<forall>d \<in> set ds. \<forall>v \<in> set (directive_values d). readable L v"
  using assms default_readable by blast

section \<open>Matching\<close>

text \<open>The test data that the acls need can be computed for the request (each getter returns).\<close>

definition data_available :: "acl_lib \<Rightarrow> acl_env \<Rightarrow> bool" where
  "data_available L ae \<longleftrightarrow> (\<forall>n i. ci_acl_spec_search (al_specs L) n = Some i \<longrightarrow>
     (\<exists>v. aty_get (tl_items (al_types L) ! snd (as_type (al_specs L ! i))) ae (as_parameter (al_specs L ! i)) = Ret v))"

text \<open>What a literal of a rule says of a request.\<close>

definition key_holds :: "ci_acl_type \<Rightarrow> bytes option \<Rightarrow> key list \<Rightarrow> bool \<Rightarrow> acl_env \<Rightarrow> bool" where
  "key_holds t param ks neg ae = (\<exists>v. aty_get t ae param = Ret (Some v) \<and> (\<exists>k \<in> set ks. ty_equal (aty_ops t) k (Some v) = Ret True) \<noteq> neg)"

definition literal_holds :: "acl_lib \<Rightarrow> acl_env \<Rightarrow> ci_specs_list \<Rightarrow> bool" where
  "literal_holds L ae s = (let spec = al_specs L ! snd (sl_spec s) in
     key_holds (tl_items (al_types L) ! snd (as_type spec)) (as_parameter spec) (as_data spec) (sl_negate s) ae)"

text \<open>
  A step of the matcher gives what it should, or it follows a release function that the memory of the table
  happened to hold.
\<close>

definition safe_or_wild :: "acl_lib \<Rightarrow> 'a c_result \<Rightarrow> 'a \<Rightarrow> bool" where
  "safe_or_wild L m a \<longleftrightarrow> m = Ret a \<or> m = Undef \<and> (\<exists>t \<in> set (tl_items (al_types L)). aty_free t = Free_wild)"

lemma match_specs:
  assumes "acl_wf L" "data_available L ae" "entry_ok L \<lparr>en_type = a, en_specs = ss\<rparr>"
  shows "safe_or_wild L (request_match_specslist L ae ss) (\<forall>s \<in> set ss. literal_holds L ae s)"
  using assms(3)
proof (induction ss)
  case (Cons s ss)
  define spec where "spec = al_specs L ! snd (sl_spec s)"
  have sp: "spec_at L (sl_spec s) = Ret spec" "spec \<in> set (al_specs L)" using Cons.prems by (auto simp: entry_ok_def spec_at_def spec_def)
  then obtain t stored tested where t: "type_at L (as_type spec) = Ret t" "typed_acl t stored tested" "\<forall>k \<in> set (as_data spec). stored k"
    using assms(1) by (force simp: acl_wf_def spec_typed_def)
  have t': "t = tl_items (al_types L) ! snd (as_type spec)" "t \<in> set (tl_items (al_types L))"
    using t(1) by (auto simp: type_at_def split: if_splits)
  obtain d where d: "aty_get t ae (as_parameter spec) = Ret d" 
  proof -
    have "ci_acl_spec_search (al_specs L) (as_name spec) = Some (snd (sl_spec s))" using Cons.prems by (simp add: entry_ok_def spec_def)
    then show ?thesis using assms(2) t'(1) that unfolding data_available_def spec_def by blast
  qed
  show ?case
  proof (cases d)
    case None
    then have "\<not> literal_holds L ae s" using d t' by (simp add: literal_holds_def key_holds_def spec_def)
    then show ?thesis using sp t d None by (simp add: safe_or_wild_def)
  next
    case (Some v)
    then have "spec_data_check t spec v = Ret (\<exists>k \<in> set (as_data spec). ty_equal (aty_ops t) k (Some v) = Ret True)"
      using key_ops.scan_keys_returns [of "ty_dup (aty_ops t)" "ty_equal (aty_ops t)" stored tested "as_data spec" v] t d
      by (auto simp: spec_data_check_def typed_acl_def)
    moreover have "literal_holds L ae s \<longleftrightarrow> (\<exists>k \<in> set (as_data spec). ty_equal (aty_ops t) k (Some v) = Ret True) \<noteq> sl_negate s"
      using d t' Some by (simp add: literal_holds_def key_holds_def spec_def Let_def)
    ultimately show ?thesis using sp t d t' Some Cons by (auto simp: entry_ok_def safe_or_wild_def)
  qed
qed (simp add: safe_or_wild_def)

text \<open>The decision: the answer of the first rule that has literals which all hold.\<close>

definition rule_decision :: "('a \<Rightarrow> bool) \<Rightarrow> (int \<times> 'a list) list \<Rightarrow> int" where
  "rule_decision holds rules =
     (if rules = [] then CI_ACCESS_ALLOW
      else case find (\<lambda>(a, ls). ls \<noteq> [] \<and> list_all holds ls) rules of Some (a, _) \<Rightarrow> a | None \<Rightarrow> CI_ACCESS_UNKNOWN)"

lemma match_entries_decides:
  assumes "acl_wf L" "data_available L ae" "\<forall>e \<in> set es. entry_ok L e"
  shows "safe_or_wild L (ci_access_entry_match_request L ae es) (rule_decision (literal_holds L ae) (map (\<lambda>e. (en_type e, en_specs e)) es))"
proof -
  have "safe_or_wild L (match_entries L ae es)
      (case find (\<lambda>(a, ls). ls \<noteq> [] \<and> list_all (literal_holds L ae) ls) (map (\<lambda>e. (en_type e, en_specs e)) es) of
        Some (a, _) \<Rightarrow> a | None \<Rightarrow> CI_ACCESS_UNKNOWN)"
    using assms(3)
  proof (induction es)
    case (Cons e es)
    then have "safe_or_wild L (request_match_specslist L ae (en_specs e)) (list_all (literal_holds L ae) (en_specs e))"
      using match_specs [OF assms(1,2), of "en_type e" "en_specs e"] by (simp add: entry_ok_def list_all_iff)
    then show ?case using Cons by (cases "en_specs e = []") (auto simp: safe_or_wild_def)
  qed (simp add: safe_or_wild_def)
  then show ?thesis by (simp add: ci_access_entry_match_request_def rule_decision_def safe_or_wild_def)
qed

lemma matching_decides:
  assumes "acl_wf L" "data_available L ae"
  shows "safe_or_wild L (default_acl_client_match L ae) (rule_decision (literal_holds L ae) (map (\<lambda>e. (en_type e, en_specs e)) (al_connection_access L)))"
    "safe_or_wild L (default_acl_request_match L ae) (rule_decision (literal_holds L ae) (map (\<lambda>e. (en_type e, en_specs e)) (al_access L)))"
  using assms match_entries_decides [OF assms] by (simp_all add: default_acl_client_match_def default_acl_request_match_def acl_wf_def)

text \<open>
  \<open>answers junk m a\<close>: the matcher answers \<open>a\<close>; it can fail to only where the memory of the table of types, which is not
  initialised, was not zero (\<open>junk\<close>).
\<close>

definition answers :: "(nat \<Rightarrow> bool) \<Rightarrow> int c_result \<Rightarrow> int \<Rightarrow> bool" where
  "answers junk m a \<longleftrightarrow> m = Ret a \<or> m = Undef \<and> (\<exists>i. junk i)"

lemma answers_zero [simp]: "answers (\<lambda>_. False) m a \<longleftrightarrow> m = Ret a"
  by (simp add: answers_def)

lemma safe_answers:
  assumes "ci_acl_init True junk (default_types rx mg pt) = Ret L0" "al_types L = al_types L0" "safe_or_wild L m a"
  shows "answers junk m a"
proof (cases "\<exists>i. junk i")
  case False
  then show ?thesis using assms init_wf(2) [OF assms(1)] by (auto simp: answers_def safe_or_wild_def)
qed (use assms(3) in \<open>auto simp: answers_def safe_or_wild_def\<close>)


text \<open>Libraries that know no regular expression, data type or address, for the examples.\<close>

abbreviation no_types :: "ci_acl_type list" where
  "no_types \<equiv> default_types (\<lambda>_ _. None) \<lparr>ci_magic_type_id = (\<lambda>_. -1), ci_magic_group_id = (\<lambda>_. -1), ci_magic_group_check = (\<lambda>_ _. False)\<rparr>
     \<lparr>pton4 = (\<lambda>_. None), pton6 = (\<lambda>_. None)\<rparr>"

abbreviation demo_directives :: "directive list" where
  "demo_directives \<equiv> [D_acl [''web'', ''port'', ''1344''], D_access ''icap_access'' [''allow'', ''web'']]"

lemma demo_port: "int32_dup True ''1344'' = Ret (Some (K_int32 1344))"
  by code_simp

section \<open>Policies of names\<close>

text \<open>
  What an administrator writes: acls by name, each a type with a parameter and keys, and rules of names.  The
  table \<open>T\<close> gives the types.  A line that names an unknown type, or another type than before, stops; an unknown
  name in a rule is left out of it.
\<close>

record pdef =
  pd_type :: bytes
  pd_param :: "bytes option"
  pd_keys :: "key list"

record policy =
  po_defs :: "bytes \<Rightarrow> pdef option"
  po_client :: "(int \<times> (bool \<times> bytes) list) list"
  po_icap :: "(int \<times> (bool \<times> bytes) list) list"

definition policy_type :: "ci_acl_type list \<Rightarrow> bytes \<Rightarrow> ci_acl_type option" where
  "policy_type T n = find (\<lambda>t. aty_name t = n) T"

definition policy_keys :: "ci_acl_type \<Rightarrow> bytes \<Rightarrow> key list" where
  "policy_keys t v = (case ty_dup (aty_ops t) True v of Ret (Some k) \<Rightarrow> [k] | _ \<Rightarrow> [])"

definition policy_value :: "ci_acl_type list \<Rightarrow> policy \<Rightarrow> bytes \<Rightarrow> bytes \<Rightarrow> bytes \<Rightarrow> policy option" where
  "policy_value T P name ty v =
     (let (tn, param) = split_type ty in
      case policy_type T tn of
        None \<Rightarrow> None
      | Some t \<Rightarrow>
          (case po_defs P name of
             Some d \<Rightarrow>
               if pd_type d = tn then Some (P\<lparr>po_defs := (po_defs P)(name \<mapsto> d\<lparr>pd_keys := pd_keys d @ policy_keys t v\<rparr>)\<rparr>) else None
           | None \<Rightarrow>
               let n = take MAX_NAME_LEN name in
               Some (if po_defs P n = None
                     then P\<lparr>po_defs := (po_defs P)(n \<mapsto> \<lparr>pd_type = tn, pd_param = param, pd_keys = policy_keys t v\<rparr>)\<rparr> else P)))"

fun policy_values :: "ci_acl_type list \<Rightarrow> policy \<Rightarrow> bytes \<Rightarrow> bytes \<Rightarrow> bytes list \<Rightarrow> policy" where
  "policy_values T P name ty [] = P"
| "policy_values T P name ty (v # vs) = (case policy_value T P name ty v of None \<Rightarrow> P | Some P1 \<Rightarrow> policy_values T P1 name ty vs)"

definition policy_allowed :: "policy \<Rightarrow> bool \<Rightarrow> bytes \<Rightarrow> bool" where
  "policy_allowed P conn arg \<longleftrightarrow>
     (conn \<longrightarrow> (case po_defs P arg of None \<Rightarrow> True | Some d \<Rightarrow> pd_type d = ''port'' \<or> pd_type d = ''src'' \<or> pd_type d = ''srvip''))"

definition policy_literals :: "policy \<Rightarrow> bool \<Rightarrow> bytes list \<Rightarrow> (bool \<times> bytes) list" where
  "policy_literals P conn args = filter (\<lambda>(_, n). po_defs P n \<noteq> None) (map split_negation (filter (policy_allowed P conn) args))"

definition policy_access :: "policy \<Rightarrow> bytes \<Rightarrow> bytes list \<Rightarrow> policy" where
  "policy_access P directive argv =
     (case argv of
        verb # arg # args \<Rightarrow>
          (case access_verb verb of
             None \<Rightarrow> P
           | Some a \<Rightarrow>
               if directive = ''client_access'' then P\<lparr>po_client := po_client P @ [(a, policy_literals P True (arg # args))]\<rparr>
               else if directive = ''icap_access'' then P\<lparr>po_icap := po_icap P @ [(a, policy_literals P False (arg # args))]\<rparr>
               else P)
      | _ \<Rightarrow> P)"

fun policy_directive :: "ci_acl_type list \<Rightarrow> policy \<Rightarrow> directive \<Rightarrow> policy" where
  "policy_directive T P (D_acl argv) = (case argv of name # ty # v # vs \<Rightarrow> policy_values T P name ty (v # vs) | _ \<Rightarrow> P)"
| "policy_directive T P (D_access directive argv) = policy_access P directive argv"

definition policy_holds :: "ci_acl_type list \<Rightarrow> policy \<Rightarrow> acl_env \<Rightarrow> bool \<times> bytes \<Rightarrow> bool" where
  "policy_holds T P ae l =
     (case po_defs P (snd l) of
        None \<Rightarrow> False
      | Some d \<Rightarrow> (case policy_type T (pd_type d) of None \<Rightarrow> False | Some t \<Rightarrow> key_holds t (pd_param d) (pd_keys d) (fst l) ae))"

text \<open>The policy that the pointer structures stand for.\<close>

definition def_of :: "acl_lib \<Rightarrow> ci_acl_spec \<Rightarrow> pdef" where
  "def_of L s = \<lparr>pd_type = aty_name (tl_items (al_types L) ! snd (as_type s)), pd_param = as_parameter s, pd_keys = as_data s\<rparr>"

definition rule_of :: "acl_lib \<Rightarrow> ci_access_entry \<Rightarrow> int \<times> (bool \<times> bytes) list" where
  "rule_of L e = (en_type e, map (\<lambda>s. (sl_negate s, as_name (al_specs L ! snd (sl_spec s)))) (en_specs e))"

definition policy_of :: "acl_lib \<Rightarrow> policy" where
  "policy_of L = \<lparr>po_defs = (\<lambda>n. map_option (\<lambda>i. def_of L (al_specs L ! i)) (ci_acl_spec_search (al_specs L) n)),
     po_client = map (rule_of L) (al_connection_access L), po_icap = map (rule_of L) (al_access L)\<rparr>"

lemma find_index_of: "find P xs = map_option ((!) xs) (index_of P xs)"
  by (induction xs) (auto simp: option.map_comp comp_def)

lemma policy_type_search:
  "policy_type (tl_items (al_types L)) n = map_option (\<lambda>p. tl_items (al_types L) ! snd p) (ci_acl_typelist_search (al_types L) n)"
  by (simp add: policy_type_def find_index_of ci_acl_typelist_search_def option.map_comp comp_def)

text \<open>An acl is of the type that its name in the table says.\<close>

lemma spec_type_iff:
  assumes "spec_typed L s"
  shows "ci_acl_typelist_search (al_types L) n = Some (as_type s) \<longleftrightarrow> pd_type (def_of L s) = n"
proof -
  obtain t where "type_at L (as_type s) = Ret t" "ci_acl_typelist_search (al_types L) (aty_name t) = Some (as_type s)"
    using assms by (auto simp: spec_typed_def)
  then have t: "ci_acl_typelist_search (al_types L) (pd_type (def_of L s)) = Some (as_type s)"
    by (auto simp: def_of_def type_at_def split: if_splits)
  moreover have "pd_type (def_of L s) = n" if "ci_acl_typelist_search (al_types L) n = Some (as_type s)"
    using typelist_search_at [OF that] by (auto simp: def_of_def)
  ultimately show ?thesis by auto
qed

lemma spec_type_at:
  assumes "spec_typed L s"
  shows "type_at L (as_type s) = Ret (tl_items (al_types L) ! snd (as_type s))"
  using assms by (auto simp: spec_typed_def type_at_def split: if_splits)

lemma new_data_keys:
  assumes "ty_dup (aty_ops t) True v = Ret d"
  shows "ci_acl_spec_new_data True True t s v = Ret (s\<lparr>as_data := as_data s @ policy_keys t v\<rparr>)"
  using assms by (auto simp: ci_acl_spec_new_data_def policy_keys_def split: option.splits)

lemma def_of_specs [simp]: "def_of (L\<lparr>al_specs := ss\<rparr>) s = def_of L s"
  by (simp add: def_of_def)

text \<open>Extending an acl that exists.\<close>

lemma policy_update:
  assumes wf: "acl_wf L" and i: "ci_acl_spec_search (al_specs L) name = Some i" and s: "as_name s = as_name (al_specs L ! i)"
  shows "policy_of (L\<lparr>al_specs := (al_specs L)[i := s]\<rparr>) = (policy_of L)\<lparr>po_defs := (po_defs (policy_of L))(name \<mapsto> def_of L s)\<rparr>"
proof -
  have il: "i < length (al_specs L)" "as_name (al_specs L ! i) = name"
    using i index_of_Some [of _ "al_specs L" i] by (auto simp: ci_acl_spec_search_def)
  have n: "ci_acl_spec_search ((al_specs L)[i := s]) n = ci_acl_spec_search (al_specs L) n" for n
    unfolding ci_acl_spec_search_def by (rule index_of_update) (simp add: s)
  have m: "as_name ((al_specs L)[i := s] ! j) = as_name (al_specs L ! j)" for j
    using s il by (cases "i = j") auto
  have "map_option (\<lambda>j. def_of L ((al_specs L)[i := s] ! j)) (ci_acl_spec_search (al_specs L) n) =
      ((\<lambda>n. map_option (\<lambda>j. def_of L (al_specs L ! j)) (ci_acl_spec_search (al_specs L) n))(name \<mapsto> def_of L s)) n" for n
  proof (cases "n = name")
    case False
    then have "ci_acl_spec_search (al_specs L) n \<noteq> Some i"
      using il index_of_Some [of _ "al_specs L" i] by (auto simp: ci_acl_spec_search_def)
    then show ?thesis using False by (cases "ci_acl_spec_search (al_specs L) n") (auto simp: nth_list_update)
  qed (simp add: i il)
  then show ?thesis by (auto simp: policy_of_def n rule_of_def m fun_eq_iff)
qed

text \<open>Adding an acl: it is found under its shortened name unless an earlier one is.\<close>

lemma policy_append:
  assumes wf: "acl_wf L"
  shows "policy_of (L\<lparr>al_specs := al_specs L @ [s]\<rparr>) =
    (if po_defs (policy_of L) (as_name s) = None then (policy_of L)\<lparr>po_defs := (po_defs (policy_of L))(as_name s \<mapsto> def_of L s)\<rparr> else policy_of L)"
proof -
  have n: "map_option (\<lambda>i. def_of L ((al_specs L @ [s]) ! i)) (ci_acl_spec_search (al_specs L @ [s]) n) =
      (case ci_acl_spec_search (al_specs L) n of Some i \<Rightarrow> Some (def_of L (al_specs L ! i)) | None \<Rightarrow> if as_name s = n then Some (def_of L s) else None)" for n
    using index_of_Some [of "\<lambda>s. as_name s = n" "al_specs L"]
    by (auto simp: ci_acl_spec_search_def index_of_append nth_append split: option.split)
  have "rule_of (L\<lparr>al_specs := al_specs L @ [s]\<rparr>) e = rule_of L e" if "e \<in> set (al_connection_access L) \<union> set (al_access L)" for e
    using wf that by (auto simp: acl_wf_def entry_ok_def rule_of_def nth_append)
  then show ?thesis by (auto simp: policy_of_def n fun_eq_iff split: option.split)
qed

lemma policy_new:
  assumes wf: "acl_wf L" and v: "readable L v" and st: "split_type ty = (tn, param)"
    and p: "ci_acl_typelist_search (al_types L) tn = Some p" and n: "ci_acl_spec_search (al_specs L) name = None"
  shows "\<exists>L'. ci_acl_add_data (\<lambda>_. True) L name ty v = Ret (L', True)
    \<and> policy_value (tl_items (al_types L)) (policy_of L) name ty v = Some (policy_of L')"
proof -
  obtain t where t: "type_at L p = Ret t" "t \<in> set (tl_items (al_types L))" "aty_name t = tn" "t = tl_items (al_types L) ! snd p"
    using typelist_search_at [OF p] by metis
  then obtain d where d: "ty_dup (aty_ops t) True v = Ret d" using v by (auto simp: readable_def)
  define s where "s = \<lparr>as_name = take MAX_NAME_LEN name, as_type = p, as_parameter = param, as_data = policy_keys t v\<rparr>"
  have "ci_acl_add_data (\<lambda>_. True) L name ty v = Ret (L\<lparr>al_specs := al_specs L @ [s]\<rparr>, True)"
    using n p st t(1) new_data_keys [OF d] by (simp add: ci_acl_add_data_def acl_spec_for_def ci_acl_spec_new_def s_def)
  moreover have "po_defs (policy_of L) name = None" using n by (simp add: policy_of_def)
  moreover have "def_of L s = \<lparr>pd_type = tn, pd_param = param, pd_keys = policy_keys t v\<rparr>"
    using t by (simp add: def_of_def s_def)
  ultimately show ?thesis using policy_append [OF wf, of s] p st t(4)
    by (auto simp: policy_value_def policy_type_search s_def Let_def)
qed

lemma policy_extend:
  assumes wf: "acl_wf L" and v: "readable L v" and st: "split_type ty = (tn, param)"
    and i: "ci_acl_spec_search (al_specs L) name = Some i"
    and p: "ci_acl_typelist_search (al_types L) tn = Some (as_type (al_specs L ! i))"
  shows "\<exists>L'. ci_acl_add_data (\<lambda>_. True) L name ty v = Ret (L', True)
    \<and> policy_value (tl_items (al_types L)) (policy_of L) name ty v = Some (policy_of L')"
proof -
  let ?s = "al_specs L ! i"
  obtain t where t: "type_at L (as_type ?s) = Ret t" "t \<in> set (tl_items (al_types L))" "aty_name t = tn" "t = tl_items (al_types L) ! snd (as_type ?s)"
    using typelist_search_at [OF p] by metis
  then obtain d where d: "ty_dup (aty_ops t) True v = Ret d" using v by (auto simp: readable_def)
  define s where "s = ?s\<lparr>as_data := as_data ?s @ policy_keys t v\<rparr>"
  have "ci_acl_add_data (\<lambda>_. True) L name ty v = Ret (L\<lparr>al_specs := (al_specs L)[i := s]\<rparr>, True)"
    using i p st t(1) new_data_keys [OF d] by (simp add: ci_acl_add_data_def acl_spec_for_def ci_acl_type_search_def s_def)
  moreover have "po_defs (policy_of L) name = Some (def_of L ?s)" using i by (simp add: policy_of_def)
  moreover have "def_of L s = (def_of L ?s)\<lparr>pd_keys := pd_keys (def_of L ?s) @ policy_keys t v\<rparr>" "pd_type (def_of L ?s) = tn"
    using t by (simp_all add: def_of_def s_def)
  ultimately show ?thesis using policy_update [OF wf i, of s] p st t(4)
    by (auto simp: policy_value_def policy_type_search s_def)
qed

lemma policy_add_data:
  assumes wf: "acl_wf L" and v: "readable L v"
  shows "\<exists>L' r. ci_acl_add_data (\<lambda>_. True) L name ty v = Ret (L', r)
    \<and> policy_value (tl_items (al_types L)) (policy_of L) name ty v = (if r then Some (policy_of L') else None) \<and> (r \<or> L' = L)"
proof -
  obtain tn param where st: "split_type ty = (tn, param)" by (cases "split_type ty")
  consider (new) p where "ci_acl_typelist_search (al_types L) tn = Some p" "ci_acl_spec_search (al_specs L) name = None"
    | (extend) i where "ci_acl_spec_search (al_specs L) name = Some i" "ci_acl_typelist_search (al_types L) tn = Some (as_type (al_specs L ! i))"
    | (unknown) "ci_acl_typelist_search (al_types L) tn = None"
    | (other) i where "ci_acl_spec_search (al_specs L) name = Some i" "ci_acl_typelist_search (al_types L) tn \<noteq> Some (as_type (al_specs L ! i))"
    by (metis not_None_eq)
  then show ?thesis
  proof cases
    case new
    then show ?thesis using policy_new [OF wf v st] by fastforce
  next
    case extend
    then show ?thesis using policy_extend [OF wf v st] by fastforce
  next
    case unknown
    then have "acl_spec_for True L name tn param = None"
      by (auto simp: acl_spec_for_def ci_acl_type_search_def ci_acl_spec_new_def split: option.split)
    then show ?thesis using unknown st by (auto simp: ci_acl_add_data_def policy_value_def policy_type_search)
  next
    case other
    then have "acl_spec_for True L name tn param = None" by (simp add: acl_spec_for_def ci_acl_type_search_def)
    moreover have "spec_typed L (al_specs L ! i)"
      using other(1) index_of_Some [of _ "al_specs L" i] wf by (auto simp: acl_wf_def ci_acl_spec_search_def)
    then have "pd_type (def_of L (al_specs L ! i)) \<noteq> tn" using spec_type_iff other(2) by blast
    ultimately show ?thesis using other(1) st
      by (auto simp: ci_acl_add_data_def policy_value_def policy_of_def split: option.split)
  qed
qed

lemma policy_add_values:
  assumes "acl_wf L" "\<forall>v \<in> set vs. readable L v" "acl_add_values (\<lambda>_ _. True) L name ty vs = Ret (L', r)"
  shows "policy_of L' = policy_values (tl_items (al_types L)) (policy_of L) name ty vs"
  using assms
proof (induction vs arbitrary: L)
  case (Cons v vs)
  obtain L1 b where 1: "ci_acl_add_data (\<lambda>_. True) L name ty v = Ret (L1, b)" "b \<or> L1 = L"
      "policy_value (tl_items (al_types L)) (policy_of L) name ty v = (if b then Some (policy_of L1) else None)"
    using policy_add_data [OF Cons.prems(1)] Cons.prems(2) by (metis list.set_intros(1))
  have 2: "acl_wf L1" "al_types L1 = al_types L"
    using add_data_returns [OF Cons.prems(1), of v "\<lambda>_. True" name ty] Cons.prems(2) 1(1) by auto
  then have "\<forall>v \<in> set vs. readable L1 v" using Cons.prems(2) by (simp add: readable_def)
  then show ?case using Cons.IH [OF 2(1)] Cons.prems(3) 1 2 by (cases b) auto
qed simp

lemma policy_search: "(po_defs (policy_of L) n = None) = (ci_acl_search L n = None)"
  by (simp add: policy_of_def ci_acl_search_def)

lemma connection_only_policy:
  assumes wf: "acl_wf L"
  shows "(if conn then connection_only L arg else Ret True) = Ret (policy_allowed (policy_of L) conn arg)"
proof (cases "ci_acl_search L arg")
  case (Some p)
  from acl_search_at [OF wf Some] obtain s t where s: "spec_at L p = Ret s" "s = al_specs L ! snd p" "type_at L (as_type s) = Ret t"
      "ci_acl_spec_search (al_specs L) arg = Some (snd p)"
    by metis
  then have "t = tl_items (al_types L) ! snd (as_type s)" by (auto simp: type_at_def split: if_splits)
  then show ?thesis using s Some by (simp add: connection_only_def policy_allowed_def policy_of_def def_of_def)
qed (simp_all add: connection_only_def policy_allowed_def policy_of_def ci_acl_search_def)

lemma policy_add_acl:
  assumes wf: "acl_wf L"
  shows "rule_of L (fst (ci_access_entry_add_acl_by_name True L e arg)) =
    (en_type e, snd (rule_of L e) @ (if po_defs (policy_of L) (snd (split_negation arg)) = None then [] else [split_negation arg]))"
proof (cases "ci_acl_search L (snd (split_negation arg))")
  case (Some p)
  from acl_search_at [OF wf Some] obtain s where "as_name s = snd (split_negation arg)" "s = al_specs L ! snd p" by metis
  then show ?thesis using Some
    by (simp add: policy_search ci_access_entry_add_acl_by_name_def ci_access_entry_add_acl_def rule_of_def split_beta)
qed (simp add: policy_search ci_access_entry_add_acl_by_name_def rule_of_def split_beta)

lemma policy_add_specs:
  assumes wf: "acl_wf L" and r: "access_add_specs (\<lambda>_. True) L conn e args = Ret (e', r)"
  shows "rule_of L e' = (en_type e, snd (rule_of L e) @ policy_literals (policy_of L) conn args)"
  using r
proof (induction args arbitrary: e r)
  case (Cons arg args)
  show ?case
  proof (cases "policy_allowed (policy_of L) conn arg")
    case True
    then have "access_add_specs (\<lambda>_. True) L conn (fst (ci_access_entry_add_acl_by_name True L e arg)) args = Ret (e', r)"
      using Cons.prems connection_only_policy [OF wf, of conn arg] by simp
    from Cons.IH [OF this] policy_add_acl [OF wf, of e arg] show ?thesis
      using True by (simp add: rule_of_def policy_literals_def split_beta)
  next
    case False
    then obtain r' where "access_add_specs (\<lambda>_. True) L conn e args = Ret (e', r')"
      using Cons.prems connection_only_policy [OF wf, of conn arg] by (auto simp: c_bind_eq_Ret)
    from Cons.IH [OF this] show ?thesis using False by (simp add: policy_literals_def)
  qed
qed (simp add: rule_of_def policy_literals_def)

lemma rule_of_lists [simp]:
  "rule_of (L\<lparr>al_connection_access := es\<rparr>) = rule_of L" "rule_of (L\<lparr>al_access := es\<rparr>) = rule_of L"
  by (simp_all add: rule_of_def fun_eq_iff)

lemma def_of_lists [simp]:
  "def_of (L\<lparr>al_connection_access := es\<rparr>) = def_of L" "def_of (L\<lparr>al_access := es\<rparr>) = def_of L"
  by (simp_all add: def_of_def fun_eq_iff)

lemma policy_access_directive:
  assumes wf: "acl_wf L" and c: "cfg_default_acl_access (\<lambda>_. True) L directive argv = Ret (L', r)"
  shows "policy_of L' = policy_access (policy_of L) directive argv"
proof (cases "\<exists>verb arg args a. argv = verb # arg # args \<and> access_verb verb = Some a")
  case True
  then obtain verb arg args a where v: "argv = verb # arg # args" "access_verb verb = Some a" by auto
  define lits where "lits = (\<lambda>conn. policy_literals (policy_of L) conn (arg # args))"
  have e: "rule_of L e' = (a, lits conn)" if "access_add_specs (\<lambda>_. True) L conn \<lparr>en_type = a, en_specs = []\<rparr> (arg # args) = Ret (e', r)" for conn e' r
    using policy_add_specs [OF wf that] by (simp add: rule_of_def lits_def)
  consider (client) "directive = ''client_access''" | (icap) "directive \<noteq> ''client_access''" "directive = ''icap_access''"
    | (other) "directive \<noteq> ''client_access''" "directive \<noteq> ''icap_access''" by metis
  then show ?thesis
  proof cases
    case client
    then obtain e' where "access_add_specs (\<lambda>_. True) L True \<lparr>en_type = a, en_specs = []\<rparr> (arg # args) = Ret (e', r)"
        "L' = L\<lparr>al_connection_access := al_connection_access L @ [e']\<rparr>"
      using c v by (auto simp: cfg_default_acl_access_def c_bind_eq_Ret simp del: access_add_specs.simps)
    then show ?thesis using client v e by (simp add: policy_access_def policy_of_def lits_def del: access_add_specs.simps)
  next
    case icap
    then obtain e' where "access_add_specs (\<lambda>_. True) L False \<lparr>en_type = a, en_specs = []\<rparr> (arg # args) = Ret (e', r)"
        "L' = L\<lparr>al_access := al_access L @ [e']\<rparr>"
      using c v by (auto simp: cfg_default_acl_access_def c_bind_eq_Ret simp del: access_add_specs.simps)
    then show ?thesis using icap v e by (simp add: policy_access_def policy_of_def lits_def del: access_add_specs.simps)
  next
    case other
    then show ?thesis using c v by (simp add: cfg_default_acl_access_def policy_access_def)
  qed
next
  case False
  then have none: "access_verb verb = None" if "argv = verb # arg # args" for verb arg args using that by auto
  have "L' = L" using c none by (auto simp: cfg_default_acl_access_def split: list.split_asm if_split_asm)
  moreover have "policy_access (policy_of L) directive argv = policy_of L"
    using none by (auto simp: policy_access_def split: list.split)
  ultimately show ?thesis by simp
qed

lemma policy_step:
  assumes wf: "acl_wf L" and vals: "\<forall>v \<in> set (directive_values d). readable L v"
    and c: "(case d of D_acl argv \<Rightarrow> cfg_acl_add (\<lambda>_ _. True) L argv | D_access directive argv \<Rightarrow> cfg_default_acl_access (\<lambda>_. True) L directive argv) = Ret (L', r)"
  shows "policy_of L' = policy_directive (tl_items (al_types L)) (policy_of L) d"
proof (cases d)
  case (D_acl argv)
  then show ?thesis using c vals policy_add_values [OF wf] by (auto simp: cfg_acl_add_def split: list.split_asm simp del: acl_add_values.simps policy_values.simps)
qed (use c policy_access_directive [OF wf] in simp)

lemma policy_configure:
  assumes "acl_wf L" "\<forall>d \<in> set ds. \<forall>v \<in> set (directive_values d). readable L v" "acl_configure (\<lambda>_ _ _. True) L ds = Ret (L', r)"
  shows "policy_of L' = foldl (policy_directive (tl_items (al_types L))) (policy_of L) ds"
  using assms
proof (induction ds arbitrary: L r)
  case (Cons d ds)
  obtain L1 r1 where 1: "(case d of D_acl argv \<Rightarrow> cfg_acl_add (\<lambda>_ _. True) L argv
      | D_access directive argv \<Rightarrow> cfg_default_acl_access (\<lambda>_. True) L directive argv) = Ret (L1, r1)"
      "acl_wf L1" "al_types L1 = al_types L"
    using directive_returns [OF Cons.prems(1), of d "\<lambda>_ _. True"] Cons.prems(2) by auto
  then obtain r2 where "acl_configure (\<lambda>_ _ _. True) L1 ds = Ret (L', r2)" using Cons.prems(3) by (auto simp: c_bind_eq_Ret)
  moreover have "\<forall>d \<in> set ds. \<forall>v \<in> set (directive_values d). readable L1 v" using Cons.prems(2) 1(3) by (simp add: readable_def)
  moreover have "policy_of L1 = policy_directive (tl_items (al_types L)) (policy_of L) d"
    using policy_step [OF Cons.prems(1) _ 1(1)] Cons.prems(2) by simp
  ultimately show ?case using Cons.IH [OF 1(2)] 1(3) by simp
qed simp

text \<open>Matching looks at the policy only.\<close>

lemma literal_policy:
  assumes "acl_wf L" "entry_ok L e" "s \<in> set (en_specs e)"
  shows "literal_holds L ae s = policy_holds (tl_items (al_types L)) (policy_of L) ae (sl_negate s, as_name (al_specs L ! snd (sl_spec s)))"
proof -
  let ?s = "al_specs L ! snd (sl_spec s)"
  have s: "snd (sl_spec s) < length (al_specs L)" "ci_acl_spec_search (al_specs L) (as_name ?s) = Some (snd (sl_spec s))"
    using assms(2,3) by (auto simp: entry_ok_def)
  then have "ci_acl_typelist_search (al_types L) (pd_type (def_of L ?s)) = Some (as_type ?s)"
    using assms(1) spec_type_iff [of L ?s] by (auto simp: acl_wf_def)
  then show ?thesis using s(2)
    by (simp add: literal_holds_def policy_holds_def policy_type_search Let_def, simp add: policy_of_def def_of_def policy_type_search)
qed

lemma rule_decision_fst:
  "rule_decision h rules = (if rules = [] then CI_ACCESS_ALLOW
     else case map_option fst (find (\<lambda>(a, ls). ls \<noteq> [] \<and> list_all h ls) rules) of Some a \<Rightarrow> a | None \<Rightarrow> CI_ACCESS_UNKNOWN)"
  by (auto simp: rule_decision_def split: option.split)

lemma decision_policy:
  assumes "acl_wf L" "\<forall>e \<in> set es. entry_ok L e"
  shows "rule_decision (literal_holds L ae) (map (\<lambda>e. (en_type e, en_specs e)) es) =
    rule_decision (policy_holds (tl_items (al_types L)) (policy_of L) ae) (map (rule_of L) es)"
proof -
  let ?h = "policy_holds (tl_items (al_types L)) (policy_of L) ae"
  have "map_option fst (find (\<lambda>(a, ls). ls \<noteq> [] \<and> list_all (literal_holds L ae) ls) (map (\<lambda>e. (en_type e, en_specs e)) es)) =
      map_option fst (find (\<lambda>(a, ls). ls \<noteq> [] \<and> list_all ?h ls) (map (rule_of L) es))"
    using assms(2)
  proof (induction es)
    case (Cons e es)
    then have "list_all (literal_holds L ae) (en_specs e) = list_all ?h (snd (rule_of L e))"
      using literal_policy [OF assms(1), of e] by (simp add: rule_of_def list_all_iff)
    then show ?case using Cons by (simp add: rule_of_def)
  qed simp
  then show ?thesis by (simp add: rule_decision_fst)
qed

text \<open>The policy does not depend on how test data is released.\<close>

lemma release_irrelevant [simp]:
  "policy_keys (t\<lparr>aty_free := f\<rparr>) = policy_keys t" "key_holds (t\<lparr>aty_free := f\<rparr>) = key_holds t"
  by (simp_all add: policy_keys_def key_holds_def fun_eq_iff)

lemma policy_type_loaded:
  assumes "list_all2 (loaded junk) T T'"
  shows "rel_option (loaded junk) (policy_type T n) (policy_type T' n)"
  using assms unfolding policy_type_def by induction (auto simp: loaded_def)

lemma policy_value_loaded:
  assumes "list_all2 (loaded junk) T T'"
  shows "policy_value T' = policy_value T"
proof -
  have "policy_value T' P name ty v = policy_value T P name ty v" for P name ty v
    using policy_type_loaded [OF assms, of "fst (split_type ty)"]
    by (cases "policy_type T (fst (split_type ty))") (auto simp: policy_value_def split_beta loaded_def option_rel_Some1 Let_def split: option.split)
  then show ?thesis by (simp add: fun_eq_iff)
qed

lemma policy_directive_loaded:
  assumes "list_all2 (loaded junk) T T'"
  shows "policy_directive T' = policy_directive T"
proof -
  have "policy_values T' P name ty vs = policy_values T P name ty vs" for P name ty vs
    by (induction vs arbitrary: P) (simp_all add: policy_value_loaded [OF assms] split: option.split)
  then have "policy_directive T' P d = policy_directive T P d" for P d
    by (cases d) (auto split: list.split simp del: policy_values.simps)
  then show ?thesis by (simp add: fun_eq_iff)
qed

lemma policy_holds_loaded:
  assumes "list_all2 (loaded junk) T T'"
  shows "policy_holds T' P ae = policy_holds T P ae"
proof -
  have "policy_holds T' P ae l = policy_holds T P ae l" for l
  proof (cases "po_defs P (snd l)")
    case (Some d)
    then show ?thesis using policy_type_loaded [OF assms, of "pd_type d"]
      by (cases "policy_type T (pd_type d)") (auto simp: policy_holds_def loaded_def option_rel_Some1)
  qed (simp add: policy_holds_def)
  then show ?thesis by (simp add: fun_eq_iff)
qed

text \<open>The test data of the acls of a policy can be computed for the request.\<close>

definition policy_data :: "ci_acl_type list \<Rightarrow> policy \<Rightarrow> acl_env \<Rightarrow> bool" where
  "policy_data T P ae \<longleftrightarrow> (\<forall>n d t. po_defs P n = Some d \<longrightarrow> policy_type T (pd_type d) = Some t \<longrightarrow> (\<exists>v. aty_get t ae (pd_param d) = Ret v))"

lemma policy_data_available:
  assumes wf: "acl_wf L" and ld: "list_all2 (loaded junk) T (tl_items (al_types L))" and d: "policy_data T (policy_of L) ae"
  shows "data_available L ae"
proof -
  have "\<exists>v. aty_get (tl_items (al_types L) ! snd (as_type (al_specs L ! i))) ae (as_parameter (al_specs L ! i)) = Ret v"
    if i: "ci_acl_spec_search (al_specs L) n = Some i" for n i
  proof -
    let ?s = "al_specs L ! i"
    have "spec_typed L ?s" using i index_of_Some [of _ "al_specs L" i] wf by (auto simp: acl_wf_def ci_acl_spec_search_def)
    then have "ci_acl_typelist_search (al_types L) (pd_type (def_of L ?s)) = Some (as_type ?s)" using spec_type_iff by blast
    then have "policy_type (tl_items (al_types L)) (pd_type (def_of L ?s)) = Some (tl_items (al_types L) ! snd (as_type ?s))"
      by (simp add: policy_type_search)
    then obtain t where t: "policy_type T (pd_type (def_of L ?s)) = Some t" "loaded junk t (tl_items (al_types L) ! snd (as_type ?s))"
      using policy_type_loaded [OF ld, of "pd_type (def_of L ?s)"] by (auto simp: option_rel_Some2)
    have "po_defs (policy_of L) n = Some (def_of L ?s)" using i by (simp add: policy_of_def)
    then have "\<exists>v. aty_get t ae (pd_param (def_of L ?s)) = Ret v" using d t(1) unfolding policy_data_def by blast
    then show ?thesis using t(2) by (auto simp: loaded_def def_of_def)
  qed
  then show ?thesis by (simp add: data_available_def)
qed

text \<open>
  The access lists implement the policy of names: reading the directives gives the structures of that
  policy, and both controllers answer what its first rule with literals that all hold says.
\<close>

theorem acl_implements_policy:
  assumes vals: "\<forall>d \<in> set ds. \<forall>v \<in> set (directive_values d). \<exists>k. int32_dup True v = Ret k"
    and P: "P = foldl (policy_directive (default_types rx mg pt)) \<lparr>po_defs = (\<lambda>_. None), po_client = [], po_icap = []\<rparr> ds"
    and init: "ci_acl_init True junk (default_types rx mg pt) = Ret L0"
  shows "\<exists>L r. acl_configure (\<lambda>_ _ _. True) L0 ds = Ret (L, r) \<and> acl_wf L \<and> policy_of L = P
    \<and> (\<forall>ae. policy_data (default_types rx mg pt) P ae \<longrightarrow> data_available L ae
        \<and> answers junk (default_acl_client_match L ae) (rule_decision (policy_holds (default_types rx mg pt) P ae) (po_client P))
        \<and> answers junk (default_acl_request_match L ae) (rule_decision (policy_holds (default_types rx mg pt) P ae) (po_icap P)))"
proof -
  note rd = default_directives_readable [OF init vals]
  obtain L r where L: "acl_configure (\<lambda>_ _ _. True) L0 ds = Ret (L, r)" "acl_wf L" "al_types L = al_types L0"
    using configure_returns [where ok = "\<lambda>_ _ _. True", OF init_wf(1) [OF init] rd] by blast
  have ld: "list_all2 (loaded junk) (default_types rx mg pt) (tl_items (al_types L))" using init_wf(3) [OF init] L(3) by simp
  have "policy_of L0 = \<lparr>po_defs = (\<lambda>_. None), po_client = [], po_icap = []\<rparr>"
    using acl_init_returns [of junk rx mg pt] init by (auto simp: policy_of_def ci_acl_spec_search_def)
  then have PL: "policy_of L = P"
    using policy_configure [OF init_wf(1) [OF init] rd L(1)] ld by (simp add: P L(3) policy_directive_loaded)
  have es: "\<forall>e \<in> set (al_connection_access L). entry_ok L e" "\<forall>e \<in> set (al_access L). entry_ok L e" using L(2) by (auto simp: acl_wf_def)
  have "po_client P = map (rule_of L) (al_connection_access L)" "po_icap P = map (rule_of L) (al_access L)"
    by (simp_all add: PL [symmetric] policy_of_def)
  then have "data_available L ae
      \<and> safe_or_wild L (default_acl_client_match L ae) (rule_decision (policy_holds (default_types rx mg pt) P ae) (po_client P))
      \<and> safe_or_wild L (default_acl_request_match L ae) (rule_decision (policy_holds (default_types rx mg pt) P ae) (po_icap P))"
    if "policy_data (default_types rx mg pt) P ae" for ae
    using matching_decides [OF L(2) policy_data_available [OF L(2) ld]] policy_data_available [OF L(2) ld] that
      decision_policy [OF L(2) es(1)] decision_policy [OF L(2) es(2)]
    by (simp add: PL policy_holds_loaded [OF ld])
  with L PL safe_answers [OF init L(3)] show ?thesis by blast
qed

lemma demo_policy:
  "foldl (policy_directive no_types) \<lparr>po_defs = (\<lambda>_. None), po_client = [], po_icap = []\<rparr> demo_directives =
     \<lparr>po_defs = [''web'' \<mapsto> \<lparr>pd_type = ''port'', pd_param = None, pd_keys = [K_int32 1344]\<rparr>], po_client = [],
      po_icap = [(CI_ACCESS_ALLOW, [(False, ''web'')])]\<rparr>"
  by (simp add: policy_value_def split_type_def policy_type_def default_types_def policy_keys_def ci_int32_ops_def demo_port
      MAX_NAME_LEN_def policy_access_def access_verb_def policy_literals_def policy_allowed_def split_negation_def)

lemma demo_decision:
  fixes ae :: acl_env
  defines "P \<equiv> \<lparr>po_defs = [''web'' \<mapsto> \<lparr>pd_type = ''port'', pd_param = None, pd_keys = [K_int32 1344]\<rparr>], po_client = [],
      po_icap = [(CI_ACCESS_ALLOW, [(False, ''web'')])]\<rparr>"
  shows "policy_data no_types P ae"
    "rule_decision (policy_holds no_types P ae) [(CI_ACCESS_ALLOW, [(False, ''web'')])] =
      (if sa_port (ae_srvaddr ae) = 1344 then CI_ACCESS_ALLOW else CI_ACCESS_UNKNOWN)"
proof -
  have "policy_type no_types ''port'' = Some \<lparr>aty_name = ''port'', aty_get = get_port, aty_free = Free_null, aty_ops = ci_int32_ops\<rparr>"
    by (simp add: policy_type_def default_types_def)
  then show "policy_data no_types P ae" "rule_decision (policy_holds no_types P ae) [(CI_ACCESS_ALLOW, [(False, ''web'')])] =
      (if sa_port (ae_srvaddr ae) = 1344 then CI_ACCESS_ALLOW else CI_ACCESS_UNKNOWN)"
    by (auto simp: P_def policy_data_def policy_holds_def rule_decision_def key_holds_def get_port_def ci_int32_ops_def split: if_splits)
qed


end
