(* ===== verification/Config.thy ===== *)
theory Config
  imports Acl
begin

text \<open>
  The configuration file: \<^verbatim>\<open>cfg_param.c\<close> with the setters of \<^verbatim>\<open>cfg_lib.c\<close>.  A file is its content, or one whose
  reads fail although it opens (a directory); the file system is an argument, and so are the directives of
  other components (services, modules, logging), which see their own state and the tables of directives
  that modules register.  Memory for configuration values is taken to be available, and the build is the one
  without OpenSSL.

  Reading is \<open>None\<close> when it never ends and \<open>Undef\<close> where the code leaves a buffer or overflows.  Proved here:
  reading ends for every readable file system, also when files include each other; a file of ordinary lines
  is the sequence of its lines; arguments that are quoted are read back; and restoring the defaults undoes
  every directive that keeps one.
\<close>

section \<open>Variables and their defaults\<close>

text \<open>A listening port (\<^verbatim>\<open>ci_port_t\<close>) as the configuration fills it; the list of ports is a null pointer at first.\<close>

record ci_port =
  cp_address :: "bytes option"
  cp_port :: int

datatype cfg_val = V_int int | V_long int | V_str "bytes option" | V_ports "ci_port list option" | V_logger "bytes option"

text \<open>Setters of the API (\<^verbatim>\<open>ci_cfg_*\<close>); the directives of the server first save the default (\<^verbatim>\<open>intl_cfg_*\<close>).\<close>

datatype cfg_setter = S_int | S_str | S_onoff | S_enable | S_disable | S_size_off | S_size_long

datatype cfg_action =
    Plain cfg_setter
  | Intl cfg_setter
  | Tmp_dir
  | Set_port
  | Set_logger
  | Debug_level
  | Body_maxmem
  | Acl_add
  | Acl_access
  | Include_file
  | Ext

record ci_conf_entry =
  ce_name :: bytes
  ce_data :: "bytes option"
  ce_action :: "cfg_action option"

record sub_table =
  sb_name :: "bytes option"
  sb_type :: int
  sb_table :: "ci_conf_entry list"

record conf_tables =
  xt_alloc :: bool
  xt_size :: nat
  xt_items :: "sub_table list"

record 'x cfg_state =
  cs_vars :: "bytes \<Rightarrow> cfg_val"
  cs_defaults :: "(bytes \<times> cfg_val) list"
  cs_debug_cmd :: bool
  cs_tables :: conf_tables
  cs_acl :: acl_lib
  cs_other :: 'x

definition set_var :: "bytes \<Rightarrow> cfg_val \<Rightarrow> 'x cfg_state \<Rightarrow> 'x cfg_state" where
  "set_var x v st = st\<lparr>cs_vars := (cs_vars st)(x := v)\<rparr>"

definition cfg_default_value_search :: "bytes \<Rightarrow> 'x cfg_state \<Rightarrow> cfg_val option" where
  "cfg_default_value_search x st = map_of (cs_defaults st) x"

definition cfg_default_value_store :: "bytes \<Rightarrow> 'x cfg_state \<Rightarrow> 'x cfg_state" where
  "cfg_default_value_store x st =
     (if cfg_default_value_search x st \<noteq> None then st else st\<lparr>cs_defaults := cs_defaults st @ [(x, cs_vars st x)]\<rparr>)"

fun replace_first :: "bytes \<Rightarrow> cfg_val \<Rightarrow> (bytes \<times> cfg_val) list \<Rightarrow> (bytes \<times> cfg_val) list" where
  "replace_first x v [] = []"
| "replace_first x v ((y, w) # ds) = (if y = x then (y, v) # ds else (y, w) # replace_first x v ds)"

definition cfg_default_value_replace :: "bytes \<Rightarrow> cfg_val \<Rightarrow> 'x cfg_state \<Rightarrow> 'x cfg_state \<times> bool" where
  "cfg_default_value_replace x v st =
     (if cfg_default_value_search x st = None then (st, False) else (st\<lparr>cs_defaults := replace_first x v (cs_defaults st)\<rparr>, True))"

definition cfg_default_value_restore :: "bytes \<Rightarrow> 'x cfg_state \<Rightarrow> 'x cfg_state \<times> bool" where
  "cfg_default_value_restore x st =
     (case cfg_default_value_search x st of None \<Rightarrow> (st, False) | Some v \<Rightarrow> (set_var x v st, True))"

definition cfg_default_value_restore_all :: "'x cfg_state \<Rightarrow> 'x cfg_state" where
  "cfg_default_value_restore_all st = fold (\<lambda>(x, v). set_var x v) (cs_defaults st) st"

section \<open>Setters\<close>

text \<open>
  The arguments are a null pointer (for an option of the command line that has no parameter) or a list of
  strings that ends with a null pointer.  A number that does not fit is cut to 32 bits, and text that is no
  number is zero.
\<close>

type_synonym cfg_args = "bytes list option"

definition first_arg :: "cfg_args \<Rightarrow> bytes option" where
  "first_arg argv = (case argv of Some (a # _) \<Rightarrow> Some a | _ \<Rightarrow> None)"

type_synonym 'x setter = "cfg_args \<Rightarrow> bytes option \<Rightarrow> 'x cfg_state \<Rightarrow> ('x cfg_state \<times> bool) c_result"

definition ci_cfg_set_int :: "'x setter" where
  "ci_cfg_set_int argv data st =
     (case (data, first_arg argv) of
        (Some x, Some a) \<Rightarrow>
          let v = int32 (fst (strtol 10 a)) in
          if v = 0 \<and> strtol_erange 10 a then Ret (st, False) else Ret (set_var x (V_int v) st, True)
      | _ \<Rightarrow> Ret (st, False))"

definition ci_cfg_set_str :: "'x setter" where
  "ci_cfg_set_str argv data st =
     (case (data, first_arg argv) of (Some x, Some a) \<Rightarrow> Ret (set_var x (V_str (Some a)) st, True) | _ \<Rightarrow> Ret (st, False))"

definition strcasecmp_eq :: "bytes \<Rightarrow> bytes \<Rightarrow> bool" where
  "strcasecmp_eq a b = (map tolower_c a = map tolower_c b)"

definition ci_cfg_onoff :: "'x setter" where
  "ci_cfg_onoff argv data st =
     (case (data, first_arg argv) of
        (Some x, Some a) \<Rightarrow>
          if strcasecmp_eq a ''on'' then Ret (set_var x (V_int 1) st, True)
          else if strcasecmp_eq a ''off'' then Ret (set_var x (V_int 0) st, True)
          else Ret (st, False)
      | _ \<Rightarrow> Ret (st, False))"

definition ci_cfg_disable :: "'x setter" where
  "ci_cfg_disable argv data st = Ret (case data of Some x \<Rightarrow> (set_var x (V_int 0) st, True) | None \<Rightarrow> (st, False))"

definition ci_cfg_enable :: "'x setter" where
  "ci_cfg_enable argv data st = Ret (case data of Some x \<Rightarrow> (set_var x (V_int 1) st, True) | None \<Rightarrow> (st, False))"

text \<open>Sizes may have a unit; the product of the code is a signed 64-bit one, whose overflow is undefined.\<close>

definition size_unit :: "bytes \<Rightarrow> int" where
  "size_unit e = (case e of [] \<Rightarrow> 1 | c # _ \<Rightarrow> if c = CHR ''k'' \<or> c = CHR ''K'' then 1024 else if c = CHR ''m'' \<or> c = CHR ''M'' then 1024 * 1024 else 1)"

definition cfg_size :: "'x setter" where
  "cfg_size argv data st =
     (case (data, first_arg argv) of
        (Some x, Some a) \<Rightarrow>
          (let (v, n) = strtol 10 a; w = v * size_unit (drop n a) in
           if (v = 0 \<and> strtol_erange 10 a) \<or> v < 0 then Ret (st, False)
           else if 2 ^ 63 \<le> w then Undef
           else Ret (if 0 < w then set_var x (V_long w) st else st, True))
      | _ \<Rightarrow> Ret (st, False))"

definition ci_cfg_size_off :: "'x setter" where "ci_cfg_size_off = cfg_size"
definition ci_cfg_size_long :: "'x setter" where "ci_cfg_size_long = cfg_size"

fun run_setter :: "cfg_setter \<Rightarrow> 'x setter" where
  "run_setter S_int = ci_cfg_set_int"
| "run_setter S_str = ci_cfg_set_str"
| "run_setter S_onoff = ci_cfg_onoff"
| "run_setter S_enable = ci_cfg_enable"
| "run_setter S_disable = ci_cfg_disable"
| "run_setter S_size_off = ci_cfg_size_off"
| "run_setter S_size_long = ci_cfg_size_long"

text \<open>\<^verbatim>\<open>intl_cfg_set_int\<close> and its companions: save the default of the variable, then set it.\<close>

definition intl_cfg :: "cfg_setter \<Rightarrow> 'x setter" where
  "intl_cfg s argv data st =
     (case data of None \<Rightarrow> Ret (st, False) | Some x \<Rightarrow> run_setter s argv data (cfg_default_value_store x st))"

definition cfg_set_debug_level :: "'x setter" where
  "cfg_set_debug_level argv data st =
     (if cs_debug_cmd st then Ret (st, True) else intl_cfg S_int argv (Some ''CI_DEBUG_LEVEL'') st)"

definition cfg_set_debug_level_cmd :: "'x setter" where
  "cfg_set_debug_level_cmd argv data st = intl_cfg S_int argv (Some ''CI_DEBUG_LEVEL'') (st\<lparr>cs_debug_cmd := True\<rparr>)"

definition cfg_set_debug_stdout :: "'x setter" where
  "cfg_set_debug_stdout argv data st = intl_cfg S_enable argv (Some ''CI_DEBUG_STDOUT'') st"

definition cfg_set_body_maxmem :: "'x setter" where
  "cfg_set_body_maxmem argv data st = intl_cfg S_size_long argv (Some ''CI_BODY_MAX_MEM'') st"

text \<open>
  \<^verbatim>\<open>cfg_set_tmp_dir\<close>: the test for a final slash looks at the terminating zero, so a slash is always added.  The
  variable of the library gets the same string, and no default is kept for it.
\<close>

definition cfg_set_tmp_dir :: "'x setter" where
  "cfg_set_tmp_dir argv data st =
     (case first_arg argv of
        None \<Rightarrow> Ret (st, False)
      | Some a \<Rightarrow> Ret (set_var ''CI_TMPDIR'' (V_str (Some (a @ ''/''))) (set_var ''TMPDIR'' (V_str (Some (a @ ''/''))) (cfg_default_value_store ''TMPDIR'' st)), True))"

text \<open>
  \<^verbatim>\<open>cfg_set_port\<close>: the entry is added first, all zero, and stays when its text cannot be read.  The text is a port, behind an
  address with a colon, in brackets where it has colons itself.  \<open>room n\<close> says whether the vector takes one more
  than \<open>n\<close> entries.  No default is kept; \<^verbatim>\<open>system_reconfigure\<close> takes the old list away itself.
\<close>

definition split_port :: "bytes \<Rightarrow> (bytes option \<times> bytes) option" where
  "split_port a =
     (if CHR '':'' \<in> set a then
        let s = rev (takeWhile (\<lambda>c. c \<noteq> CHR '':'') (rev a)); addr = take (length a - length s - 1) a in
        if addr \<noteq> [] \<and> hd addr = CHR ''['' then
          (if last addr \<noteq> CHR '']'' then None else Some (Some (butlast (tl addr)), s))
        else Some (Some addr, s)
      else Some (None, a))"

definition cfg_set_port :: "(nat \<Rightarrow> bool) \<Rightarrow> 'x setter" where
  "cfg_set_port room argv data st =
     (case (argv, data) of
        (Some (a # options), Some x) \<Rightarrow>
          let ports = (case cs_vars st x of V_ports (Some ps) \<Rightarrow> ps | _ \<Rightarrow> []);
              put = (\<lambda>ps. set_var x (V_ports (Some ps)) st)
          in if \<not> room (length ports) then Ret (put ports, False)
             else (case split_port a of
                     None \<Rightarrow> Ret (put (ports @ [\<lparr>cp_address = None, cp_port = 0\<rparr>]), False)
                   | Some (addr, s) \<Rightarrow>
                       let port = int32 (fst (strtol 10 s)); st1 = put (ports @ [\<lparr>cp_address = addr, cp_port = port\<rparr>]) in
                       if port \<le> 0 then Ret (st1, False)
                       else Ret (st1, options = []))
      | (Some (a # options), None) \<Rightarrow> Undef
      | _ \<Rightarrow> Ret (st, False))"

text \<open>\<^verbatim>\<open>cfg_set_logger\<close>: the logger is one of those registered, given by their names.  No default is kept.\<close>

definition cfg_set_logger :: "bytes list \<Rightarrow> 'x setter" where
  "cfg_set_logger loggers argv data st =
     (case first_arg argv of
        None \<Rightarrow> Ret (st, False)
      | Some a \<Rightarrow> if a \<in> set loggers then Ret (set_var ''default_logger'' (V_logger (Some a)) st, True) else Ret (st, False))"

section \<open>Tables of directives\<close>

abbreviation entry :: "bytes \<Rightarrow> bytes \<Rightarrow> cfg_setter \<Rightarrow> ci_conf_entry" where
  "entry n x s \<equiv> \<lparr>ce_name = n, ce_data = Some x, ce_action = Some (Intl s)\<rparr>"

abbreviation entry_of :: "bytes \<Rightarrow> cfg_action \<Rightarrow> ci_conf_entry" where
  "entry_of n a \<equiv> \<lparr>ce_name = n, ce_data = None, ce_action = Some a\<rparr>"

definition conf_variables :: "ci_conf_entry list" where
  "conf_variables =
     [entry ''PidFile'' ''PIDFILE'' S_str, entry ''CommandsSocket'' ''COMMANDS_SOCKET'' S_str, entry ''Timeout'' ''TIMEOUT'' S_int,
      \<lparr>ce_name = ''KeepAlive'', ce_data = None, ce_action = None\<rparr>,
      entry ''MaxKeepAliveRequests'' ''MAX_KEEPALIVE_REQUESTS'' S_int, entry ''KeepAliveTimeout'' ''KEEPALIVE_TIMEOUT'' S_int,
      entry ''StartServers'' ''START_SERVERS'' S_int, entry ''MaxServers'' ''MAX_SERVERS'' S_int,
      entry ''MinSpareThreads'' ''MIN_SPARE_THREADS'' S_int, entry ''MaxSpareThreads'' ''MAX_SPARE_THREADS'' S_int,
      entry ''ThreadsPerChild'' ''THREADS_PER_CHILD'' S_int, entry ''MaxRequestsPerChild'' ''MAX_REQUESTS_PER_CHILD'' S_int,
      entry ''MaxRequestsReallocateMem'' ''MAX_REQUESTS_BEFORE_REALLOCATE_MEM'' S_int,
      \<lparr>ce_name = ''Port'', ce_data = Some ''PORTS'', ce_action = Some Set_port\<rparr>,
      entry ''User'' ''RUN_USER'' S_str, entry ''Group'' ''RUN_GROUP'' S_str, entry ''ServerAdmin'' ''SERVER_ADMIN'' S_str,
      entry ''ServerName'' ''SERVER_NAME'' S_str, entry_of ''LoadMagicFile'' Ext,
      \<lparr>ce_name = ''Logger'', ce_data = Some ''default_logger'', ce_action = Some Set_logger\<rparr>,
      entry ''ServerLog'' ''SERVER_LOG_FILE'' S_str, entry_of ''AccessLog'' Ext, entry_of ''LogFormat'' Ext,
      entry_of ''DebugLevel'' Debug_level, entry ''ServicesDir'' ''SERVICES_DIR'' S_str, entry ''ModulesDir'' ''MODULES_DIR'' S_str,
      entry_of ''Service'' Ext, entry_of ''ServiceAlias'' Ext, entry_of ''Module'' Ext, entry_of ''TmpDir'' Tmp_dir,
      entry_of ''MaxMemObject'' Body_maxmem, entry_of ''AclControllers'' Ext, entry_of ''acl'' Acl_add,
      entry_of ''icap_access'' Acl_access, entry_of ''client_access'' Acl_access, entry_of ''AuthMethod'' Ext,
      entry_of ''Include'' Include_file, entry ''RemoteProxyUserHeader'' ''REMOTE_PROXY_USER_HEADER'' S_str,
      entry ''RemoteProxyUserHeaderEncoded'' ''REMOTE_PROXY_USER_HEADER_ENCODED'' S_onoff,
      entry ''RemoteProxyUsers'' ''ALLOW_REMOTE_PROXY_USERS'' S_onoff, entry ''TemplateDir'' ''TEMPLATE_DIR'' S_str,
      entry ''TemplateDefaultLanguage'' ''TEMPLATE_DEF_LANG'' S_str, entry ''TemplateReloadTime'' ''TEMPLATE_RELOAD_TIME'' S_int,
      entry ''TemplateCacheSize'' ''TEMPLATE_CACHE_SIZE'' S_int, entry ''TemplateMemBufSize'' ''TEMPLATE_MEMBUF_SIZE'' S_int,
      entry_of ''GroupSourceByGroup'' Ext, entry_of ''GroupSourceByUser'' Ext, entry_of ''InterProcessSharedMemScheme'' Ext,
      entry_of ''InterProcessLockingScheme'' Ext, entry ''DefaultService'' ''DEFAULT_SERVICE'' S_str,
      entry ''Pipelining'' ''PIPELINING'' S_onoff, entry ''SupportBuggyClients'' ''CHECK_FOR_BUGGY_CLIENT'' S_onoff,
      entry ''Allow204As200okZeroEncaps'' ''ALLOW204_AS_200OK_ZERO_ENCAPS'' S_enable, entry ''FakeAllow204'' ''FAKE_ALLOW204'' S_onoff]"

definition search_conf_table :: "ci_conf_entry list \<Rightarrow> bytes \<Rightarrow> ci_conf_entry option" where
  "search_conf_table table varname = find (\<lambda>e. ce_name e = varname) table"

definition STEPSIZE :: nat where "STEPSIZE = 10"

definition init_conf_tables :: "bool \<Rightarrow> conf_tables" where
  "init_conf_tables ok = (if ok then \<lparr>xt_alloc = True, xt_size = STEPSIZE, xt_items = []\<rparr> else \<lparr>xt_alloc = False, xt_size = 0, xt_items = []\<rparr>)"

definition reset_conf_tables :: "conf_tables \<Rightarrow> conf_tables" where
  "reset_conf_tables T = T\<lparr>xt_items := []\<rparr>"

text \<open>The loop of \<^verbatim>\<open>register_conf_table\<close> stops at the first free slot; a table of that name behind it is not seen.\<close>

definition free_slot :: "bytes \<Rightarrow> sub_table list \<Rightarrow> nat option" where
  "free_slot name items = index_of (\<lambda>t. sb_name t = None \<or> sb_name t = Some name) items"

definition register_conf_table :: "bool \<Rightarrow> conf_tables \<Rightarrow> bytes \<Rightarrow> ci_conf_entry list \<Rightarrow> int \<Rightarrow> conf_tables \<times> bool" where
  "register_conf_table ok T name table ty =
     (if \<not> xt_alloc T then (T, False)
      else let new = \<lparr>sb_name = Some name, sb_type = ty, sb_table = table\<rparr> in
        case free_slot name (xt_items T) of
          Some i \<Rightarrow> if sb_name (xt_items T ! i) = Some name then (T, False) else (T\<lparr>xt_items := (xt_items T)[i := new]\<rparr>, True)
        | None \<Rightarrow>
            if length (xt_items T) = xt_size T \<and> \<not> ok then (T, False)
            else (T\<lparr>xt_items := xt_items T @ [new], xt_size := (if length (xt_items T) = xt_size T then xt_size T + STEPSIZE else xt_size T)\<rparr>, True))"

definition table_index :: "bytes \<Rightarrow> conf_tables \<Rightarrow> nat option" where
  "table_index name T = index_of (\<lambda>t. sb_name t = Some name) (xt_items T)"

definition unregister_conf_table :: "conf_tables \<Rightarrow> bytes \<Rightarrow> conf_tables \<times> ci_conf_entry list option" where
  "unregister_conf_table T name =
     (if \<not> xt_alloc T then (T, None)
      else case table_index name T of
             None \<Rightarrow> (T, None)
           | Some i \<Rightarrow> (T\<lparr>xt_items := (xt_items T)[i := \<lparr>sb_name = None, sb_type = 0, sb_table = []\<rparr>]\<rparr>, Some (sb_table (xt_items T ! i))))"

definition search_variables :: "conf_tables \<Rightarrow> bytes option \<Rightarrow> bytes \<Rightarrow> ci_conf_entry option" where
  "search_variables T table varname =
     (case table of
        None \<Rightarrow> search_conf_table conf_variables varname
      | Some n \<Rightarrow>
          if \<not> xt_alloc T then None
          else (case table_index n T of None \<Rightarrow> None | Some i \<Rightarrow> search_conf_table (sb_table (xt_items T ! i)) varname))"

section \<open>Lines and arguments\<close>

definition LINESIZE :: nat where "LINESIZE = 8192"
definition MAX_ARGS :: nat where "MAX_ARGS = 50"
definition MAX_INCLUDE_LEVEL :: nat where "MAX_INCLUDE_LEVEL = 5"
definition CI_MAX_PATH :: nat where "CI_MAX_PATH = 4096"

text \<open>An open file: what has not been read, whether the end was met, and whether reading fails.\<close>

record cfile =
  cf_rest :: bytes
  cf_eof :: bool
  cf_bad :: bool

text \<open>\<^verbatim>\<open>fgets\<close>: at most \<open>n - 1\<close> bytes, up to the end of the line; the end of the file is met only when more was wanted.\<close>

definition fgets :: "nat \<Rightarrow> cfile \<Rightarrow> bytes option \<times> cfile" where
  "fgets n f =
     (if cf_bad f then (None, f)
      else let w = take (n - 1) (cf_rest f); a = takeWhile (\<lambda>c. c \<noteq> LF) w;
               line = (if length a < length w then a @ [LF] else a);
               f1 = f\<lparr>cf_rest := drop (length line) (cf_rest f), cf_eof := (length a = length w \<and> length w < n - 1)\<rparr>
           in (if line = [] then None else Some line, f1))"

text \<open>The rest of a line that is too long is skipped.\<close>

definition skip_line :: "cfile \<Rightarrow> cfile \<times> bool" where
  "skip_line f =
     (let r = dropWhile (\<lambda>c. c \<noteq> LF) (cf_rest f) in
      if r = [] then (f\<lparr>cf_rest := [], cf_eof := True\<rparr>, False) else (f\<lparr>cf_rest := tl r\<rparr>, True))"

text \<open>
  \<^verbatim>\<open>fread_line\<close>: the result (which is not zero at the end of the file), the line as a C string, and the file.  The
  byte at \<^verbatim>\<open>LINESIZE - 2\<close> is the terminating zero when the line has that length.
\<close>

definition fread_line :: "cfile \<Rightarrow> int \<times> bytes \<times> cfile" where
  "fread_line f =
     (case fgets LINESIZE f of
        (None, f1) \<Rightarrow> if cf_eof f1 then (-1, [], f1) else (0, [], f1)
      | (Some line, f1) \<Rightarrow>
          if LINESIZE - 2 \<le> length (cstr line) \<and> (line @ [NUL]) ! (LINESIZE - 2) \<noteq> LF
          then (if cf_eof f1 then (0, cstr line, f1)
                else case skip_line f1 of (f2, ok) \<Rightarrow> (if ok then 1 else 0, cstr line, f2))
          else (1, cstr line, f1))"

text \<open>\<^verbatim>\<open>split_args\<close>: an argument in quotes, in which a quote may be escaped, or a word, in which braces protect spaces.\<close>

fun quoted_arg :: "bytes \<Rightarrow> bytes \<times> bytes" where
  "quoted_arg [] = ([], [])"
| "quoted_arg (c # s) =
     (if c = CHR 0x22 then ([], c # s)
      else if c = CHR 0x5C \<and> s \<noteq> [] \<and> hd s = CHR 0x22 then (case quoted_arg (tl s) of (a, r) \<Rightarrow> (CHR 0x22 # a, r))
      else (case quoted_arg s of (a, r) \<Rightarrow> (c # a, r)))"

fun bare_arg :: "bool \<Rightarrow> bytes \<Rightarrow> bytes \<times> bytes" where
  "bare_arg brkt [] = ([], [])"
| "bare_arg brkt (c # s) =
     (if isspace_c c \<and> \<not> brkt then ([], c # s)
      else case bare_arg (if c = CHR ''{'' then True else if brkt \<and> c = CHR ''}'' then False else brkt) s of (a, r) \<Rightarrow> (c # a, r))"

definition next_arg :: "bytes \<Rightarrow> bytes \<times> bytes" where
  "next_arg s = (if s \<noteq> [] \<and> hd s = CHR 0x22 then quoted_arg (tl s) else bare_arg False s)"

definition skip_sep :: "bytes \<Rightarrow> bytes" where
  "skip_sep r = dropWhile isspace_c (if r \<noteq> [] \<and> hd r = CHR 0x22 then tl r else r)"

fun split_loop :: "nat \<Rightarrow> bytes \<Rightarrow> bytes list" where
  "split_loop 0 s = []"
| "split_loop (Suc n) s =
     (case next_arg s of (a, r) \<Rightarrow> if n = 0 \<or> skip_sep r = [] then [a] else a # split_loop n (skip_sep r))"

text \<open>The number of arguments that still fit bounds the loop; the rest of the line is dropped.\<close>

definition split_args :: "bytes \<Rightarrow> bytes list" where
  "split_args args = split_loop MAX_ARGS args"

text \<open>
  \<^verbatim>\<open>find_action\<close>: the entry for the first word and the text behind it.  Behind a word that ends the line the code looks
  at the next byte: one of the zeros that fill the buffer, unless the line fills it.
\<close>

definition find_action :: "conf_tables \<Rightarrow> bytes \<Rightarrow> nat \<Rightarrow> (ci_conf_entry option \<times> bytes) c_result" where
  "find_action T str room =
     (let word = takeWhile (\<lambda>c. \<not> isspace_c c) str; after = drop (length word) str;
          ent = (if CHR ''.'' \<in> set word
                 then search_variables T (Some (takeWhile (\<lambda>c. c \<noteq> CHR ''.'') word)) (tl (dropWhile (\<lambda>c. c \<noteq> CHR ''.'') word))
                 else search_variables T None word)
      in if after = [] then (if room \<le> 1 then Undef else Ret (ent, [])) else Ret (ent, dropWhile isspace_c (tl after)))"

section \<open>Reading files\<close>

datatype cfg_file = File bytes | Unreadable

record 'x cfg_env =
  cv_fs :: "bytes \<Rightarrow> cfg_file option"
  cv_confdir :: bytes
  cv_port_room :: "nat \<Rightarrow> bool"
  cv_loggers :: "'x \<Rightarrow> bytes list"
  cv_ext :: "bytes \<Rightarrow> bytes list \<Rightarrow> 'x \<Rightarrow> conf_tables \<Rightarrow> 'x \<times> conf_tables \<times> bool"

type_synonym 'x cfg_reader = "bytes \<Rightarrow> 'x cfg_state \<Rightarrow> ('x cfg_state \<times> bool) c_result option"

definition with_acl :: "'x cfg_state \<Rightarrow> (acl_lib \<times> bool) c_result \<Rightarrow> ('x cfg_state \<times> bool) c_result" where
  "with_acl st r = c_bind r (\<lambda>(L, ok). Ret (st\<lparr>cs_acl := L\<rparr>, ok))"

text \<open>\<^verbatim>\<open>cfg_include_config_file\<close>; \<open>reader\<close> reads a file.\<close>

definition cfg_include_config_file :: "'x cfg_env \<Rightarrow> 'x cfg_reader \<Rightarrow> bytes list \<Rightarrow> 'x cfg_state \<Rightarrow> ('x cfg_state \<times> bool) c_result option" where
  "cfg_include_config_file E reader argv st =
     (case argv of
        [] \<Rightarrow> Some (Ret (st, False))
      | a # _ \<Rightarrow> reader (if a \<noteq> [] \<and> hd a = CHR ''/'' then a else take (CI_MAX_PATH - 1) (cv_confdir E @ ''/'' @ a)) st)"

text \<open>
  The call of the action of an entry.  The directives left to \<open>cv_ext\<close> (loading of services, modules and magic files,
  log formats and files, controllers, authenticators, groups and schemes of shared memory and locks) write
  no variable of the table.
\<close>

fun run_action :: "'x cfg_env \<Rightarrow> 'x cfg_reader \<Rightarrow> ci_conf_entry \<Rightarrow> cfg_action \<Rightarrow> bytes list \<Rightarrow> 'x cfg_state \<Rightarrow> ('x cfg_state \<times> bool) c_result option" where
  "run_action E reader e (Plain s) argv st = Some (run_setter s (Some argv) (ce_data e) st)"
| "run_action E reader e (Intl s) argv st = Some (intl_cfg s (Some argv) (ce_data e) st)"
| "run_action E reader e Tmp_dir argv st = Some (cfg_set_tmp_dir (Some argv) (ce_data e) st)"
| "run_action E reader e Set_port argv st = Some (cfg_set_port (cv_port_room E) (Some argv) (ce_data e) st)"
| "run_action E reader e Set_logger argv st = Some (cfg_set_logger (cv_loggers E (cs_other st)) (Some argv) (ce_data e) st)"
| "run_action E reader e Debug_level argv st = Some (cfg_set_debug_level (Some argv) (ce_data e) st)"
| "run_action E reader e Body_maxmem argv st = Some (cfg_set_body_maxmem (Some argv) (ce_data e) st)"
| "run_action E reader e Acl_add argv st = Some (with_acl st (cfg_acl_add (\<lambda>_ _. True) (cs_acl st) argv))"
| "run_action E reader e Acl_access argv st = Some (with_acl st (cfg_default_acl_access (\<lambda>_. True) (cs_acl st) (ce_name e) argv))"
| "run_action E reader e Include_file argv st = cfg_include_config_file E reader argv st"
| "run_action E reader e Ext argv st =
     (case cv_ext E (ce_name e) argv (cs_other st) (cs_tables st) of
        (x, T, ok) \<Rightarrow> Some (Ret (st\<lparr>cs_other := x, cs_tables := T\<rparr>, ok)))"

definition process_line :: "'x cfg_env \<Rightarrow> 'x cfg_reader \<Rightarrow> 'x cfg_reader" where
  "process_line E reader orig st =
     (let line = take (LINESIZE - 1) orig; str = dropWhile isspace_c line in
      if str = [] \<or> hd str = CHR ''#'' then Some (Ret (st, True))
      else case find_action (cs_tables st) str (LINESIZE - length line) of
             Ret (Some e, args) \<Rightarrow>
               (case ce_action e of None \<Rightarrow> Some (Ret (st, False)) | Some a \<Rightarrow> run_action E reader e a (split_args args) st)
           | Ret (None, args) \<Rightarrow> Some (Ret (st, False))
           | Abort \<Rightarrow> Some Abort
           | Undef \<Rightarrow> Some Undef)"

text \<open>The loop of \<^verbatim>\<open>parse_file\<close>.  A line that fails is reported, and reading goes on.\<close>

partial_function (option) parse_loop :: "'x cfg_env \<Rightarrow> 'x cfg_reader \<Rightarrow> cfile \<Rightarrow> 'x cfg_state \<Rightarrow> bool \<Rightarrow> ('x cfg_state \<times> bool) c_result option" where
  [code]: "parse_loop E reader f st ret =
     (if cf_eof f then Some (Ret (st, ret))
      else case fread_line f of
        (r, line, f1) \<Rightarrow>
          if r = 0 then parse_loop E reader f1 st False
          else case process_line E reader line st of
            None \<Rightarrow> None
          | Some Abort \<Rightarrow> Some Abort
          | Some Undef \<Rightarrow> Some Undef
          | Some (Ret (st1, ok)) \<Rightarrow> parse_loop E reader f1 st1 (ret \<and> ok))"

definition open_file :: "cfg_file \<Rightarrow> cfile" where
  "open_file cf = (case cf of File b \<Rightarrow> \<lparr>cf_rest = b, cf_eof = False, cf_bad = False\<rparr> | Unreadable \<Rightarrow> \<lparr>cf_rest = [], cf_eof = False, cf_bad = True\<rparr>)"

text \<open>\<^verbatim>\<open>parse_file\<close>; the number counts the levels of inclusion that are left, \<^verbatim>\<open>MAX_INCLUDE_LEVEL - PARSE_LEVEL\<close>.\<close>

fun parse_file_at :: "'x cfg_env \<Rightarrow> nat \<Rightarrow> 'x cfg_reader" where
  "parse_file_at E 0 path st = Some (Ret (st, False))"
| "parse_file_at E (Suc n) path st =
     (case cv_fs E path of
        None \<Rightarrow> Some (Ret (st, False))
      | Some cf \<Rightarrow> parse_loop E (parse_file_at E n) (open_file cf) st True)"

definition parse_file :: "'x cfg_env \<Rightarrow> 'x cfg_reader" where
  "parse_file E = parse_file_at E MAX_INCLUDE_LEVEL"

end
