(* ===== verification/Config_Read.thy ===== *)
theory Config_Read
  imports Config Acl_Policy
begin

text \<open>
  The theorems about reading the configuration: termination, files as sequences of lines, arguments, defaults
  and tables, and the way from the text of a file to the access policy.
\<close>

section \<open>Reading ends\<close>

lemma fgets_progress:
  assumes "\<not> cf_bad f" "1 < n" "fgets n f = (r, f1)"
  shows "\<not> cf_bad f1 \<and> (cf_eof f1 \<or> length (cf_rest f1) < length (cf_rest f))"
proof -
  define w where "w = take (n - 1) (cf_rest f)"
  define a where "a = takeWhile (\<lambda>c. c \<noteq> LF) w"
  define line where "line = (if length a < length w then a @ [LF] else a)"
  have f1: "f1 = f\<lparr>cf_rest := drop (length line) (cf_rest f), cf_eof := (length a = length w \<and> length w < n - 1)\<rparr>"
    using assms(1,3) unfolding fgets_def Let_def w_def [symmetric] a_def [symmetric] line_def [symmetric] by simp
  have "length (cf_rest f1) < length (cf_rest f)" if "\<not> cf_eof f1"
  proof -
    have "line \<noteq> []" using that assms(2) f1 by (auto simp: line_def)
    moreover have "cf_rest f \<noteq> []" using that assms(2) f1 by (auto simp: w_def a_def)
    ultimately show ?thesis using f1 by (cases line; cases "cf_rest f") auto
  qed
  then show ?thesis using f1 assms(1) by auto
qed

lemma skip_line_progress:
  assumes "\<not> cf_bad f" "skip_line f = (f1, r)"
  shows "\<not> cf_bad f1 \<and> length (cf_rest f1) \<le> length (cf_rest f) \<and> (cf_eof f \<longrightarrow> cf_eof f1)"
proof -
  define d where "d = dropWhile (\<lambda>c. c \<noteq> LF) (cf_rest f)"
  have "length d \<le> length (cf_rest f)" by (simp add: d_def length_dropWhile_le)
  moreover have "(if d = [] then (f\<lparr>cf_rest := [], cf_eof := True\<rparr>, False) else (f\<lparr>cf_rest := tl d\<rparr>, True)) = (f1, r)"
    using assms(2) unfolding skip_line_def Let_def d_def [symmetric] .
  ultimately show ?thesis using assms(1) by (cases d) auto
qed

lemma fread_line_progress:
  assumes "\<not> cf_bad f" "fread_line f = (r, line, f1)"
  shows "\<not> cf_bad f1 \<and> (cf_eof f1 \<or> length (cf_rest f1) < length (cf_rest f))"
proof -
  obtain g f0 where g: "fgets LINESIZE f = (g, f0)" by (cases "fgets LINESIZE f")
  then have f0: "\<not> cf_bad f0" "cf_eof f0 \<or> length (cf_rest f0) < length (cf_rest f)"
    using fgets_progress [OF assms(1), of LINESIZE] by (auto simp: LINESIZE_def)
  obtain f2 ok where s: "skip_line f0 = (f2, ok)" by (cases "skip_line f0")
  show ?thesis using assms(2) f0 skip_line_progress [OF f0(1) s]
    by (cases g) (auto simp: fread_line_def g s split: if_splits)
qed

lemma run_action_returns:
  assumes "\<forall>p s. reader p s \<noteq> None"
  shows "run_action E reader e a argv st \<noteq> None"
  using assms by (cases a) (auto simp: cfg_include_config_file_def split: list.split prod.split)

lemma process_line_returns:
  assumes "\<forall>p s. reader p s \<noteq> None"
  shows "process_line E reader line st \<noteq> None"
  using run_action_returns [OF assms]
  by (auto simp: process_line_def Let_def simp del: run_action.simps split: c_result.split option.split prod.split)

lemma parse_loop_returns:
  assumes "\<forall>p s. reader p s \<noteq> None" "\<not> cf_bad f"
  shows "parse_loop E reader f st ret \<noteq> None"
  using assms(2)
proof (induction "if cf_eof f then 0 else Suc (length (cf_rest f))" arbitrary: f st ret rule: less_induct)
  case less
  show ?case
  proof (cases "cf_eof f")
    case False
    obtain r line f1 where fl: "fread_line f = (r, line, f1)" by (cases "fread_line f")
    have f1: "\<not> cf_bad f1" "cf_eof f1 \<or> length (cf_rest f1) < length (cf_rest f)"
      using fread_line_progress [OF less.prems fl] by auto
    have "parse_loop E reader f1 st' ret' \<noteq> None" for st' ret'
      using less.hyps [OF _ f1(1)] f1(2) False by auto
    then show ?thesis using False fl process_line_returns [OF assms(1), of E line st]
      by (subst parse_loop.simps) (auto split: option.split c_result.split prod.split)
  qed (simp add: parse_loop.simps)
qed

lemma parse_file_at_returns:
  assumes "\<forall>p. cv_fs E p \<noteq> Some Unreadable"
  shows "parse_file_at E n path st \<noteq> None"
proof (induction n arbitrary: path st)
  case (Suc n)
  show ?case
  proof (cases "cv_fs E path")
    case (Some cf)
    then have "\<not> cf_bad (open_file cf)" using assms by (cases cf) (auto simp: open_file_def)
    then show ?thesis using parse_loop_returns [of "parse_file_at E n"] Suc Some by simp
  qed simp
qed simp

text \<open>A file that opens but cannot be read is read for ever.\<close>

lemma parse_loop_unreadable:
  assumes "cf_bad f" "\<not> cf_eof f"
  shows "parse_loop E reader f st ret = None"
proof (rule ccontr)
  assume "parse_loop E reader f st ret \<noteq> None"
  then obtain y where y: "parse_loop E reader f st ret = Some y" by auto
  have "\<not> (cf_bad f \<and> \<not> cf_eof f)"
  proof (rule parse_loop.raw_induct [OF _ y])
    fix loop :: "'a cfg_env \<Rightarrow> 'a cfg_reader \<Rightarrow> cfile \<Rightarrow> 'a cfg_state \<Rightarrow> bool \<Rightarrow> ('a cfg_state \<times> bool) c_result option"
      and E reader f st ret y
    assume IH: "\<And>E reader f st ret y. loop E reader f st ret = Some y \<Longrightarrow> \<not> (cf_bad f \<and> \<not> cf_eof f)"
      and body: "(if cf_eof f then Some (Ret (st, ret))
        else case fread_line f of (r, line, f1) \<Rightarrow>
          if r = 0 then loop E reader f1 st False
          else case process_line E reader line st of
            None \<Rightarrow> None
          | Some Abort \<Rightarrow> Some Abort
          | Some Undef \<Rightarrow> Some Undef
          | Some (Ret (st1, ok)) \<Rightarrow> loop E reader f1 st1 (ret \<and> ok)) = Some y"
    show "\<not> (cf_bad f \<and> \<not> cf_eof f)"
    proof
      assume b: "cf_bad f \<and> \<not> cf_eof f"
      then have "fread_line f = (0, [], f)" by (simp add: fread_line_def fgets_def)
      then show False using body b IH by auto
    qed
  qed
  with assms show False by simp
qed

section \<open>Files of lines\<close>

text \<open>A text file with the lines \<open>ls\<close>, and the lines processed one after the other.\<close>

definition text_file :: "bytes list \<Rightarrow> bytes" where
  "text_file ls = concat (map (\<lambda>l. l @ [LF]) ls)"

definition plain_line :: "bytes \<Rightarrow> bool" where
  "plain_line l \<longleftrightarrow> LF \<notin> set l \<and> NUL \<notin> set l \<and> length l + 1 < LINESIZE - 2"

fun process_lines :: "'x cfg_env \<Rightarrow> 'x cfg_reader \<Rightarrow> bytes list \<Rightarrow> 'x cfg_state \<Rightarrow> bool \<Rightarrow> ('x cfg_state \<times> bool) c_result option" where
  "process_lines E reader [] st ret = Some (Ret (st, ret))"
| "process_lines E reader (l # ls) st ret =
     (case process_line E reader (l @ [LF]) st of
        Some (Ret (st1, ok)) \<Rightarrow> process_lines E reader ls st1 (ret \<and> ok)
      | Some Abort \<Rightarrow> Some Abort
      | Some Undef \<Rightarrow> Some Undef
      | None \<Rightarrow> None)"

lemma LF_NUL: "LF \<noteq> NUL"
  by simp

lemma fread_line_plain:
  assumes "\<not> cf_bad f" "cf_rest f = l @ LF # s" "plain_line l"
  shows "fread_line f = (1, l @ [LF], f\<lparr>cf_rest := s, cf_eof := False\<rparr>)"
proof -
  have l: "LF \<notin> set l" "NUL \<notin> set l" "length l + 1 < 8190" using assms(3) by (auto simp: plain_line_def LINESIZE_def)
  define n where "n = LINESIZE - 1 - Suc (length l)"
  have w: "take (LINESIZE - 1) (cf_rest f) = l @ LF # take n s"
    using l(3) by (simp add: assms(2) n_def LINESIZE_def Suc_diff_Suc take_Cons')
  have a: "takeWhile (\<lambda>c. c \<noteq> LF) (l @ LF # take n s) = l"
    using l(1) by (subst takeWhile_append2) auto
  have "fgets LINESIZE f = (Some (l @ [LF]), f\<lparr>cf_rest := s, cf_eof := False\<rparr>)"
    unfolding fgets_def Let_def w a using assms(1,2) by simp
  moreover have "cstr (l @ [LF]) = l @ [LF]"
    using l(2) LF_NUL by (auto simp: cstr_def intro!: takeWhile_eq_all_conv [THEN iffD2])
  ultimately show ?thesis using l(3) by (simp add: fread_line_def LINESIZE_def)
qed

lemma fread_line_end:
  assumes "\<not> cf_bad f" "cf_rest f = []"
  shows "fread_line f = (-1, [], f\<lparr>cf_eof := True\<rparr>)"
  using assms by (simp add: fread_line_def fgets_def Let_def LINESIZE_def)

lemma parse_loop_lines:
  assumes "\<forall>l \<in> set ls. plain_line l" "\<not> cf_bad f" "\<not> cf_eof f" "cf_rest f = text_file ls"
  shows "parse_loop E reader f st ret = process_lines E reader ls st ret"
  using assms
proof (induction ls arbitrary: f st ret)
  case Nil
  then show ?case
    by (subst parse_loop.simps) (simp add: text_file_def fread_line_end process_line_def parse_loop.simps)
next
  case (Cons l ls)
  have f: "fread_line f = (1, l @ [LF], f\<lparr>cf_rest := text_file ls, cf_eof := False\<rparr>)"
    using Cons.prems by (intro fread_line_plain) (auto simp: text_file_def)
  show ?case using Cons.IH [of "f\<lparr>cf_rest := text_file ls, cf_eof := False\<rparr>"] Cons.prems
    by (subst parse_loop.simps) (simp add: f split: option.split c_result.split prod.split)
qed

section \<open>Arguments\<close>

definition escape :: "bytes \<Rightarrow> bytes" where
  "escape a = concat (map (\<lambda>c. if c = CHR 0x22 then [CHR 0x5C, CHR 0x22] else [c]) a)"

definition quote_arg :: "bytes \<Rightarrow> bytes" where
  "quote_arg a = CHR 0x22 # escape a @ [CHR 0x22]"

fun args_text :: "bytes list \<Rightarrow> bytes" where
  "args_text [] = []"
| "args_text [a] = quote_arg a"
| "args_text (a # b # as) = quote_arg a @ CHR '' '' # args_text (b # as)"

definition quotable :: "bytes \<Rightarrow> bool" where
  "quotable a \<longleftrightarrow> (a = [] \<or> last a \<noteq> CHR 0x5C)"

lemma quoted_arg_escape: "quotable a \<Longrightarrow> quoted_arg (escape a @ CHR 0x22 # s) = (a, CHR 0x22 # s)"
proof (induction a)
  case (Cons c a)
  then have a: "quoted_arg (escape a @ CHR 0x22 # s) = (a, CHR 0x22 # s)" by (auto simp: quotable_def split: if_splits)
  have "hd (escape a @ CHR 0x22 # s) \<noteq> CHR 0x22" if "c = CHR 0x5C"
    using Cons.prems that by (cases a) (auto simp: quotable_def escape_def)
  then show ?case using a by (auto simp: escape_def)
qed (simp add: escape_def)

lemma split_loop_text:
  assumes "\<forall>a \<in> set args. quotable a" "args \<noteq> []" "length args \<le> n" "\<forall>c \<in> set ws. isspace_c c"
  shows "split_loop n (args_text args @ ws) = args"
  using assms
proof (induction args arbitrary: n rule: args_text.induct)
  case (2 a)
  then obtain m where "n = Suc m" by (cases n) auto
  then show ?case using 2 by (simp add: quote_arg_def next_arg_def quoted_arg_escape skip_sep_def dropWhile_eq_Nil_conv)
next
  case (3 a b as)
  then obtain m where m: "n = Suc m" "m \<noteq> 0" by (cases n) auto
  have sep: "skip_sep (CHR 0x22 # CHR '' '' # args_text (b # as) @ ws) = args_text (b # as) @ ws"
    by (cases as) (simp_all add: skip_sep_def quote_arg_def isspace_c_def)
  have "args_text (b # as) \<noteq> []" by (cases as) (simp_all add: quote_arg_def)
  moreover have "split_loop m (args_text (b # as) @ ws) = b # as" using 3 m by (intro "3.IH") auto
  moreover have "next_arg (args_text (a # b # as) @ ws) = (a, CHR 0x22 # CHR '' '' # args_text (b # as) @ ws)"
    using 3 by (simp add: quote_arg_def next_arg_def quoted_arg_escape)
  ultimately show ?case using m sep by (simp del: args_text.simps)
qed simp

section \<open>Directives\<close>

text \<open>A line with a directive and quoted arguments calls the action of the directive with these arguments.\<close>

definition directive_text :: "bytes \<Rightarrow> bytes list \<Rightarrow> bytes" where
  "directive_text name args = name @ CHR '' '' # args_text args"

definition directive_name :: "bytes \<Rightarrow> bool" where
  "directive_name name \<longleftrightarrow> name \<noteq> [] \<and> hd name \<noteq> CHR ''#'' \<and> CHR ''.'' \<notin> set name \<and> (\<forall>c \<in> set name. \<not> isspace_c c)"

lemma isspace_LF: "isspace_c LF"
  by (simp add: isspace_c_def)

lemma process_directive:
  assumes n: "directive_name name" and e: "search_conf_table conf_variables name = Some e" "ce_action e = Some a"
    and args: "args \<noteq> []" "length args \<le> MAX_ARGS" "\<forall>a \<in> set args. quotable a" and l: "plain_line (directive_text name args)"
  shows "process_line E reader (directive_text name args @ [LF]) st = run_action E reader e a args st"
proof -
  let ?rest = "CHR '' '' # args_text args @ [LF]"
  have line: "take (LINESIZE - 1) (directive_text name args @ [LF]) = name @ ?rest"
  proof -
    have "length (directive_text name args @ [LF]) \<le> LINESIZE - 1" using l by (simp add: plain_line_def LINESIZE_def)
    then show ?thesis by (subst take_all) (simp_all add: directive_text_def)
  qed
  have d: "dropWhile isspace_c (name @ ?rest) = name @ ?rest" "hd (name @ ?rest) \<noteq> CHR ''#''"
    using n by (cases name; auto simp: directive_name_def)+
  have w: "takeWhile (\<lambda>c. \<not> isspace_c c) (name @ ?rest) = name"
    using n by (subst takeWhile_append2) (auto simp: directive_name_def isspace_c_def)
  have "dropWhile isspace_c (args_text args @ [LF]) = args_text args @ [LF]"
    using args(1) by (cases args rule: args_text.cases) (auto simp: quote_arg_def isspace_c_def)
  then have "find_action (cs_tables st) (name @ ?rest) room = Ret (Some e, args_text args @ [LF])" for room
    unfolding find_action_def Let_def w using n e(1) by (simp add: directive_name_def search_variables_def)
  moreover have "split_args (args_text args @ [LF]) = args"
    unfolding split_args_def using args isspace_LF by (intro split_loop_text) auto
  ultimately show ?thesis unfolding process_line_def Let_def line d(1) using d(2) e(2) by simp
qed

text \<open>The directives of access lists as lines of the file.\<close>

fun directive_line :: "directive \<Rightarrow> bytes" where
  "directive_line (D_acl argv) = directive_text ''acl'' argv"
| "directive_line (D_access name argv) = directive_text name argv"

fun directive_args :: "directive \<Rightarrow> bytes list" where
  "directive_args (D_acl argv) = argv"
| "directive_args (D_access name argv) = argv"

definition writable :: "directive \<Rightarrow> bool" where
  "writable d \<longleftrightarrow> (case d of D_acl _ \<Rightarrow> True | D_access n _ \<Rightarrow> n = ''client_access'' \<or> n = ''icap_access'')
     \<and> directive_args d \<noteq> [] \<and> length (directive_args d) \<le> MAX_ARGS \<and> (\<forall>a \<in> set (directive_args d). quotable a) \<and> plain_line (directive_line d)"

lemma conf_variables_acl:
  "search_conf_table conf_variables ''acl'' = Some (entry_of ''acl'' Acl_add)"
  "search_conf_table conf_variables ''icap_access'' = Some (entry_of ''icap_access'' Acl_access)"
  "search_conf_table conf_variables ''client_access'' = Some (entry_of ''client_access'' Acl_access)"
  by (simp_all add: search_conf_table_def conf_variables_def)

lemma acl_names: "directive_name ''acl''" "directive_name ''icap_access''" "directive_name ''client_access''"
  by (simp_all add: directive_name_def isspace_c_def)

lemma process_acl_directive:
  assumes "writable d"
  shows "process_line E reader (directive_line d @ [LF]) st = Some (with_acl st
    (case d of D_acl argv \<Rightarrow> cfg_acl_add (\<lambda>_ _. True) (cs_acl st) argv | D_access n argv \<Rightarrow> cfg_default_acl_access (\<lambda>_. True) (cs_acl st) n argv))"
proof (cases d)
  case (D_acl argv)
  then show ?thesis using assms process_directive [OF acl_names(1) conf_variables_acl(1), of Acl_add argv E reader st]
    by (simp add: writable_def)
next
  case (D_access n argv)
  then have "n = ''client_access'' \<or> n = ''icap_access''" using assms by (simp add: writable_def)
  then show ?thesis
  proof
    assume "n = ''client_access''"
    then show ?thesis using D_access assms process_directive [OF acl_names(3) conf_variables_acl(3), of Acl_access argv E reader st]
      by (simp add: writable_def)
  next
    assume "n = ''icap_access''"
    then show ?thesis using D_access assms process_directive [OF acl_names(2) conf_variables_acl(2), of Acl_access argv E reader st]
      by (simp add: writable_def)
  qed
qed

lemma process_acl_lines:
  assumes "\<forall>d \<in> set ds. writable d"
  shows "process_lines E reader (map directive_line ds) st ret =
    Some (c_bind (acl_configure (\<lambda>_ _ _. True) (cs_acl st) ds) (\<lambda>(L, r). Ret (st\<lparr>cs_acl := L\<rparr>, ret \<and> r)))"
  using assms
proof (induction ds arbitrary: st ret)
  case (Cons d ds)
  let ?r = "case d of D_acl argv \<Rightarrow> cfg_acl_add (\<lambda>_ _. True) (cs_acl st) argv | D_access n argv \<Rightarrow> cfg_default_acl_access (\<lambda>_. True) (cs_acl st) n argv"
  have p: "process_line E reader (directive_line d @ [LF]) st = Some (with_acl st ?r)"
    using Cons.prems by (intro process_acl_directive) simp
  show ?case
  proof (cases ?r)
    case (Ret Lr)
    then obtain L r where r: "?r = Ret (L, r)" by (cases Lr) auto
    then show ?thesis using p Cons by (simp add: with_acl_def) (cases "acl_configure (\<lambda>_ _ _. True) L ds"; auto)
  qed (use p in \<open>simp_all add: with_acl_def\<close>)
qed simp

text \<open>Reading a file of such lines configures the access lists with them.\<close>

lemma parse_text_file:
  assumes "cv_fs E path = Some (File (text_file ls))" "\<forall>l \<in> set ls. plain_line l"
  shows "parse_file E path st = process_lines E (parse_file_at E 4) ls st True"
proof -
  have "parse_file E path st = parse_loop E (parse_file_at E 4) (open_file (File (text_file ls))) st True"
    by (simp add: parse_file_def MAX_INCLUDE_LEVEL_def numeral_eq_Suc assms(1))
  also have "\<dots> = process_lines E (parse_file_at E 4) ls st True"
    using assms(2) by (intro parse_loop_lines) (auto simp: open_file_def)
  finally show ?thesis .
qed

lemma parse_acl_file:
  assumes "cv_fs E path = Some (File (text_file (map directive_line ds)))" "\<forall>d \<in> set ds. writable d"
  shows "parse_file E path st = Some (with_acl st (acl_configure (\<lambda>_ _ _. True) (cs_acl st) ds))"
  using parse_text_file [OF assms(1)] assms(2) by (simp add: writable_def process_acl_lines with_acl_def)

section \<open>Defaults\<close>

text \<open>
  The variables of the server whose directives keep a default, and what holds of them while configuration is
  read: a default that was saved is the value before the configuration, and a variable without one has not
  changed.  The list of ports and the logger, whose directives keep no default, are not among them, and
  neither is \<^verbatim>\<open>CI_TMPDIR\<close>.  The entries of other tables point to variables of their own modules.
\<close>

definition server_vars :: "bytes set" where
  "server_vars = {x. \<exists>e \<in> set conf_variables. \<exists>s. ce_action e = Some (Intl s) \<and> ce_data e = Some x}
     \<union> {''CI_DEBUG_LEVEL'', ''CI_BODY_MAX_MEM'', ''TMPDIR''}"

lemma not_server_vars [simp]: "''PORTS'' \<notin> server_vars" "''default_logger'' \<notin> server_vars" "''CI_TMPDIR'' \<notin> server_vars"
  by (simp_all add: server_vars_def conf_variables_def)

definition private_tables :: "conf_tables \<Rightarrow> bool" where
  "private_tables T \<longleftrightarrow> (\<forall>t \<in> set (xt_items T). \<forall>e \<in> set (sb_table t). \<forall>x. ce_data e = Some x \<longrightarrow> x \<notin> server_vars)"

definition saved :: "(bytes \<Rightarrow> cfg_val) \<Rightarrow> 'x cfg_state \<Rightarrow> bool" where
  "saved V st \<longleftrightarrow> private_tables (cs_tables st)
     \<and> (\<forall>x \<in> server_vars. \<forall>v. (x, v) \<in> set (cs_defaults st) \<longrightarrow> v = V x)
     \<and> (\<forall>x \<in> server_vars. x \<notin> fst ` set (cs_defaults st) \<longrightarrow> cs_vars st x = V x)"

lemma saved_store: "saved V st \<Longrightarrow> saved V (cfg_default_value_store x st)"
  by (auto simp: saved_def cfg_default_value_store_def cfg_default_value_search_def map_of_eq_None_iff)

lemma store_has: "x \<in> fst ` set (cs_defaults (cfg_default_value_store x st))"
  by (auto simp: cfg_default_value_store_def cfg_default_value_search_def dest!: map_of_SomeD intro: rev_image_eqI)

lemma saved_set:
  assumes "saved V st" "x \<notin> server_vars \<or> x \<in> fst ` set (cs_defaults st)"
  shows "saved V (set_var x v st)"
  using assms by (auto simp: saved_def set_var_def)

lemma run_setter_set:
  assumes "run_setter s argv data st = Ret (st', ok)"
  shows "st' = st \<or> (\<exists>x v. data = Some x \<and> st' = set_var x v st)"
  using assms
  by (cases s) (auto simp: ci_cfg_set_int_def ci_cfg_set_str_def ci_cfg_onoff_def ci_cfg_enable_def ci_cfg_disable_def ci_cfg_size_off_def
      ci_cfg_size_long_def cfg_size_def Let_def split: option.split_asm if_split_asm prod.split_asm)

lemma intl_saves:
  assumes "saved V st" "intl_cfg s argv data st = Ret (st', ok)"
  shows "saved V st'"
proof (cases data)
  case (Some x)
  let ?st = "cfg_default_value_store x st"
  from assms(2) Some have "st' = ?st \<or> (\<exists>v. st' = set_var x v ?st)"
    using run_setter_set [of s argv "Some x" ?st st' ok] by (auto simp: intl_cfg_def)
  then show ?thesis using saved_store [OF assms(1), of x] saved_set store_has [of x st] by blast
qed (use assms in \<open>simp add: intl_cfg_def\<close>)

lemma tmp_dir_saves:
  assumes "saved V st" "cfg_set_tmp_dir argv data st = Ret (st', ok)"
  shows "saved V st'"
proof (cases "first_arg argv")
  case (Some a)
  then show ?thesis using assms store_has [of "''TMPDIR''" st]
    by (auto simp: cfg_set_tmp_dir_def intro!: saved_set saved_store)
qed (use assms in \<open>simp add: cfg_set_tmp_dir_def\<close>)

lemma port_logger_saves:
  assumes "saved V st"
  shows "\<lbrakk>cfg_set_port room argv data st = Ret (st', ok); \<forall>x. data = Some x \<longrightarrow> x \<notin> server_vars\<rbrakk> \<Longrightarrow> saved V st'"
    "cfg_set_logger loggers argv data st = Ret (st', ok) \<Longrightarrow> saved V st'"
  subgoal using assms by (auto simp: cfg_set_port_def Let_def intro: saved_set split: option.split_asm list.split_asm if_split_asm prod.split_asm)
  subgoal using assms by (auto simp: cfg_set_logger_def intro: saved_set split: option.split_asm if_split_asm)
  done

lemma saved_acl [simp]: "saved V (st\<lparr>cs_acl := L\<rparr>) = saved V st" "saved V (st\<lparr>cs_debug_cmd := b\<rparr>) = saved V st"
  by (simp_all add: saved_def)

definition private_ext :: "'x cfg_env \<Rightarrow> bool" where
  "private_ext E \<longleftrightarrow> (\<forall>n argv x T. private_tables T \<longrightarrow> private_tables (fst (snd (cv_ext E n argv x T))))"

lemma run_action_saves:
  assumes st: "saved V st" and r: "run_action E reader e a argv st = Some (Ret (st', ok))" and p: "private_ext E"
    and e: "(\<forall>s. a \<noteq> Plain s) \<and> a \<noteq> Set_port \<or> (\<forall>x. ce_data e = Some x \<longrightarrow> x \<notin> server_vars)"
    and reader: "\<And>p st st' ok. saved V st \<Longrightarrow> reader p st = Some (Ret (st', ok)) \<Longrightarrow> saved V st'"
  shows "saved V st'"
proof (cases a)
  case (Plain s)
  then show ?thesis using r e st run_setter_set [of s "Some argv" "ce_data e" st st' ok] saved_set by fastforce
next
  case Set_port
  then show ?thesis using r e port_logger_saves(1) [OF st] by auto
next
  case Debug_level
  then show ?thesis using r st intl_saves [OF st] by (auto simp: cfg_set_debug_level_def split: if_split_asm)
next
  case Include_file
  then show ?thesis using r st reader by (auto simp: cfg_include_config_file_def split: list.split_asm)
next
  case Ext
  obtain x T b where x: "cv_ext E (ce_name e) argv (cs_other st) (cs_tables st) = (x, T, b)" by (rule prod_cases3)
  have "private_tables (fst (snd (cv_ext E (ce_name e) argv (cs_other st) (cs_tables st))))"
    using p st unfolding private_ext_def saved_def by blast
  then show ?thesis using Ext r st x by (auto simp: saved_def)
qed (use r st intl_saves [OF st] tmp_dir_saves [OF st] port_logger_saves(2) [OF st] in \<open>auto simp: cfg_set_body_maxmem_def with_acl_def c_bind_eq_Ret\<close>)

lemma conf_variables_actions:
  "e \<in> set conf_variables \<Longrightarrow> ce_action e \<noteq> Some (Plain s)"
  "\<lbrakk>e \<in> set conf_variables; ce_action e = Some Set_port\<rbrakk> \<Longrightarrow> ce_data e = Some ''PORTS''"
  by (auto simp: conf_variables_def)

lemma search_variables_entry:
  assumes "search_variables T t n = Some e" "private_tables T"
  shows "e \<in> set conf_variables \<or> (\<forall>x. ce_data e = Some x \<longrightarrow> x \<notin> server_vars)"
proof (cases t)
  case (Some m)
  then obtain i where "table_index m T = Some i" "e \<in> set (sb_table (xt_items T ! i))"
    using assms(1) by (auto simp: search_variables_def search_conf_table_def find_Some_iff split: if_split_asm option.split_asm)
  then show ?thesis using assms(2) index_of_Some [of _ "xt_items T" i] unfolding private_tables_def table_index_def by (meson nth_mem)
qed (use assms in \<open>auto simp: search_variables_def search_conf_table_def find_Some_iff\<close>)

lemma find_action_entry:
  assumes "find_action T str room = Ret (Some e, args)"
  shows "\<exists>t n. search_variables T t n = Some e"
  using assms by (auto simp: find_action_def Let_def split: if_split_asm)

lemma process_line_saves:
  assumes st: "saved V st" and r: "process_line E reader line st = Some (Ret (st', ok))" and p: "private_ext E"
    and reader: "\<And>p st st' ok. saved V st \<Longrightarrow> reader p st = Some (Ret (st', ok)) \<Longrightarrow> saved V st'"
  shows "saved V st'"
proof -
  have "st' = st \<or> (\<exists>e a args t n. run_action E reader e a (split_args args) st = Some (Ret (st', ok)) \<and> ce_action e = Some a
      \<and> search_variables (cs_tables st) t n = Some e)"
    using r find_action_entry [of "cs_tables st"]
    by (auto simp: process_line_def Let_def simp del: run_action.simps split: if_split_asm c_result.split_asm option.split_asm prod.split_asm) blast
  then show ?thesis
  proof
    assume "\<exists>e a args t n. run_action E reader e a (split_args args) st = Some (Ret (st', ok)) \<and> ce_action e = Some a
      \<and> search_variables (cs_tables st) t n = Some e"
    then obtain e a args t n where e: "run_action E reader e a (split_args args) st = Some (Ret (st', ok))" "ce_action e = Some a"
      "search_variables (cs_tables st) t n = Some e" by blast
    have "(\<forall>s. a \<noteq> Plain s) \<and> a \<noteq> Set_port \<or> (\<forall>x. ce_data e = Some x \<longrightarrow> x \<notin> server_vars)"
      using search_variables_entry [OF e(3)] st conf_variables_actions [of e] e(2) by (auto simp: saved_def)
    then show ?thesis by (rule run_action_saves [OF st e(1) p]) (erule (1) reader)
  qed (use st in simp)
qed

lemma parse_loop_saves:
  assumes st: "saved V st" and r: "parse_loop E reader f st ret = Some y" and p: "private_ext E"
    and reader: "\<And>p st st' ok. saved V st \<Longrightarrow> reader p st = Some (Ret (st', ok)) \<Longrightarrow> saved V st'"
  shows "case y of Ret (st', _) \<Rightarrow> saved V st' | _ \<Rightarrow> True"
proof -
  define good :: "'a cfg_env \<Rightarrow> 'a cfg_reader \<Rightarrow> bool" where
    "good = (\<lambda>E reader. private_ext E \<and> (\<forall>p st st' ok. saved V st \<longrightarrow> reader p st = Some (Ret (st', ok)) \<longrightarrow> saved V st'))"
  have "good E reader \<longrightarrow> saved V st \<longrightarrow> (case y of Ret (st', _) \<Rightarrow> saved V st' | _ \<Rightarrow> True)"
  proof (rule parse_loop.raw_induct [OF _ r])
    fix loop :: "'a cfg_env \<Rightarrow> 'a cfg_reader \<Rightarrow> cfile \<Rightarrow> 'a cfg_state \<Rightarrow> bool \<Rightarrow> ('a cfg_state \<times> bool) c_result option"
      and E reader f st ret y
    assume IH: "\<And>E reader f st ret y. loop E reader f st ret = Some y \<Longrightarrow>
        good E reader \<longrightarrow> saved V st \<longrightarrow> (case y of Ret (st', _) \<Rightarrow> saved V st' | _ \<Rightarrow> True)"
      and body: "(if cf_eof f then Some (Ret (st, ret))
        else case fread_line f of (r, line, f1) \<Rightarrow>
          if r = 0 then loop E reader f1 st False
          else case process_line E reader line st of
            None \<Rightarrow> None
          | Some Abort \<Rightarrow> Some Abort
          | Some Undef \<Rightarrow> Some Undef
          | Some (Ret (st1, ok)) \<Rightarrow> loop E reader f1 st1 (ret \<and> ok)) = Some y"
    show "good E reader \<longrightarrow> saved V st \<longrightarrow> (case y of Ret (st', _) \<Rightarrow> saved V st' | _ \<Rightarrow> True)"
    proof (intro impI)
      assume g: "good E reader" and st: "saved V st"
      have pl: "saved V st1" if "process_line E reader line st = Some (Ret (st1, ok))" for line st1 ok
        using process_line_saves [OF st that] g unfolding good_def by blast
      show "case y of Ret (st', _) \<Rightarrow> saved V st' | _ \<Rightarrow> True"
        using body st g pl IH
        by (auto split: if_split_asm prod.split_asm option.split_asm c_result.split_asm)
    qed
  qed
  then show ?thesis using st p reader unfolding good_def by blast
qed

lemma parse_file_saves:
  assumes "private_ext E" "saved V st" "parse_file_at E n path st = Some (Ret (st', r))"
  shows "saved V st'"
  using assms(2,3)
proof (induction n arbitrary: path st st' r)
  case (Suc n)
  show ?case
  proof (cases "cv_fs E path")
    case (Some cf)
    then have "parse_loop E (parse_file_at E n) (open_file cf) st True = Some (Ret (st', r))" using Suc.prems(2) by simp
    from parse_loop_saves [OF Suc.prems(1) this assms(1) Suc.IH] show ?thesis by simp
  qed (use Suc.prems in simp)
qed simp

lemma restore_fold:
  "cs_vars (fold (\<lambda>(x, v). set_var x v) ds st) x = (case map_of (rev ds) x of Some v \<Rightarrow> v | None \<Rightarrow> cs_vars st x)"
  by (induction ds arbitrary: st) (auto simp: set_var_def map_add_def split: option.split)

lemma restore_saved:
  assumes "saved V st" "x \<in> server_vars"
  shows "cs_vars (cfg_default_value_restore_all st) x = V x"
proof (cases "map_of (rev (cs_defaults st)) x")
  case None
  then have "x \<notin> fst ` set (cs_defaults st)" by (simp add: map_of_eq_None_iff)
  then show ?thesis using assms None by (auto simp: cfg_default_value_restore_all_def restore_fold saved_def)
next
  case (Some v)
  then have "(x, v) \<in> set (cs_defaults st)" using map_of_SomeD by fastforce
  then show ?thesis using assms Some by (auto simp: cfg_default_value_restore_all_def restore_fold saved_def)
qed

section \<open>Registered tables\<close>

definition conf_table :: "conf_tables \<Rightarrow> bytes \<Rightarrow> ci_conf_entry list option" where
  "conf_table T n = map_option (\<lambda>i. sb_table (xt_items T ! i)) (table_index n T)"

lemma conf_table_lookup: "xt_alloc T \<Longrightarrow> search_variables T (Some n) v = Option.bind (conf_table T n) (\<lambda>t. search_conf_table t v)"
  by (simp add: search_variables_def conf_table_def split: option.split)

text \<open>A table that is not registered yet can be, and then its directives and no others are found under its name.\<close>

lemma index_of_update_free:
  assumes "i < length xs" "\<not> P (xs ! i)"
  shows "index_of P (xs[i := x]) = (if P x then (case index_of P xs of Some j \<Rightarrow> Some (min i j) | None \<Rightarrow> Some i) else index_of P xs)"
  using assms
proof (induction xs arbitrary: i)
  case (Cons y ys)
  then show ?case by (cases i) (auto split: option.split)
qed simp

lemma register_finds:
  assumes "register_conf_table ok T name table ty = (T', True)" "conf_table T name = None"
  shows "conf_table T' n = (if n = name then Some table else conf_table T n)"
proof (cases "free_slot name (xt_items T)")
  case (Some i)
  have none: "index_of (\<lambda>t. sb_name t = Some name) (xt_items T) = None" using assms(2) by (simp add: conf_table_def table_index_def)
  have i: "i < length (xt_items T)" "sb_name (xt_items T ! i) = None"
    using index_of_Some [OF Some [unfolded free_slot_def]] none unfolding index_of_None by (auto dest: nth_mem)
  let ?t = "\<lparr>sb_name = Some name, sb_type = ty, sb_table = table\<rparr>"
  have T': "T' = T\<lparr>xt_items := (xt_items T)[i := ?t]\<rparr>"
    using assms(1) Some i(2) by (auto simp: register_conf_table_def Let_def split: if_split_asm)
  have ne: "j \<noteq> i" if "index_of (\<lambda>t. sb_name t = Some n) (xt_items T) = Some j" for j
    using index_of_Some [OF that] i(2) by auto
  show ?thesis using none i ne index_of_update_free [of i "xt_items T" "\<lambda>t. sb_name t = Some n" ?t]
    by (cases "index_of (\<lambda>t. sb_name t = Some n) (xt_items T)") (auto simp: T' conf_table_def table_index_def)
next
  case None
  have none: "index_of (\<lambda>t. sb_name t = Some name) (xt_items T) = None" using assms(2) by (simp add: conf_table_def table_index_def)
  have T': "xt_items T' = xt_items T @ [\<lparr>sb_name = Some name, sb_type = ty, sb_table = table\<rparr>]"
    using assms(1) None by (auto simp: register_conf_table_def Let_def split: if_split_asm)
  show ?thesis using none index_of_Some [of "\<lambda>t. sb_name t = Some n" "xt_items T"]
    by (auto simp: conf_table_def table_index_def T' index_of_append nth_append split: option.split)
qed

section \<open>Lines that are almost too long\<close>

text \<open>A line whose length with its end is \<^verbatim>\<open>LINESIZE - 2\<close> is taken for one that was cut, and the next line is skipped.\<close>

theorem long_line_swallows_next:
  assumes "\<not> cf_bad f" "cf_rest f = l @ LF # m @ LF # s" "LF \<notin> set l" "NUL \<notin> set l" "length l = LINESIZE - 3" "LF \<notin> set m"
  shows "fread_line f = (1, l @ [LF], f\<lparr>cf_rest := s, cf_eof := False\<rparr>)"
proof -
  have w: "take (LINESIZE - 1) (cf_rest f) = l @ LF # take 1 (m @ LF # s)"
    using assms(5) by (simp add: assms(2) LINESIZE_def take_Cons')
  have a: "takeWhile (\<lambda>c. c \<noteq> LF) (l @ LF # take 1 (m @ LF # s)) = l"
    using assms(3) by (subst takeWhile_append2) auto
  have g: "fgets LINESIZE f = (Some (l @ [LF]), f\<lparr>cf_rest := m @ LF # s, cf_eof := False\<rparr>)"
    unfolding fgets_def Let_def w a using assms(1,2) by simp
  have c: "cstr (l @ [LF]) = l @ [LF]"
    using assms(4) LF_NUL by (auto simp: cstr_def intro!: takeWhile_eq_all_conv [THEN iffD2])
  have d: "dropWhile (\<lambda>c. c \<noteq> LF) (m @ LF # s) = LF # s" using assms(6) by (subst dropWhile_append2) auto
  have n: "((l @ [LF]) @ [NUL]) ! (LINESIZE - 2) = NUL" using assms(5) by (simp add: nth_append LINESIZE_def)
  show ?thesis unfolding fread_line_def g prod.case option.case c n skip_line_def Let_def
    using assms(5) by (simp add: LINESIZE_def d)
qed

section \<open>Properties\<close>

text \<open>Reading a file whose reads fail does not end.\<close>

theorem unreadable_file_never_ends:
  assumes "cv_fs E path = Some Unreadable"
  shows "parse_file E path st = None"
  by (simp add: parse_file_def MAX_INCLUDE_LEVEL_def numeral_eq_Suc assms parse_loop_unreadable open_file_def)

text \<open>
  C19.  Reading the configuration ends for every file system whose files can be read, whatever the files hold, also
  when they include each other or themselves.
\<close>

theorem parse_file_returns:
  assumes "\<forall>p. cv_fs E p \<noteq> Some Unreadable"
  shows "\<exists>r. parse_file E path st = Some r"
  using parse_file_at_returns [OF assms, of MAX_INCLUDE_LEVEL path st] by (auto simp: parse_file_def)

definition demo_cfg_env :: "bytes \<Rightarrow> unit cfg_env" where
  "demo_cfg_env b = \<lparr>cv_fs = (\<lambda>p. if p = ''/c'' then Some (File b) else None), cv_confdir = ''/etc'', cv_port_room = (\<lambda>_. True), cv_loggers = (\<lambda>_. []), cv_ext = (\<lambda>_ _ x T. (x, T, True))\<rparr>"

definition demo_cfg_state :: "acl_lib \<Rightarrow> unit cfg_state" where
  "demo_cfg_state L = \<lparr>cs_vars = (\<lambda>_. V_int 0), cs_defaults = [], cs_debug_cmd = False, cs_tables = init_conf_tables True, cs_acl = L, cs_other = ()\<rparr>"

definition no_acl :: acl_lib where
  "no_acl = \<lparr>al_types = ci_acl_typelist_init True 0, al_resets = 0, al_specs = [], al_connection_access = [], al_access = []\<rparr>"

theorem parse_file_returns_witness:
  "\<exists>r. parse_file (demo_cfg_env (''Include /c'' @ [LF])) ''/c'' (demo_cfg_state no_acl) = Some r"
  using parse_file_returns [of "demo_cfg_env (''Include /c'' @ [LF])" "''/c''" "demo_cfg_state no_acl"] by (simp add: demo_cfg_env_def)

text \<open>
  C25.  Arguments that are written in quotes, with their quotes escaped, are read back by \<^verbatim>\<open>split_args\<close> as they were,
  whatever they hold and whatever white space follows, as long as none ends in a backslash and there are at
  most \<^verbatim>\<open>MAX_ARGS\<close>.
\<close>

theorem split_args_quoted:
  assumes "args \<noteq> []" "length args \<le> MAX_ARGS" "\<forall>a \<in> set args. quotable a" "\<forall>c \<in> set ws. isspace_c c"
  shows "split_args (args_text args @ ws) = args"
  unfolding split_args_def using assms by (intro split_loop_text)

theorem split_args_quoted_witness:
  "split_args (args_text [''a b'', [CHR 0x5C, CHR 0x22, CHR ''c''], []] @ [LF]) = [''a b'', [CHR 0x5C, CHR 0x22, CHR ''c''], []]"
  by (rule split_args_quoted) (simp_all add: MAX_ARGS_def quotable_def isspace_LF)

text \<open>
  C34.  Whatever configuration is read, restoring the defaults gives every variable of the server whose directive
  keeps a default (\<open>server_vars\<close>) the value it had before.  These are the variables that the setters with a saved
  default write, the debug level, the memory limit of bodies and \<^verbatim>\<open>TMPDIR\<close>.  The list of ports, the logger and
  \<^verbatim>\<open>CI_TMPDIR\<close> are written without a saved default and are not restored.  Modules have variables of their own.
\<close>

theorem restore_undoes_configuration:
  assumes "private_ext E" "private_tables (cs_tables st)" "cs_defaults st = []" "parse_file E path st = Some (Ret (st', r))" "x \<in> server_vars"
  shows "cs_vars (cfg_default_value_restore_all st') x = cs_vars st x"
proof -
  have "saved (cs_vars st) st" using assms(2,3) by (simp add: saved_def)
  then have "saved (cs_vars st) st'" using parse_file_saves [OF assms(1)] assms(4) by (simp add: parse_file_def)
  then show ?thesis using restore_saved assms(5) by blast
qed

text \<open>An example: a file with one line sets a variable, and the default is restored.\<close>

lemma demo_timeout:
  "parse_file (demo_cfg_env (text_file [directive_text ''Timeout'' [''7'']])) ''/c'' (demo_cfg_state no_acl) =
     Some (Ret (set_var ''TIMEOUT'' (V_int 7) (cfg_default_value_store ''TIMEOUT'' (demo_cfg_state no_acl)), True))"
proof -
  let ?E = "demo_cfg_env (text_file [directive_text ''Timeout'' [''7'']])"
  have l: "plain_line (directive_text ''Timeout'' [''7''])"
    by (simp add: plain_line_def directive_text_def quote_arg_def escape_def LINESIZE_def)
  have e: "search_conf_table conf_variables ''Timeout'' = Some (entry ''Timeout'' ''TIMEOUT'' S_int)"
    by (simp add: search_conf_table_def conf_variables_def)
  have n: "directive_name ''Timeout''" by (simp add: directive_name_def isspace_c_def)
  have v: "int32 (fst (strtol 10 ''7'')) = 7" by code_simp
  have "process_line ?E (parse_file_at ?E 4) (directive_text ''Timeout'' [''7''] @ [LF]) (demo_cfg_state no_acl) =
      Some (Ret (set_var ''TIMEOUT'' (V_int 7) (cfg_default_value_store ''TIMEOUT'' (demo_cfg_state no_acl)), True))"
    using process_directive [OF n e, of "Intl S_int" "[''7'']"] l v
    by (simp add: MAX_ARGS_def quotable_def intl_cfg_def ci_cfg_set_int_def first_arg_def)
  then show ?thesis using parse_text_file [of ?E "''/c''" "[directive_text ''Timeout'' [''7'']]"] l by (simp add: demo_cfg_env_def)
qed

theorem restore_undoes_configuration_witness:
  "\<exists>st. parse_file (demo_cfg_env (text_file [directive_text ''Timeout'' [''7'']])) ''/c'' (demo_cfg_state no_acl) = Some (Ret (st, True))
     \<and> cs_vars st ''TIMEOUT'' = V_int 7 \<and> cs_vars (cfg_default_value_restore_all st) ''TIMEOUT'' = V_int 0"
proof -
  have "private_ext (demo_cfg_env b)" for b by (simp add: private_ext_def demo_cfg_env_def)
  moreover have "private_tables (cs_tables (demo_cfg_state no_acl))" "cs_defaults (demo_cfg_state no_acl) = []"
    by (simp_all add: demo_cfg_state_def init_conf_tables_def private_tables_def)
  moreover have "''TIMEOUT'' \<in> server_vars" by (simp add: server_vars_def conf_variables_def)
  ultimately have "cs_vars (cfg_default_value_restore_all (set_var ''TIMEOUT'' (V_int 7) (cfg_default_value_store ''TIMEOUT'' (demo_cfg_state no_acl)))) ''TIMEOUT''
      = cs_vars (demo_cfg_state no_acl) ''TIMEOUT''"
    by (rule restore_undoes_configuration [OF _ _ _ demo_timeout])
  then show ?thesis using demo_timeout by (simp add: set_var_def demo_cfg_state_def)
qed

text \<open>A port stays in the list when the defaults are restored, and so do the logger and the directory of the library.\<close>

theorem ports_not_restored:
  assumes "cs_defaults st = []" "cs_vars st ''PORTS'' = V_ports None" "room 0" "0 < int32 (fst (strtol 10 p))" "CHR '':'' \<notin> set p"
  shows "\<exists>st'. cfg_set_port room (Some [p]) (Some ''PORTS'') st = Ret (st', True)
    \<and> cs_vars (cfg_default_value_restore_all st') ''PORTS'' = V_ports (Some [\<lparr>cp_address = None, cp_port = int32 (fst (strtol 10 p))\<rparr>])"
  using assms by (simp add: cfg_set_port_def split_port_def cfg_default_value_restore_all_def set_var_def Let_def)



end
