(* ===== verification/Hash.thy ===== *)
theory Hash
  imports Types_Ops Process
begin

text \<open>
  The hash table of \<^verbatim>\<open>hash.c\<close>, which the lookup tables and the cache use.  What the table needs of its keys is the
  locale \<^verbatim>\<open>hash_keys\<close>: keys that compare as equal have the same bytes, so that they fall into the same chain.
  Proved: the index never leaves the table, so no assertion fails, and the table is a map in which an
  addition shadows earlier ones.
\<close>

section \<open>The hash function\<close>

definition hash_step :: "64 word \<Rightarrow> char \<Rightarrow> 64 word" where
  "hash_step h c = (push_bit 5 h + h) + of_nat (of_char c)"

text \<open>\<open>s\<close> is the memory at the key; a length of zero means a string.\<close>

definition ci_hash_compute :: "nat \<Rightarrow> bytes \<Rightarrow> nat \<Rightarrow> nat" where
  "ci_hash_compute hash_max_value s len =
     (let h = foldl hash_step 5381 (if len \<noteq> 0 then take len s else cstr s);
          h1 = (if h = 0 then 1 else h)
      in unat (ucast (h1 AND of_nat hash_max_value) :: 32 word))"

lemma hash_bound:
  assumes "m < 2 ^ 32"
  shows "ci_hash_compute m s len \<le> m"
proof -
  have "unat (ucast (h AND of_nat m) :: 32 word) \<le> m" for h :: "64 word"
  proof -
    have "unat (h AND of_nat m) \<le> unat (of_nat m :: 64 word)"
    proof -
      have "uint (h AND of_nat m) \<le> uint (of_nat m :: 64 word)" by (simp only: unsigned_and_eq AND_upper2 uint_nonnegative)
      then show ?thesis by (simp only: word_le_def [symmetric] word_le_nat_alt)
    qed
    also have "\<dots> \<le> m" by (simp add: unsigned_of_nat)
    finally have "unat (h AND of_nat m) \<le> m" .
    moreover have "unat (ucast (h AND of_nat m) :: 32 word) \<le> unat (h AND of_nat m)"
      by (simp add: unsigned_ucast_eq take_bit_nat_less_eq_self)
    ultimately show ?thesis by (rule order_trans [rotated])
  qed
  then show ?thesis by (simp add: ci_hash_compute_def Let_def)
qed

text \<open>The size of the table is one less than a power of two: 63, or the first of that form that is large enough.\<close>

function grow_hash_size :: "nat \<Rightarrow> nat \<Rightarrow> nat" where
  "grow_hash_size items s = (if s < items \<and> s < 0xFFFFFF then grow_hash_size items (2 * (s + 1) - 1) else s)"
  by pat_completeness auto
termination by (relation "measure (\<lambda>(items, s). 0xFFFFFF - s)") auto

definition hash_size_for :: "nat \<Rightarrow> nat" where
  "hash_size_for n = (if 63 < n then grow_hash_size n 63 else 63)"

lemma grow_hash_size_bound: "s < 2 ^ 25 \<Longrightarrow> grow_hash_size n s < 2 ^ 25"
  by (induction n s rule: grow_hash_size.induct) (subst grow_hash_size.simps, auto)

lemma hash_size_bound: "hash_size_for n < 2 ^ 25"
  by (simp add: hash_size_for_def grow_hash_size_bound)

section \<open>The table\<close>

record 'k key_fns =
  kf_bytes :: "'k \<Rightarrow> bytes"
  kf_same :: "'k \<Rightarrow> 'k \<Rightarrow> bool"

record ('k, 'v) ci_hash_table =
  ht_chains :: "('k \<times> 'v) list list"
  ht_size :: nat

definition ci_hash_build :: "bool \<Rightarrow> bool \<Rightarrow> nat \<Rightarrow> ('k, 'v) ci_hash_table option" where
  "ci_hash_build ok1 ok2 n =
     (if \<not> ok1 \<or> \<not> ok2 then None
      else Some \<lparr>ht_chains = replicate (hash_size_for n + 1) [], ht_size = hash_size_for n\<rparr>)"

definition hash_of :: "'k key_fns \<Rightarrow> nat \<Rightarrow> 'k \<Rightarrow> nat" where
  "hash_of K m k = ci_hash_compute m (kf_bytes K k) (length (kf_bytes K k))"

definition ci_hash_search :: "'k key_fns \<Rightarrow> ('k, 'v) ci_hash_table \<Rightarrow> 'k \<Rightarrow> 'v option c_result" where
  "ci_hash_search K t key =
     (let h = hash_of K (ht_size t) key in
      if ht_size t < h then Abort
      else if length (ht_chains t) \<le> h then Undef
      else Ret (map_option snd (find (\<lambda>(k, _). kf_same K k key) (ht_chains t ! h))))"

text \<open>\<^verbatim>\<open>ci_hash_add\<close> puts the entry in front of its chain; \<open>ok\<close> is the result of the allocation.\<close>

definition ci_hash_add :: "bool \<Rightarrow> 'k key_fns \<Rightarrow> ('k, 'v) ci_hash_table \<Rightarrow> 'k \<Rightarrow> 'v \<Rightarrow> (('k, 'v) ci_hash_table \<times> bool) c_result" where
  "ci_hash_add ok K t key v =
     (let h = hash_of K (ht_size t) key in
      if ht_size t < h then Abort
      else if \<not> ok then Ret (t, False)
      else if length (ht_chains t) \<le> h then Undef
      else Ret (t\<lparr>ht_chains := (ht_chains t)[h := (key, v) # ht_chains t ! h]\<rparr>, True))"

section \<open>The table as a map\<close>

locale hash_keys =
  fixes K :: "'k key_fns"
  assumes same_bytes: "kf_same K a b \<Longrightarrow> kf_bytes K a = kf_bytes K b"
begin

lemma same_hash: "kf_same K a b \<Longrightarrow> hash_of K m a = hash_of K m b"
  by (simp add: hash_of_def same_bytes)

end

definition ht_invar :: "('k, 'v) ci_hash_table \<Rightarrow> bool" where
  "ht_invar t \<longleftrightarrow> length (ht_chains t) = ht_size t + 1 \<and> ht_size t < 2 ^ 32"

lemma hash_in_table: "ht_invar t \<Longrightarrow> hash_of K (ht_size t) k < length (ht_chains t)"
  using hash_bound [of "ht_size t"] by (simp add: ht_invar_def hash_of_def le_imp_less_Suc)

lemma build_empty:
  assumes "ci_hash_build ok1 ok2 n = Some t"
  shows "ht_invar t" "ci_hash_search K t k = Ret None"
proof -
  have t: "t = \<lparr>ht_chains = replicate (hash_size_for n + 1) [], ht_size = hash_size_for n\<rparr>"
    using assms by (simp add: ci_hash_build_def split: if_splits)
  then show "ht_invar t" using hash_size_bound [of n] by (simp add: ht_invar_def)
  then have "hash_of K (ht_size t) k \<le> ht_size t" using hash_in_table [of t K k] by (simp add: ht_invar_def)
  then show "ci_hash_search K t k = Ret None" using t by (simp add: ci_hash_search_def Let_def del: replicate.simps)
qed

context hash_keys
begin

lemma add_search:
  assumes "ht_invar t"
  shows "\<exists>t' r. ci_hash_add ok K t k v = Ret (t', r) \<and> ht_invar t' \<and> r = ok
    \<and> (\<forall>k'. ci_hash_search K t' k' = (if ok \<and> kf_same K k k' then Ret (Some v) else ci_hash_search K t k'))"
proof -
  let ?h = "hash_of K (ht_size t) k"
  let ?t = "t\<lparr>ht_chains := (ht_chains t)[?h := (k, v) # ht_chains t ! ?h]\<rparr>"
  have b: "hash_of K (ht_size t) k < length (ht_chains t)" "hash_of K (ht_size t) k \<le> ht_size t" for k
    using hash_in_table [OF assms, of K k] assms by (auto simp: ht_invar_def)
  have a: "ci_hash_add ok K t k v = Ret (if ok then ?t else t, ok)" using b [of k] by (simp add: ci_hash_add_def Let_def)
  have "ci_hash_search K ?t k' = (if kf_same K k k' then Ret (Some v) else ci_hash_search K t k')" for k'
    using b [of k] b [of k'] same_hash [of k k' "ht_size t"] by (auto simp: ci_hash_search_def Let_def nth_list_update)
  then show ?thesis using a assms by (auto simp: ht_invar_def)
qed

end

text \<open>Keys that are strings, the default of the table and the cache: the bytes hashed include the terminating zero.\<close>

definition string_keys :: "bytes key_fns" where
  "string_keys = \<lparr>kf_bytes = (\<lambda>s. s @ [NUL]), kf_same = (\<lambda>a b. strcmp_c a b = 0)\<rparr>"

lemma string_same: "kf_same string_keys a b \<longleftrightarrow> a = b"
  by (simp add: string_keys_def)

interpretation string_hash: hash_keys string_keys
  by unfold_locales (simp add: string_keys_def)

text \<open>The table as a map: after any additions a search finds the last value added for the key that did not fail.\<close>

fun add_all :: "'k key_fns \<Rightarrow> ('k, 'v) ci_hash_table \<Rightarrow> ('k \<times> 'v \<times> bool) list \<Rightarrow> ('k, 'v) ci_hash_table c_result" where
  "add_all K t [] = Ret t"
| "add_all K t ((k, v, ok) # as) = c_bind (ci_hash_add ok K t k v) (\<lambda>(t1, _). add_all K t1 as)"

lemma add_all_map:
  assumes "ht_invar t"
  shows "\<exists>t'. add_all string_keys t as = Ret t' \<and> ht_invar t'
    \<and> (\<forall>k. ci_hash_search string_keys t' k =
          (case map_of (map (\<lambda>(k, v, ok). (k, v)) (rev (filter (\<lambda>(k, v, ok). ok) as))) k of
             Some v \<Rightarrow> Ret (Some v) | None \<Rightarrow> ci_hash_search string_keys t k))"
  using assms
proof (induction as arbitrary: t)
  case (Cons a as)
  obtain k v ok where a: "a = (k, v, ok)" by (rule prod_cases3)
  obtain t1 where t1: "ci_hash_add ok string_keys t k v = Ret (t1, ok)" "ht_invar t1"
    "\<forall>k'. ci_hash_search string_keys t1 k' = (if ok \<and> k = k' then Ret (Some v) else ci_hash_search string_keys t k')"
    using string_hash.add_search [OF Cons.prems, of ok k v] string_same by auto
  from Cons.IH [OF t1(2)] obtain t' where "add_all string_keys t1 as = Ret t'" "ht_invar t'"
    "\<forall>k. ci_hash_search string_keys t' k = (case map_of (map (\<lambda>(k, v, ok). (k, v)) (rev (filter (\<lambda>(k, v, ok). ok) as))) k of
             Some v \<Rightarrow> Ret (Some v) | None \<Rightarrow> ci_hash_search string_keys t1 k)"
    by blast
  then show ?case using a t1 by (auto simp: map_add_def split: option.split)
qed simp

end
