(* ===== verification/Local_Cache.thy ===== *)
theory Local_Cache
  imports Hash
begin

text \<open>
  The local cache of \<^verbatim>\<open>cache.c\<close>.  Every entry is on two lists at once: a queue in the order of the updates, through
  \<^verbatim>\<open>qnext\<close>, and the chain of its hash value, through \<^verbatim>\<open>hnext\<close>.  The entries are objects in a heap with addresses,
  so that the lists share them as in the code.  Locks are left out: each operation runs under one lock.

  The specification is a list of slots, oldest first: an update reuses the oldest slot when it has expired,
  a search returns the value of the latest update of its key unless that has expired.  Proved: the pointer
  structure implements it for every sequence of operations and allocation failures, when the cache has at
  least two entries.  With one entry the queue is lost after the first update.
\<close>

section \<open>The cache\<close>

record 'k ci_cache_entry =
  ent_hash :: nat
  ent_time :: int
  ent_key :: "'k option"
  ent_val :: "bytes option"
  ent_size :: nat
  ent_qnext :: "nat option"
  ent_hnext :: "nat option"

record 'k local_cache =
  lc_heap :: "nat \<Rightarrow> 'k ci_cache_entry"
  lc_first :: "nat option"
  lc_last :: nat
  lc_table :: "nat option list"
  lc_table_size :: nat
  lc_ttl :: int

definition CACHE_ENTRY_SIZE :: nat where "CACHE_ENTRY_SIZE = 56"

text \<open>An entry as \<^verbatim>\<open>ci_local_cache_init\<close> leaves it: \<open>s\<close> is what the memory holds at \<^verbatim>\<open>val_size\<close>, which is not set.\<close>

definition free_entry :: "nat \<Rightarrow> nat option \<Rightarrow> 'k ci_cache_entry" where
  "free_entry s q = \<lparr>ent_hash = 0, ent_time = 0, ent_key = None, ent_val = None, ent_size = s, ent_qnext = q, ent_hnext = None\<rparr>"

definition cache_items :: "nat \<Rightarrow> nat \<Rightarrow> nat" where
  "cache_items mem_size max_object_size = (mem_size div (max_object_size + CACHE_ENTRY_SIZE)) mod 2 ^ 32"

text \<open>
  \<^verbatim>\<open>ci_local_cache_init\<close>: \<open>ok i\<close> is the result of allocation number \<open>i\<close>, and the entries have the addresses from 0 on.
  With a failure comes whether the cache object itself has been freed, which happens when there is no memory
  for the table.
\<close>

definition ci_local_cache_init :: "(nat \<Rightarrow> bool) \<Rightarrow> (nat \<Rightarrow> nat) \<Rightarrow> nat \<Rightarrow> nat \<Rightarrow> int \<Rightarrow> bool + 'k local_cache" where
  "ci_local_cache_init ok junk mem_size max_object_size ttl =
     (let n = cache_items mem_size max_object_size in
      if \<not> ok 0 \<or> \<not> ok 1 \<or> \<not> ok 2 then Inl False
      else if n = 0 then Inl False
      else if \<not> list_all (\<lambda>i. ok (i + 2)) [1..<n] then Inl False
      else if \<not> ok (n + 2) then Inl True
      else Inr \<lparr>lc_heap = (\<lambda>i. free_entry (junk i) (if i + 1 < n then Some (i + 1) else None)), lc_first = Some 0, lc_last = n - 1,
                lc_table = replicate (hash_size_for n + 1) None, lc_table_size = hash_size_for n, lc_ttl = ttl\<rparr>)"

text \<open>
  \<^verbatim>\<open>ci_cache_build\<close> for the local type: a cache object that is already freed is freed again when its
  initialisation fails.
\<close>

definition ci_cache_build :: "bool \<Rightarrow> (nat \<Rightarrow> bool) \<Rightarrow> (nat \<Rightarrow> nat) \<Rightarrow> nat \<Rightarrow> nat \<Rightarrow> int \<Rightarrow> 'k local_cache option c_result" where
  "ci_cache_build ok_cache ok junk cache_size max_object_size ttl =
     (if cache_size = 0 \<or> \<not> ok_cache then Ret None
      else case ci_local_cache_init ok junk cache_size max_object_size ttl of
             Inl False \<Rightarrow> Ret None
           | Inl True \<Rightarrow> Undef
           | Inr c \<Rightarrow> Ret (Some c))"

text \<open>\<^verbatim>\<open>ci_local_cache_destroy\<close>: what it frees, in order.\<close>

datatype freed = F_key nat | F_val nat | F_entry nat | F_table

definition entry_freed :: "(nat \<Rightarrow> 'k ci_cache_entry) \<Rightarrow> nat \<Rightarrow> freed list" where
  "entry_freed heap e =
     (if ent_key (heap e) \<noteq> None then [F_key e] else [])
     @ (if ent_val (heap e) \<noteq> None \<and> 0 < ent_size (heap e) then [F_val e] else []) @ [F_entry e]"

partial_function (option) destroy_queue :: "(nat \<Rightarrow> 'k ci_cache_entry) \<Rightarrow> nat option \<Rightarrow> freed list option" where
  [code]: "destroy_queue heap p =
     (case p of
        None \<Rightarrow> Some []
      | Some e \<Rightarrow> Option.bind (destroy_queue heap (ent_qnext (heap e))) (\<lambda>fs. Some (entry_freed heap e @ fs)))"

definition ci_local_cache_destroy :: "'k local_cache \<Rightarrow> freed list option" where
  "ci_local_cache_destroy c = Option.bind (destroy_queue (lc_heap c) (lc_first c)) (\<lambda>fs. Some (fs @ [F_table]))"

text \<open>The walk along a chain.\<close>

partial_function (option) chain_find :: "'k key_fns \<Rightarrow> (nat \<Rightarrow> 'k ci_cache_entry) \<Rightarrow> nat option \<Rightarrow> 'k \<Rightarrow> nat option c_result option" where
  [code]: "chain_find K heap p key =
     (case p of
        None \<Rightarrow> Some (Ret None)
      | Some e \<Rightarrow>
          (case ent_key (heap e) of
             None \<Rightarrow> Some Undef
           | Some k \<Rightarrow>
               if kf_same K k key then Some (Ret (Some e))
               else if ent_hnext (heap e) = Some e then Some Abort
               else chain_find K heap (ent_hnext (heap e)) key))"

text \<open>
  \<^verbatim>\<open>ci_local_cache_search\<close> at time \<open>now\<close>: whether the key is found, and the value, which may be missing.  \<open>dup\<close> copies
  a value: a function of the caller, which may give a null pointer, or \<open>copy_value\<close>, whose memory \<open>mem\<close> is not tested.  Sizes
  of values are natural numbers; the code keeps them as an \<^verbatim>\<open>int\<close>, so values are below 2 GiB.
\<close>

definition copy_value :: "bool \<Rightarrow> bytes \<Rightarrow> bytes option c_result" where
  "copy_value mem w = (if mem then Ret (Some w) else Undef)"

definition ci_local_cache_search :: "'k key_fns \<Rightarrow> int \<Rightarrow> (bytes \<Rightarrow> 'v option c_result) \<Rightarrow> 'k local_cache \<Rightarrow> 'k \<Rightarrow> 'v option option c_result option" where
  "ci_local_cache_search K now dup c key =
     (let h = hash_of K (lc_table_size c) key in
      if lc_table_size c < h then Some Abort
      else if length (lc_table c) \<le> h then Some Undef
      else case chain_find K (lc_heap c) (lc_table c ! h) key of
             None \<Rightarrow> None
           | Some Abort \<Rightarrow> Some Abort
           | Some Undef \<Rightarrow> Some Undef
           | Some (Ret None) \<Rightarrow> Some (Ret None)
           | Some (Ret (Some e)) \<Rightarrow>
               let en = lc_heap c e in
               if lc_ttl c < now - ent_time en then Some (Ret None)
               else if ent_size en = 0 then Some (Ret (Some None))
               else (case ent_val en of None \<Rightarrow> Some Undef | Some w \<Rightarrow> Some (c_bind (dup w) (\<lambda>v. Ret (Some v)))))"

text \<open>The last entry of a chain, or the one in front of \<open>e\<close>.\<close>

partial_function (option) chain_pred :: "(nat \<Rightarrow> 'k ci_cache_entry) \<Rightarrow> nat \<Rightarrow> nat \<Rightarrow> nat option" where
  [code]: "chain_pred heap t e =
     (case ent_hnext (heap t) of
        None \<Rightarrow> Some t
      | Some u \<Rightarrow> if u = e then Some t else chain_pred heap u e)"

text \<open>Taking the entry \<open>e\<close> out of the chain of its hash value.\<close>

definition unlink_entry :: "'k local_cache \<Rightarrow> nat \<Rightarrow> 'k local_cache c_result option" where
  "unlink_entry c e =
     (let heap = lc_heap c; b = ent_hash (heap e) in
      if lc_table_size c < b then Some Abort
      else if length (lc_table c) \<le> b then Some Undef
      else case lc_table c ! b of
             None \<Rightarrow> Some (Ret c)
           | Some t \<Rightarrow>
               if t = e then Some (Ret (c\<lparr>lc_table := (lc_table c)[b := ent_hnext (heap t)]\<rparr>))
               else (case chain_pred heap t e of
                       None \<Rightarrow> None
                     | Some p \<Rightarrow>
                         (case ent_hnext (heap p) of
                            None \<Rightarrow> Some (Ret c)
                          | Some u \<Rightarrow> Some (Ret (c\<lparr>lc_heap := heap(p := (heap p)\<lparr>ent_hnext := ent_hnext (heap u)\<rparr>)\<rparr>)))))"

text \<open>The data of the entry is released and the entry is taken out of its chain.\<close>

definition release_entry :: "'k local_cache \<Rightarrow> nat \<Rightarrow> 'k local_cache c_result option" where
  "release_entry c e =
     (let en = lc_heap c e;
          en1 = en\<lparr>ent_key := None, ent_val := (if 0 < ent_size en then None else ent_val en)\<rparr>
      in case unlink_entry (c\<lparr>lc_heap := (lc_heap c)(e := en1)\<rparr>) e of
           Some (Ret c1) \<Rightarrow> Some (Ret (c1\<lparr>lc_heap := (lc_heap c1)(e := (lc_heap c1 e)\<lparr>ent_hnext := None, ent_time := 0, ent_hash := 0\<rparr>)\<rparr>))
         | r \<Rightarrow> r)"

text \<open>The entry gets its data, moves to the end of the queue and to the front of its chain.\<close>

definition store_entry :: "'k local_cache \<Rightarrow> nat \<Rightarrow> nat \<Rightarrow> int \<Rightarrow> 'k local_cache" where
  "store_entry c e h now =
     (let heap1 = (lc_heap c)(e := (lc_heap c e)\<lparr>ent_hash := h, ent_time := now\<rparr>);
          first1 = ent_qnext (heap1 e);
          heap2 = heap1(lc_last c := (heap1 (lc_last c))\<lparr>ent_qnext := Some e\<rparr>);
          heap3 = heap2(e := (heap2 e)\<lparr>ent_qnext := None, ent_hnext := lc_table c ! h\<rparr>)
      in c\<lparr>lc_heap := heap3, lc_first := first1, lc_last := e, lc_table := (lc_table c)[h := Some e]\<rparr>)"

text \<open>
  \<^verbatim>\<open>ci_local_cache_update\<close>: \<open>ok_key\<close> and \<open>ok_val\<close> are the results of the allocations, the latter with that of the function
  that copies the value.
\<close>

definition ci_local_cache_update :: "'k key_fns \<Rightarrow> int \<Rightarrow> bool \<Rightarrow> bool \<Rightarrow> 'k local_cache \<Rightarrow> 'k \<Rightarrow> bytes option \<Rightarrow> ('k local_cache \<times> bool) c_result option" where
  "ci_local_cache_update K now ok_key ok_val c key v =
     (let h = hash_of K (lc_table_size c) key in
      if lc_table_size c < h then Some Abort
      else case lc_first c of
        None \<Rightarrow> Some Undef
      | Some e \<Rightarrow>
          if now - ent_time (lc_heap c e) < lc_ttl c then Some (Ret (c, False))
          else case release_entry c e of
            None \<Rightarrow> None
          | Some Abort \<Rightarrow> Some Abort
          | Some Undef \<Rightarrow> Some Undef
          | Some (Ret c1) \<Rightarrow>
              if \<not> ok_key then Some (Ret (c1, False))
              else let has = (v \<noteq> None \<and> v \<noteq> Some []);
                       en = (lc_heap c1 e)\<lparr>ent_key := Some key, ent_val := (if has then v else None), ent_size := (if has then length (the v) else 0)\<rparr>
                   in if has \<and> \<not> ok_val
                      then Some (Ret (c1\<lparr>lc_heap := (lc_heap c1)(e := en\<lparr>ent_key := None, ent_val := None\<rparr>)\<rparr>, False))
                      else if length (lc_table c1) \<le> h then Some Undef
                      else Some (Ret (store_entry (c1\<lparr>lc_heap := (lc_heap c1)(e := en)\<rparr>) e h now, True)))"

section \<open>Linked lists\<close>

fun linked :: "(nat \<Rightarrow> nat option) \<Rightarrow> nat option \<Rightarrow> nat list \<Rightarrow> bool" where
  "linked nx p [] = (p = None)"
| "linked nx p (x # xs) = (p = Some x \<and> linked nx (nx x) xs)"

lemma linked_cong: "(\<And>x. x \<in> set xs \<Longrightarrow> nx x = ny x) \<Longrightarrow> linked nx p xs = linked ny p xs"
  by (induction xs arbitrary: p) auto

lemma linked_snoc:
  assumes "linked nx p (xs @ [x])" "distinct (xs @ [x])"
  shows "linked (nx(last xs := nx x)) (if xs = [] then nx x else p) xs" "nx x = None"
  using assms
proof (induction xs arbitrary: p)
  case (Cons y ys)
  {
    case 1
    show ?case
    proof (cases ys)
      case (Cons z zs)
      then show ?thesis using 1 Cons.IH(1) [of "nx y"] by auto
    qed (use 1 in auto)
  next
    case 2
    then show ?case using Cons.IH(2) [of "nx y"] by auto
  }
qed auto

lemma linked_append_entry:
  assumes "linked nx p xs" "xs \<noteq> []" "distinct xs" "x \<notin> set xs"
  shows "linked (nx(last xs := Some x, x := None)) p (xs @ [x])"
  using assms
proof (induction xs arbitrary: p)
  case (Cons y ys)
  show ?case
  proof (cases "ys = []")
    case False
    have l: "last (y # ys) = last ys" "y \<noteq> last ys" "y \<noteq> x" using False Cons.prems last_in_set [of ys] by auto
    have "linked (nx(last ys := Some x, x := None)) (nx y) (ys @ [x])" by (rule Cons.IH) (use Cons.prems False in auto)
    then show ?thesis using l Cons.prems(1) by (simp add: fun_upd_def)
  qed (use Cons.prems in auto)
qed simp

lemma chain_find_linked:
  assumes "linked (\<lambda>i. ent_hnext (heap i)) p xs" "distinct xs" "\<forall>i \<in> set xs. ent_key (heap i) \<noteq> None"
  shows "chain_find K heap p key = Some (Ret (find (\<lambda>i. kf_same K (the (ent_key (heap i))) key) xs))"
  using assms
proof (induction xs arbitrary: p)
  case (Cons x xs)
  then have "ent_hnext (heap x) \<noteq> Some x" by (cases xs) auto
  then show ?case using Cons by (subst chain_find.simps) auto
qed (simp add: chain_find.simps)

lemma chain_pred_end:
  assumes "linked (\<lambda>i. ent_hnext (heap i)) (Some t) xs" "e \<notin> set xs"
  shows "chain_pred heap t e = Some (last xs) \<and> ent_hnext (heap (last xs)) = None"
  using assms
proof (induction xs arbitrary: t)
  case (Cons x xs)
  then show ?case
  proof (cases xs)
    case (Cons y ys)
    then have "chain_pred heap y e = Some (last xs) \<and> ent_hnext (heap (last xs)) = None" using Cons.IH [of y] Cons.prems local.Cons by auto
    then show ?thesis using Cons.prems local.Cons by (subst chain_pred.simps) auto
  qed (subst chain_pred.simps, auto)
qed simp

lemma chain_pred_before:
  assumes "linked (\<lambda>i. ent_hnext (heap i)) (Some t) (xs @ [e])" "xs \<noteq> []" "e \<notin> set xs"
  shows "chain_pred heap t e = Some (last xs) \<and> ent_hnext (heap (last xs)) = Some e"
  using assms
proof (induction xs arbitrary: t)
  case (Cons x xs)
  show ?case
  proof (cases xs)
    case Nil
    then show ?thesis using Cons.prems by (subst chain_pred.simps) auto
  next
    case (Cons y ys)
    then have "chain_pred heap y e = Some (last xs) \<and> ent_hnext (heap (last xs)) = Some e" using Cons.IH [of y] Cons.prems local.Cons by auto
    then show ?thesis using Cons.prems local.Cons by (subst chain_pred.simps) auto
  qed
qed simp

section \<open>Slots\<close>

text \<open>The specification: slots in the order of their updates, each free or with a key, a value and the time.\<close>

type_synonym 'k slot = "('k \<times> bytes option \<times> int) option"

definition slot_time :: "'k slot \<Rightarrow> int" where
  "slot_time s = (case s of None \<Rightarrow> 0 | Some (_, _, t) \<Rightarrow> t)"

definition slots_update :: "int \<Rightarrow> int \<Rightarrow> bool \<Rightarrow> bool \<Rightarrow> 'k \<Rightarrow> bytes option \<Rightarrow> 'k slot list \<Rightarrow> 'k slot list \<times> bool" where
  "slots_update ttl now ok_key ok_val k v ss =
     (let has = (v \<noteq> None \<and> v \<noteq> Some []) in
      if now - slot_time (hd ss) < ttl then (ss, False)
      else if \<not> ok_key \<or> (has \<and> \<not> ok_val) then (None # tl ss, False)
      else (tl ss @ [Some (k, if has then v else None, now)], True))"

definition slots_search :: "'k key_fns \<Rightarrow> int \<Rightarrow> int \<Rightarrow> 'k \<Rightarrow> 'k slot list \<Rightarrow> bytes option option" where
  "slots_search K ttl now key ss =
     (case find (\<lambda>s. case s of None \<Rightarrow> False | Some (k, _, _) \<Rightarrow> kf_same K k key) (rev ss) of
        Some (Some (k, v, t)) \<Rightarrow> if ttl < now - t then None else Some v
      | _ \<Rightarrow> None)"

definition slot_of :: "'k ci_cache_entry \<Rightarrow> 'k slot" where
  "slot_of en = map_option (\<lambda>k. (k, if ent_size en = 0 then None else ent_val en, ent_time en)) (ent_key en)"

text \<open>The queue \<open>qs\<close> holds all entries; each chain holds the entries of its hash value that have a key, latest first.\<close>

definition chain_of :: "(nat \<Rightarrow> 'k ci_cache_entry) \<Rightarrow> nat \<Rightarrow> nat list \<Rightarrow> nat list" where
  "chain_of heap b qs = rev (filter (\<lambda>i. ent_key (heap i) \<noteq> None \<and> ent_hash (heap i) = b) qs)"

definition entry_good :: "'k key_fns \<Rightarrow> nat \<Rightarrow> 'k ci_cache_entry \<Rightarrow> bool" where
  "entry_good K m en \<longleftrightarrow> ent_hash en \<le> m
     \<and> (case ent_key en of None \<Rightarrow> ent_time en = 0 | Some k \<Rightarrow> ent_hash en = hash_of K m k \<and> (ent_size en \<noteq> 0 \<longrightarrow> ent_val en \<noteq> None))"

lemma entry_links [simp]:
  "entry_good K m (en\<lparr>ent_hnext := x\<rparr>) = entry_good K m en" "entry_good K m (en\<lparr>ent_qnext := x\<rparr>) = entry_good K m en"
  "slot_of (en\<lparr>ent_hnext := x\<rparr>) = slot_of en" "slot_of (en\<lparr>ent_qnext := x\<rparr>) = slot_of en"
  by (simp_all add: entry_good_def slot_of_def split: option.split)

definition cache_rep :: "'k key_fns \<Rightarrow> 'k local_cache \<Rightarrow> nat list \<Rightarrow> 'k slot list \<Rightarrow> bool" where
  "cache_rep K c qs ss \<longleftrightarrow> distinct qs \<and> 2 \<le> length qs \<and> lc_last c = last qs
     \<and> linked (\<lambda>i. ent_qnext (lc_heap c i)) (lc_first c) qs
     \<and> length (lc_table c) = lc_table_size c + 1 \<and> lc_table_size c < 2 ^ 32
     \<and> (\<forall>b \<le> lc_table_size c. linked (\<lambda>i. ent_hnext (lc_heap c i)) (lc_table c ! b) (chain_of (lc_heap c) b qs))
     \<and> (\<forall>i \<in> set qs. entry_good K (lc_table_size c) (lc_heap c i))
     \<and> ss = map (\<lambda>i. slot_of (lc_heap c i)) qs"

lemma find_filter: "find P (filter Q xs) = find (\<lambda>x. Q x \<and> P x) xs"
  by (induction xs) auto

lemma find_map_option: "find P (map f xs) = map_option f (find (\<lambda>x. P (f x)) xs)"
  by (induction xs) auto

lemma find_Some_in: "find P xs = Some x \<Longrightarrow> x \<in> set xs \<and> P x"
  by (induction xs) (auto split: if_splits)

text \<open>Taking an entry out of its chain, where it is the last one, or looking for it in vain.\<close>

lemma unlink_chains:
  fixes c :: "'k local_cache" and ch :: "nat \<Rightarrow> nat list"
  defines "hn \<equiv> \<lambda>i. ent_hnext (lc_heap c i)"
  assumes len: "length (lc_table c) = lc_table_size c + 1" and h: "ent_hash (lc_heap c e) \<le> lc_table_size c"
    and d: "\<And>b. distinct (ch b)" "\<And>b. e \<notin> set (ch b)" "\<And>b b'. b \<noteq> b' \<Longrightarrow> set (ch b) \<inter> set (ch b') = {}"
    and l: "\<And>b. b \<le> lc_table_size c \<Longrightarrow> linked hn (lc_table c ! b) (ch b @ (if b = ent_hash (lc_heap c e) \<and> here then [e] else []))"
  shows "\<exists>H T. unlink_entry c e = Some (Ret (c\<lparr>lc_heap := H, lc_table := T\<rparr>)) \<and> length T = length (lc_table c)
    \<and> (\<forall>b \<le> lc_table_size c. linked (\<lambda>i. ent_hnext (H i)) (T ! b) (ch b)) \<and> (\<forall>i. \<exists>x. H i = (lc_heap c i)\<lparr>ent_hnext := x\<rparr>)"
proof -
  let ?heap = "lc_heap c" and ?m = "lc_table_size c"
  let ?b = "ent_hash (?heap e)"
  have same: "\<forall>i. \<exists>x. ?heap i = (?heap i)\<lparr>ent_hnext := x\<rparr>"
  proof
    fix i
    have "?heap i = (?heap i)\<lparr>ent_hnext := ent_hnext (?heap i)\<rparr>" by simp
    then show "\<exists>x. ?heap i = (?heap i)\<lparr>ent_hnext := x\<rparr>" by blast
  qed
  have un: "unlink_entry c e = (case lc_table c ! ?b of
             None \<Rightarrow> Some (Ret c)
           | Some t \<Rightarrow>
               if t = e then Some (Ret (c\<lparr>lc_table := (lc_table c)[?b := ent_hnext (?heap t)]\<rparr>))
               else (case chain_pred ?heap t e of
                       None \<Rightarrow> None
                     | Some p \<Rightarrow>
                         (case ent_hnext (?heap p) of
                            None \<Rightarrow> Some (Ret c)
                          | Some u \<Rightarrow> Some (Ret (c\<lparr>lc_heap := ?heap(p := (?heap p)\<lparr>ent_hnext := ent_hnext (?heap u)\<rparr>)\<rparr>)))))"
    using len h by (simp add: unlink_entry_def Let_def)
  consider (gone) "\<not> here" | (only) "here" "ch ?b = []" | (behind) "here" "ch ?b \<noteq> []" by blast
  then show ?thesis
  proof cases
    case gone
    then have lk: "\<forall>b \<le> ?m. linked hn (lc_table c ! b) (ch b)" using l by simp
    have "unlink_entry c e = Some (Ret c)"
    proof (cases "lc_table c ! ?b")
      case (Some t)
      then have "linked hn (Some t) (ch ?b)" using lk h by metis
      then show ?thesis using un Some chain_pred_end [of ?heap t "ch ?b" e] d(2) [of ?b] by (cases "ch ?b") (auto simp: hn_def)
    qed (simp add: un)
    then show ?thesis using lk same by (intro exI [of _ ?heap] exI [of _ "lc_table c"]) (simp add: hn_def)
  next
    case only
    then have "linked hn (lc_table c ! ?b) [e]" using l [OF h] by simp
    then have t: "lc_table c ! ?b = Some e" "hn e = None" by auto
    let ?T = "(lc_table c)[?b := None]"
    have "linked hn (?T ! b) (ch b)" if "b \<le> ?m" for b
      using that l [OF that] len only by (cases "b = ?b") auto
    then show ?thesis using un t same by (intro exI [of _ ?heap] exI [of _ ?T]) (simp add: hn_def)
  next
    case behind
    let ?p = "last (ch ?b)"
    have lb: "linked hn (lc_table c ! ?b) (ch ?b @ [e])" using l [OF h] behind by simp
    then obtain t where t: "lc_table c ! ?b = Some t" "t \<in> set (ch ?b)" using behind by (cases "ch ?b") auto
    have p: "chain_pred ?heap t e = Some ?p" "ent_hnext (?heap ?p) = Some e"
      using chain_pred_before [of ?heap t "ch ?b" e] lb t behind d(2) by (auto simp: hn_def)
    let ?H = "?heap(?p := (?heap ?p)\<lparr>ent_hnext := ent_hnext (?heap e)\<rparr>)"
    have hn': "(\<lambda>i. ent_hnext (?H i)) = hn(?p := hn e)" by (auto simp: hn_def)
    have "linked (hn(?p := hn e)) (lc_table c ! b) (ch b)" if "b \<le> ?m" for b
    proof (cases "b = ?b")
      case True
      then show ?thesis using linked_snoc(1) [OF lb] d(1,2) behind by simp
    next
      case False
      then have "?p \<notin> set (ch b)" using d(3) [OF False] behind last_in_set [of "ch ?b"] by blast
      then have "linked (hn(?p := hn e)) (lc_table c ! b) (ch b) = linked hn (lc_table c ! b) (ch b)" by (intro linked_cong) auto
      then show ?thesis using l [OF that] False by simp
    qed
    then have lk: "\<forall>b \<le> ?m. linked (\<lambda>i. ent_hnext (?H i)) (lc_table c ! b) (ch b)" unfolding hn' by blast
    have "t \<noteq> e" using t d(2) by blast
    then have "unlink_entry c e = Some (Ret (c\<lparr>lc_heap := ?H, lc_table := lc_table c\<rparr>))" using un t p by simp
    moreover have "\<forall>i. \<exists>x. ?H i = (?heap i)\<lparr>ent_hnext := x\<rparr>" using same by auto
    ultimately show ?thesis using lk by blast
  qed
qed

context hash_keys
begin

text \<open>A search returns what the specification says.\<close>

lemma search_refines:
  assumes r: "cache_rep K c qs ss"
  shows "ci_local_cache_search K now dup c key = Some (case slots_search K (lc_ttl c) now key ss of
      None \<Rightarrow> Ret None
    | Some None \<Rightarrow> Ret (Some None)
    | Some (Some w) \<Rightarrow> c_bind (dup w) (\<lambda>v. Ret (Some v)))"
proof -
  let ?m = "lc_table_size c" and ?heap = "lc_heap c"
  let ?h = "hash_of K ?m key"
  let ?P = "\<lambda>i. case ent_key (?heap i) of None \<Rightarrow> False | Some k \<Rightarrow> kf_same K k key"
  let ?Q = "\<lambda>i. ent_key (?heap i) \<noteq> None \<and> ent_hash (?heap i) = ?h"
  have h: "?h \<le> ?m" "?m < length (lc_table c)" using r hash_bound [of ?m] by (auto simp: cache_rep_def hash_of_def)
  have good: "entry_good K ?m (?heap i)" if "i \<in> set qs" for i using r that by (simp add: cache_rep_def)
  have Q: "(?Q i \<and> kf_same K (the (ent_key (?heap i))) key) = ?P i" if "i \<in> set qs" for i
    using good [OF that] same_hash [of _ key ?m] by (auto simp: entry_good_def split: option.splits)
  have "linked (\<lambda>i. ent_hnext (?heap i)) (lc_table c ! ?h) (chain_of ?heap ?h qs)" using r h by (simp add: cache_rep_def)
  moreover have "distinct (chain_of ?heap ?h qs)" "\<forall>i \<in> set (chain_of ?heap ?h qs). ent_key (?heap i) \<noteq> None"
    using r by (auto simp: cache_rep_def chain_of_def)
  ultimately have "chain_find K ?heap (lc_table c ! ?h) key = Some (Ret (find (\<lambda>i. kf_same K (the (ent_key (?heap i))) key) (chain_of ?heap ?h qs)))"
    by (rule chain_find_linked)
  also have "find (\<lambda>i. kf_same K (the (ent_key (?heap i))) key) (chain_of ?heap ?h qs) = find ?P (rev qs)"
    unfolding chain_of_def rev_filter find_filter using Q by (intro find_cong) auto
  finally have cf: "chain_find K ?heap (lc_table c ! ?h) key = Some (Ret (find ?P (rev qs)))" .
  have ss: "find (\<lambda>s. case s of None \<Rightarrow> False | Some (k, _, _) \<Rightarrow> kf_same K k key) (rev ss) = map_option (\<lambda>i. slot_of (?heap i)) (find ?P (rev qs))"
  proof -
    have "(case slot_of (?heap i) of None \<Rightarrow> False | Some (k, _, _) \<Rightarrow> kf_same K k key) = ?P i" for i
      by (simp add: slot_of_def split: option.split)
    then show ?thesis using r by (simp add: cache_rep_def rev_map find_map_option)
  qed
  show ?thesis
  proof (cases "find ?P (rev qs)")
    case None
    then show ?thesis using h cf ss by (simp add: ci_local_cache_search_def slots_search_def Let_def)
  next
    case (Some i)
    then have "i \<in> set qs" "?P i" using find_Some_in [OF Some] by auto
    then obtain k where k: "ent_key (?heap i) = Some k" "ent_size (?heap i) \<noteq> 0 \<longrightarrow> ent_val (?heap i) \<noteq> None"
      using good [of i] by (auto simp: entry_good_def split: option.splits)
    then show ?thesis using h cf ss Some
      by (auto simp: ci_local_cache_search_def slots_search_def Let_def slot_of_def)
  qed
qed

text \<open>Releasing the oldest entry frees its slot.\<close>

lemma release_refines:
  assumes r: "cache_rep K c (e # qs) ss"
  shows "\<exists>c1. release_entry c e = Some (Ret c1) \<and> cache_rep K c1 (e # qs) (None # tl ss) \<and> lc_ttl c1 = lc_ttl c
    \<and> lc_table_size c1 = lc_table_size c"
proof -
  let ?m = "lc_table_size c" and ?heap = "lc_heap c"
  let ?en = "(?heap e)\<lparr>ent_key := None, ent_val := (if 0 < ent_size (?heap e) then None else ent_val (?heap e))\<rparr>"
  let ?c = "c\<lparr>lc_heap := ?heap(e := ?en)\<rparr>"
  let ?here = "ent_key (?heap e) \<noteq> None"
  let ?ch = "\<lambda>b. chain_of ?heap b qs"
  have e: "e \<notin> set qs" "distinct qs" using r by (auto simp: cache_rep_def)
  have hn: "(\<lambda>i. ent_hnext (lc_heap ?c i)) = (\<lambda>i. ent_hnext (?heap i))" by auto
  have "\<exists>H T. unlink_entry ?c e = Some (Ret (?c\<lparr>lc_heap := H, lc_table := T\<rparr>)) \<and> length T = length (lc_table ?c)
    \<and> (\<forall>b \<le> lc_table_size ?c. linked (\<lambda>i. ent_hnext (H i)) (T ! b) (?ch b)) \<and> (\<forall>i. \<exists>x. H i = (lc_heap ?c i)\<lparr>ent_hnext := x\<rparr>)"
  proof (rule unlink_chains [where here = ?here])
    show "linked (\<lambda>i. ent_hnext (lc_heap ?c i)) (lc_table ?c ! b) (?ch b @ (if b = ent_hash (lc_heap ?c e) \<and> ?here then [e] else []))"
      if "b \<le> lc_table_size ?c" for b
    proof -
      have "linked (\<lambda>i. ent_hnext (?heap i)) (lc_table c ! b) (chain_of ?heap b (e # qs))" using r that by (simp add: cache_rep_def)
      then show ?thesis unfolding hn by (auto simp: chain_of_def)
    qed
  qed (use r e in \<open>auto simp: cache_rep_def chain_of_def entry_good_def\<close>)
  then obtain H T where u: "unlink_entry ?c e = Some (Ret (?c\<lparr>lc_heap := H, lc_table := T\<rparr>))" "length T = length (lc_table c)"
    "\<forall>b \<le> ?m. linked (\<lambda>i. ent_hnext (H i)) (T ! b) (?ch b)" "\<forall>i. \<exists>x. H i = ((?heap(e := ?en)) i)\<lparr>ent_hnext := x\<rparr>"
    by auto
  define H1 where "H1 = H(e := (H e)\<lparr>ent_hnext := None, ent_time := 0, ent_hash := 0\<rparr>)"
  let ?c1 = "?c\<lparr>lc_heap := H1, lc_table := T\<rparr>"
  have rel: "release_entry c e = Some (Ret ?c1)" using u(1) by (simp add: release_entry_def Let_def H1_def)
  have Hq: "H i = (?heap i)\<lparr>ent_hnext := ent_hnext (H i)\<rparr>" if "i \<noteq> e" for i
    using u(4) [rule_format, of i] that by auto
  have He: "ent_key (H1 e) = None" "ent_qnext (H1 e) = ent_qnext (?heap e)" "ent_time (H1 e) = 0" "ent_hash (H1 e) = 0"
    using u(4) [rule_format, of e] by (auto simp: H1_def)
  have f: "ent_key (H1 i) = ent_key (?heap i)" "ent_hash (H1 i) = ent_hash (?heap i)" "ent_qnext (H1 i) = ent_qnext (?heap i)"
      "slot_of (H1 i) = slot_of (?heap i)" "entry_good K ?m (H1 i) = entry_good K ?m (?heap i)" "ent_hnext (H1 i) = ent_hnext (H i)"
    if "i \<in> set qs" for i
  proof -
    have i: "i \<noteq> e" using that e(1) by blast
    then obtain x where "H i = (?heap i)\<lparr>ent_hnext := x\<rparr>" using u(4) [rule_format, of i] by auto
    with i show "ent_key (H1 i) = ent_key (?heap i)" "ent_hash (H1 i) = ent_hash (?heap i)" "ent_qnext (H1 i) = ent_qnext (?heap i)"
      "slot_of (H1 i) = slot_of (?heap i)" "entry_good K ?m (H1 i) = entry_good K ?m (?heap i)" "ent_hnext (H1 i) = ent_hnext (H i)"
      by (simp_all add: H1_def)
  qed
  have "linked (\<lambda>i. ent_qnext (H1 i)) (lc_first c) (e # qs) = linked (\<lambda>i. ent_qnext (?heap i)) (lc_first c) (e # qs)"
    by (intro linked_cong) (use f He in auto)
  moreover have "linked (\<lambda>i. ent_hnext (H1 i)) (T ! b) (chain_of H1 b (e # qs))" if "b \<le> ?m" for b
  proof -
    have ch: "chain_of H1 b (e # qs) = ?ch b"
      unfolding chain_of_def using He(1) f by (auto intro!: filter_cong arg_cong [where f = rev])
    have "linked (\<lambda>i. ent_hnext (H1 i)) (T ! b) (?ch b) = linked (\<lambda>i. ent_hnext (H i)) (T ! b) (?ch b)"
      by (intro linked_cong) (use f in \<open>auto simp: chain_of_def\<close>)
    then show ?thesis using u(3) that ch by simp
  qed
  moreover have "entry_good K ?m (H1 e)" "slot_of (H1 e) = None" using He by (simp_all add: entry_good_def slot_of_def)
  ultimately have "cache_rep K ?c1 (e # qs) (None # tl ss)"
    using r u(2) f by (auto simp: cache_rep_def simp del: fun_upd_apply)
  then show ?thesis using rel by (intro exI [of _ ?c1]) simp
qed

text \<open>Storing into a free oldest slot makes it the latest.\<close>

lemma store_refines:
  assumes r: "cache_rep K c (e # qs) (None # ss)" and h: "h = hash_of K (lc_table_size c) k"
    and v: "ent_size en \<noteq> 0 \<longrightarrow> ent_val en \<noteq> None" "ent_key en = Some k" "ent_qnext en = ent_qnext (lc_heap c e)"
  shows "cache_rep K (store_entry (c\<lparr>lc_heap := (lc_heap c)(e := en)\<rparr>) e h now) (qs @ [e])
    (ss @ [Some (k, if ent_size en = 0 then None else ent_val en, now)])"
proof -
  let ?m = "lc_table_size c" and ?heap = "lc_heap c" and ?l = "last qs"
  have qs0: "e \<notin> set qs" "distinct qs" "qs \<noteq> []" using r by (auto simp: cache_rep_def)
  then have "?l \<in> set qs" by simp
  then have qs: "e \<notin> set qs" "distinct qs" "qs \<noteq> []" "lc_last c = ?l" "?l \<in> set qs" "?l \<noteq> e"
    using r qs0 by (auto simp: cache_rep_def)
  have hm: "h \<le> ?m" "?m < length (lc_table c)" using r hash_bound [of ?m] by (auto simp: cache_rep_def hash_of_def h)
  define H where "H = (\<lambda>i. if i = e then en\<lparr>ent_hash := h, ent_time := now, ent_qnext := None, ent_hnext := lc_table c ! h\<rparr>
    else if i = ?l then (?heap i)\<lparr>ent_qnext := Some e\<rparr> else ?heap i)"
  have st: "store_entry (c\<lparr>lc_heap := ?heap(e := en)\<rparr>) e h now =
      c\<lparr>lc_heap := H, lc_first := ent_qnext (?heap e), lc_last := e, lc_table := (lc_table c)[h := Some e]\<rparr>"
    using qs v(3) by (auto simp: store_entry_def Let_def H_def fun_eq_iff)
  have f: "ent_key (H i) = ent_key (?heap i)" "ent_hash (H i) = ent_hash (?heap i)" "ent_hnext (H i) = ent_hnext (?heap i)"
      "slot_of (H i) = slot_of (?heap i)" "entry_good K ?m (H i) = entry_good K ?m (?heap i)" if "i \<in> set qs" for i
    using that qs(1) by (auto simp: H_def)
  have q0: "linked (\<lambda>i. ent_qnext (?heap i)) (ent_qnext (?heap e)) qs" using r by (simp add: cache_rep_def)
  have "linked (\<lambda>i. ent_qnext (H i)) (ent_qnext (?heap e)) (qs @ [e])"
  proof -
    have "linked ((\<lambda>i. ent_qnext (?heap i))(?l := Some e, e := None)) (ent_qnext (?heap e)) (qs @ [e])"
      by (rule linked_append_entry [OF q0 qs(3,2,1)])
    moreover have "(\<lambda>i. ent_qnext (H i)) = (\<lambda>i. ent_qnext (?heap i))(?l := Some e, e := None)" using qs by (auto simp: H_def)
    ultimately show ?thesis by simp
  qed
  moreover have "linked (\<lambda>i. ent_hnext (H i)) ((lc_table c)[h := Some e] ! b) (chain_of H b (qs @ [e]))" if "b \<le> ?m" for b
  proof -
    have free: "ent_key (?heap e) = None" using r by (auto simp: cache_rep_def slot_of_def)
    have ch: "chain_of H b (qs @ [e]) = (if b = h then [e] else []) @ chain_of ?heap b (e # qs)"
      using f free v(2) by (auto simp: chain_of_def H_def cong: filter_cong)
    have "linked (\<lambda>i. ent_hnext (?heap i)) (lc_table c ! b) (chain_of ?heap b (e # qs))" using r that by (simp add: cache_rep_def)
    moreover have "linked (\<lambda>i. ent_hnext (H i)) p (chain_of ?heap b (e # qs)) = linked (\<lambda>i. ent_hnext (?heap i)) p (chain_of ?heap b (e # qs))" for p
      by (intro linked_cong) (use f free in \<open>auto simp: chain_of_def\<close>)
    moreover have "ent_hnext (H e) = lc_table c ! h" by (simp add: H_def)
    ultimately show ?thesis using ch hm that by auto
  qed
  moreover have "entry_good K ?m (H e)" "slot_of (H e) = Some (k, if ent_size en = 0 then None else ent_val en, now)"
    using hm v h by (auto simp: H_def entry_good_def slot_of_def)
  ultimately show ?thesis unfolding st using r f qs hm by (auto simp: cache_rep_def simp del: fun_upd_apply)
qed

lemma free_entry_change:
  assumes r: "cache_rep K c (e # qs) (None # ss)"
  shows "cache_rep K (c\<lparr>lc_heap := (lc_heap c)(e := (lc_heap c e)\<lparr>ent_key := None, ent_val := w, ent_size := n\<rparr>)\<rparr>) (e # qs) (None # ss)"
proof -
  define H where "H = (lc_heap c)(e := (lc_heap c e)\<lparr>ent_key := None, ent_val := w, ent_size := n\<rparr>)"
  have free: "ent_key (lc_heap c e) = None" using r by (auto simp: cache_rep_def slot_of_def)
  have f: "ent_key (H i) = ent_key (lc_heap c i)" "ent_hash (H i) = ent_hash (lc_heap c i)" "ent_qnext (H i) = ent_qnext (lc_heap c i)"
    "ent_hnext (H i) = ent_hnext (lc_heap c i)" "ent_time (H i) = ent_time (lc_heap c i)" "slot_of (H i) = slot_of (lc_heap c i)" 
    "entry_good K (lc_table_size c) (H i) = entry_good K (lc_table_size c) (lc_heap c i)" for i
    using free by (auto simp: H_def slot_of_def entry_good_def)
  have "chain_of H = chain_of (lc_heap c)" by (simp add: chain_of_def fun_eq_iff f)
  then show ?thesis using r unfolding H_def [symmetric] by (simp add: cache_rep_def f)
qed

text \<open>An update does what the specification says, whatever allocations fail.\<close>

lemma update_refines:
  assumes r: "cache_rep K c qs ss"
  shows "\<exists>c' qs'. ci_local_cache_update K now ok_key ok_val c key v = Some (Ret (c', snd (slots_update (lc_ttl c) now ok_key ok_val key v ss)))
    \<and> cache_rep K c' qs' (fst (slots_update (lc_ttl c) now ok_key ok_val key v ss)) \<and> lc_ttl c' = lc_ttl c
    \<and> set qs' = set qs"
proof -
  let ?m = "lc_table_size c" and ?has = "v \<noteq> None \<and> v \<noteq> Some []"
  let ?h = "hash_of K ?m key"
  obtain e qs1 where qs: "qs = e # qs1" using r by (cases qs) (auto simp: cache_rep_def)
  have h: "?h \<le> ?m" "?m < length (lc_table c)" using r hash_bound [of ?m] by (auto simp: cache_rep_def hash_of_def)
  have first: "lc_first c = Some e" "hd ss = slot_of (lc_heap c e)" using r qs by (auto simp: cache_rep_def)
  have t: "slot_time (hd ss) = ent_time (lc_heap c e)"
    using r qs first(2) by (auto simp: cache_rep_def entry_good_def slot_time_def slot_of_def split: option.splits)
  show ?thesis
  proof (cases "now - ent_time (lc_heap c e) < lc_ttl c")
    case True
    then show ?thesis using h first t r by (auto simp: ci_local_cache_update_def slots_update_def Let_def)
  next
    case False
    obtain c1 where c1: "release_entry c e = Some (Ret c1)" "cache_rep K c1 (e # qs1) (None # tl ss)" "lc_ttl c1 = lc_ttl c"
        "lc_table_size c1 = ?m"
      using release_refines [of c e qs1 ss] r qs by auto
    have len: "?h < length (lc_table c1)" using c1(2,4) h by (auto simp: cache_rep_def)
    let ?en = "(lc_heap c1 e)\<lparr>ent_key := Some key, ent_val := (if ?has then v else None), ent_size := (if ?has then length (the v) else 0)\<rparr>"
    consider (no_key) "\<not> ok_key" | (no_val) "ok_key" "?has" "\<not> ok_val" | (stored) "ok_key" "\<not> (?has \<and> \<not> ok_val)" by blast
    then show ?thesis
    proof cases
      case no_key
      then show ?thesis using h first t False c1 qs by (auto simp: ci_local_cache_update_def slots_update_def Let_def)
    next
      case no_val
      let ?c2 = "c1\<lparr>lc_heap := (lc_heap c1)(e := ?en\<lparr>ent_key := None, ent_val := None\<rparr>)\<rparr>"
      have "ci_local_cache_update K now ok_key ok_val c key v = Some (Ret (?c2, False))"
        using no_val h first False c1(1) by (simp add: ci_local_cache_update_def Let_def)
      moreover have "cache_rep K ?c2 (e # qs1) (None # tl ss)"
      proof -
        have "?en\<lparr>ent_key := None, ent_val := None\<rparr> = (lc_heap c1 e)\<lparr>ent_key := None, ent_val := None, ent_size := length (the v)\<rparr>"
          using no_val(2) by (intro ci_cache_entry.equality) simp_all
        then show ?thesis using free_entry_change [OF c1(2), where w = None and n = "length (the v)"] by simp
      qed
      moreover have "slots_update (lc_ttl c) now ok_key ok_val key v ss = (None # tl ss, False)"
        using no_val t False by (simp add: slots_update_def Let_def)
      ultimately show ?thesis using c1(3) qs by auto
    next
      case stored
      let ?c2 = "store_entry (c1\<lparr>lc_heap := (lc_heap c1)(e := ?en)\<rparr>) e ?h now"
      have "ci_local_cache_update K now ok_key ok_val c key v = Some (Ret (?c2, True))"
        using stored h first False c1(1) len by (simp add: ci_local_cache_update_def Let_def)
      moreover have "cache_rep K ?c2 (qs1 @ [e]) (tl ss @ [Some (key, if ent_size ?en = 0 then None else ent_val ?en, now)])"
        by (rule store_refines [OF c1(2)]) (auto simp: c1(4))
      moreover have "slots_update (lc_ttl c) now ok_key ok_val key v ss = (tl ss @ [Some (key, if ent_size ?en = 0 then None else ent_val ?en, now)], True)"
        using stored t False by (auto simp: slots_update_def Let_def)
      moreover have "lc_ttl ?c2 = lc_ttl c" "set (qs1 @ [e]) = set qs" using c1(3) qs by (auto simp: store_entry_def Let_def)
      ultimately show ?thesis by auto
    qed
  qed
qed

text \<open>The release of the cache frees every entry once.\<close>

lemma destroy_queue_linked:
  assumes "linked (\<lambda>i. ent_qnext (heap i)) p qs"
  shows "destroy_queue heap p = Some (concat (map (entry_freed heap) qs))"
  using assms by (induction qs arbitrary: p) (subst destroy_queue.simps, auto)+

lemma destroy_frees:
  assumes "cache_rep K c qs ss"
  shows "ci_local_cache_destroy c = Some (concat (map (entry_freed (lc_heap c)) qs) @ [F_table])"
  using assms destroy_queue_linked [of "lc_heap c" "lc_first c" qs] by (simp add: ci_local_cache_destroy_def cache_rep_def)

end

fun freed_addr :: "freed \<Rightarrow> nat option" where
  "freed_addr (F_key i) = Some i"
| "freed_addr (F_val i) = Some i"
| "freed_addr (F_entry i) = Some i"
| "freed_addr F_table = None"

lemma freed_once:
  assumes "distinct qs"
  shows "distinct (concat (map (entry_freed heap) qs) @ [F_table])"
proof -
  have tag: "freed_addr f = Some e" if "f \<in> set (entry_freed heap e)" for f e
    using that by (auto simp: entry_freed_def split: if_splits)
  have "distinct (concat (map (entry_freed heap) qs))" using assms
  proof (induction qs)
    case (Cons e qs)
    have "set (entry_freed heap e) \<inter> set (concat (map (entry_freed heap) qs)) = {}"
    proof (rule equals0I, elim IntE)
      fix f assume "f \<in> set (entry_freed heap e)" "f \<in> set (concat (map (entry_freed heap) qs))"
      then obtain e' where e': "e' \<in> set qs" "f \<in> set (entry_freed heap e')" "f \<in> set (entry_freed heap e)" by auto
      then show False using Cons.prems tag [OF e'(2)] tag [OF e'(3)] by simp
    qed
    then show ?case using Cons by (simp add: entry_freed_def)
  qed simp
  moreover have "F_table \<notin> set (concat (map (entry_freed heap) qs))" using tag by force
  ultimately show ?thesis by simp
qed

section \<open>Sequences of operations\<close>

text \<open>A new cache with at least two entries has only free slots.\<close>

lemma linked_upt: "k \<le> n \<Longrightarrow> linked (\<lambda>i. if i + 1 < n then Some (i + 1) else None) (if k < n then Some k else None) [k..<n]"
proof (induction "n - k" arbitrary: k)
  case (Suc d)
  then have "linked (\<lambda>i. if i + 1 < n then Some (i + 1) else None) (if Suc k < n then Some (Suc k) else None) [Suc k..<n]" by simp
  then show ?case using Suc.hyps(2) by (subst upt_conv_Cons) auto
qed simp

lemma init_rep:
  assumes "2 \<le> cache_items mem osz"
  shows "\<exists>c. ci_local_cache_init (\<lambda>_. True) junk mem osz ttl = Inr c \<and> lc_ttl c = ttl
    \<and> cache_rep K c [0..<cache_items mem osz] (replicate (cache_items mem osz) None)"
proof -
  define n where "n = cache_items mem osz"
  define H where "H = (\<lambda>i. free_entry (junk i) (if i + 1 < n then Some (i + 1) else None) :: 'a ci_cache_entry)"
  let ?c = "\<lparr>lc_heap = H, lc_first = Some 0, lc_last = n - 1, lc_table = replicate (hash_size_for n + 1) None,
             lc_table_size = hash_size_for n, lc_ttl = ttl\<rparr>"
  have n: "2 \<le> n" using assms by (simp add: n_def)
  have q: "linked (\<lambda>i. ent_qnext (H i)) (Some 0) [0..<n]" using linked_upt [of 0 n] n by (simp add: H_def free_entry_def)
  have f: "ent_key (H i) = None" "ent_time (H i) = 0" "ent_hash (H i) = 0" for i by (simp_all add: H_def free_entry_def)
  have ch: "chain_of H b [0..<n] = []" for b by (simp add: chain_of_def f)
  have tb: "replicate (hash_size_for n + 1) None ! b = None" if "b \<le> hash_size_for n" for b using that by (simp del: replicate.simps)
  have sl: "replicate n None = map (\<lambda>i. slot_of (H i)) [0..<n]"
    by (rule nth_equalityI) (simp_all add: slot_of_def f)
  have "last [0..<n] = n - 1" using n by (simp add: last_upt)
  then have "cache_rep K ?c [0..<n] (replicate n None)"
    unfolding cache_rep_def using q ch tb sl n hash_size_bound [of n] by (auto simp del: replicate.simps simp add: entry_good_def f)
  then show ?thesis using n by (simp add: ci_local_cache_init_def n_def [symmetric] list_all_iff H_def)
qed

datatype 'k cache_op = Search 'k int | Update 'k "bytes option" int bool bool
datatype cache_answer = Found "bytes option option" | Stored bool

fun cache_run :: "'k key_fns \<Rightarrow> 'k local_cache \<Rightarrow> 'k cache_op list \<Rightarrow> ('k local_cache \<times> cache_answer list) c_result option" where
  "cache_run K c [] = Some (Ret (c, []))"
| "cache_run K c (Search k now # ops) =
     (case ci_local_cache_search K now (copy_value True) c k of
        Some (Ret r) \<Rightarrow> map_option (\<lambda>x. c_bind x (\<lambda>(c', rs). Ret (c', Found r # rs))) (cache_run K c ops)
      | Some Abort \<Rightarrow> Some Abort | Some Undef \<Rightarrow> Some Undef | None \<Rightarrow> None)"
| "cache_run K c (Update k v now ok_key ok_val # ops) =
     (case ci_local_cache_update K now ok_key ok_val c k v of
        Some (Ret (c1, b)) \<Rightarrow> map_option (\<lambda>x. c_bind x (\<lambda>(c', rs). Ret (c', Stored b # rs))) (cache_run K c1 ops)
      | Some Abort \<Rightarrow> Some Abort | Some Undef \<Rightarrow> Some Undef | None \<Rightarrow> None)"

fun slots_run :: "'k key_fns \<Rightarrow> int \<Rightarrow> 'k slot list \<Rightarrow> 'k cache_op list \<Rightarrow> cache_answer list" where
  "slots_run K ttl ss [] = []"
| "slots_run K ttl ss (Search k now # ops) = Found (slots_search K ttl now k ss) # slots_run K ttl ss ops"
| "slots_run K ttl ss (Update k v now ok_key ok_val # ops) =
     (let (ss1, b) = slots_update ttl now ok_key ok_val k v ss in Stored b # slots_run K ttl ss1 ops)"

context hash_keys
begin

lemma run_refines:
  assumes "cache_rep K c qs ss"
  shows "\<exists>c' qs' ss'. cache_run K c ops = Some (Ret (c', slots_run K (lc_ttl c) ss ops)) \<and> cache_rep K c' qs' ss' \<and> set qs' = set qs"
  using assms
proof (induction ops arbitrary: c qs ss)
  case (Cons a ops)
  show ?case
  proof (cases a)
    case (Search k now)
    have "ci_local_cache_search K now (copy_value True) c k = Some (Ret (slots_search K (lc_ttl c) now k ss))"
      using search_refines [OF Cons.prems, of now "copy_value True" k] by (auto simp: copy_value_def split: option.split)
    moreover obtain c' qs' ss' where "cache_run K c ops = Some (Ret (c', slots_run K (lc_ttl c) ss ops))" "cache_rep K c' qs' ss'" "set qs' = set qs"
      using Cons.IH [OF Cons.prems] by blast
    ultimately show ?thesis using Search by auto
  next
    case (Update k v now ok_key ok_val)
    obtain c1 qs1 where c1: "ci_local_cache_update K now ok_key ok_val c k v = Some (Ret (c1, snd (slots_update (lc_ttl c) now ok_key ok_val k v ss)))"
      "cache_rep K c1 qs1 (fst (slots_update (lc_ttl c) now ok_key ok_val k v ss))" "lc_ttl c1 = lc_ttl c" "set qs1 = set qs"
      using update_refines [OF Cons.prems, of now ok_key ok_val k v] by blast
    moreover obtain c' qs' ss' where "cache_run K c1 ops = Some (Ret (c', slots_run K (lc_ttl c1) (fst (slots_update (lc_ttl c) now ok_key ok_val k v ss)) ops))"
      "cache_rep K c' qs' ss'" "set qs' = set qs1"
      using Cons.IH [OF c1(2)] by blast
    ultimately have "cache_run K c (a # ops) = Some (Ret (c', slots_run K (lc_ttl c) ss (a # ops))) \<and> cache_rep K c' qs' ss' \<and> set qs' = set qs"
      using Update by (simp add: case_prod_beta)
    then show ?thesis by blast
  qed
qed auto

end

text \<open>The value of a stored key is found until it expires, if no other slot is reused meanwhile.\<close>

lemma slots_stored_found:
  assumes "slots_update ttl now ok_key ok_val k v ss = (ss', True)" "now' - now \<le> ttl"
  shows "slots_search string_keys ttl now' k ss' = Some (if v = Some [] then None else v)"
  using assms string_same by (auto simp: slots_update_def slots_search_def Let_def split: if_splits)

text \<open>
  C7. A local cache of two entries or more, with keys that are strings, answers every sequence of searches and updates,
  failing allocations of updates included, as the list of slots does; no assertion fails and no walk along a list
  goes on for ever.  At the end its release frees every entry exactly once and nothing twice.
\<close>

theorem cache_implements_slots:
  assumes "2 \<le> cache_items mem osz"
  shows "\<exists>c c' fs. ci_cache_build True (\<lambda>_. True) junk mem osz ttl = Ret (Some c)
    \<and> cache_run string_keys c ops = Some (Ret (c', slots_run string_keys ttl (replicate (cache_items mem osz) None) ops))
    \<and> ci_local_cache_destroy c' = Some fs \<and> distinct fs \<and> (\<forall>i. F_entry i \<in> set fs \<longleftrightarrow> i < cache_items mem osz)"
proof -
  obtain c where c: "ci_local_cache_init (\<lambda>_. True) junk mem osz ttl = Inr c" "lc_ttl c = ttl"
    "cache_rep string_keys c [0..<cache_items mem osz] (replicate (cache_items mem osz) None)"
    using init_rep [OF assms] by blast
  obtain c' qs ss where r: "cache_run string_keys c ops = Some (Ret (c', slots_run string_keys ttl (replicate (cache_items mem osz) None) ops))"
    "cache_rep string_keys c' qs ss" "set qs = {..<cache_items mem osz}"
    using string_hash.run_refines [OF c(3), of ops] c(2) by (auto simp: atLeast0LessThan)
  have "mem \<noteq> 0"
  proof
    assume "mem = 0"
    then show False using assms by (simp add: cache_items_def)
  qed
  then have "ci_cache_build True (\<lambda>_. True) junk mem osz ttl = Ret (Some c)" using c(1) by (simp add: ci_cache_build_def)
  moreover have "F_entry i \<in> set (concat (map (entry_freed (lc_heap c')) qs) @ [F_table]) \<longleftrightarrow> i < cache_items mem osz" for i
    using r(3) by (auto simp: entry_freed_def split: if_splits)
  moreover have "distinct qs" using r(2) by (simp add: cache_rep_def)
  ultimately show ?thesis using r(1) string_hash.destroy_frees [OF r(2)] freed_once [of qs "lc_heap c'"] by blast
qed

theorem cache_implements_slots_witness:
  "\<exists>c c' fs. ci_cache_build True (\<lambda>_. True) (\<lambda>_. 7) 200 10 60 = Ret (Some c)
    \<and> cache_run string_keys c [Update ''a'' (Some ''x'') 100 True True, Update ''b'' (Some ''y'') 110 True True, Update ''c'' None 120 True True,
         Search ''a'' 130, Update ''c'' (Some ''z'') 165 True True, Search ''a'' 166, Search ''c'' 170, Search ''b'' 171]
       = Some (Ret (c', [Stored True, Stored True, Stored True, Found (Some (Some ''x'')), Stored True, Found None, Found (Some (Some ''z'')), Found None]))
    \<and> ci_local_cache_destroy c' = Some fs \<and> distinct fs \<and> (\<forall>i. F_entry i \<in> set fs \<longleftrightarrow> i < 3)"
proof -
  define ops where "ops = [Update ''a'' (Some ''x'') 100 True True, Update ''b'' (Some ''y'') 110 True True, Update ''c'' None 120 True True,
         Search ''a'' 130, Update ''c'' (Some ''z'') 165 True True, Search ''a'' 166, Search ''c'' 170, Search ''b'' 171]"
  have n: "cache_items 200 10 = 3" by (simp add: cache_items_def CACHE_ENTRY_SIZE_def)
  have r: "slots_run string_keys 60 (replicate 3 None) ops
       = [Stored True, Stored True, Stored True, Found (Some (Some ''x'')), Stored True, Found None, Found (Some (Some ''z'')), Found None]"
    by (simp add: ops_def slots_update_def slots_search_def slot_time_def string_same numeral_3_eq_3 Let_def)
  have "2 \<le> cache_items 200 10" by (simp add: n)
  then show ?thesis using cache_implements_slots [of 200 10 "\<lambda>_. 7" 60 ops] unfolding n r unfolding ops_def by blast
qed

text \<open>A cache of one entry loses its queue with the first update; the next update reads through a null pointer.\<close>

theorem one_entry_cache_breaks:
  "\<exists>c c1. ci_cache_build True (\<lambda>_. True) (\<lambda>_. 0) 66 10 60 = Ret (Some c)
    \<and> ci_local_cache_update string_keys 100 True True c ''a'' None = Some (Ret (c1, True)) \<and> lc_first c1 = None
    \<and> ci_local_cache_update string_keys now ok_key ok_val c1 k v = Some Undef"
proof -
  have n: "cache_items 66 10 = 1" by (simp add: cache_items_def CACHE_ENTRY_SIZE_def)
  have t: "hash_size_for (Suc 0) = 63" by (simp add: hash_size_for_def)
  let ?c = "\<lparr>lc_heap = (\<lambda>i. free_entry 0 None), lc_first = Some 0, lc_last = 0,
                lc_table = replicate 64 None, lc_table_size = 63, lc_ttl = 60\<rparr> :: bytes local_cache"
  have c: "ci_cache_build True (\<lambda>_. True) (\<lambda>_. 0) 66 10 60 = Ret (Some ?c)"
    by (simp add: ci_cache_build_def ci_local_cache_init_def n t del: replicate.simps)
  have b: "hash_of string_keys 63 key \<le> 63" for key using hash_bound [of 63] by (simp add: hash_of_def)
  then have b': "\<not> 63 < hash_of string_keys 63 key" "\<not> 64 \<le> hash_of string_keys 63 key" for key
    using b [of key] by linarith+
  have u: "release_entry ?c 0 = Some (Ret (?c\<lparr>lc_heap := (lc_heap ?c)(0 := free_entry 0 None)\<rparr>))"
    by (simp add: release_entry_def unlink_entry_def free_entry_def Let_def del: replicate.simps)
  obtain c1 where c1: "ci_local_cache_update string_keys 100 True True ?c ''a'' None = Some (Ret (c1, True))" "lc_first c1 = None" "lc_table_size c1 = 63"
    using b' u by (simp add: ci_local_cache_update_def store_entry_def Let_def free_entry_def del: replicate.simps)
  then have "ci_local_cache_update string_keys now ok_key ok_val c1 k v = Some Undef" using b' by (simp add: ci_local_cache_update_def Let_def)
  then show ?thesis using c c1 by blast
qed

text \<open>Without memory for the table the cache object is freed twice.\<close>

theorem cache_build_frees_twice:
  "ci_cache_build True (\<lambda>i. i \<noteq> cache_items mem osz + 2) junk mem osz ttl = Undef \<longleftrightarrow> cache_items mem osz \<noteq> 0"
  by (auto simp: ci_cache_build_def ci_local_cache_init_def cache_items_def list_all_iff Let_def)

text \<open>A value that is found is copied into memory that is not tested.\<close>

theorem search_without_memory:
  assumes "cache_rep string_keys c qs ss" "slots_search string_keys (lc_ttl c) now key ss = Some (Some w)"
  shows "ci_local_cache_search string_keys now (copy_value mem) c key = Some (if mem then Ret (Some (Some w)) else Undef)"
  using string_hash.search_refines [OF assms(1), of now "copy_value mem" key] assms(2) by (simp add: copy_value_def)

end
