(* ===== verification/Spec2Isabelle.thy ===== *)
theory Spec2Isabelle
  imports Icap_Prelude Byte_Fifo Ring_Buffer Mem_Buffer Simple_File Headers Chunk_Parser Request
    Request_Parse Simple_Api Response Body_Io Stats Process Gw_Rebuild Gw_Verdict
    Full_Response Gw_Response Types_Ops Acl Acl_Policy
    Config Config_Read Hash Local_Cache
begin

text \<open>
  A model of c-icap, an ICAP (RFC 3507) content adaptation server written in C.

  \<^bold>\<open>The program.\<close> An HTTP proxy opens a connection and sends ICAP requests. The server reads the ICAP
  header (\<^verbatim>\<open>ci_read_icap_header\<close>), takes the request line and the header fields apart
  (\<^verbatim>\<open>parse_header\<close>), reads the encapsulated HTTP headers at the offsets of the \<^verbatim>\<open>Encapsulated\<close>
  header (\<^verbatim>\<open>parse_encaps_headers\<close>), reads the preview of the body, decodes the chunked body
  (\<^verbatim>\<open>parse_chunk_data\<close>) while it feeds the callbacks of a service, and sends a response made of
  an ICAP header, encapsulated headers and a chunked body (\<^verbatim>\<open>send_remaining_response\<close>). Services
  keep bodies in one of the stores of \<^verbatim>\<open>body.c\<close>; all headers are lists of lines inside one buffer
  (\<^verbatim>\<open>header.c\<close>).

  \<^bold>\<open>Correspondence.\<close> Every definition that models code has the name of its C function, macro or
  structure; \<^verbatim>\<open>c-icap/\<close> is left out of the file names.
  \<^item> \<^verbatim>\<open>Icap_Prelude\<close>: bytes, C strings, number conversion, the results of \<^verbatim>\<open>read\<close>, \<^verbatim>\<open>write\<close> and of
    waiting for the connection, and the lemmas on lists and words that the components share.
  \<^item> \<^verbatim>\<open>Byte_Fifo\<close>: the interface of a bounded byte queue, as a locale, with its delivery theorem.
  \<^item> \<^verbatim>\<open>Ring_Buffer\<close>: \<^verbatim>\<open>ci_ring_buf_t\<close> of \<^verbatim>\<open>body.c\<close>. The three pointers are indexes into the memory
    of the buffer. C1 and C2: no operation leaves the buffer, and the buffer is a queue.
  \<^item> \<^verbatim>\<open>Mem_Buffer\<close>: \<^verbatim>\<open>ci_membuf_t\<close> of \<^verbatim>\<open>body.c\<close> and \<^verbatim>\<open>ci_buf\<close> of \<^verbatim>\<open>request_common.c\<close>. The result of
    every allocation is an argument. C3: writes below 2 GiB store what they report, also when
    allocations fail. C4: reads deliver what the lock leaves, once and in order, and a locked buffer
    can report the end of the data early.
  \<^item> \<^verbatim>\<open>Simple_File\<close>: \<^verbatim>\<open>ci_simple_file_t\<close> of \<^verbatim>\<open>body.c\<close>. The file is its content; each system call
    takes its result from a list. C5 and C6: the store is a queue until it wraps, and its bounds; there
    is a case in which the ring mode delivers bytes twice, and with 2 GiB of unread data, or locked after a
    partial read, a read stops at an assertion.
  \<^item> \<^verbatim>\<open>Headers\<close>: all of \<^verbatim>\<open>header.c\<close>. A header list is a byte buffer with an index of offsets, as in
    C. C8 to C11: the list of lines that the buffer represents and the effect of every operation on
    it, the round trip through \<^verbatim>\<open>ci_headers_pack\<close> and \<^verbatim>\<open>ci_headers_unpack\<close>, and bounds.
  \<^item> \<^verbatim>\<open>Chunk_Parser\<close>: \<^verbatim>\<open>parse_chunk_data\<close>, \<^verbatim>\<open>net_data_read\<close>, \<^verbatim>\<open>ci_read_preview\<close> and the formatter
    of outgoing chunks. C13 to C16: decoding does not depend on how the input is cut into reads, the
    preview is exact, formatting followed by parsing is the identity, and negative chunk sizes.
  \<^item> \<^verbatim>\<open>Request\<close>: the request object of \<^verbatim>\<open>request_common.c\<close> and the \<^verbatim>\<open>Encapsulated\<close> header in both
    directions. C17, C18 and C20.
  \<^item> \<^verbatim>\<open>Request_Parse\<close>: from the first byte of a connection to a request that a service can be
    called with (\<^verbatim>\<open>request.c\<close>, with the table lookups of \<^verbatim>\<open>service.c\<close> as an argument). C21 to C24.
  \<^item> \<^verbatim>\<open>Simple_Api\<close>: the accessors of \<^verbatim>\<open>simple_api.c\<close>. C26.
  \<^item> \<^verbatim>\<open>Response\<close>: the responses of \<^verbatim>\<open>request.c\<close> and the state machine that sends them; what a
    service has to promise about its body is the locale \<^verbatim>\<open>body_source\<close>. C27 and C28.
  \<^item> \<^verbatim>\<open>Body_Io\<close>: \<^verbatim>\<open>get_send_body\<close>, the loop that reads a body, feeds the service and sends the
    response at the same time; what it asks of a service that collects a body is the locale
    \<^verbatim>\<open>body_sink\<close>. C29 and C30.
  \<^item> \<^verbatim>\<open>Stats\<close>: the counters of \<^verbatim>\<open>stats.c\<close>. C31 and C32: merging the blocks of the children gives the
    sums, and registered names keep their index.
  \<^item> \<^verbatim>\<open>Process\<close>: \<^verbatim>\<open>do_request\<close> and \<^verbatim>\<open>process_request\<close> of \<^verbatim>\<open>request.c\<close> and the access check of \<^verbatim>\<open>access.c\<close>;
    the handlers of the service and the access controllers are arguments. C33: what a failed
    request leaves of the connection.
  \<^item> \<^verbatim>\<open>Gw_Rebuild\<close> and \<^verbatim>\<open>Gw_Verdict\<close>: the content rebuild service
    (\<^verbatim>\<open>c-icap-modules/services/gw_rebuild\<close>). Its files are objects in a store, so that aliases count;
    the external program is an argument. C35 to C38: the body is collected byte for byte, each verdict of
    the program gives the specified answer in a \<^verbatim>\<open>RESPMOD\<close> request, and two defects.
  \<^item> \<^verbatim>\<open>Full_Response\<close> and \<^verbatim>\<open>Gw_Response\<close>: no code of their own; the lemmas that join packing, sending, the
    collection of the body and the verdict. C39, in this theory, is the message from end to end.
  \<^item> \<^verbatim>\<open>Types_Ops\<close>: the typed keys of \<^verbatim>\<open>types_ops.c\<close>; what an operation table promises is the locale
    \<^verbatim>\<open>key_ops\<close>, interpreted for every table.
  \<^item> \<^verbatim>\<open>Acl\<close> and \<^verbatim>\<open>Acl_Policy\<close>: \<^verbatim>\<open>acl.c\<close>, \<^verbatim>\<open>default_acl.c\<close> and the directive \<^verbatim>\<open>acl\<close>. Pointers carry the memory block
    they point into, so that a stale one is an error. C40: whatever is configured, as long as
    there is memory for the keys, matching a request follows no stale pointer and reads no key as something
    else. The access lists implement a policy of names in which the first rule that holds decides. The
    table of types lies in memory that the code does not initialise; its content is an argument, and the
    theorems say that nothing but the release function in it can go wrong.
  \<^item> \<^verbatim>\<open>Config\<close> and \<^verbatim>\<open>Config_Read\<close>: the reader of the configuration file (\<^verbatim>\<open>cfg_param.c\<close>, \<^verbatim>\<open>cfg_lib.c\<close>), with the
    directives of services, modules and logging as an argument. C19: reading ends, whatever files
    include each other. C25: quoted arguments are read back. C34: restoring the defaults undoes
    every directive that keeps one, which those of ports, the logger and \<^verbatim>\<open>CI_TMPDIR\<close> do not. C12: from the text of the file to the decision of the access controllers.
  \<^item> \<^verbatim>\<open>Hash\<close> and \<^verbatim>\<open>Local_Cache\<close>: the hash table of \<^verbatim>\<open>hash.c\<close>, whose demands on keys are the locale \<^verbatim>\<open>hash_keys\<close>, and
    the local cache of \<^verbatim>\<open>cache.c\<close>, whose entries are objects in a heap that a queue and the hash chains share. C7: the
    cache implements a list of slots.

  \<^bold>\<open>Conventions.\<close> Pointers into a buffer are offsets; a C string is a byte list that ends before
  its first zero byte. \<^verbatim>\<open>int\<close> and \<^verbatim>\<open>off_t\<close> are \<^typ>\<open>int\<close> where the code keeps them in range, and
  words where it lets them wrap. A C assertion and an access out of bounds are error values and not
  ignored. Code outside the repository is seen through its results: a list of events gives the
  outcome of each wait, read and write on the connection, so a theorem about all lists is a theorem
  about all segmentations of the input and all ways in which output is taken. A loop that waits for
  such events is a \<^verbatim>\<open>partial_function\<close> in the option monad or recurses on the list of events; the
  theorems about it state that it returns. No fuel is used.

  \<^bold>\<open>Not modelled.\<close> The processes and threads of the server and its sockets (\<^verbatim>\<open>mpmt_server.c\<close>,
  \<^verbatim>\<open>os/\<close>, \<^verbatim>\<open>net_io.c\<close>, \<^verbatim>\<open>openssl/\<close>), which are calls of the operating system; the
  loading of services and modules; the adapters to third-party libraries under \<^verbatim>\<open>modules/\<close>; the Windows port and
  the command line tools. Freeing memory has no effect in the model, and debug output is left out.
\<close>

section \<open>A message from end to end\<close>

text \<open>
  C39.  A \<^verbatim>\<open>RESPMOD\<close> message without preview, with or without a request header \<open>rh\<close> in front of its response header,
  handled by \<^verbatim>\<open>do_request\<close> with the rebuild service, from the first byte of its body to the last byte of the
  answer.  Files and the program work, the verdict is not one that is answered with \<^verbatim>\<open>204\<close>, and if the size limit is
  on, body and answer are below it (C38 is the case of an answer that is not).  However the chunks \<open>cs\<close> of the body are cut into reads and however
  the connection takes the answer, the modification returns \<^verbatim>\<open>CI_OK\<close> and what the client receives is: the ICAP
  header with an \<^verbatim>\<open>Encapsulated\<close> line whose offset is the size of the HTTP header, the HTTP header with the lines
  \<open>ms\<close> and a \<^verbatim>\<open>Via\<close> line, the body \<open>X\<close> in chunks, and the last chunk; where body and lines \<open>(X, ms)\<close> are those that
  the specification \<open>gw_answer\<close> gives for the verdict of the external program on exactly the bytes of the body.
\<close>

theorem respmod_rebuild_end_to_end:
  assumes "message_arrives E sv rh e b ls m xd cs Y d c" "page_env E page" "files_work E (length (concat cs))"
    and "\<forall>w. program_ran E w (concat cs) ret R" "length R < 2 ^ 31"
    and "gw_answer ret (concat cs) R page ls = (X, ms)" "\<not> (ret = GW_UNPROCESSED \<and> gd_allow204 d)" "length X < 2 ^ 31"
    and "ga_sizelimit (gd_args d) \<longrightarrow> int (length (concat cs)) < MAX_OBJECT_SIZE E \<and> int (length X) < MAX_OBJECT_SIZE E
      \<and> MAX_OBJECT_SIZE E < 2 ^ 31"
    and "pe_server P = sv" "pe_realloc P = (\<lambda>_. True)" "cn_takes c = map Out_take ks"
    and "progress ks (length (response_wire sv (rq_keepalive (cn_req c)) xd m ms (blocks_of MAX_CHUNK_SIZE X)))"
  shows "\<exists>c'. do_modification P (gw_service E) c = Some (Ret (c', CI_OK))
    \<and> cn_out c' = cn_out c @ response_wire sv (rq_keepalive (cn_req c)) xd m ms (blocks_of MAX_CHUNK_SIZE X)"
  using assms(4) by (intro modification_sends [OF assms(1-3) _ assms(5,9,6-8,10-13)]) blast

theorem respmod_rebuild_end_to_end_witness:
  "\<exists>c'. do_modification demo_penv (gw_service demo_gw) (demo_conn 1000) = Some (Ret (c', CI_OK))
    \<and> cn_out c' = response_wire demo_server True demo_xdata demo_module [''Via: x'', ''Host: example.'', ''Content-Length: 1''] [''R'']"
proof -
  let ?ms = "[''Via: x'', ''Host: example.'', ''Content-Length: 1'']"
  have a: "gw_answer GW_REBUILT (concat [''abc'']) ''R'' demo_page [''Via: x'', ''Host: example.''] = (''R'', ?ms)"
      "length (response_wire demo_server True demo_xdata demo_module ?ms [''R'']) \<le> 1000"
      "blocks_of MAX_CHUNK_SIZE ''R'' = [''R'']"
    by code_simp+
  have k: "rq_keepalive (cn_req (demo_conn 1000)) = True" "cn_out (demo_conn 1000) = []"
    by (simp_all add: demo_conn_def demo_message_fields)
  have n: "GW_REBUILT \<noteq> GW_UNPROCESSED" by (simp add: ci_consts)
  have "progress (replicate 1000 1) (length (response_wire demo_server (rq_keepalive (cn_req (demo_conn 1000))) demo_xdata demo_module ?ms
      (blocks_of MAX_CHUNK_SIZE ''R'')))"
    using a(2,3) k by (simp add: progress_def)
  moreover have "files_work demo_gw (length (concat [''abc'']))" "\<not> (GW_REBUILT = GW_UNPROCESSED \<and> gd_allow204 demo_data)"
    by (simp_all add: n)
  moreover have "ga_sizelimit (gd_args demo_data) \<longrightarrow> int (length (concat [''abc''])) < MAX_OBJECT_SIZE demo_gw
      \<and> int (length ''R'') < MAX_OBJECT_SIZE demo_gw \<and> MAX_OBJECT_SIZE demo_gw < 2 ^ 31"
    by (simp add: demo_gw_def)
  moreover have "pe_server demo_penv = demo_server" "pe_realloc demo_penv = (\<lambda>_. True)"
      "cn_takes (demo_conn 1000) = map Out_take (replicate 1000 1)"
    by (simp_all add: demo_penv_def demo_conn_def)
  ultimately have "\<exists>c'. do_modification demo_penv (gw_service demo_gw) (demo_conn 1000) = Some (Ret (c', CI_OK))
    \<and> cn_out c' = cn_out (demo_conn 1000) @ response_wire demo_server (rq_keepalive (cn_req (demo_conn 1000))) demo_xdata demo_module ?ms
        (blocks_of MAX_CHUNK_SIZE ''R'')"
    using demo_program(1)
    by (intro respmod_rebuild_end_to_end [OF demo_message_arrives demo_program(2), where R = "''R''" and ret = GW_REBUILT, OF _ _ _ a(1)]) auto
  then show ?thesis by (simp only: a(3) k append.simps)
qed

end
